(* ===== verification/Prelude.thy ===== *)
theory Prelude
  imports Main "HOL-Library.Word" "HOL-Library.Monad_Syntax" "HOL-Library.Signed_Division"
begin

text \<open>
  Conventions shared by every theory of the development.

  A C computation is a value of type \<open>'a option\<close>, combined with the bind of
  \<^verbatim>\<open>HOL-Library.Monad_Syntax\<close>: \<open>None\<close> says that the C standard gives the run no
  meaning (a NULL or dangling pointer is followed, a signed result does not fit, an index is
  out of bounds, a divisor is zero) or that a loop does not end. A C string is the list of
  its bytes before the terminating NUL, a pointer that may be NULL is an \<open>option\<close>, an
  \<open>int\<close> is an integer checked against its width, and an \<open>unsigned int\<close> is a 32-bit word.
\<close>

section \<open>Shared collections\<close>

named_theorems heap_simps \<open>reads and writes of the event heap\<close>
named_theorems run_simps \<open>unfolding of the program's run-time operations\<close>

section \<open>Undefined behaviour\<close>

text \<open>\<open>defined b\<close> lets the run continue exactly when the C operation is defined.\<close>

definition defined :: "bool \<Rightarrow> unit option" where
  "defined b = (if b then Some () else None)"

lemma defined_simps [simp]:
  "defined True = Some ()"
  "defined False = None"
  by (simp_all add: defined_def)

lemma defined_eq_Some [simp]: "defined b = Some u \<longleftrightarrow> b"
  by (simp add: defined_def)

lemma bind_eq_SomeE:
  assumes "Option.bind m f = Some y"
  obtains x where "m = Some x" and "f x = Some y"
  using assms by (cases m) auto

section \<open>Machine integers\<close>

definition INT_MAX :: int where "INT_MAX = 2147483647"
definition INT_MIN :: int where "INT_MIN = -2147483648"

definition is_int :: "int \<Rightarrow> bool" where
  "is_int z \<longleftrightarrow> INT_MIN \<le> z \<and> z \<le> INT_MAX"

text \<open>A signed 32-bit result: undefined when it does not fit.\<close>

definition int_result :: "int \<Rightarrow> int option" where
  "int_result z = (if is_int z then Some z else None)"

definition int_sub :: "int \<Rightarrow> int \<Rightarrow> int option" where
  "int_sub a b = int_result (a - b)"

definition int_add :: "int \<Rightarrow> int \<Rightarrow> int option" where
  "int_add a b = int_result (a + b)"

text \<open>C division truncates towards zero and is undefined for a zero divisor.\<close>

definition int_div :: "int \<Rightarrow> int \<Rightarrow> int option" where
  "int_div a b = (if b = 0 then None else int_result (a sdiv b))"

text \<open>
  A conversion of a wider integer to \<open>int\<close> keeps the low 32 bits (the documented
  behaviour of gcc, the compiler the Makefile names).
\<close>

definition to_int :: "int \<Rightarrow> int" where
  "to_int z = (z + 2147483648) mod 4294967296 - 2147483648"

lemma is_int_to_int [simp]: "is_int (to_int z)"
proof -
  have "0 \<le> (z + 2147483648) mod 4294967296" "(z + 2147483648) mod 4294967296 < 4294967296"
    by simp_all
  then show ?thesis by (simp add: is_int_def to_int_def INT_MIN_def INT_MAX_def)
qed

lemma to_int_id [simp]: "is_int z \<Longrightarrow> to_int z = z"
  by (simp add: is_int_def to_int_def INT_MIN_def INT_MAX_def)

lemma to_int_nonzero: "0 < z \<Longrightarrow> z < 4294967296 \<Longrightarrow> to_int z \<noteq> 0"
  by (cases "z < 2147483648") (simp_all add: to_int_def mod_pos_geq)

lemma int_sub_Some: "is_int (a - b) \<Longrightarrow> int_sub a b = Some (a - b)"
  by (simp add: int_sub_def int_result_def)

lemma int_sub_nonneg [simp]:
  "0 \<le> a \<Longrightarrow> a \<le> INT_MAX \<Longrightarrow> 0 \<le> b \<Longrightarrow> b \<le> INT_MAX \<Longrightarrow> int_sub a b = Some (a - b)"
  by (simp add: int_sub_def int_result_def is_int_def INT_MIN_def INT_MAX_def)

lemma int_result_SomeD: "int_result z = Some y \<Longrightarrow> y = z \<and> is_int z"
  by (simp add: int_result_def split: if_splits)

lemma int_div_SomeD: "int_div a b = Some q \<Longrightarrow> b \<noteq> 0 \<and> q = a sdiv b"
  by (auto simp: int_div_def int_result_def split: if_splits)

lemma sdiv_nonneg:
  assumes "0 \<le> (a::int)" and "0 < b"
  shows "a sdiv b = a div b"
proof (cases "a = 0")
  case True
  then show ?thesis by (simp add: signed_divide_int_def)
next
  case False
  with assms show ?thesis by (simp add: signed_divide_int_def)
qed

section \<open>Bytes and C strings\<close>

abbreviation byte :: "int \<Rightarrow> char" where "byte u \<equiv> char_of u"
abbreviation uchar :: "char \<Rightarrow> int" where "uchar c \<equiv> of_char c"

abbreviation NUL :: char where "NUL \<equiv> CHR 0x00"
abbreviation NL :: char where "NL \<equiv> CHR 0x0A"

text \<open>What a byte buffer holds when it is read as a C string.\<close>

definition c_string :: "string \<Rightarrow> string" where
  "c_string bs = takeWhile (\<lambda>c. c \<noteq> NUL) bs"

definition is_cstr :: "string \<Rightarrow> bool" where
  "is_cstr s \<longleftrightarrow> NUL \<notin> set s"

lemma c_string_id [simp]: "is_cstr s \<Longrightarrow> c_string s = s"
  unfolding c_string_def is_cstr_def by (rule takeWhile_eq_all_conv [THEN iffD2]) auto

lemma is_cstr_simps [simp]:
  "is_cstr []"
  "is_cstr (c # cs) \<longleftrightarrow> c \<noteq> NUL \<and> is_cstr cs"
  "is_cstr (xs @ ys) \<longleftrightarrow> is_cstr xs \<and> is_cstr ys"
  by (auto simp: is_cstr_def)

end
