(* ===== verification/Fifo.thy ===== *)
theory Fifo
  imports Prelude
begin

text \<open>
  The in-memory event queue of \<^verbatim>\<open>src/fifo.c\<close> on an explicit heap: \<^verbatim>\<open>struct sEvent\<close> and
  \<^verbatim>\<open>struct sFifo\<close> as records, one definition per queue operation. Every pointer that the
  C code follows is looked up in the heap, so a NULL or freed pointer makes the operation
  undefined (\<open>None\<close>). A freed address is never handed out again. Log messages are not
  modelled, and \<^verbatim>\<open>malloc\<close> and \<^verbatim>\<open>strdup\<close> do not fail (the code does not check them).
\<close>

section \<open>Data\<close>

type_synonym addr = nat

text \<open>
  The two strings of an event belong to it alone (they come from \<^verbatim>\<open>strdup\<close> and are freed
  with it), so the node holds their contents; a NULL string pointer is \<open>None\<close>.
\<close>

record event =
  msg :: "string option"
  rk :: "string option"
  pNext :: "addr option"
  pPrev :: "addr option"

record heap =
  cells :: "addr \<rightharpoonup> event"
  brk :: addr

text \<open>An open \<^verbatim>\<open>FILE\<close>: its position in the file.\<close>

record file_stream =
  pos :: nat

record fifo =
  fifo_first :: "addr option"
  fifo_last :: "addr option"
  fifo_size :: "32 word"
  fifo_max_size :: "32 word"
  file_path :: string
  pFile :: "file_stream option"
  file_lock :: bool
  dirty :: bool
  full :: bool

section \<open>Memory\<close>

definition deref :: "heap \<Rightarrow> addr option \<Rightarrow> event option" where
  "deref h p = Option.bind p (cells h)"

definition store :: "heap \<Rightarrow> addr option \<Rightarrow> (event \<Rightarrow> event) \<Rightarrow> heap option" where
  "store h p f = do {
     a \<leftarrow> p;
     e \<leftarrow> cells h a;
     Some (h\<lparr>cells := (cells h)(a \<mapsto> f e)\<rparr>)
   }"

definition set_next :: "heap \<Rightarrow> addr option \<Rightarrow> addr option \<Rightarrow> heap option" where
  "set_next h p n = store h p (\<lambda>e. e\<lparr>pNext := n\<rparr>)"

definition set_prev :: "heap \<Rightarrow> addr option \<Rightarrow> addr option \<Rightarrow> heap option" where
  "set_prev h p n = store h p (\<lambda>e. e\<lparr>pPrev := n\<rparr>)"

text \<open>\<^verbatim>\<open>free\<close>: undefined for an address that is not allocated (a double free).\<close>

definition free_cell :: "heap \<Rightarrow> addr \<Rightarrow> heap option" where
  "free_cell h a = (if cells h a = None then None else Some (h\<lparr>cells := (cells h)(a := None)\<rparr>))"

definition empty_heap :: heap where
  "empty_heap = \<lparr>cells = Map.empty, brk = 0\<rparr>"

section \<open>Events\<close>

definition n2a_event_init_nomalloc :: "heap \<Rightarrow> string option \<Rightarrow> string option \<Rightarrow> addr \<times> heap" where
  "n2a_event_init_nomalloc h r m =
     (brk h, h\<lparr>cells := (cells h)(brk h \<mapsto> \<lparr>msg = m, rk = r, pNext = None, pPrev = None\<rparr>),
               brk := Suc (brk h)\<rparr>)"

text \<open>\<^verbatim>\<open>strdup\<close> reads its argument: a NULL argument is undefined.\<close>

definition n2a_event_init :: "heap \<Rightarrow> string option \<Rightarrow> string option \<Rightarrow> (addr \<times> heap) option" where
  "n2a_event_init h r m = do {
     r' \<leftarrow> r;
     m' \<leftarrow> m;
     Some (n2a_event_init_nomalloc h (Some r') (Some m'))
   }"

text \<open>
  \<^verbatim>\<open>n2a_free_event\<close>: nothing for NULL, else the strings (when not NULL) and the node are
  freed; the strings live in the node, so one step frees them all.
\<close>

definition n2a_free_event :: "heap \<Rightarrow> addr option \<Rightarrow> heap option" where
  "n2a_free_event h p = (case p of None \<Rightarrow> Some h | Some a \<Rightarrow> free_cell h a)"

section \<open>Queue operations\<close>

definition n2a_check_size :: "fifo \<Rightarrow> fifo" where
  "n2a_check_size f =
     (let f1 = (if fifo_max_size f \<le> fifo_size f \<and> \<not> full f then f\<lparr>full := True\<rparr> else f)
      in if fifo_size f1 < fifo_max_size f1 then f1\<lparr>full := False\<rparr> else f1)"

definition n2a_shift :: "heap \<Rightarrow> fifo \<Rightarrow> (addr option \<times> heap \<times> fifo) option" where
  "n2a_shift h f =
     (if fifo_first f \<noteq> None then do {
        let pEvent = fifo_first f;
        ev \<leftarrow> deref h pEvent;
        (h1, f1) \<leftarrow>
          (if pNext ev \<noteq> None then do {
             h' \<leftarrow> set_prev h (pNext ev) None;
             Some (h', f\<lparr>fifo_first := pNext ev\<rparr>)
           } else Some (h, f\<lparr>fifo_first := None\<rparr>));
        h2 \<leftarrow> set_next h1 pEvent None;
        h3 \<leftarrow> set_prev h2 pEvent None;
        Some (pEvent, h3, f1\<lparr>fifo_size := fifo_size f1 - 1, dirty := True\<rparr>)
      } else Some (None, h, f))"

definition n2a_pop :: "heap \<Rightarrow> fifo \<Rightarrow> (addr option \<times> heap \<times> fifo) option" where
  "n2a_pop h f =
     (if fifo_last f \<noteq> None then do {
        let pEvent = fifo_last f;
        ev \<leftarrow> deref h pEvent;
        (h1, f1) \<leftarrow>
          (if pPrev ev \<noteq> None then do {
             h' \<leftarrow> set_next h (pPrev ev) None;
             Some (h', f\<lparr>fifo_last := pPrev ev\<rparr>)
           } else Some (h, f\<lparr>fifo_last := None\<rparr>));
        h2 \<leftarrow> set_next h1 pEvent None;
        h3 \<leftarrow> set_prev h2 pEvent None;
        Some (pEvent, h3, f1\<lparr>fifo_size := fifo_size f1 - 1, dirty := True\<rparr>)
      } else Some (None, h, f))"

text \<open>The branches of \<^verbatim>\<open>n2a_push\<close> and \<^verbatim>\<open>n2a_prepend\<close> that link the new node.\<close>

definition push_link :: "heap \<Rightarrow> fifo \<Rightarrow> addr \<Rightarrow> (heap \<times> fifo) option" where
  "push_link h f pEvent =
     (if fifo_first f = None
      then Some (h, f\<lparr>fifo_first := Some pEvent, fifo_last := Some pEvent\<rparr>)
      else do {
        h1 \<leftarrow> set_prev h (Some pEvent) (fifo_last f);
        h2 \<leftarrow> set_next h1 (fifo_last f) (Some pEvent);
        Some (h2, f\<lparr>fifo_last := Some pEvent\<rparr>)
      })"

definition prepend_link :: "heap \<Rightarrow> fifo \<Rightarrow> addr \<Rightarrow> (heap \<times> fifo) option" where
  "prepend_link h f pEvent =
     (if fifo_first f = None
      then Some (h, f\<lparr>fifo_first := Some pEvent, fifo_last := Some pEvent\<rparr>)
      else do {
        h1 \<leftarrow> set_prev h (Some pEvent) None;
        h2 \<leftarrow> set_next h1 (Some pEvent) (fifo_first f);
        h3 \<leftarrow> set_prev h2 (fifo_first f) (Some pEvent);
        Some (h3, f\<lparr>fifo_first := Some pEvent\<rparr>)
      })"

text \<open>
  \<^verbatim>\<open>n2a_push\<close> returns the new size; the C function converts the unsigned size to \<^verbatim>\<open>int\<close>.
\<close>

definition n2a_push :: "heap \<Rightarrow> fifo \<Rightarrow> addr \<Rightarrow> (int \<times> heap \<times> fifo) option" where
  "n2a_push h f pEvent = do {
     let f1 = n2a_check_size f;
     (h2, f2) \<leftarrow>
       (if full f1 then do {
          (old, h', f') \<leftarrow> n2a_shift h f1;
          h'' \<leftarrow> n2a_free_event h' old;
          Some (h'', f')
        } else Some (h, f1));
     (h3, f3) \<leftarrow> push_link h2 f2 pEvent;
     let f4 = f3\<lparr>fifo_size := fifo_size f3 + 1, dirty := True\<rparr>;
     Some (to_int (uint (fifo_size f4)), h3, f4)
   }"

definition n2a_prepend :: "heap \<Rightarrow> fifo \<Rightarrow> addr \<Rightarrow> (int \<times> heap \<times> fifo) option" where
  "n2a_prepend h f pEvent = do {
     let f1 = n2a_check_size f;
     (h2, f2) \<leftarrow>
       (if full f1 then do {
          (old, h', f') \<leftarrow> n2a_pop h f1;
          h'' \<leftarrow> n2a_free_event h' old;
          Some (h'', f')
        } else Some (h, f1));
     (h3, f3) \<leftarrow> prepend_link h2 f2 pEvent;
     let f4 = f3\<lparr>fifo_size := fifo_size f3 + 1, dirty := True\<rparr>;
     Some (to_int (uint (fifo_size f4)), h3, f4)
   }"

end
