(* ===== verification/Fifo_Refine.thy ===== *)
theory Fifo_Refine
  imports Fifo
begin

text \<open>
  The doubly linked queue of \<^verbatim>\<open>Fifo\<close> represents a list of (routing key, message) pairs.
  \<open>fifo_rep h f as xs\<close> says that the nodes at the addresses \<open>as\<close>, linked both ways from
  \<^verbatim>\<open>first\<close> to \<^verbatim>\<open>last\<close>, hold \<open>xs\<close>, and that \<^verbatim>\<open>size\<close> is their number. Each queue
  operation is shown to refine the operation on lists, on the states where it is defined.
\<close>

section \<open>Linked segments\<close>

text \<open>
  \<open>seg h pr p as l n\<close>: from pointer \<open>p\<close>, whose predecessor is \<open>pr\<close>, the nodes \<open>as\<close> are
  linked both ways; \<open>l\<close> is the last of them (or \<open>pr\<close>) and \<open>n\<close> the pointer after it.
\<close>

fun seg :: "heap \<Rightarrow> addr option \<Rightarrow> addr option \<Rightarrow> addr list \<Rightarrow> addr option \<Rightarrow> addr option \<Rightarrow> bool" where
  "seg h pr p [] l n = (l = pr \<and> n = p)"
| "seg h pr p (a # as) l n =
     (p = Some a \<and>
      (case cells h a of None \<Rightarrow> False
       | Some e \<Rightarrow> pPrev e = pr \<and> seg h (Some a) (pNext e) as l n))"

lemma seg_append:
  "seg h pr p (as @ bs) l n \<longleftrightarrow> (\<exists>m k. seg h pr p as m k \<and> seg h m k bs l n)"
  by (induction as arbitrary: pr p) (auto split: option.splits)

lemma seg_cong:
  "(\<And>a. a \<in> set as \<Longrightarrow> cells h' a = cells h a) \<Longrightarrow> seg h' pr p as l n = seg h pr p as l n"
proof (induction as arbitrary: pr p)
  case Nil
  then show ?case by simp
next
  case (Cons a as)
  from Cons.prems have "cells h' a = cells h a" by simp
  moreover have "seg h' (Some a) q as l n = seg h (Some a) q as l n" for q
    by (rule Cons.IH) (simp add: Cons.prems)
  ultimately show ?case by (simp split: option.splits)
qed

lemma seg_last: "seg h pr p as l n \<Longrightarrow> l = (if as = [] then pr else Some (last as))"
  by (induction as arbitrary: pr p) (auto split: option.splits if_splits)

lemma seg_first: "seg h pr p as l n \<Longrightarrow> p = (case as of [] \<Rightarrow> n | a # _ \<Rightarrow> Some a)"
  by (cases as) auto

lemma seg_allocated: "seg h pr p as l n \<Longrightarrow> a \<in> set as \<Longrightarrow> cells h a \<noteq> None"
  by (induction as arbitrary: pr p) (auto split: option.splits)

section \<open>What a node holds\<close>

definition node_val :: "heap \<Rightarrow> addr \<Rightarrow> (string \<times> string) option" where
  "node_val h a = do { e \<leftarrow> cells h a; r \<leftarrow> rk e; m \<leftarrow> msg e; Some (r, m) }"

definition fresh_node :: "string \<Rightarrow> string \<Rightarrow> event" where
  "fresh_node r m = \<lparr>msg = Some m, rk = Some r, pNext = None, pPrev = None\<rparr>"

lemma fresh_node_simps [simp]:
  "pNext (fresh_node r m) = None" "pPrev (fresh_node r m) = None"
  "rk (fresh_node r m) = Some r" "msg (fresh_node r m) = Some m"
  by (simp_all add: fresh_node_def)

lemma node_val_cong: "cells h' a = cells h a \<Longrightarrow> node_val h' a = node_val h a"
  by (simp add: node_val_def)

lemma node_vals_cong:
  assumes "map (node_val h) as = map Some xs"
    and "\<And>c. c \<in> set as \<Longrightarrow> node_val h' c = node_val h c"
  shows "map (node_val h') as = map Some xs"
  using assms by (metis map_cong)

lemma node_val_links:
  "cells h a = Some e \<Longrightarrow> cells h' a = Some e' \<Longrightarrow> rk e' = rk e \<Longrightarrow> msg e' = msg e \<Longrightarrow>
   node_val h' a = node_val h a"
  by (simp add: node_val_def)

lemma node_val_fresh [simp]: "cells h a = Some (fresh_node r m) \<Longrightarrow> node_val h a = Some (r, m)"
  by (simp add: node_val_def fresh_node_def)

lemma node_val_SomeD:
  "node_val h a = Some (r, m) \<Longrightarrow> \<exists>e. cells h a = Some e \<and> rk e = Some r \<and> msg e = Some m"
  by (auto simp: node_val_def elim!: bind_eq_SomeE)

section \<open>The representation\<close>

definition heap_ok :: "heap \<Rightarrow> bool" where
  "heap_ok h \<longleftrightarrow> (\<forall>a. cells h a \<noteq> None \<longrightarrow> a < brk h)"

definition fifo_rep :: "heap \<Rightarrow> fifo \<Rightarrow> addr list \<Rightarrow> (string \<times> string) list \<Rightarrow> bool" where
  "fifo_rep h f as xs \<longleftrightarrow>
     seg h None (fifo_first f) as (if as = [] then None else Some (last as)) None \<and>
     (as \<noteq> [] \<longrightarrow> fifo_last f = Some (last as)) \<and>
     distinct as \<and>
     map (node_val h) as = map Some xs \<and>
     unat (fifo_size f) = length xs"

lemma fifo_rep_length: "fifo_rep h f as xs \<Longrightarrow> length as = length xs"
  by (metis fifo_rep_def length_map)

lemma fifo_rep_cong:
  assumes rep: "fifo_rep h f as xs"
    and same: "\<And>a. a \<in> set as \<Longrightarrow> cells h' a = cells h a"
    and ends: "fifo_first f' = fifo_first f" "fifo_last f' = fifo_last f" "fifo_size f' = fifo_size f"
  shows "fifo_rep h' f' as xs"
proof -
  have "map (node_val h') as = map (node_val h) as"
    by (rule map_cong) (auto intro: node_val_cong same)
  moreover have "seg h' pr p as l n = seg h pr p as l n" for pr p l n
    by (rule seg_cong) (rule same)
  ultimately show ?thesis using rep ends by (simp add: fifo_rep_def del: map_eq_conv)
qed

lemma fifo_rep_Nil [simp]: "fifo_rep h f [] xs \<longleftrightarrow> fifo_first f = None \<and> xs = [] \<and> fifo_size f = 0"
  by (auto simp: fifo_rep_def unat_eq_0)

lemma fifo_rep_allocated: "fifo_rep h f as xs \<Longrightarrow> a \<in> set as \<Longrightarrow> cells h a \<noteq> None"
  unfolding fifo_rep_def using seg_allocated by blast

lemma fifo_rep_size_zero: "fifo_rep h f as xs \<Longrightarrow> fifo_size f = 0 \<longleftrightarrow> xs = []"
  by (auto simp: fifo_rep_def unat_eq_0 [symmetric])

section \<open>Memory\<close>

lemma deref_Some [heap_simps]: "deref h (Some a) = cells h a"
  by (simp add: deref_def)

lemma deref_None [heap_simps]: "deref h None = None"
  by (simp add: deref_def)

lemma set_next_Some [heap_simps]:
  "cells h a = Some e \<Longrightarrow> set_next h (Some a) n = Some (h\<lparr>cells := (cells h)(a \<mapsto> e\<lparr>pNext := n\<rparr>)\<rparr>)"
  by (simp add: set_next_def store_def)

lemma set_prev_Some [heap_simps]:
  "cells h a = Some e \<Longrightarrow> set_prev h (Some a) n = Some (h\<lparr>cells := (cells h)(a \<mapsto> e\<lparr>pPrev := n\<rparr>)\<rparr>)"
  by (simp add: set_prev_def store_def)

lemma free_event_None [heap_simps]: "n2a_free_event h None = Some h"
  by (simp add: n2a_free_event_def)

lemma free_event_Some [heap_simps]:
  "cells h a = Some e \<Longrightarrow> n2a_free_event h (Some a) = Some (h\<lparr>cells := (cells h)(a := None)\<rparr>)"
  by (simp add: n2a_free_event_def free_cell_def)

lemma heap_ok_upd [simp]:
  "heap_ok h \<Longrightarrow> cells h a \<noteq> None \<Longrightarrow> heap_ok (h\<lparr>cells := (cells h)(a \<mapsto> e)\<rparr>)"
  by (auto simp: heap_ok_def)

lemma heap_ok_free [simp]: "heap_ok h \<Longrightarrow> heap_ok (h\<lparr>cells := (cells h)(a := None)\<rparr>)"
  by (auto simp: heap_ok_def)

lemma event_init_spec:
  assumes "heap_ok h"
  shows "n2a_event_init h (Some r) (Some m) = Some (brk h,
           h\<lparr>cells := (cells h)(brk h \<mapsto> fresh_node r m), brk := Suc (brk h)\<rparr>)"
    and "cells h (brk h) = None"
  using assms by (auto simp: n2a_event_init_def n2a_event_init_nomalloc_def fresh_node_def heap_ok_def)

section \<open>Taking the first event\<close>

lemma unat_minus_one_word: "unat (w :: 32 word) = Suc n \<Longrightarrow> unat (w - 1) = n"
  by (metis diff_Suc_1 nat.distinct(1) unat_0 unat_minus_one)

lemma n2a_shift_empty: "fifo_first f = None \<Longrightarrow> n2a_shift h f = Some (None, h, f)"
  by (simp add: n2a_shift_def)

lemma n2a_shift_refines:
  assumes rep: "fifo_rep h f (a # as) ((r, m) # xs)"
  shows "\<exists>h'. n2a_shift h f = Some (Some a, h',
             f\<lparr>fifo_first := (case as of [] \<Rightarrow> None | b # _ \<Rightarrow> Some b),
               fifo_size := fifo_size f - 1, dirty := True\<rparr>) \<and>
           cells h' a = Some (fresh_node r m) \<and> brk h' = brk h \<and>
           dom (cells h') = dom (cells h) \<and>
           (\<forall>c. c \<notin> set (a # as) \<longrightarrow> cells h' c = cells h c) \<and>
           fifo_rep h' (f\<lparr>fifo_first := (case as of [] \<Rightarrow> None | b # _ \<Rightarrow> Some b),
               fifo_size := fifo_size f - 1, dirty := True\<rparr>) as xs"
proof -
  from rep obtain e where e: "cells h a = Some e" "rk e = Some r" "msg e = Some m" "pPrev e = None"
    and ff: "fifo_first f = Some a"
    and sg: "seg h (Some a) (pNext e) as (Some (last (a # as))) None"
    and dist: "a \<notin> set as" "distinct as"
    and vals: "map (node_val h) as = map Some xs"
    and sz: "unat (fifo_size f) = Suc (length xs)"
    by (auto simp: fifo_rep_def split: option.splits dest!: node_val_SomeD)
  have sz': "unat (fifo_size f - 1) = length xs" using sz by (rule unat_minus_one_word)
  have a_upd: "e\<lparr>pNext := None, pPrev := None\<rparr> = fresh_node r m"
    using e by (cases e) (simp add: fresh_node_def)
  show ?thesis
  proof (cases as)
    case Nil
    with vals have [simp]: "xs = []" by simp
    from Nil sg have nx: "pNext e = None" by simp
    show ?thesis using Nil e ff nx sz'
      by (auto simp: n2a_shift_def heap_simps a_upd unat_eq_0 domI insert_absorb)
  next
    case (Cons b bs)
    with sg obtain eb where eb: "cells h b = Some eb" "pPrev eb = Some a" "pNext e = Some b"
      and sg2: "seg h (Some b) (pNext eb) bs (Some (last (b # bs))) None"
      by (auto split: option.splits)
    have ab: "a \<noteq> b" "a \<notin> set bs" "b \<notin> set bs" using dist Cons by auto
    let ?h' = "h\<lparr>cells := (cells h)(b \<mapsto> eb\<lparr>pPrev := None\<rparr>, a \<mapsto> fresh_node r m)\<rparr>"
    have run: "n2a_shift h f = Some (Some a, ?h', f\<lparr>fifo_first := Some b,
         fifo_size := fifo_size f - 1, dirty := True\<rparr>)"
      using e ff eb ab by (simp add: n2a_shift_def heap_simps a_upd)
    have "seg ?h' (Some b) (pNext eb) bs (Some (last (b # bs))) None"
      using sg2 ab by (subst seg_cong [of bs _ h]) auto
    moreover have "map (node_val ?h') as = map Some xs"
      using vals by (rule node_vals_cong) (use Cons ab eb in \<open>auto simp: node_val_def\<close>)
    ultimately have "fifo_rep ?h' (f\<lparr>fifo_first := Some b, fifo_size := fifo_size f - 1,
         dirty := True\<rparr>) as xs"
      using Cons ab dist sz' rep by (simp add: fifo_rep_def)
    with run Cons e eb ab show ?thesis
      by (auto simp: insert_absorb domI)
  qed
qed

section \<open>Taking the last event\<close>

text \<open>
  \<^verbatim>\<open>n2a_pop\<close> unlinks the last of at least two events. (On the last remaining event it leaves
  \<^verbatim>\<open>first\<close> pointing to it, see below.)
\<close>

lemma n2a_pop_refines:
  assumes rep: "fifo_rep h f (as @ [b, c]) (xs @ [(r, m)])"
  shows "\<exists>h'. n2a_pop h f = Some (Some c, h',
             f\<lparr>fifo_last := Some b, fifo_size := fifo_size f - 1, dirty := True\<rparr>) \<and>
           cells h' c = Some (fresh_node r m) \<and> brk h' = brk h \<and>
           dom (cells h') = dom (cells h) \<and>
           (\<forall>d. d \<notin> set (as @ [b, c]) \<longrightarrow> cells h' d = cells h d) \<and>
           fifo_rep h' (f\<lparr>fifo_last := Some b, fifo_size := fifo_size f - 1, dirty := True\<rparr>)
             (as @ [b]) xs"
proof -
  have dist: "b \<noteq> c" "c \<notin> set as" "b \<notin> set as" "distinct as"
    and vals: "map (node_val h) (as @ [b]) = map Some xs" and vc: "node_val h c = Some (r, m)"
    and sz: "unat (fifo_size f) = Suc (length xs)" and fl: "fifo_last f = Some c"
    using rep by (auto simp: fifo_rep_def simp del: map_eq_conv)
  obtain k eb ec where sg: "seg h None (fifo_first f) as k (Some b)"
    and eb: "cells h b = Some eb" "pPrev eb = k" "pNext eb = Some c"
    and ec: "cells h c = Some ec" "pPrev ec = Some b" "pNext ec = None"
    using rep by (auto simp: fifo_rep_def seg_append split: option.splits)
  have c_upd: "ec\<lparr>pNext := None, pPrev := None\<rparr> = fresh_node r m"
    using node_val_SomeD [OF vc] ec by (cases ec) (auto simp: fresh_node_def)
  let ?h' = "h\<lparr>cells := (cells h)(b \<mapsto> eb\<lparr>pNext := None\<rparr>, c \<mapsto> fresh_node r m)\<rparr>"
  let ?f' = "f\<lparr>fifo_last := Some b, fifo_size := fifo_size f - 1, dirty := True\<rparr>"
  have run: "n2a_pop h f = Some (Some c, ?h', ?f')"
    using fl eb ec dist by (simp add: n2a_pop_def heap_simps c_upd)
  have "map (node_val ?h') (as @ [b]) = map Some xs"
    using vals by (rule node_vals_cong) (use dist eb in \<open>auto simp: node_val_def\<close>)
  moreover have "seg ?h' None (fifo_first f) as k (Some b)"
    using sg dist by (subst seg_cong [of as _ h]) auto
  then have "seg ?h' None (fifo_first f) (as @ [b]) (Some b) None"
    using dist eb by (auto simp: seg_append)
  ultimately have "fifo_rep ?h' ?f' (as @ [b]) xs"
    using dist sz by (simp add: fifo_rep_def unat_minus_one_word del: map_append)
  with run dist eb ec show ?thesis by (auto simp: insert_absorb domI)
qed

section \<open>Adding an event\<close>

text \<open>The fields that a queue operation leaves alone; it always sets the dirty flag.\<close>

definition touched :: "fifo \<Rightarrow> fifo \<Rightarrow> bool" where
  "touched f f' \<longleftrightarrow>
     fifo_max_size f' = fifo_max_size f \<and> file_path f' = file_path f \<and>
     pFile f' = pFile f \<and> file_lock f' = file_lock f \<and> dirty f'"

lemma unat_plus_one_word:
  assumes "unat (w :: 32 word) < unat (v :: 32 word)"
  shows "unat (w + 1) = Suc (unat w)"
proof -
  have "unat v < 4294967296" using unsigned_less [of v] by simp
  with assms show ?thesis by (simp add: unat_word_ariths)
qed

text \<open>
  Linking a detached node behind the last one, the second half of \<^verbatim>\<open>n2a_push\<close>.
\<close>

lemma push_link_refines:
  assumes rep: "fifo_rep h f as xs" and p: "cells h p = Some (fresh_node r m)" "p \<notin> set as"
    and room: "unat (fifo_size f + 1) = Suc (unat (fifo_size f))"
  shows "\<exists>h' f'. push_link h f p = Some (h', f') \<and>
     fifo_rep h' (f'\<lparr>fifo_size := fifo_size f' + 1, dirty := True\<rparr>) (as @ [p]) (xs @ [(r, m)]) \<and>
     fifo_size f' = fifo_size f \<and> full f' = full f \<and>
     touched f (f'\<lparr>fifo_size := fifo_size f' + 1, dirty := True\<rparr>) \<and>
     brk h' = brk h \<and> dom (cells h') = dom (cells h) \<and>
     (\<forall>d. d \<notin> set (as @ [p]) \<longrightarrow> cells h' d = cells h d)"
proof (cases as rule: rev_cases)
  case Nil
  with rep have "fifo_first f = None" "xs = []" "fifo_size f = 0" by auto
  with p Nil room show ?thesis
    by (auto simp: push_link_def fifo_rep_def touched_def)
next
  case (snoc bs b)
  let ?h' = "h\<lparr>cells := (cells h)(p \<mapsto> (fresh_node r m)\<lparr>pPrev := Some b\<rparr>,
                                 b \<mapsto> the (cells h b)\<lparr>pNext := Some p\<rparr>)\<rparr>"
  have dist: "b \<notin> set bs" "distinct bs" "p \<noteq> b" "p \<notin> set bs" and fl: "fifo_last f = Some b"
    and vals: "map (node_val h) as = map Some xs"
    and sz: "unat (fifo_size f) = length xs"
    using rep snoc p by (auto simp: fifo_rep_def simp del: map_eq_conv)
  obtain k eb where sg: "seg h None (fifo_first f) bs k (Some b)"
    and eb: "cells h b = Some eb" "pPrev eb = k" "pNext eb = None"
    using rep snoc by (auto simp: fifo_rep_def seg_append split: option.splits)
  have ff: "\<exists>a. fifo_first f = Some a"
    using sg by (cases bs) (auto intro: sym)
  have "map (node_val ?h') as = map Some xs"
    using vals by (rule node_vals_cong) (use dist eb snoc in \<open>auto simp: node_val_def\<close>)
  moreover have "node_val ?h' p = Some (r, m)"
    using dist by (simp add: node_val_def fresh_node_def)
  moreover have "seg ?h' None (fifo_first f) bs k (Some b)"
    using sg dist by (subst seg_cong [of bs _ h]) auto
  then have "seg ?h' None (fifo_first f) (bs @ [b, p]) (Some p) None"
    using dist eb by (auto simp: seg_append fresh_node_def)
  ultimately have "fifo_rep ?h' (f\<lparr>fifo_last := Some p, fifo_size := fifo_size f + 1, dirty := True\<rparr>)
      (as @ [p]) (xs @ [(r, m)])"
    using dist sz snoc room by (simp add: fifo_rep_def)
  with ff fl p eb dist snoc show ?thesis
    by (auto simp: push_link_def heap_simps touched_def domI)
qed

text \<open>Linking a detached node before the first one, the second half of \<^verbatim>\<open>n2a_prepend\<close>.\<close>

lemma prepend_link_refines:
  assumes rep: "fifo_rep h f as xs" and p: "cells h p = Some (fresh_node r m)" "p \<notin> set as"
    and room: "unat (fifo_size f + 1) = Suc (unat (fifo_size f))"
  shows "\<exists>h' f'. prepend_link h f p = Some (h', f') \<and>
     fifo_rep h' (f'\<lparr>fifo_size := fifo_size f' + 1, dirty := True\<rparr>) (p # as) ((r, m) # xs) \<and>
     fifo_size f' = fifo_size f \<and> full f' = full f \<and>
     touched f (f'\<lparr>fifo_size := fifo_size f' + 1, dirty := True\<rparr>) \<and>
     brk h' = brk h \<and> dom (cells h') = dom (cells h) \<and>
     (\<forall>d. d \<notin> set (p # as) \<longrightarrow> cells h' d = cells h d)"
proof (cases as)
  case Nil
  with rep have "fifo_first f = None" "xs = []" "fifo_size f = 0" by auto
  with p Nil room show ?thesis by (auto simp: prepend_link_def fifo_rep_def touched_def)
next
  case (Cons b bs)
  let ?h' = "h\<lparr>cells := (cells h)(p \<mapsto> (fresh_node r m)\<lparr>pPrev := None, pNext := Some b\<rparr>,
                                 b \<mapsto> the (cells h b)\<lparr>pPrev := Some p\<rparr>)\<rparr>"
  have dist: "b \<notin> set bs" "distinct bs" "p \<noteq> b" "p \<notin> set bs"
    and vals: "map (node_val h) as = map Some xs" and fl: "fifo_last f = Some (last as)"
    and sz: "unat (fifo_size f) = length xs" and ff: "fifo_first f = Some b"
    using rep Cons p by (auto simp: fifo_rep_def simp del: map_eq_conv)
  obtain eb where eb: "cells h b = Some eb" "pPrev eb = None"
    and sg: "seg h (Some b) (pNext eb) bs (Some (last as)) None"
    using rep Cons by (auto simp: fifo_rep_def split: option.splits)
  have "map (node_val ?h') as = map Some xs"
    using vals by (rule node_vals_cong) (use dist eb Cons in \<open>auto simp: node_val_def\<close>)
  moreover have "node_val ?h' p = Some (r, m)"
    using dist by (simp add: node_val_def)
  moreover have "seg ?h' (Some b) (pNext eb) bs (Some (last as)) None"
    using sg dist by (subst seg_cong [of bs _ h]) auto
  ultimately have "fifo_rep ?h' (f\<lparr>fifo_first := Some p, fifo_size := fifo_size f + 1, dirty := True\<rparr>)
      (p # as) ((r, m) # xs)"
    using dist sz Cons eb fl room by (simp add: fifo_rep_def)
  with ff p eb dist Cons show ?thesis
    by (auto simp: prepend_link_def heap_simps touched_def domI)
qed

section \<open>The size guard\<close>

lemma check_size_simps [simp]:
  "fifo_first (n2a_check_size f) = fifo_first f"
  "fifo_last (n2a_check_size f) = fifo_last f"
  "fifo_size (n2a_check_size f) = fifo_size f"
  "fifo_max_size (n2a_check_size f) = fifo_max_size f"
  "file_path (n2a_check_size f) = file_path f"
  "pFile (n2a_check_size f) = pFile f"
  "file_lock (n2a_check_size f) = file_lock f"
  "dirty (n2a_check_size f) = dirty f"
  by (simp_all add: n2a_check_size_def Let_def)

lemma check_size_full [simp]: "full (n2a_check_size f) \<longleftrightarrow> fifo_max_size f \<le> fifo_size f"
  by (auto simp: n2a_check_size_def Let_def)

lemma fifo_rep_check_size [simp]: "fifo_rep h (n2a_check_size f) as xs = fifo_rep h f as xs"
  by (simp add: fifo_rep_def)

lemma fifo_rep_full_iff:
  "fifo_rep h f as xs \<Longrightarrow> fifo_max_size f \<le> fifo_size f \<longleftrightarrow> unat (fifo_max_size f) \<le> length xs"
  by (simp add: fifo_rep_def word_le_nat_alt)

section \<open>Push and prepend\<close>

text \<open>What \<^verbatim>\<open>n2a_push\<close> does to the queued events: a full queue loses its oldest one.\<close>

definition push_list :: "nat \<Rightarrow> 'a list \<Rightarrow> 'a \<Rightarrow> 'a list" where
  "push_list mx xs x = (if mx \<le> length xs then tl xs else xs) @ [x]"

lemma push_list_bound: "length xs \<le> max 1 mx \<Longrightarrow> length (push_list mx xs x) \<le> max 1 mx"
  by (auto simp: push_list_def)

lemma size_room:
  assumes "unat (fifo_size f) < unat (fifo_max_size f) \<or> fifo_size f = 0"
  shows "unat (fifo_size f + 1) = Suc (unat (fifo_size f))"
  using assms by (auto intro: unat_plus_one_word)

lemma fifo_rep_config:
  "fifo_rep h f as xs \<Longrightarrow> fifo_first f' = fifo_first f \<Longrightarrow> fifo_last f' = fifo_last f \<Longrightarrow>
   fifo_size f' = fifo_size f \<Longrightarrow> fifo_rep h f' as xs"
  by (simp add: fifo_rep_def)

text \<open>
  The result of a push: the new queue, the nodes it consists of, and the memory outside. The
  dropped node is freed; nothing else is.
\<close>

lemma n2a_push_refines:
  assumes rep: "fifo_rep h f as xs"
    and p: "cells h p = Some (fresh_node r m)" "p \<notin> set as"
  shows "\<exists>h' f' as'. n2a_push h f p = Some (to_int (uint (fifo_size f')), h', f') \<and>
     as' = push_list (unat (fifo_max_size f)) as p \<and>
     fifo_rep h' f' as' (push_list (unat (fifo_max_size f)) xs (r, m)) \<and>
     touched f f' \<and> brk h' = brk h \<and>
     dom (cells h') = dom (cells h) - (set as - set as') \<and>
     (\<forall>d. d \<notin> set (as @ [p]) \<longrightarrow> cells h' d = cells h d)"
proof -
  let ?f1 = "n2a_check_size f"
  note len = fifo_rep_length [OF rep]
  have max32: "unat (fifo_max_size f) < 4294967296"
    using unsigned_less [of "fifo_max_size f"] by simp
  consider (room) "length xs < unat (fifo_max_size f)"
    | (empty) "unat (fifo_max_size f) \<le> length xs" "xs = []"
    | (drop) y ys where "unat (fifo_max_size f) \<le> length xs" "xs = y # ys"
    by (metis list.exhaust not_le)
  then show ?thesis
  proof cases
    case room
    then have "\<not> full ?f1" using fifo_rep_full_iff [OF rep] by simp
    moreover have "fifo_rep h ?f1 as xs" using rep by simp
    moreover have "unat (fifo_size ?f1 + 1) = Suc (unat (fifo_size ?f1))"
      using room rep by (intro size_room) (simp add: fifo_rep_def)
    ultimately show ?thesis
      using push_link_refines [OF _ p, of ?f1 xs] room len
      by (auto simp: n2a_push_def Let_def push_list_def touched_def)
  next
    case empty
    then have "full ?f1" using fifo_rep_full_iff [OF rep] by simp
    moreover have "as = []" using len empty by simp
    moreover have "fifo_first f = None" "fifo_size f = 0" using rep empty calculation by auto
    ultimately show ?thesis
      using empty p by (auto simp: n2a_push_def push_link_def Let_def push_list_def n2a_shift_empty heap_simps
          touched_def fifo_rep_def)
  next
    case drop
    obtain ry my where y: "y = (ry, my)" by (cases y)
    obtain a as0 where as: "as = a # as0" using len drop by (cases as) auto
    have full: "full ?f1" using drop fifo_rep_full_iff [OF rep] by simp
    let ?f2 = "?f1\<lparr>fifo_first := (case as0 of [] \<Rightarrow> None | b # _ \<Rightarrow> Some b),
      fifo_size := fifo_size ?f1 - 1, dirty := True\<rparr>"
    have "fifo_rep h ?f1 (a # as0) ((ry, my) # ys)" using rep drop y as by simp
    from n2a_shift_refines [OF this] obtain h1
      where sh: "n2a_shift h ?f1 = Some (Some a, h1, ?f2)"
      and a1: "cells h1 a = Some (fresh_node ry my)" "brk h1 = brk h" "dom (cells h1) = dom (cells h)"
      and frame: "\<forall>c. c \<notin> set (a # as0) \<longrightarrow> cells h1 c = cells h c"
      and rep1: "fifo_rep h1 ?f2 as0 ys"
      by blast
    let ?h2 = "h1\<lparr>cells := (cells h1)(a := None)\<rparr>"
    have dist: "a \<notin> set as0" "p \<noteq> a" "p \<notin> set as0"
      using rep as p by (auto simp: fifo_rep_def)
    have rep2: "fifo_rep ?h2 ?f2 as0 ys"
      by (rule fifo_rep_cong [OF rep1]) (use dist in auto)
    have p2: "cells ?h2 p = Some (fresh_node r m)"
      using frame as p dist by simp
    have "unat (fifo_size f) = Suc (length ys)" "unat (fifo_size ?f2) = length ys"
      using rep rep1 drop by (simp_all add: fifo_rep_def)
    then have room: "unat (fifo_size ?f2 + 1) = Suc (unat (fifo_size ?f2))" by simp
    from push_link_refines [OF rep2 p2 dist(3) room] full sh a1 drop as len dist frame show ?thesis
      by (auto simp: n2a_push_def Let_def push_list_def touched_def heap_simps y)
  qed
qed


text \<open>
  \<^verbatim>\<open>n2a_prepend\<close> puts an event back at the front. It is only used when the queue has room
  (the case below); on a full queue it removes the last event first, which is sound for at
  least two events and corrupts the queue for fewer.
\<close>

lemma n2a_prepend_refines:
  assumes rep: "fifo_rep h f as xs"
    and p: "cells h p = Some (fresh_node r m)" "p \<notin> set as"
    and room: "length xs < unat (fifo_max_size f)"
  shows "\<exists>h' f'. n2a_prepend h f p = Some (to_int (uint (fifo_size f')), h', f') \<and>
     fifo_rep h' f' (p # as) ((r, m) # xs) \<and> touched f f' \<and> brk h' = brk h \<and>
     dom (cells h') = dom (cells h) \<and>
     (\<forall>d. d \<notin> set (p # as) \<longrightarrow> cells h' d = cells h d)"
proof -
  let ?f1 = "n2a_check_size f"
  have "\<not> full ?f1" using room fifo_rep_full_iff [OF rep] by simp
  moreover have "fifo_rep h ?f1 as xs" using rep by simp
  moreover have "unat (fifo_size ?f1 + 1) = Suc (unat (fifo_size ?f1))"
    using room rep by (intro size_room) (simp add: fifo_rep_def)
  ultimately show ?thesis
    using prepend_link_refines [OF _ p, of ?f1 xs]
    by (auto simp: n2a_prepend_def Let_def touched_def)
qed

end
