(* ===== verification/Fifo_File.thy ===== *)
theory Fifo_File
  imports Fifo_Refine
begin

text \<open>
  The cache file of the queue (\<^verbatim>\<open>src/fifo.c\<close>: \<^verbatim>\<open>n2a_fifo_open_file\<close>, \<^verbatim>\<open>n2a_load\<close>,
  \<^verbatim>\<open>n2a_clear\<close>, \<^verbatim>\<open>n2a_csync\<close>, \<^verbatim>\<open>n2a_fifo_init\<close>, \<^verbatim>\<open>n2a_free_fifo\<close>). The file system
  is the content of the one path the queue uses and what the process may do with it. Writes
  reach the file and do not fail: the code looks at no result of \<^verbatim>\<open>fprintf\<close>.
\<close>

section \<open>The file\<close>

record fs =
  disk :: "string option"
  may_update :: bool
  may_create :: bool
  may_unlink :: bool

text \<open>\<^verbatim>\<open>fopen\<close> with mode \<^verbatim>\<open>r+\<close> keeps the content, with mode \<^verbatim>\<open>w+\<close> it empties or creates
  the file.\<close>

definition fopen_update :: "fs \<Rightarrow> file_stream option" where
  "fopen_update d = (if disk d \<noteq> None \<and> may_update d then Some \<lparr>pos = 0\<rparr> else None)"

definition fopen_create :: "fs \<Rightarrow> file_stream option \<times> fs" where
  "fopen_create d =
     (if (case disk d of None \<Rightarrow> may_create d | Some _ \<Rightarrow> may_update d)
      then (Some \<lparr>pos = 0\<rparr>, d\<lparr>disk := Some []\<rparr>)
      else (None, d))"

definition unlink_file :: "fs \<Rightarrow> int \<times> fs" where
  "unlink_file d = (if disk d \<noteq> None \<and> may_unlink d then (0, d\<lparr>disk := None\<rparr>) else (-1, d))"

definition write_at :: "nat \<Rightarrow> string \<Rightarrow> string \<Rightarrow> string" where
  "write_at n bs s = take n s @ bs @ drop (n + length bs) s"

definition fwrite_string :: "fs \<Rightarrow> file_stream \<Rightarrow> string \<Rightarrow> fs \<times> file_stream" where
  "fwrite_string d st bs =
     (d\<lparr>disk := map_option (write_at (pos st) bs) (disk d)\<rparr>, st\<lparr>pos := pos st + length bs\<rparr>)"

text \<open>
  \<^verbatim>\<open>fgets\<close> of at most \<open>n - 1\<close> bytes, up to and including a newline: what the buffer reads
  as a C string afterwards (untouched when no byte was left), the unread input, and whether
  the end of file was met.
\<close>

definition fgets_take :: "nat \<Rightarrow> string \<Rightarrow> string" where
  "fgets_take n s =
     (let line = takeWhile (\<lambda>c. c \<noteq> NL) s
      in take n (line @ (if length line < length s then [NL] else [])))"

definition fgets :: "nat \<Rightarrow> string \<Rightarrow> string \<Rightarrow> string \<times> string \<times> bool" where
  "fgets n old s =
     (let got = fgets_take (n - 1) s
      in (if got = [] then old else c_string got,
          drop (length got) s,
          length got < n - 1 \<and> (got = [] \<or> last got \<noteq> NL)))"

text \<open>
  \<^verbatim>\<open>b[strlen (b) - 1] = 0\<close>: out of bounds when the string is empty.
\<close>

definition chop :: "string \<Rightarrow> string option" where
  "chop s = (if s = [] then None else Some (butlast s))"

section \<open>Opening and removing\<close>

definition n2a_fifo_open_file :: "fs \<Rightarrow> fifo \<Rightarrow> int \<times> fs \<times> fifo" where
  "n2a_fifo_open_file d f =
     (let (d', f') =
        (case pFile f of
           Some _ \<Rightarrow> (d, f)
         | None \<Rightarrow>
             (case fopen_update d of
                Some st \<Rightarrow> (d, f\<lparr>pFile := Some st\<rparr>)
              | None \<Rightarrow> (let (st, d1) = fopen_create d in (d1, f\<lparr>pFile := st\<rparr>))))
      in (if pFile f' = None then 0 else 1, d', f'))"

definition n2a_clear :: "fs \<Rightarrow> fifo \<Rightarrow> int \<times> fs \<times> fifo" where
  "n2a_clear d f = (let (r, d') = unlink_file d in (r, d', f\<lparr>pFile := None\<rparr>))"

section \<open>Loading\<close>

definition EVENT_MSG_MAX_SIZE :: nat where "EVENT_MSG_MAX_SIZE = 8192"

text \<open>Each iteration that does not meet the end of the file consumes input.\<close>

lemma fgets_progress:
  assumes "fgets n old s = (b, rest, False)" and "1 < n"
  shows "length rest < length s"
proof -
  let ?got = "fgets_take (n - 1) s"
  from assms have "\<not> (length ?got < n - 1 \<and> (?got = [] \<or> last ?got \<noteq> NL))" and "rest = drop (length ?got) s"
    by (auto simp: fgets_def Let_def)
  moreover from this(1) assms(2) have "?got \<noteq> []" by auto
  moreover from this have "s \<noteq> []" by (auto simp: fgets_take_def)
  ultimately show ?thesis by simp
qed

text \<open>
  The loop \<^verbatim>\<open>while (!feof)\<close>. The two buffers are declared inside the loop body, so in
  iteration \<open>i\<close> they start with whatever \<open>stk i\<close> says is on the stack.
\<close>

function load_loop ::
  "(nat \<Rightarrow> string \<times> string) \<Rightarrow> nat \<Rightarrow> string \<Rightarrow> heap \<Rightarrow> fifo \<Rightarrow> (nat \<times> heap \<times> fifo) option" where
  "load_loop stk i rest h f =
     (let (rk0, rest1, eof1) = fgets EVENT_MSG_MAX_SIZE (fst (stk i)) rest;
          (msg0, rest2, eof2) = fgets EVENT_MSG_MAX_SIZE (snd (stk i)) rest1
      in do {
        rk1 \<leftarrow> chop rk0;
        msg1 \<leftarrow> chop msg0;
        (p, h1) \<leftarrow> n2a_event_init h (Some rk1) (Some msg1);
        (n, h2, f2) \<leftarrow> n2a_push h1 f p;
        if eof1 \<or> eof2 then Some (i + 1, h2, f2)
        else load_loop stk (i + 1) rest2 h2 f2
      })"
  by pat_completeness auto

termination
  by (relation "measure (\<lambda>(stk, i, rest, h, f). length rest)")
    (auto simp: EVENT_MSG_MAX_SIZE_def dest!: fgets_progress [OF sym])

declare load_loop.simps [simp del]

definition n2a_load ::
  "(nat \<Rightarrow> string \<times> string) \<Rightarrow> heap \<Rightarrow> fs \<Rightarrow> fifo \<Rightarrow> (nat \<times> heap \<times> fs \<times> fifo) option" where
  "n2a_load stk h d f =
     (if file_lock f then Some (0, h, d, f)
      else let (ok, d1, f1) = n2a_fifo_open_file d f in
        if ok = 0 then Some (0, h, d1, f1)
        else do {
          content \<leftarrow> disk d1;
          (i, h2, f2) \<leftarrow> load_loop stk 0 content h (f1\<lparr>file_lock := True\<rparr>);
          Some (i, h2, d1, f2\<lparr>pFile := None, file_lock := False\<rparr>)
        })"

definition n2a_fifo_init ::
  "(nat \<Rightarrow> string \<times> string) \<Rightarrow> heap \<Rightarrow> fs \<Rightarrow> int \<Rightarrow> string \<Rightarrow> (heap \<times> fs \<times> fifo) option" where
  "n2a_fifo_init stk h d max_sz path = do {
     let f = \<lparr>fifo_first = None, fifo_last = None, fifo_size = 0,
              fifo_max_size = word_of_int max_sz, file_path = path, pFile = None,
              file_lock = False, dirty = False, full = False\<rparr>;
     (loaded, h', d', f') \<leftarrow> n2a_load stk h d f;
     Some (h', d', f')
   }"

section \<open>Saving\<close>

text \<open>The loop that prints each event as two lines.\<close>

partial_function (option) csync_loop ::
  "heap \<Rightarrow> addr option \<Rightarrow> fs \<Rightarrow> file_stream \<Rightarrow> nat \<Rightarrow> (nat \<times> fs \<times> file_stream) option" where
  "csync_loop h p d st i =
     (case p of
        None \<Rightarrow> Some (i, d, st)
      | Some a \<Rightarrow> do {
          e \<leftarrow> cells h a;
          r \<leftarrow> rk e;
          m \<leftarrow> msg e;
          csync_loop h (pNext e)
            (fst (fwrite_string d st (r @ [NL] @ m @ [NL])))
            (snd (fwrite_string d st (r @ [NL] @ m @ [NL]))) (i + 1)
        })"

definition n2a_csync :: "heap \<Rightarrow> fs \<Rightarrow> fifo option \<Rightarrow> (nat \<times> fs \<times> fifo option) option" where
  "n2a_csync h d pFifo =
     (case pFifo of
        None \<Rightarrow> Some (0, d, None)
      | Some f \<Rightarrow>
          if \<not> dirty f then Some (0, d, Some f)
          else if file_lock f then Some (0, d, Some f)
          else do {
            let f1 = f\<lparr>file_lock := True\<rparr>;
            let (r, d1, f2) = n2a_clear d f1;
            let (ok, d2, f3) = n2a_fifo_open_file d1 f2;
            if ok = 0 then Some (0, d2, Some (f3\<lparr>file_lock := False\<rparr>))
            else do {
              st \<leftarrow> pFile f3;
              (i, d3, st') \<leftarrow> csync_loop h (fifo_first f3) d2 st 0;
              Some (i, d3, Some (f3\<lparr>pFile := Some st', file_lock := False, dirty := False\<rparr>))
            }
          })"

section \<open>Destroying the queue\<close>

text \<open>The \<^verbatim>\<open>do \<dots> while\<close> loop that frees every event.\<close>

partial_function (option) free_loop :: "heap \<Rightarrow> addr option \<Rightarrow> heap option" where
  "free_loop h pEvent = do {
     e \<leftarrow> deref h pEvent;
     h' \<leftarrow> n2a_free_event h pEvent;
     (if pNext e \<noteq> None then free_loop h' (pNext e) else Some h')
   }"

definition n2a_free_fifo :: "heap \<Rightarrow> fs \<Rightarrow> fifo option \<Rightarrow> (heap \<times> fs) option" where
  "n2a_free_fifo h d pFifo = do {
     (i, d1, q) \<leftarrow> n2a_csync h d pFifo;
     f \<leftarrow> q;
     h1 \<leftarrow> (if fifo_first f \<noteq> None then free_loop h (fifo_first f) else Some h);
     Some (h1, d1)
   }"

end
