(* ===== verification/Fifo_Queue.thy ===== *)
theory Fifo_Queue
  imports Fifo_Refine
begin

text \<open>
  The contract of the event queue, as its clients (\<^verbatim>\<open>n2a_load\<close>, \<^verbatim>\<open>n2a_fifo_check\<close>,
  \<^verbatim>\<open>n2a_send_event\<close>) use it: \<open>rep s xs\<close> says that the queue in state \<open>s\<close> holds the events
  \<open>xs\<close> and nothing else is allocated, \<open>held s p x xs\<close> that one more event \<open>x\<close> has been taken
  out of it, or not yet put into it, and is owned by the client through the pointer \<open>p\<close>.
\<close>

section \<open>The interface\<close>

locale event_queue =
  fixes rep :: "'s \<Rightarrow> (string \<times> string) list \<Rightarrow> bool"
    and held :: "'s \<Rightarrow> 'p \<Rightarrow> string \<times> string \<Rightarrow> (string \<times> string) list \<Rightarrow> bool"
    and cap :: "'s \<Rightarrow> nat"
    and alloc :: "'s \<Rightarrow> string \<Rightarrow> string \<Rightarrow> ('p \<times> 's) option"
    and release :: "'s \<Rightarrow> 'p \<Rightarrow> 's option"
    and push :: "'s \<Rightarrow> 'p \<Rightarrow> (int \<times> 's) option"
    and prepend :: "'s \<Rightarrow> 'p \<Rightarrow> (int \<times> 's) option"
    and shift :: "'s \<Rightarrow> ('p option \<times> 's) option"
  assumes alloc_law: "rep s xs \<Longrightarrow>
        \<exists>p s'. alloc s r m = Some (p, s') \<and> held s' p (r, m) xs \<and> cap s' = cap s"
    and release_law: "held s p x xs \<Longrightarrow> \<exists>s'. release s p = Some s' \<and> rep s' xs \<and> cap s' = cap s"
    and push_law: "held s p x xs \<Longrightarrow>
        \<exists>n s'. push s p = Some (n, s') \<and> rep s' (push_list (cap s) xs x) \<and> cap s' = cap s \<and>
               n = to_int (int (length (push_list (cap s) xs x)))"
    and prepend_law: "held s p x xs \<Longrightarrow> length xs < cap s \<Longrightarrow>
        \<exists>n s'. prepend s p = Some (n, s') \<and> rep s' (x # xs) \<and> cap s' = cap s"
    and shift_empty_law: "rep s [] \<Longrightarrow> shift s = Some (None, s)"
    and shift_law: "rep s (x # xs) \<Longrightarrow>
        \<exists>p s'. shift s = Some (Some p, s') \<and> held s' p x xs \<and> cap s' = cap s"
begin

text \<open>The sequences of calls the clients make.\<close>

lemma enqueue:
  assumes "rep s xs"
  shows "\<exists>n s'. Option.bind (alloc s r m) (\<lambda>(p, s1). push s1 p) = Some (n, s') \<and>
           rep s' (push_list (cap s) xs (r, m)) \<and> cap s' = cap s \<and>
           n = to_int (int (length (push_list (cap s) xs (r, m))))"
proof -
  from alloc_law [OF assms] obtain p s1
    where a: "alloc s r m = Some (p, s1)" "held s1 p (r, m) xs" "cap s1 = cap s" by blast
  from push_law [OF a(2)] show ?thesis using a by auto
qed

lemma shift_release:
  assumes "rep s (x # xs)"
  shows "\<exists>p s1 s2. shift s = Some (Some p, s1) \<and> release s1 p = Some s2 \<and> rep s2 xs \<and> cap s2 = cap s"
proof -
  from shift_law [OF assms] obtain p s1
    where a: "shift s = Some (Some p, s1)" "held s1 p x xs" "cap s1 = cap s" by blast
  from release_law [OF a(2)] show ?thesis using a by auto
qed

lemma shift_prepend:
  assumes "rep s (x # xs)" and "length xs < cap s"
  shows "\<exists>p n s1 s2. shift s = Some (Some p, s1) \<and> prepend s1 p = Some (n, s2) \<and>
           rep s2 (x # xs) \<and> cap s2 = cap s"
proof -
  from shift_law [OF assms(1)] obtain p s1
    where a: "shift s = Some (Some p, s1)" "held s1 p x xs" "cap s1 = cap s" by blast
  from prepend_law [OF a(2)] a(3) assms(2) show ?thesis using a by auto
qed

end

section \<open>The queue of \<^verbatim>\<open>fifo.c\<close> provides it\<close>

definition queue_rep :: "heap \<times> fifo \<Rightarrow> (string \<times> string) list \<Rightarrow> bool" where
  "queue_rep = (\<lambda>(h, f) xs. \<exists>as. fifo_rep h f as xs \<and> heap_ok h \<and> dom (cells h) = set as)"

definition queue_held :: "heap \<times> fifo \<Rightarrow> addr \<Rightarrow> string \<times> string \<Rightarrow> (string \<times> string) list \<Rightarrow> bool" where
  "queue_held = (\<lambda>(h, f) p (r, m) xs. \<exists>as. fifo_rep h f as xs \<and> heap_ok h \<and>
     cells h p = Some (fresh_node r m) \<and> p \<notin> set as \<and> dom (cells h) = insert p (set as))"

definition queue_cap :: "heap \<times> fifo \<Rightarrow> nat" where
  "queue_cap = (\<lambda>(h, f). unat (fifo_max_size f))"

lemma heap_ok_dom: "heap_ok h \<Longrightarrow> dom (cells h') \<subseteq> dom (cells h) \<Longrightarrow> brk h' = brk h \<Longrightarrow> heap_ok h'"
  by (auto simp: heap_ok_def)

lemma queue_alloc:
  assumes "queue_rep (h, f) xs"
  shows "\<exists>p h'. n2a_event_init h (Some r) (Some m) = Some (p, h') \<and> queue_held (h', f) p (r, m) xs"
proof -
  from assms obtain as where rep: "fifo_rep h f as xs" and ok: "heap_ok h" and dom: "dom (cells h) = set as"
    by (auto simp: queue_rep_def)
  let ?p = "brk h"
  let ?h' = "h\<lparr>cells := (cells h)(brk h \<mapsto> fresh_node r m), brk := Suc (brk h)\<rparr>"
  note init = event_init_spec(1) [OF ok, of r m] event_init_spec(2) [OF ok]
  then have "?p \<notin> set as" using dom by auto
  then have "fifo_rep ?h' f as xs" by (intro fifo_rep_cong [OF rep]) auto
  moreover have "heap_ok ?h'" using ok by (auto simp: heap_ok_def less_Suc_eq)
  ultimately show ?thesis using init dom \<open>?p \<notin> set as\<close> by (auto simp: queue_held_def)
qed

lemma queue_release:
  assumes "queue_held (h, f) p x xs"
  shows "\<exists>h'. n2a_free_event h (Some p) = Some h' \<and> queue_rep (h', f) xs"
proof -
  obtain r m where x: "x = (r, m)" by (cases x)
  from assms x obtain as where rep: "fifo_rep h f as xs" and ok: "heap_ok h"
    and p: "cells h p = Some (fresh_node r m)" "p \<notin> set as" and dom: "dom (cells h) = insert p (set as)"
    by (auto simp: queue_held_def)
  have "fifo_rep (h\<lparr>cells := (cells h)(p := None)\<rparr>) f as xs"
    using p by (intro fifo_rep_cong [OF rep]) auto
  then show ?thesis using ok p dom by (auto simp: queue_rep_def heap_simps)
qed

lemma queue_push:
  assumes "queue_held (h, f) p x xs"
  shows "\<exists>h' f'. n2a_push h f p =
            Some (to_int (int (length (push_list (unat (fifo_max_size f)) xs x))), h', f') \<and>
          queue_rep (h', f') (push_list (unat (fifo_max_size f)) xs x) \<and> touched f f'"
proof -
  obtain r m where x: "x = (r, m)" by (cases x)
  from assms x obtain as where rep: "fifo_rep h f as xs" and ok: "heap_ok h"
    and p: "cells h p = Some (fresh_node r m)" "p \<notin> set as" and dom: "dom (cells h) = insert p (set as)"
    by (auto simp: queue_held_def)
  let ?as = "push_list (unat (fifo_max_size f)) as p"
  from n2a_push_refines [OF rep p] obtain h' f'
    where run: "n2a_push h f p = Some (to_int (uint (fifo_size f')), h', f')"
      and rep': "fifo_rep h' f' ?as (push_list (unat (fifo_max_size f)) xs (r, m))"
      and t: "touched f f'" and b: "brk h' = brk h"
      and d: "dom (cells h') = dom (cells h) - (set as - set ?as)"
    by blast
  have sz: "uint (fifo_size f') = int (length (push_list (unat (fifo_max_size f)) xs (r, m)))"
    using rep' by (simp add: fifo_rep_def flip: unat_eq_nat_uint int_eq_iff) (simp add: uint_nat)
  have "set ?as = insert p (set as) - (set as - set ?as)"
    using p by (cases as) (auto simp: push_list_def)
  then have "queue_rep (h', f') (push_list (unat (fifo_max_size f)) xs (r, m))"
    using rep' d dom heap_ok_dom [OF ok, of h'] b by (auto simp: queue_rep_def)
  with run t sz x show ?thesis by simp
qed

lemma queue_prepend:
  assumes "queue_held (h, f) p x xs" and "length xs < unat (fifo_max_size f)"
  shows "\<exists>n h' f'. n2a_prepend h f p = Some (n, h', f') \<and> queue_rep (h', f') (x # xs) \<and> touched f f'"
proof -
  obtain r m where x: "x = (r, m)" by (cases x)
  from assms x obtain as where rep: "fifo_rep h f as xs" and ok: "heap_ok h"
    and p: "cells h p = Some (fresh_node r m)" "p \<notin> set as" and dom: "dom (cells h) = insert p (set as)"
    by (auto simp: queue_held_def)
  from n2a_prepend_refines [OF rep p assms(2)] x dom heap_ok_dom [OF ok]
  show ?thesis by (fastforce simp: queue_rep_def)
qed

lemma queue_shift:
  assumes "queue_rep (h, f) (x # xs)"
  shows "\<exists>p h' f'. n2a_shift h f = Some (Some p, h', f') \<and> queue_held (h', f') p x xs \<and> touched f f'"
proof -
  obtain r m where x: "x = (r, m)" by (cases x)
  from assms obtain as where rep: "fifo_rep h f as (x # xs)" and ok: "heap_ok h" and dom: "dom (cells h) = set as"
    by (auto simp: queue_rep_def)
  then obtain a as0 where as: "as = a # as0" using fifo_rep_length [OF rep] by (cases as) auto
  from rep as have "a \<notin> set as0" by (auto simp: fifo_rep_def)
  with n2a_shift_refines [of h f a as0 r m xs] rep as x dom heap_ok_dom [OF ok]
  show ?thesis by (fastforce simp: queue_held_def touched_def)
qed

lemma queue_shift_empty: "queue_rep (h, f) [] \<Longrightarrow> n2a_shift h f = Some (None, h, f)"
  using fifo_rep_length by (fastforce simp: queue_rep_def n2a_shift_empty)

interpretation q: event_queue queue_rep queue_held queue_cap
  "\<lambda>(h, f) r m. map_option (\<lambda>(p, h'). (p, (h', f))) (n2a_event_init h (Some r) (Some m))"
  "\<lambda>(h, f) p. map_option (\<lambda>h'. (h', f)) (n2a_free_event h (Some p))"
  "\<lambda>(h, f) p. n2a_push h f p"
  "\<lambda>(h, f) p. n2a_prepend h f p"
  "\<lambda>(h, f). n2a_shift h f"
proof (unfold_locales, goal_cases)
  case (1 s xs r m)
  then show ?case using queue_alloc [of "fst s" "snd s" xs r m] by (cases s) (fastforce simp: queue_cap_def)
next
  case (2 s p x xs)
  then show ?case using queue_release [of "fst s" "snd s" p x xs] by (cases s) (fastforce simp: queue_cap_def)
next
  case (3 s p x xs)
  then show ?case using queue_push [of "fst s" "snd s" p x xs]
    by (cases s) (fastforce simp: queue_cap_def touched_def)
next
  case (4 s p x xs)
  then show ?case using queue_prepend [of "fst s" "snd s" p x xs]
    by (cases s) (fastforce simp: queue_cap_def touched_def)
next
  case (5 s)
  then show ?case using queue_shift_empty [of "fst s" "snd s"] by (cases s) simp
next
  case (6 s x xs)
  then show ?case using queue_shift [of "fst s" "snd s" x xs]
    by (cases s) (fastforce simp: queue_cap_def touched_def)
qed

end
