(* ===== verification/Fifo_Sync.thy ===== *)
theory Fifo_Sync
  imports Fifo_File Fifo_Queue
begin

text \<open>
  Saving and loading the queue: \<^verbatim>\<open>n2a_csync\<close> writes the queued events in order, two lines
  each, and \<^verbatim>\<open>n2a_load\<close> reads such a file back.
\<close>

section \<open>The file format\<close>

definition event_lines :: "string \<times> string \<Rightarrow> string" where
  "event_lines = (\<lambda>(r, m). r @ [NL] @ m @ [NL])"

definition file_of :: "(string \<times> string) list \<Rightarrow> string" where
  "file_of xs = concat (map event_lines xs)"

lemma file_of_simps [simp]:
  "file_of [] = []"
  "file_of ((r, m) # xs) = r @ [NL] @ m @ [NL] @ file_of xs"
  "file_of (xs @ ys) = file_of xs @ file_of ys"
  by (simp_all add: file_of_def event_lines_def)

section \<open>Writing\<close>

lemma write_at_end [simp]: "write_at (length s) bs s = s @ bs"
  by (simp add: write_at_def)

lemma write_at_append: "write_at (n + length a) b (write_at n a s) = write_at n (a @ b) s"
  if "n \<le> length s"
  using that by (simp add: write_at_def min_def ac_simps)

text \<open>
  The loop writes the events from the stream's position on, over whatever the file held
  there.
\<close>

lemma csync_loop_writes:
  assumes "seg h pr p as l None" and "map (node_val h) as = map Some xs"
    and "disk d = Some c" and "pos st \<le> length c"
  shows "csync_loop h p d st i =
     Some (i + length xs, d\<lparr>disk := Some (write_at (pos st) (file_of xs) c)\<rparr>,
           st\<lparr>pos := pos st + length (file_of xs)\<rparr>)"
  using assms
proof (induction as arbitrary: pr p xs d st c i)
  case Nil
  then show ?case by (cases st) (simp add: csync_loop.simps write_at_def)
next
  case (Cons a as)
  from Cons.prems(2) obtain r m ys where xs: "xs = (r, m) # ys" by (cases xs) auto
  from Cons.prems(1,2) xs obtain e where e: "cells h a = Some e" "p = Some a" "rk e = Some r" "msg e = Some m"
    and sg: "seg h (Some a) (pNext e) as l None"
    by (auto split: option.splits dest: node_val_SomeD)
  let ?b = "r @ [NL] @ m @ [NL]"
  let ?c = "write_at (pos st) ?b c"
  let ?d = "d\<lparr>disk := Some ?c\<rparr>" and ?st = "st\<lparr>pos := pos st + length ?b\<rparr>"
  have vals: "map (node_val h) as = map Some ys" using Cons.prems(2) xs by simp
  have "pos ?st \<le> length ?c" using Cons.prems(4) by (simp add: write_at_def)
  from Cons.IH [OF sg vals _ this, of ?d "i + 1"]
  have "csync_loop h (pNext e) ?d ?st (i + 1) =
      Some (i + 1 + length ys, ?d\<lparr>disk := Some (write_at (pos ?st) (file_of ys) ?c)\<rparr>,
            ?st\<lparr>pos := pos ?st + length (file_of ys)\<rparr>)" by simp
  moreover have "write_at (pos ?st) (file_of ys) ?c = write_at (pos st) (file_of xs) c"
    using write_at_append [OF Cons.prems(4), of ?b "file_of ys"] xs by simp
  ultimately show ?case
    using e xs Cons.prems(3)
    by (subst csync_loop.simps) (simp add: fwrite_string_def ac_simps)
qed

text \<open>The same queue under another file state is the same queue.\<close>

definition same_queue :: "fifo \<Rightarrow> fifo \<Rightarrow> bool" where
  "same_queue f f' \<longleftrightarrow> fifo_first f' = fifo_first f \<and> fifo_last f' = fifo_last f \<and>
     fifo_size f' = fifo_size f \<and> fifo_max_size f' = fifo_max_size f \<and> file_path f' = file_path f \<and>
     full f' = full f"

lemma same_queue_rep: "same_queue f f' \<Longrightarrow> queue_rep (h, f) xs \<Longrightarrow> queue_rep (h, f') xs"
  by (auto simp: same_queue_def queue_rep_def intro: fifo_rep_config)

lemma open_file_same_queue: "n2a_fifo_open_file d f = (r, d', f') \<Longrightarrow> same_queue f f'"
  by (auto simp: n2a_fifo_open_file_def Let_def fopen_create_def fopen_update_def same_queue_def
      split: option.splits if_splits)

text \<open>
  Whatever the file system allows, \<^verbatim>\<open>n2a_csync\<close> on a well-formed queue has a defined result
  and leaves the queue as it is.
\<close>

lemma fifo_rep_segD:
  "fifo_rep h f as xs \<Longrightarrow>
   \<exists>l. seg h None (fifo_first f) as l None \<and> map (node_val h) as = map Some xs"
  by (auto simp: fifo_rep_def simp del: map_eq_conv)

lemma open_file_opened:
  assumes "n2a_fifo_open_file d f = (r, d', f')" and "r \<noteq> 0" and "pFile f = None"
  shows "\<exists>c. disk d' = Some c \<and> pFile f' = Some \<lparr>pos = 0\<rparr>"
  using assms by (auto simp: n2a_fifo_open_file_def Let_def fopen_create_def fopen_update_def
      split: option.splits if_splits)

lemma csync_defined:
  assumes "queue_rep (h, f) xs"
  shows "\<exists>i d' f'. n2a_csync h d (Some f) = Some (i, d', Some f') \<and> same_queue f f'"
proof (cases "\<not> dirty f \<or> file_lock f")
  case True
  then show ?thesis by (auto simp: n2a_csync_def same_queue_def)
next
  case False
  from assms obtain as where rep: "fifo_rep h f as xs" by (auto simp: queue_rep_def)
  let ?f1 = "f\<lparr>file_lock := True\<rparr>"
  obtain r d1 f2 where cl: "n2a_clear d ?f1 = (r, d1, f2)" by (cases "n2a_clear d ?f1") auto
  then have f2: "f2 = ?f1\<lparr>pFile := None\<rparr>" by (auto simp: n2a_clear_def split: prod.splits)
  obtain ok d2 f3 where op: "n2a_fifo_open_file d1 f2 = (ok, d2, f3)"
    by (cases "n2a_fifo_open_file d1 f2") auto
  have same: "same_queue f f3"
    using open_file_same_queue [OF op] f2 by (simp add: same_queue_def)
  show ?thesis
  proof (cases "ok = 0")
    case True
    with False cl op same show ?thesis by (auto simp: n2a_csync_def Let_def same_queue_def)
  next
    case opened: False
    from open_file_opened [OF op this] f2 obtain c where c: "disk d2 = Some c" "pFile f3 = Some \<lparr>pos = 0\<rparr>"
      by auto
    have "fifo_first f3 = fifo_first f" using same by (simp add: same_queue_def)
    moreover from fifo_rep_segD [OF rep] obtain l
      where "seg h None (fifo_first f) as l None" "map (node_val h) as = map Some xs" by blast
    note csync_loop_writes [OF this c(1), of "\<lparr>pos = 0\<rparr>" 0]
    ultimately show ?thesis using False cl op opened c same
      by (auto simp: n2a_csync_def Let_def same_queue_def)
  qed
qed

text \<open>
  When the old file can be removed and a new one created, the file then holds exactly the
  queued events.
\<close>

lemma csync_writes_queue:
  assumes "queue_rep (h, f) xs" and "dirty f" and "\<not> file_lock f"
    and "may_unlink d \<or> disk d = None" and "may_create d"
  shows "\<exists>f'. n2a_csync h d (Some f) = Some (length xs, d\<lparr>disk := Some (file_of xs)\<rparr>, Some f') \<and>
     same_queue f f' \<and> \<not> dirty f' \<and> \<not> file_lock f'"
proof -
  from assms(1) obtain as where rep: "fifo_rep h f as xs" by (auto simp: queue_rep_def)
  from fifo_rep_segD [OF rep] obtain l
    where "seg h None (fifo_first f) as l None" "map (node_val h) as = map Some xs" by blast
  note loop = csync_loop_writes [OF this, of "d\<lparr>disk := Some []\<rparr>" "[]" "\<lparr>pos = 0\<rparr>" 0]
  show ?thesis using assms(2-5) loop
    by (auto simp: n2a_csync_def Let_def n2a_clear_def unlink_file_def n2a_fifo_open_file_def
        fopen_update_def fopen_create_def same_queue_def write_at_def split: if_splits)
qed

text \<open>
  When the old file cannot be removed but can be written, its old tail stays behind the new
  events.
\<close>

lemma csync_keeps_tail:
  assumes "queue_rep (h, f) xs" and "dirty f" and "\<not> file_lock f"
    and "\<not> may_unlink d" and "disk d = Some old" and "may_update d"
  shows "\<exists>f'. n2a_csync h d (Some f) =
     Some (length xs, d\<lparr>disk := Some (file_of xs @ drop (length (file_of xs)) old)\<rparr>, Some f')"
proof -
  from assms(1) obtain as where rep: "fifo_rep h f as xs" by (auto simp: queue_rep_def)
  from fifo_rep_segD [OF rep] obtain l
    where "seg h None (fifo_first f) as l None" "map (node_val h) as = map Some xs" by blast
  note loop = csync_loop_writes [OF this assms(5), of "\<lparr>pos = 0\<rparr>" 0]
  show ?thesis using assms(2-6) loop
    by (auto simp: n2a_csync_def Let_def n2a_clear_def unlink_file_def n2a_fifo_open_file_def
        fopen_update_def write_at_def)
qed


text \<open>What the process may do with the file never changes.\<close>

definition permissions :: "fs \<Rightarrow> bool \<times> bool \<times> bool" where
  "permissions d = (may_update d, may_create d, may_unlink d)"

definition file_rw :: "fs \<Rightarrow> bool" where
  "file_rw d \<longleftrightarrow> permissions d = (True, True, True)"

lemma open_file_permissions:
  "n2a_fifo_open_file d f = (r, d', f') \<Longrightarrow> permissions d' = permissions d"
  by (auto simp: n2a_fifo_open_file_def Let_def fopen_create_def fopen_update_def permissions_def
      split: option.splits if_splits)

lemma clear_permissions: "n2a_clear d f = (r, d', f') \<Longrightarrow> permissions d' = permissions d"
  by (auto simp: n2a_clear_def unlink_file_def permissions_def split: if_splits)

text \<open>The whole effect of \<^verbatim>\<open>n2a_csync\<close> on a queue whose file is not locked.\<close>

definition file_current :: "fs \<Rightarrow> (string \<times> string) list \<Rightarrow> bool" where
  "file_current d xs \<longleftrightarrow> (file_rw d \<longrightarrow> disk d = Some (file_of xs))"

lemma csync_effect:
  assumes rep: "queue_rep (h, f) xs" and "\<not> file_lock f" and cur: "dirty f \<or> file_current d xs"
  shows "\<exists>i d' f'. n2a_csync h d (Some f) = Some (i, d', Some f') \<and> same_queue f f' \<and>
     \<not> file_lock f' \<and> permissions d' = permissions d \<and> (dirty f' \<or> file_current d' xs) \<and>
     (file_rw d \<longrightarrow> file_current d' xs)"
proof (cases "dirty f")
  case False
  then show ?thesis using assms by (auto simp: n2a_csync_def same_queue_def)
next
  case True
  show ?thesis
  proof (cases "file_rw d")
    case True
    then have "may_unlink d" "may_create d" by (simp_all add: file_rw_def permissions_def)
    with csync_writes_queue [OF rep \<open>dirty f\<close> assms(2), of d] obtain f' where
      "n2a_csync h d (Some f) = Some (length xs, d\<lparr>disk := Some (file_of xs)\<rparr>, Some f')"
      "same_queue f f'" "\<not> dirty f'" "\<not> file_lock f'" by blast
    then show ?thesis by (simp add: permissions_def file_current_def)
  next
    case nrw: False
    let ?f1 = "f\<lparr>file_lock := True\<rparr>"
    obtain r d1 f2 where cl: "n2a_clear d ?f1 = (r, d1, f2)" by (cases "n2a_clear d ?f1") auto
    then have f2: "f2 = ?f1\<lparr>pFile := None\<rparr>" by (auto simp: n2a_clear_def split: prod.splits)
    obtain ok d2 f3 where op: "n2a_fifo_open_file d1 f2 = (ok, d2, f3)"
      by (cases "n2a_fifo_open_file d1 f2") auto
    have same: "same_queue f f3"
      using open_file_same_queue [OF op] f2 by (simp add: same_queue_def)
    have perm: "permissions d2 = permissions d"
      using open_file_permissions [OF op] clear_permissions [OF cl] by simp
    then have cur2: "file_current (d2\<lparr>disk := z\<rparr>) xs" "file_current d2 xs" for z
      using nrw by (auto simp: file_current_def file_rw_def permissions_def)
    show ?thesis
    proof (cases "ok = 0")
      case True
      with assms(2) \<open>dirty f\<close> cl op same perm cur2 nrw show ?thesis
        by (auto simp: n2a_csync_def Let_def same_queue_def)
    next
      case opened: False
      from open_file_opened [OF op this] f2 obtain c where c: "disk d2 = Some c" "pFile f3 = Some \<lparr>pos = 0\<rparr>"
        by auto
      have "fifo_first f3 = fifo_first f" using same by (simp add: same_queue_def)
      moreover from rep obtain as where "fifo_rep h f as xs" by (auto simp: queue_rep_def)
      from fifo_rep_segD [OF this] obtain l
        where "seg h None (fifo_first f) as l None" "map (node_val h) as = map Some xs" by blast
      note csync_loop_writes [OF this c(1), of "\<lparr>pos = 0\<rparr>" 0]
      ultimately show ?thesis using assms(2) \<open>dirty f\<close> cl op opened c same cur2 nrw perm
        by (auto simp: n2a_csync_def Let_def same_queue_def permissions_def)
    qed
  qed
qed

section \<open>Reading back\<close>

text \<open>An event the file can carry: no newline or NUL in it, and each line fits the buffer.\<close>

definition storable :: "string \<times> string \<Rightarrow> bool" where
  "storable = (\<lambda>(r, m). NL \<notin> set r \<and> NL \<notin> set m \<and> is_cstr r \<and> is_cstr m \<and>
     length r < EVENT_MSG_MAX_SIZE - 1 \<and> length m < EVENT_MSG_MAX_SIZE - 1)"

lemma fgets_line:
  assumes "NL \<notin> set l" and "is_cstr l" and "length l < n - 1"
  shows "fgets n old (l @ NL # rest) = (l @ [NL], rest, False)"
proof -
  have "takeWhile (\<lambda>c. c \<noteq> NL) (l @ NL # rest) = l"
    using assms(1) by (subst takeWhile_append2) auto
  then have "fgets_take (n - 1) (l @ NL # rest) = l @ [NL]"
    using assms(3) by (simp add: fgets_take_def)
  moreover have "is_cstr (l @ [NL])" using assms(2) by simp
  ultimately show ?thesis by (simp add: fgets_def)
qed

lemma fgets_eof: "1 < n \<Longrightarrow> fgets n old [] = (old, [], True)"
  by (simp add: fgets_def fgets_take_def)

lemma chop_line [simp]: "chop (l @ [NL]) = Some l"
  by (simp add: chop_def)

text \<open>
  Reading such a file pushes its events in order, and then one more: the loop tests for the
  end of file before it has tried to read past the last line, so a last iteration works on
  what the stack happens to hold. If that is the empty string, a byte before the buffer is
  overwritten.
\<close>

definition enqueue :: "heap \<Rightarrow> fifo \<Rightarrow> string \<times> string \<Rightarrow> (heap \<times> fifo) option" where
  "enqueue h f x = do {
     (p, h1) \<leftarrow> n2a_event_init h (Some (fst x)) (Some (snd x));
     (n, h2, f2) \<leftarrow> n2a_push h1 f p;
     Some (h2, f2)
   }"

fun enqueue_all :: "heap \<Rightarrow> fifo \<Rightarrow> (string \<times> string) list \<Rightarrow> (heap \<times> fifo) option" where
  "enqueue_all h f [] = Some (h, f)"
| "enqueue_all h f (x # xs) = do { (h1, f1) \<leftarrow> enqueue h f x; enqueue_all h1 f1 xs }"

lemma load_loop_event:
  assumes "storable (r, m)"
  shows "load_loop stk i (r @ [NL] @ m @ [NL] @ rest) h f =
     do { (h1, f1) \<leftarrow> enqueue h f (r, m); load_loop stk (i + 1) rest h1 f1 }"
proof -
  have "fgets EVENT_MSG_MAX_SIZE old (r @ NL # rest') = (r @ [NL], rest', False)"
    "fgets EVENT_MSG_MAX_SIZE old (m @ NL # rest') = (m @ [NL], rest', False)" for old rest'
    using assms by (auto simp: storable_def intro!: fgets_line)
  then show ?thesis
    by (subst load_loop.simps) (simp add: enqueue_def split_def)
qed

lemma load_loop_end:
  "load_loop stk i [] h f = do {
     rk1 \<leftarrow> chop (fst (stk i));
     msg1 \<leftarrow> chop (snd (stk i));
     (h1, f1) \<leftarrow> enqueue h f (rk1, msg1);
     Some (i + 1, h1, f1)
   }"
  by (subst load_loop.simps) (simp add: fgets_eof EVENT_MSG_MAX_SIZE_def enqueue_def split_def)

lemma load_loop_file:
  assumes "\<forall>x \<in> set xs. storable x"
  shows "load_loop stk i (file_of xs) h f =
     do { (h1, f1) \<leftarrow> enqueue_all h f xs; load_loop stk (i + length xs) [] h1 f1 }"
  using assms
proof (induction xs arbitrary: i h f)
  case Nil
  then show ?case by simp
next
  case (Cons x xs)
  obtain r m where x: "x = (r, m)" by (cases x)
  have "load_loop stk i (file_of (x # xs)) h f =
      do { (h1, f1) \<leftarrow> enqueue h f (r, m); load_loop stk (i + 1) (file_of xs) h1 f1 }"
    using load_loop_event [of r m stk i "file_of xs" h f] Cons.prems x by simp
  with Cons x show ?case by (simp add: split_def)
qed

lemma enqueue_refines:
  assumes "queue_rep (h, f) xs"
  shows "\<exists>h' f'. enqueue h f x = Some (h', f') \<and> touched f f' \<and>
     queue_rep (h', f') (push_list (unat (fifo_max_size f)) xs x)"
proof -
  obtain r m where x: "x = (r, m)" by (cases x)
  from queue_alloc [OF assms, of r m] obtain p h1
    where a: "n2a_event_init h (Some r) (Some m) = Some (p, h1)" "queue_held (h1, f) p (r, m) xs" by blast
  from queue_push [OF a(2)] a(1) x show ?thesis by (auto simp: enqueue_def)
qed

lemma enqueue_all_refines:
  assumes "queue_rep (h, f) xs"
  shows "\<exists>h' f'. enqueue_all h f ys = Some (h', f') \<and>
     queue_rep (h', f') (foldl (push_list (unat (fifo_max_size f))) xs ys) \<and>
     fifo_max_size f' = fifo_max_size f"
  using assms
proof (induction ys arbitrary: h f xs)
  case Nil
  then show ?case by simp
next
  case (Cons y ys)
  from enqueue_refines [OF Cons.prems, of y] obtain h1 f1
    where e: "enqueue h f y = Some (h1, f1)" "touched f f1"
      "queue_rep (h1, f1) (push_list (unat (fifo_max_size f)) xs y)" by blast
  from Cons.IH [OF e(3)] e show ?case by (auto simp: touched_def)
qed

lemma foldl_push_list_room:
  "length xs + length ys \<le> mx \<Longrightarrow> foldl (push_list mx) xs ys = xs @ ys"
  by (induction ys arbitrary: xs) (auto simp: push_list_def)

lemma foldl_push_list:
  assumes "0 < mx" and "length xs \<le> mx"
  shows "foldl (push_list mx) xs ys = drop (length xs + length ys - mx) (xs @ ys)"
  using assms(2)
proof (induction ys arbitrary: xs)
  case Nil
  then show ?case by simp
next
  case (Cons y ys)
  have len: "length (push_list mx xs y) \<le> mx"
    using Cons.prems assms(1) by (auto simp: push_list_def)
  show ?case
  proof (cases "mx \<le> length xs")
    case False
    with Cons.IH [OF len] show ?thesis by (simp add: push_list_def)
  next
    case True
    with assms(1) obtain x xs' where xs: "xs = x # xs'" by (cases xs) auto
    have mx: "mx = Suc (length xs')" using True Cons.prems xs by simp
    from Cons.IH [OF len] show ?thesis by (simp add: push_list_def xs mx)
  qed
qed

lemma fifo_init_loads:
  assumes "disk d = Some (file_of xs)" and "may_update d" and "\<forall>x \<in> set xs. storable x"
    and "fst (stk (length xs)) = r0 @ [c0]" and "snd (stk (length xs)) = m0 @ [c1]"
    and "0 < mx" and "mx \<le> INT_MAX"
  shows "\<exists>h f. n2a_fifo_init stk empty_heap d mx path = Some (h, d, f) \<and>
     queue_rep (h, f) (drop (Suc (length xs) - nat mx) (xs @ [(r0, m0)])) \<and>
     fifo_max_size f = word_of_int mx \<and> \<not> file_lock f \<and> pFile f = None \<and> dirty f"
proof -
  let ?f0 = "\<lparr>fifo_first = None, fifo_last = None, fifo_size = 0, fifo_max_size = word_of_int mx,
     file_path = path, pFile = Some \<lparr>pos = 0\<rparr>, file_lock = True, dirty = False, full = False\<rparr>"
  have rep0: "queue_rep (empty_heap, ?f0) []"
    by (auto simp: queue_rep_def heap_ok_def empty_heap_def intro!: exI [of _ "[]"])
  have mx: "unat (word_of_int mx :: 32 word) = nat mx"
    using assms(6,7) by (simp add: unat_eq_nat_uint uint_word_of_int INT_MAX_def)
  from enqueue_all_refines [OF rep0, of xs] obtain h1 f1
    where 1: "enqueue_all empty_heap ?f0 xs = Some (h1, f1)"
      "queue_rep (h1, f1) (foldl (push_list (nat mx)) [] xs)" "fifo_max_size f1 = word_of_int mx"
    by (auto simp: mx)
  from enqueue_refines [OF 1(2), of "(r0, m0)"] 1(3) obtain h2 f2
    where 2: "enqueue h1 f1 (r0, m0) = Some (h2, f2)" "touched f1 f2"
      "queue_rep (h2, f2) (push_list (nat mx) (foldl (push_list (nat mx)) [] xs) (r0, m0))"
    by (auto simp: mx)
  have "load_loop stk 0 (file_of xs) empty_heap ?f0 = Some (length xs + 1, h2, f2)"
    using 1(1) 2(1) assms(4,5)
    by (simp add: load_loop_file [OF assms(3)] load_loop_end chop_def)
  then have "n2a_fifo_init stk empty_heap d mx path = Some (h2, d, f2\<lparr>pFile := None, file_lock := False\<rparr>)"
    using assms(1,2) by (simp add: n2a_fifo_init_def n2a_load_def n2a_fifo_open_file_def fopen_update_def)
  moreover have "push_list (nat mx) (foldl (push_list (nat mx)) [] xs) (r0, m0) =
      drop (Suc (length xs) - nat mx) (xs @ [(r0, m0)])"
    using foldl_push_list [of "nat mx" "[]" "xs @ [(r0, m0)]"] assms(6) by simp
  with 2(3) have "queue_rep (h2, f2) (drop (Suc (length xs) - nat mx) (xs @ [(r0, m0)]))" by (simp only:)
  then have "queue_rep (h2, f2\<lparr>pFile := None, file_lock := False\<rparr>)
      (drop (Suc (length xs) - nat mx) (xs @ [(r0, m0)]))"
    by (rule same_queue_rep [rotated]) (simp add: same_queue_def)
  moreover have "fifo_max_size f2 = word_of_int mx" "dirty f2" using 2(2) 1(3) by (simp_all add: touched_def)
  ultimately show ?thesis
    by (intro exI [of _ h2] exI [of _ "f2\<lparr>pFile := None, file_lock := False\<rparr>"]) simp
qed

section \<open>Destroying\<close>

lemma free_loop_frees:
  assumes "seg h pr (Some a) as l None" and "distinct as"
  shows "free_loop h (Some a) = Some (h\<lparr>cells := (cells h) |` (- set as)\<rparr>)"
  using assms
proof (induction as arbitrary: h a pr)
  case Nil
  then show ?case by simp
next
  case (Cons b bs)
  from Cons.prems(1) obtain e where ab: "b = a" and e: "cells h a = Some e"
    and rest: "seg h (Some a) (pNext e) bs l None" by (auto split: option.splits)
  let ?h' = "h\<lparr>cells := (cells h)(a := None)\<rparr>"
  have res: "(cells h)(a := None) |` (- set bs) = cells h |` (- set (a # bs))"
    by (auto simp: restrict_map_def)
  show ?case
  proof (cases "pNext e")
    case None
    with rest have "bs = []" by (cases bs) auto
    moreover have "(cells h)(a := None) = cells h |` (- {a})" by (auto simp: restrict_map_def)
    ultimately show ?thesis using None e ab
      by (subst free_loop.simps) (simp add: deref_def free_event_Some del: fun_upd_None_restrict)
  next
    case (Some c)
    have "seg ?h' (Some a) (Some c) bs l None = seg h (Some a) (Some c) bs l None"
      using Cons.prems(2) ab by (intro seg_cong) auto
    with Some rest have "free_loop ?h' (Some c) = Some (?h'\<lparr>cells := (cells ?h') |` (- set bs)\<rparr>)"
      using Cons.prems(2) by (intro Cons.IH) auto
    with Some e ab res show ?thesis
      by (subst free_loop.simps) (simp add: deref_def free_event_Some)
  qed
qed

lemma free_fifo_defined:
  assumes "queue_rep (h, f) xs"
  shows "\<exists>h' d'. n2a_free_fifo h d (Some f) = Some (h', d') \<and> cells h' = Map.empty \<and>
     (\<exists>i f'. n2a_csync h d (Some f) = Some (i, d', Some f'))"
proof -
  from csync_defined [OF assms, of d] obtain i d' f'
    where cs: "n2a_csync h d (Some f) = Some (i, d', Some f')" "same_queue f f'" by blast
  from assms obtain as where rep: "fifo_rep h f as xs" and dom: "dom (cells h) = set as"
    by (auto simp: queue_rep_def)
  show ?thesis
  proof (cases "fifo_first f")
    case None
    with rep have "as = []" by (cases as) (auto simp: fifo_rep_def)
    with None cs dom show ?thesis by (auto simp: n2a_free_fifo_def same_queue_def)
  next
    case (Some a)
    from fifo_rep_segD [OF rep] Some obtain l where sg: "seg h None (Some a) as l None" by auto
    have "distinct as" using rep by (simp add: fifo_rep_def)
    from free_loop_frees [OF sg this]
    have "free_loop h (Some a) = Some (h\<lparr>cells := (cells h) |` (- dom (cells h))\<rparr>)" by (simp add: dom)
    moreover have "(cells h) |` (- dom (cells h)) = Map.empty" by (auto simp: restrict_map_def)
    ultimately show ?thesis using Some cs by (auto simp: n2a_free_fifo_def same_queue_def)
  qed
qed

end
