(* ===== verification/Fifo_Properties.thy ===== *)
theory Fifo_Properties
  imports Fifo_Sync
begin

text \<open>
  What \<^verbatim>\<open>src/fifo.c\<close> promises: the linked queue behaves like a bounded list and leaks nothing,
  saving and loading round-trip, destroying the queue frees it; and the cases where the code
  breaks these promises.
\<close>

section \<open>The queue as a bounded list\<close>

text \<open>A client's use of the queue: add an event, or take the oldest one and dispose of it.\<close>

datatype queue_op = Enqueue string string | Dequeue

fun queue_ops ::
  "heap \<Rightarrow> fifo \<Rightarrow> queue_op list \<Rightarrow> ((string \<times> string) option list \<times> heap \<times> fifo) option" where
  "queue_ops h f [] = Some ([], h, f)"
| "queue_ops h f (Enqueue r m # ops) = do {
     (p, h1) \<leftarrow> n2a_event_init h (Some r) (Some m);
     (n, h2, f2) \<leftarrow> n2a_push h1 f p;
     queue_ops h2 f2 ops
   }"
| "queue_ops h f (Dequeue # ops) = do {
     (q, h1, f1) \<leftarrow> n2a_shift h f;
     (case q of
        None \<Rightarrow> do {
          (out, h2, f2) \<leftarrow> queue_ops h1 f1 ops;
          Some (None # out, h2, f2)
        }
      | Some p \<Rightarrow> do {
          x \<leftarrow> node_val h1 p;
          h2 \<leftarrow> n2a_free_event h1 (Some p);
          (out, h3, f3) \<leftarrow> queue_ops h2 f1 ops;
          Some (Some x # out, h3, f3)
        })
   }"

fun list_ops :: "nat \<Rightarrow> (string \<times> string) list \<Rightarrow> queue_op list \<Rightarrow>
  (string \<times> string) option list \<times> (string \<times> string) list" where
  "list_ops mx xs [] = ([], xs)"
| "list_ops mx xs (Enqueue r m # ops) = list_ops mx (push_list mx xs (r, m)) ops"
| "list_ops mx xs (Dequeue # ops) =
     (case xs of
        [] \<Rightarrow> let (out, ys) = list_ops mx [] ops in (None # out, ys)
      | x # xs' \<Rightarrow> let (out, ys) = list_ops mx xs' ops in (Some x # out, ys))"

lemma queue_ops_refine:
  assumes "queue_rep (h, f) xs"
  shows "\<exists>h' f'. queue_ops h f ops = Some (fst (list_ops (unat (fifo_max_size f)) xs ops), h', f') \<and>
     queue_rep (h', f') (snd (list_ops (unat (fifo_max_size f)) xs ops))"
  using assms
proof (induction ops arbitrary: h f xs)
  case Nil
  then show ?case by simp
next
  case (Cons a ops)
  show ?case
  proof (cases a)
    case (Enqueue r m)
    from queue_alloc [OF Cons.prems, of r m] obtain p h1
      where 1: "n2a_event_init h (Some r) (Some m) = Some (p, h1)" "queue_held (h1, f) p (r, m) xs" by blast
    from queue_push [OF 1(2)] obtain h2 f2
      where 2: "n2a_push h1 f p = Some (to_int (int (length (push_list (unat (fifo_max_size f)) xs (r, m)))), h2, f2)"
        "queue_rep (h2, f2) (push_list (unat (fifo_max_size f)) xs (r, m))" "touched f f2" by blast
    from Cons.IH [OF 2(2)] 1 2 Enqueue show ?thesis by (simp add: touched_def)
  next
    case Dequeue
    show ?thesis
    proof (cases xs)
      case Nil
      with Cons.prems have "n2a_shift h f = Some (None, h, f)" by (simp add: queue_shift_empty)
      with Cons.IH [OF Cons.prems] Dequeue Nil show ?thesis by (auto simp: split_def Let_def)
    next
      case (Cons x xs')
      obtain r m where x: "x = (r, m)" by (cases x)
      from queue_shift [of h f x xs'] Cons.prems Cons obtain p h1 f1
        where 1: "n2a_shift h f = Some (Some p, h1, f1)" "queue_held (h1, f1) p x xs'" "touched f f1" by blast
      from queue_release [OF 1(2)] obtain h2
        where 2: "n2a_free_event h1 (Some p) = Some h2" "queue_rep (h2, f1) xs'" by blast
      from 1(2) x have "node_val h1 p = Some x" by (auto simp: queue_held_def)
      with Cons.IH [OF 2(2)] 1 2 Dequeue Cons show ?thesis by (auto simp: split_def Let_def touched_def)
    qed
  qed
qed

text \<open>
  C13: The linked queue refines a bounded list: any sequence of additions and removals is
  defined, returns the events a list returns that drops its oldest element when it is full,
  and ends with exactly the memory of the events that are left (nothing leaks, nothing is
  freed twice).
\<close>

theorem queue_refines_list:
  assumes "queue_rep (h, f) xs"
  shows "\<exists>h' f'. queue_ops h f ops = Some (fst (list_ops (unat (fifo_max_size f)) xs ops), h', f') \<and>
     queue_rep (h', f') (snd (list_ops (unat (fifo_max_size f)) xs ops)) \<and>
     finite (dom (cells h')) \<and>
     card (dom (cells h')) = length (snd (list_ops (unat (fifo_max_size f)) xs ops))"
proof -
  have "finite (dom (cells h')) \<and> card (dom (cells h')) = length ys" if "queue_rep (h', f') ys" for h' f' ys
  proof -
    from that obtain as where "fifo_rep h' f' as ys" "dom (cells h') = set as" by (auto simp: queue_rep_def)
    moreover from this(1) have "distinct as" "length as = length ys"
      by (simp_all add: fifo_rep_def fifo_rep_length del: map_eq_conv) (metis length_map)
    ultimately show ?thesis by (simp add: distinct_card)
  qed
  with queue_ops_refine [OF assms, of ops] show ?thesis by blast
qed

definition new_fifo :: "32 word \<Rightarrow> fifo" where
  "new_fifo mx = \<lparr>fifo_first = None, fifo_last = None, fifo_size = 0, fifo_max_size = mx,
     file_path = ''q'', pFile = None, file_lock = False, dirty = False, full = False\<rparr>"

lemma new_fifo_rep [simp]: "queue_rep (empty_heap, new_fifo mx) []"
  by (auto simp: queue_rep_def new_fifo_def heap_ok_def empty_heap_def intro!: exI [of _ "[]"])

lemma new_fifo_max [simp]: "fifo_max_size (new_fifo mx) = mx"
  by (simp add: new_fifo_def)

theorem queue_refines_list_witness:
  "\<exists>h' f'. queue_ops empty_heap (new_fifo 1) [Enqueue ''a'' ''b'', Enqueue ''c'' ''d'', Dequeue, Dequeue] =
       Some ([Some (''c'', ''d''), None], h', f') \<and> queue_rep (h', f') [] \<and> card (dom (cells h')) = 0"
  using queue_refines_list [OF new_fifo_rep, of "1" "[Enqueue ''a'' ''b'', Enqueue ''c'' ''d'', Dequeue, Dequeue]"]
  by (auto simp: push_list_def)

text \<open>
  An event that was taken out of the queue and could not be sent is put back by
  \<^verbatim>\<open>n2a_prepend\<close> where it was: the queue is the same as before, as long as its capacity is
  not smaller than its contents.
\<close>

theorem shift_prepend_restores:
  assumes "queue_rep (h, f) (x # xs)" and "length xs < unat (fifo_max_size f)"
  shows "\<exists>p h1 f1 n h2 f2. n2a_shift h f = Some (Some p, h1, f1) \<and> node_val h1 p = Some x \<and>
     n2a_prepend h1 f1 p = Some (n, h2, f2) \<and> queue_rep (h2, f2) (x # xs)"
proof -
  from queue_shift [OF assms(1)] obtain p h1 f1
    where 1: "n2a_shift h f = Some (Some p, h1, f1)" "queue_held (h1, f1) p x xs" "touched f f1" by blast
  have "length xs < unat (fifo_max_size f1)" using assms(2) 1(3) by (simp add: touched_def)
  from queue_prepend [OF 1(2) this] obtain n h2 f2
    where 2: "n2a_prepend h1 f1 p = Some (n, h2, f2)" "queue_rep (h2, f2) (x # xs)" by blast
  have "node_val h1 p = Some x" using 1(2) by (cases x) (auto simp: queue_held_def)
  with 1(1) 2 show ?thesis by blast
qed

definition single_fifo :: "32 word \<Rightarrow> fifo" where
  "single_fifo mx = (new_fifo mx)\<lparr>fifo_first := Some 0, fifo_last := Some 0, fifo_size := 1\<rparr>"

definition single_heap :: heap where
  "single_heap = \<lparr>cells = [0 \<mapsto> fresh_node ''k'' ''m''], brk = 1\<rparr>"

lemma single_rep: "queue_rep (single_heap, single_fifo mx) [(''k'', ''m'')]"
  by (auto simp: queue_rep_def fifo_rep_def single_heap_def single_fifo_def heap_ok_def intro!: exI [of _ "[0]"])

theorem shift_prepend_restores_witness:
  "\<exists>p h1 f1 n h2 f2. n2a_shift single_heap (single_fifo 1) = Some (Some p, h1, f1) \<and>
     node_val h1 p = Some (''k'', ''m'') \<and> n2a_prepend h1 f1 p = Some (n, h2, f2) \<and>
     queue_rep (h2, f2) [(''k'', ''m'')]"
  using shift_prepend_restores [OF single_rep, of 1] by (simp add: single_fifo_def new_fifo_def)

text \<open>
  C36: \<^verbatim>\<open>n2a_shift\<close> does not reset \<^verbatim>\<open>last\<close> when it takes the only event. With a capacity of 0
  (the option \<^verbatim>\<open>cache_size=0\<close>) putting the event back then pops and frees that very event
  through the stale pointer and links the freed memory: the queue's next use is undefined.
\<close>

theorem zero_capacity_use_after_free:
  assumes "queue_rep (h, f) [x]" and "fifo_max_size f = 0"
  shows "\<exists>p h1 f1 n h2 f2. n2a_shift h f = Some (Some p, h1, f1) \<and>
     n2a_prepend h1 f1 p = Some (n, h2, f2) \<and> fifo_first f2 = Some p \<and> cells h2 p = None \<and>
     n2a_shift h2 f2 = None \<and> n2a_push h2 f2 q = None"
proof -
  obtain r m where x: "x = (r, m)" by (cases x)
  from assms(1) obtain as where rep: "fifo_rep h f as [x]" by (auto simp: queue_rep_def)
  with fifo_rep_length [OF rep] obtain a where a: "as = [a]" by (cases as) auto
  with rep x have rep1: "fifo_rep h f [a] [(r, m)]" by simp
  have last: "fifo_last f = Some a" using rep1 by (simp add: fifo_rep_def)
  from n2a_shift_refines [OF rep1] obtain h1 where
    1: "n2a_shift h f = Some (Some a, h1, f\<lparr>fifo_first := None, fifo_size := fifo_size f - 1, dirty := True\<rparr>)"
      "cells h1 a = Some (fresh_node r m)" by auto
  let ?f1 = "f\<lparr>fifo_first := None, fifo_size := fifo_size f - 1, dirty := True\<rparr>"
  have full: "full (n2a_check_size ?f1)" using assms(2) by simp
  have "\<exists>n h2 f2. n2a_prepend h1 ?f1 a = Some (n, h2, f2) \<and> fifo_first f2 = Some a \<and> cells h2 a = None \<and>
      fifo_max_size f2 = 0"
    using full 1(2) last assms(2)
    by (simp add: n2a_prepend_def n2a_pop_def heap_simps prepend_link_def Let_def)
  then obtain n h2 f2 where 2: "n2a_prepend h1 ?f1 a = Some (n, h2, f2)" "fifo_first f2 = Some a"
    "cells h2 a = None" "fifo_max_size f2 = 0" by blast
  have "n2a_shift h2 f2 = None" "n2a_push h2 f2 q = None"
    using 2 by (simp_all add: n2a_shift_def n2a_push_def deref_def Let_def)
  with 1(1) 2 show ?thesis by blast
qed

theorem zero_capacity_use_after_free_witness:
  "\<exists>p h1 f1 n h2 f2. n2a_shift single_heap (single_fifo 0) = Some (Some p, h1, f1) \<and>
     n2a_prepend h1 f1 p = Some (n, h2, f2) \<and> n2a_shift h2 f2 = None"
  using zero_capacity_use_after_free [OF single_rep, of 0] by (fastforce simp: single_fifo_def new_fifo_def)

section \<open>The cache file\<close>


definition cache_fs :: fs where
  "cache_fs = \<lparr>disk = Some (''k'' @ [NL] @ ''m'' @ [NL]), may_update = True, may_create = True, may_unlink = True\<rparr>"


definition clean_stack :: "nat \<Rightarrow> string \<times> string" where
  "clean_stack i = ([], [])"


text \<open>
  If the buffers of the last iteration start with a NUL byte (a zeroed stack), loading
  any well-formed cache file, even an empty one, is undefined: the code writes one byte
  before the buffer.
\<close>

theorem init_clean_stack_undefined:
  assumes "disk d = Some (file_of xs)" and "may_update d" and "\<forall>x \<in> set xs. storable x"
    and "fst (stk (length xs)) = [] \<or> snd (stk (length xs)) = []"
  shows "n2a_fifo_init stk h d mx path = None"
proof -
  have fin: "load_loop stk (length xs) [] h' f' = None" for h' f'
    using assms(4) by (auto simp: load_loop_end chop_def)
  show ?thesis using assms(1,2)
    by (simp add: n2a_fifo_init_def n2a_load_def n2a_fifo_open_file_def fopen_update_def
        load_loop_file [OF assms(3)] fin split_def)
qed

theorem init_clean_stack_undefined_witness:
  "n2a_fifo_init clean_stack empty_heap cache_fs 10 ''q'' = None"
  using init_clean_stack_undefined [of cache_fs "[(''k'', ''m'')]" clean_stack]
  by (simp add: cache_fs_def clean_stack_def storable_def EVENT_MSG_MAX_SIZE_def)



text \<open>
  When the old cache file cannot be removed, saving overwrites its beginning only: what
  the old file held beyond the new content stays in it.
\<close>

theorem csync_leaves_stale_tail:
  assumes "queue_rep (h, f) xs" and "dirty f" and "\<not> file_lock f"
    and "\<not> may_unlink d" and "disk d = Some old" and "may_update d"
  shows "\<exists>f'. n2a_csync h d (Some f) =
     Some (length xs, d\<lparr>disk := Some (file_of xs @ drop (length (file_of xs)) old)\<rparr>, Some f')"
  by (rule csync_keeps_tail [OF assms])

theorem csync_leaves_stale_tail_witness:
  "\<exists>f'. n2a_csync empty_heap (cache_fs\<lparr>may_unlink := False\<rparr>) (Some (new_fifo 5\<lparr>dirty := True\<rparr>)) =
     Some (0, cache_fs\<lparr>may_unlink := False\<rparr>, Some f')"
proof -
  have "queue_rep (empty_heap, new_fifo 5\<lparr>dirty := True\<rparr>) []"
    by (rule same_queue_rep [OF _ new_fifo_rep [of 5]]) (simp add: same_queue_def)
  from csync_leaves_stale_tail [OF this, of "cache_fs\<lparr>may_unlink := False\<rparr>"] show ?thesis
    by (simp add: new_fifo_def cache_fs_def)
qed

section \<open>Destroying the queue\<close>

text \<open>
  C37: Destroying the queue is defined whatever the file system allows, ends, and frees every
  event exactly once: nothing the queue owned stays allocated.
\<close>

theorem free_fifo_frees_all:
  assumes "queue_rep (h, f) xs"
  shows "\<exists>h' d'. n2a_free_fifo h d (Some f) = Some (h', d') \<and> cells h' = Map.empty"
  using free_fifo_defined [OF assms] by blast

theorem free_fifo_frees_all_witness:
  "\<exists>h' d'. n2a_free_fifo single_heap cache_fs (Some (single_fifo 5)) = Some (h', d') \<and> cells h' = Map.empty"
  by (rule free_fifo_frees_all [OF single_rep])

end
