(* ===== verification/Options.thy ===== *)
theory Options
  imports Prelude
begin

text \<open>
  \<^verbatim>\<open>struct options\<close> of \<^verbatim>\<open>src/module.h\<close>. The queue \<^verbatim>\<open>pFifo\<close>, the one member that changes
  after start-up, is part of the program state (theory \<^verbatim>\<open>Amqp\<close>); the opaque
  \<^verbatim>\<open>nagios_handle\<close> is left out. The argument parser can make \<^verbatim>\<open>hostname\<close> NULL, and
  \<^verbatim>\<open>exchange_type\<close> is NULL by default.
\<close>

record options =
  hostname :: "string option"
  port :: int
  max_size :: int
  autosync :: int
  autoflush :: int
  flush_interval :: int
  rate :: int
  flush :: int
  purge :: int
  cache_size :: int
  cache_file :: string
  userid :: string
  password :: string
  virtual_host :: string
  exchange_name :: string
  exchange_type :: "string option"
  connector :: string
  eventsource_name :: string
  hostgroups :: int
  servicegroups :: int
  acknowledgement :: int
  downtime :: int
  custom_variables :: int
  urls :: int
  amqp_wait_time :: int
  log_level :: int

text \<open>
  The defaults that \<^verbatim>\<open>nebmodule_init\<close> assigns. \<^verbatim>\<open>urls\<close> is not assigned there: the global
  \<^verbatim>\<open>g_options\<close> has static storage, so it starts as 0.
\<close>

definition default_options :: options where
  "default_options =
     \<lparr>hostname = Some ''127.0.0.1'', port = 5672, max_size = 8192, autosync = 60, autoflush = 60,
      flush_interval = 5, rate = 5000, flush = -1, purge = 0, cache_size = 10000,
      cache_file = ''/tmp/neb2amqp.cache'', userid = ''guest'', password = ''guest'',
      virtual_host = ''canopsis'', exchange_name = ''canopsis.events'', exchange_type = None,
      connector = ''nagios'', eventsource_name = ''Central'', hostgroups = 0, servicegroups = 0,
      acknowledgement = 0, downtime = 0, custom_variables = 0, urls = 0, amqp_wait_time = 10,
      log_level = 0\<rparr>"

end
