(* ===== verification/Xutils.thy ===== *)
theory Xutils
  imports Prelude
begin

text \<open>
  The string helpers of \<^verbatim>\<open>src/xutils.c\<close>, and what the module uses of C's \<^verbatim>\<open>strtol\<close> and
  \<^verbatim>\<open>strncasecmp\<close>. The parsing functions of the C code cut the buffer they walk over by writing
  NUL bytes; here a call returns the token and the rest of the buffer. \<^verbatim>\<open>vasprintf\<close>, used for
  log lines only, is not modelled.
\<close>

section \<open>White space\<close>

text \<open>\<^verbatim>\<open>isspace\<close> of the C locale.\<close>

definition isspace :: "char \<Rightarrow> bool" where
  "isspace c \<longleftrightarrow> c \<in> {CHR 0x20, CHR 0x09, CHR 0x0A, CHR 0x0B, CHR 0x0C, CHR 0x0D}"

fun n2a_lstrip :: "string \<Rightarrow> string" where
  "n2a_lstrip [] = []"
| "n2a_lstrip (c # cs) = (if isspace c then n2a_lstrip cs else c # cs)"

text \<open>The loop of \<^verbatim>\<open>n2a_rstrip\<close>: \<open>n\<close> is the index of \<^verbatim>\<open>w\<close> plus one.\<close>

fun rstrip_loop :: "nat \<Rightarrow> string \<Rightarrow> string" where
  "rstrip_loop 0 s = s"
| "rstrip_loop (Suc n) s = (if isspace (s ! n) then rstrip_loop n (take n s) else s)"

definition n2a_rstrip :: "string \<Rightarrow> string" where
  "n2a_rstrip s = rstrip_loop (length s) s"

section \<open>Splitting\<close>

definition n2a_next_field :: "string \<Rightarrow> string option \<times> string" where
  "n2a_next_field c =
     (let begin = n2a_lstrip c
      in if begin = [] then (None, begin)
         else (Some (takeWhile (\<lambda>x. \<not> isspace x) begin), tl (dropWhile (\<lambda>x. \<not> isspace x) begin)))"

text \<open>A delimiter of 0 never occurs in a C string: the token is then all that is left.\<close>

definition n2a_next_token :: "string \<Rightarrow> char \<Rightarrow> string option \<times> string" where
  "n2a_next_token c delim =
     (if c = [] then (None, c)
      else (Some (takeWhile (\<lambda>x. x \<noteq> delim) c), tl (dropWhile (\<lambda>x. x \<noteq> delim) c)))"

section \<open>Small helpers\<close>

definition xmin :: "int \<Rightarrow> int \<Rightarrow> int" where
  "xmin a b = (if a < b then a else b)"

definition xmax :: "int \<Rightarrow> int \<Rightarrow> int" where
  "xmax a b = (if a > b then a else b)"

definition UINT_MAX :: nat where "UINT_MAX = 4294967295"

definition xstrlen :: "string option \<Rightarrow> nat" where
  "xstrlen s = (case s of None \<Rightarrow> 0 | Some cs \<Rightarrow> min (length cs) UINT_MAX)"

text \<open>The bytes of the copy: \<^verbatim>\<open>strncpy\<close> of one byte more than the length.\<close>

definition xstrdup :: "string option \<Rightarrow> string option" where
  "xstrdup dup = (if xstrlen dup = 0 then None else map_option (take (xstrlen dup + 1)) dup)"

section \<open>Joining\<close>

text \<open>
  One turn of the loop of \<^verbatim>\<open>n2a_str_join\<close>: the string built so far (\<open>None\<close> before the first
  allocation), the computed size, and the next argument. It is undefined when one of the two
  copies would not fit the allocation, or copies a NULL delimiter.
\<close>

definition join_step :: "string option \<Rightarrow> string option \<times> nat \<Rightarrow> string \<Rightarrow> (string option \<times> nat) option" where
  "join_step delim = (\<lambda>(ret, length0) p. do {
     let len = xstrlen ret;
     let length1 = (if len > 0 then length0 + xstrlen delim else length0);
     let length2 = length1 + xstrlen (Some p);
     sep \<leftarrow> (if len > 0 then delim else Some []);
     let out = take len (case ret of None \<Rightarrow> [] | Some r \<Rightarrow> r) @ sep;
     defined (length out + length p \<le> length2);
     Some (Some (out @ p), length2)
   })"

fun join_loop :: "string option \<Rightarrow> string option \<times> nat \<Rightarrow> string list \<Rightarrow> (string option \<times> nat) option" where
  "join_loop delim st [] = Some st"
| "join_loop delim st (p # ps) = do { st' \<leftarrow> join_step delim st p; join_loop delim st' ps }"

text \<open>The arguments are read up to the first NULL.\<close>

fun args_before_null :: "string option list \<Rightarrow> string list" where
  "args_before_null [] = []"
| "args_before_null (None # ps) = []"
| "args_before_null (Some p # ps) = p # args_before_null ps"

definition n2a_str_join :: "string option \<Rightarrow> string option list \<Rightarrow> string option option" where
  "n2a_str_join delim ps = do {
     (ret, length0) \<leftarrow> join_loop delim (None, 0) (args_before_null ps);
     Some ret
   }"

section \<open>Numbers\<close>

definition digit_value :: "char \<Rightarrow> int" where
  "digit_value c = int (of_char c) - 48"

definition is_digit :: "int \<Rightarrow> char \<Rightarrow> bool" where
  "is_digit base c \<longleftrightarrow> 0 \<le> digit_value c \<and> digit_value c < base"

definition digits_value :: "int \<Rightarrow> string \<Rightarrow> int" where
  "digits_value base ds = foldl (\<lambda>n c. n * base + digit_value c) 0 ds"

definition LONG_MAX :: int where "LONG_MAX = 9223372036854775807"
definition LONG_MIN :: int where "LONG_MIN = -9223372036854775808"

text \<open>
  \<^verbatim>\<open>strtol\<close> for a base of at most 10: white space, a sign, digits; clamped to \<^verbatim>\<open>long\<close>. The
  second component says whether there was a digit (else the end pointer is the start).
\<close>

definition strtol :: "string \<Rightarrow> int \<Rightarrow> int \<times> bool" where
  "strtol s base =
     (let t = n2a_lstrip s;
          neg = (t \<noteq> [] \<and> hd t = CHR ''-'');
          u = (if t \<noteq> [] \<and> (hd t = CHR ''-'' \<or> hd t = CHR ''+'') then tl t else t);
          ds = takeWhile (is_digit base) u;
          v = (if neg then - digits_value base ds else digits_value base ds)
      in (max LONG_MIN (min LONG_MAX v), ds \<noteq> []))"

text \<open>An \<^verbatim>\<open>int\<close> assigned from \<^verbatim>\<open>strtol\<close>.\<close>

definition strtoi :: "string \<Rightarrow> int \<Rightarrow> int" where
  "strtoi s base = to_int (fst (strtol s base))"

definition tolower :: "char \<Rightarrow> char" where
  "tolower c = (if 65 \<le> (of_char c :: nat) \<and> (of_char c :: nat) \<le> 90 then char_of (of_char c + 32 :: nat) else c)"

text \<open>\<^verbatim>\<open>strncasecmp (s, "c", 1) == 0\<close>\<close>

definition starts_with_ci :: "string \<Rightarrow> char \<Rightarrow> bool" where
  "starts_with_ci s c = (case s of [] \<Rightarrow> False | x # _ \<Rightarrow> tolower x = tolower c)"

section \<open>What the helpers compute\<close>

lemma n2a_lstrip_dropWhile: "n2a_lstrip s = dropWhile isspace s"
  by (induction s) simp_all

lemma rstrip_loop_prefix:
  "rstrip_loop (length s) s = rev (dropWhile isspace (rev s))"
  by (induction s rule: rev_induct) (simp_all add: nth_append)

lemma next_field_shorter: "n2a_next_field c = (Some f, rest) \<Longrightarrow> length rest < length c"
proof -
  assume a: "n2a_next_field c = (Some f, rest)"
  let ?b = "n2a_lstrip c"
  from a have b: "?b \<noteq> []" "rest = tl (dropWhile (\<lambda>x. \<not> isspace x) ?b)"
    by (auto simp: n2a_next_field_def Let_def split: if_splits)
  have "length ?b \<le> length c" by (simp add: n2a_lstrip_dropWhile length_dropWhile_le)
  moreover have "length (dropWhile (\<lambda>x. \<not> isspace x) ?b) \<le> length ?b" by (rule length_dropWhile_le)
  ultimately show ?thesis using b by (cases ?b) auto
qed

lemma next_field_word:
  assumes "w \<noteq> []" and "\<forall>c \<in> set w. \<not> isspace c" and "rest = [] \<or> isspace (hd rest)"
  shows "n2a_next_field (w @ rest) = (Some w, tl rest)"
proof -
  from assms(1,2) have "n2a_lstrip (w @ rest) = w @ rest" by (cases w) auto
  moreover have "takeWhile (\<lambda>x. \<not> isspace x) (w @ rest) = w" "dropWhile (\<lambda>x. \<not> isspace x) (w @ rest) = rest"
    using assms(2,3) by (cases rest; auto simp: takeWhile_append2 dropWhile_append2)+
  ultimately show ?thesis using assms(1) by (simp add: n2a_next_field_def)
qed

lemma next_token_split:
  assumes "delim \<notin> set a"
  shows "n2a_next_token (a @ delim # b) delim = (Some a, b)"
proof -
  have "\<And>x. x \<in> set a \<Longrightarrow> x \<noteq> delim" using assms(1) by auto
  then have "takeWhile (\<lambda>x. x \<noteq> delim) (a @ delim # b) = a" "dropWhile (\<lambda>x. x \<noteq> delim) (a @ delim # b) = delim # b"
    by (simp_all add: takeWhile_append2 dropWhile_append2)
  then show ?thesis by (simp add: n2a_next_token_def)
qed

lemma next_token_all:
  assumes "delim \<notin> set a" and "a \<noteq> []"
  shows "n2a_next_token a delim = (Some a, [])"
proof -
  have "takeWhile (\<lambda>x. x \<noteq> delim) a = a" "dropWhile (\<lambda>x. x \<noteq> delim) a = []"
    using assms(1) by (auto simp: takeWhile_eq_all_conv dropWhile_eq_Nil_conv simp del: dropWhile_eq_self_iff)
  with assms(2) show ?thesis by (simp add: n2a_next_token_def del: dropWhile_eq_Nil_conv takeWhile_eq_all_conv)
qed

lemma n2a_rstrip_spec: "n2a_rstrip s = rev (dropWhile isspace (rev s))"
  by (simp add: n2a_rstrip_def rstrip_loop_prefix)

subsection \<open>Joining\<close>

text \<open>The delimiter goes in front of every part but those that follow an empty result.\<close>

definition join_onto :: "string \<Rightarrow> string \<Rightarrow> string \<Rightarrow> string" where
  "join_onto d r p = (if r = [] then p else r @ d @ p)"

lemma join_step_fits:
  assumes "length r + length d + length p \<le> UINT_MAX" and "length r \<le> n"
  shows "join_step (Some d) (Some r, n) p =
     Some (Some (join_onto d r p), if r = [] then n + length p else n + length d + length p)"
  using assms by (simp add: join_step_def xstrlen_def join_onto_def Let_def)

lemma join_loop_fits:
  assumes "length r + sum_list (map (\<lambda>p. length d + length p) ps) \<le> UINT_MAX" and "length r \<le> n"
  shows "\<exists>m. join_loop (Some d) (Some r, n) ps = Some (Some (foldl (join_onto d) r ps), m)"
  using assms
proof (induction ps arbitrary: r n)
  case Nil
  then show ?case by simp
next
  case (Cons p ps)
  let ?r = "join_onto d r p"
  let ?n = "if r = [] then n + length p else n + length d + length p"
  have "length ?r \<le> length r + length d + length p" by (simp add: join_onto_def)
  with Cons.prems have "length ?r + sum_list (map (\<lambda>p. length d + length p) ps) \<le> UINT_MAX" by simp
  moreover have "length ?r \<le> ?n" using Cons.prems(2) by (simp add: join_onto_def)
  ultimately obtain m where "join_loop (Some d) (Some ?r, ?n) ps = Some (Some (foldl (join_onto d) ?r ps), m)"
    using Cons.IH by blast
  with join_step_fits [of r d p n] Cons.prems show ?case by simp
qed

text \<open>
  Joining never writes outside its allocation, for arguments that are together shorter than
  \<^verbatim>\<open>UINT_MAX\<close>.
\<close>

lemma str_join_spec:
  assumes "args_before_null args = ps" and "sum_list (map (\<lambda>p. length d + length p) ps) \<le> UINT_MAX"
  shows "n2a_str_join (Some d) args =
     Some (if ps = [] then None else Some (foldl (join_onto d) [] ps))"
proof (cases ps)
  case Nil
  with assms(1) show ?thesis by (simp add: n2a_str_join_def)
next
  case (Cons p qs)
  have "join_step (Some d) (None, 0) p = Some (Some p, length p)"
    using assms(2) Cons by (simp add: join_step_def xstrlen_def)
  moreover from join_loop_fits [of p d qs "length p"] assms(2) Cons obtain m
    where "join_loop (Some d) (Some p, length p) qs = Some (Some (foldl (join_onto d) p qs), m)" by auto
  ultimately show ?thesis using assms(1) Cons
    by (simp add: n2a_str_join_def join_onto_def [of d "[]"])
qed

lemma foldl_join_nonempty:
  "r \<noteq> [] \<Longrightarrow> foldl (join_onto d) r ps = r @ concat (map (\<lambda>p. d @ p) ps)"
  by (induction ps arbitrary: r) (simp_all add: join_onto_def)


section \<open>Numbers as text\<close>

definition digit_char :: "nat \<Rightarrow> char" where
  "digit_char k = char_of (48 + k)"

fun dec_digits :: "nat \<Rightarrow> string" where
  "dec_digits n = (if n < 10 then [digit_char n] else dec_digits (n div 10) @ [digit_char (n mod 10)])"

declare dec_digits.simps [simp del]

definition show_int :: "int \<Rightarrow> string" where
  "show_int z = (if z < 0 then CHR ''-'' # dec_digits (nat (- z)) else dec_digits (nat z))"

lemma of_char_digit: "k < 10 \<Longrightarrow> (of_char (digit_char k) :: nat) = 48 + k"
  by (simp add: digit_char_def)

lemma digit_value_char [simp]: "k < 10 \<Longrightarrow> digit_value (digit_char k) = int k"
  by (simp add: digit_value_def of_char_digit)

lemma dec_digits_all: "\<forall>c \<in> set (dec_digits n). is_digit 10 c"
proof (induction n rule: dec_digits.induct)
  case (1 n)
  then show ?case by (subst dec_digits.simps) (auto simp: is_digit_def)
qed

lemma dec_digits_nonempty [simp]: "dec_digits n \<noteq> []"
  by (subst dec_digits.simps) simp

lemma dec_digits_value: "digits_value 10 (dec_digits n) = int n"
proof (induction n rule: dec_digits.induct)
  case (1 n)
  have "int (n div 10) * 10 + int (n mod 10) = int n"
    by (metis div_mult_mod_eq of_nat_add of_nat_mult of_nat_numeral)
  with 1 show ?case
    by (subst dec_digits.simps) (simp add: digits_value_def)
qed

lemma digit_not_special:
  assumes "is_digit 10 c"
  shows "\<not> isspace c" and "c \<noteq> CHR ''-''" and "c \<noteq> CHR ''+''" and "c \<noteq> CHR '':''" and "c \<noteq> NUL"
  using assms by (auto simp: is_digit_def digit_value_def isspace_def)

lemma takeWhile_all: "\<forall>c \<in> set xs. P c \<Longrightarrow> takeWhile P xs = xs"
  by (simp add: takeWhile_eq_all_conv)

text \<open>\<^verbatim>\<open>strtol\<close> reads back every number that is printed in decimal.\<close>

lemma strtoi_show_int:
  assumes "is_int z"
  shows "strtoi (show_int z) 10 = z"
proof -
  have d: "takeWhile (is_digit 10) (dec_digits n) = dec_digits n" for n
    using dec_digits_all by (rule takeWhile_all)
  have h: "is_digit 10 (hd (dec_digits n))" for n
    using dec_digits_all dec_digits_nonempty hd_in_set by blast
  have l: "n2a_lstrip (dec_digits n) = dec_digits n" for n
    using digit_not_special(1) [OF h [of n]] by (cases "dec_digits n") auto
  have nosign: "hd (dec_digits n) \<noteq> CHR ''-''" "hd (dec_digits n) \<noteq> CHR ''+''" for n
    using digit_not_special(2,3) [OF h [of n]] by simp_all
  have "strtol (show_int z) 10 = (max LONG_MIN (min LONG_MAX z), True)"
    by (simp add: strtol_def show_int_def Let_def l d nosign dec_digits_value isspace_def)
  moreover have "max LONG_MIN (min LONG_MAX z) = z"
    using assms by (simp add: is_int_def INT_MIN_def INT_MAX_def LONG_MIN_def LONG_MAX_def)
  ultimately show ?thesis using assms by (simp add: strtoi_def)
qed

end
