(* ===== verification/Arguments.thy ===== *)
theory Arguments
  imports Options Xutils
begin

text \<open>
  The module's argument line: \<^verbatim>\<open>n2a_parse_arguments\<close> of \<^verbatim>\<open>src/module.c\<close>. Log lines are not
  modelled (the C library prints a NULL string argument as \<^verbatim>\<open>(null)\<close>).
\<close>

section \<open>One option\<close>

text \<open>\<^verbatim>\<open>[port:]host\<close>, for the option \<^verbatim>\<open>host\<close> and for a field without a value.\<close>

definition set_host :: "string \<Rightarrow> options \<Rightarrow> options" where
  "set_host s g =
     (let (subleft, subpart) = n2a_next_token s (CHR '':'');
          (subright, rest) = n2a_next_token subpart NUL
      in case subright of
           None \<Rightarrow> g\<lparr>hostname := subleft\<rparr>
         | Some h \<Rightarrow>
             g\<lparr>hostname := Some h, port := strtoi (case subleft of None \<Rightarrow> [] | Some p \<Rightarrow> p) 10\<rparr>)"

definition purge_value :: "string \<Rightarrow> int" where
  "purge_value right =
     (if starts_with_ci right (CHR ''y'') \<or> starts_with_ci right (CHR ''t'') then 1
      else if starts_with_ci right (CHR ''f'') \<or> starts_with_ci right (CHR ''n'') then 0
      else if \<not> snd (strtol right 10) then 0
      else if strtoi right 10 = 1 then 1 else 0)"

definition set_rate :: "string \<Rightarrow> options \<Rightarrow> options option" where
  "set_rate right g =
     (let r = strtoi right 10
      in if r > 0 then do { v \<leftarrow> int_result (r * 1000); Some (g\<lparr>rate := v\<rparr>) } else Some g)"

definition set_flush :: "string \<Rightarrow> options \<Rightarrow> options" where
  "set_flush right g =
     (let r = strtoi right 10 in if r > 0 \<or> r = -1 then g\<lparr>flush := r\<rparr> else g)"

text \<open>The second half of the chain of comparisons.\<close>

definition set_identity_option :: "string \<Rightarrow> string \<Rightarrow> options \<Rightarrow> options option" where
  "set_identity_option left right g =
     (if left = ''name'' then Some (g\<lparr>eventsource_name := right\<rparr>)
      else if left = ''userid'' then Some (g\<lparr>userid := right\<rparr>)
      else if left = ''password'' then Some (g\<lparr>password := right\<rparr>)
      else if left = ''virtual_host'' then Some (g\<lparr>virtual_host := right\<rparr>)
      else if left = ''exchange_name'' then Some (g\<lparr>exchange_name := right\<rparr>)
      else if left = ''exchange_type'' then Some (g\<lparr>exchange_type := Some right\<rparr>)
      else if left = ''connector'' then Some (g\<lparr>connector := right\<rparr>)
      else if left = ''port'' then Some (g\<lparr>port := strtoi right 10\<rparr>)
      else if left = ''host'' then Some (set_host right g)
      else if left = ''hostgroups'' then Some (g\<lparr>hostgroups := strtoi right 2\<rparr>)
      else if left = ''servicegroups'' then Some (g\<lparr>servicegroups := strtoi right 2\<rparr>)
      else if left = ''acknowledgement'' then Some (g\<lparr>acknowledgement := strtoi right 2\<rparr>)
      else if left = ''downtime'' then Some (g\<lparr>downtime := strtoi right 2\<rparr>)
      else if left = ''custom_variables'' then Some (g\<lparr>custom_variables := strtoi right 2\<rparr>)
      else if left = ''urls'' then Some (g\<lparr>urls := strtoi right 2\<rparr>)
      else Some g)"

text \<open>The chain of comparisons, in the order of the code.\<close>

definition set_option :: "string \<Rightarrow> string \<Rightarrow> options \<Rightarrow> options option" where
  "set_option left right g =
     (if left = ''debug'' then Some (g\<lparr>log_level := strtoi right 10\<rparr>)
      else if left = ''purge'' then Some (g\<lparr>purge := purge_value right\<rparr>)
      else if left = ''rate'' then set_rate right g
      else if left = ''flush'' then Some (set_flush right g)
      else if left = ''max_size'' then Some (g\<lparr>max_size := strtoi right 10\<rparr>)
      else if left = ''amqp_wait_time'' then Some (g\<lparr>amqp_wait_time := strtoi right 10\<rparr>)
      else if left = ''autoflush'' then Some (g\<lparr>autoflush := strtoi right 10\<rparr>)
      else if left = ''flush_interval'' then Some (g\<lparr>flush_interval := strtoi right 10\<rparr>)
      else if left = ''cache_size'' then Some (g\<lparr>cache_size := strtoi right 10\<rparr>)
      else if left = ''cache_file'' then Some (g\<lparr>cache_file := right\<rparr>)
      else if left = ''autosync'' then Some (g\<lparr>autosync := strtoi right 10\<rparr>)
      else set_identity_option left right g)"

section \<open>The whole line\<close>

definition parse_token :: "string \<Rightarrow> options \<Rightarrow> options option" where
  "parse_token token g = do {
     let (left0, part) = n2a_next_token token (CHR ''='');
     let (right0, rest) = n2a_next_token part NUL;
     left \<leftarrow> left0;
     (case right0 of
        None \<Rightarrow> Some (set_host left g)
      | Some right \<Rightarrow> set_option left right g)
   }"

function parse_loop :: "string \<Rightarrow> options \<Rightarrow> options option" where
  "parse_loop s g =
     (case n2a_next_field s of
        (None, rest) \<Rightarrow> Some g
      | (Some token, rest) \<Rightarrow> do { g' \<leftarrow> parse_token token g; parse_loop rest g' })"
  by pat_completeness auto

termination
  by (relation "measure (length \<circ> fst)") (auto dest: next_field_shorter [OF sym])

declare parse_loop.simps [simp del]

text \<open>
  An empty line makes \<^verbatim>\<open>xstrdup\<close> return NULL, which \<^verbatim>\<open>n2a_next_field\<close> then follows.
\<close>

definition n2a_parse_arguments :: "string option \<Rightarrow> options \<Rightarrow> options option" where
  "n2a_parse_arguments args_orig g =
     (if args_orig = None then Some g
      else do {
        g_args \<leftarrow> xstrdup args_orig;
        parse_loop g_args g
      })"

section \<open>How a line is read\<close>

fun parse_tokens :: "string list \<Rightarrow> options \<Rightarrow> options option" where
  "parse_tokens [] g = Some g"
| "parse_tokens (t # ts) g = do { g' \<leftarrow> parse_token t g; parse_tokens ts g' }"

definition is_word :: "string \<Rightarrow> bool" where
  "is_word w \<longleftrightarrow> w \<noteq> [] \<and> (\<forall>c \<in> set w. \<not> isspace c)"

definition unwords :: "string list \<Rightarrow> string" where
  "unwords ts = concat (map (\<lambda>t. t @ '' '') ts)"

lemma isspace_blank [simp]: "isspace (CHR '' '')"
  by (simp add: isspace_def)

lemma parse_loop_unwords:
  "\<forall>t \<in> set ts. is_word t \<Longrightarrow> parse_loop (unwords ts) g = parse_tokens ts g"
proof (induction ts arbitrary: g)
  case Nil
  then show ?case by (subst parse_loop.simps) (simp add: unwords_def n2a_next_field_def)
next
  case (Cons t ts)
  then have "n2a_next_field (t @ '' '' @ unwords ts) = (Some t, unwords ts)"
    using next_field_word [of t "'' '' @ unwords ts"] by (simp add: is_word_def)
  moreover have "parse_loop (unwords ts) = parse_tokens ts" using Cons by (intro ext) simp
  ultimately show ?case by (subst parse_loop.simps) (simp add: unwords_def)
qed

lemma parse_token_assign:
  assumes "CHR ''='' \<notin> set l" and "r \<noteq> []" and "is_cstr r"
  shows "parse_token (l @ CHR ''='' # r) g = set_option l r g"
  using assms
  by (simp add: parse_token_def next_token_split next_token_all is_cstr_def)

lemma show_int_word: "is_word (show_int z)" and show_int_cstr: "is_cstr (show_int z)"
  and show_int_no_colon: "CHR '':'' \<notin> set (show_int z)"
proof -
  have "\<forall>c \<in> set (show_int z). is_digit 10 c \<or> c = CHR ''-''"
    using dec_digits_all by (simp add: show_int_def)
  moreover have "\<not> isspace (CHR ''-'')" by (simp add: isspace_def)
  ultimately have "\<forall>c \<in> set (show_int z). \<not> isspace c \<and> c \<noteq> NUL \<and> c \<noteq> CHR '':''"
    using digit_not_special by force
  moreover have "show_int z \<noteq> []" by (simp add: show_int_def)
  ultimately show "is_word (show_int z)" "is_cstr (show_int z)" "CHR '':'' \<notin> set (show_int z)"
    by (auto simp: is_word_def is_cstr_def)
qed

lemma show_int_nonempty [simp]: "show_int z \<noteq> []"
  by (simp add: show_int_def)

section \<open>Printing options\<close>

definition assign :: "string \<Rightarrow> string \<Rightarrow> string" where
  "assign l r = l @ CHR ''='' # r"

definition show_options :: "options \<Rightarrow> string list" where
  "show_options g =
     [assign ''host'' (show_int (port g) @ CHR '':'' # the (hostname g)),
      assign ''max_size'' (show_int (max_size g)),
      assign ''autosync'' (show_int (autosync g)),
      assign ''autoflush'' (show_int (autoflush g)),
      assign ''flush_interval'' (show_int (flush_interval g)),
      assign ''rate'' (show_int (rate g div 1000)),
      assign ''flush'' (show_int (flush g)),
      assign ''purge'' (show_int (purge g)),
      assign ''cache_size'' (show_int (cache_size g)),
      assign ''cache_file'' (cache_file g),
      assign ''userid'' (userid g),
      assign ''password'' (password g),
      assign ''virtual_host'' (virtual_host g),
      assign ''exchange_name'' (exchange_name g),
      assign ''connector'' (connector g),
      assign ''name'' (eventsource_name g),
      assign ''hostgroups'' (show_int (hostgroups g)),
      assign ''servicegroups'' (show_int (servicegroups g)),
      assign ''acknowledgement'' (show_int (acknowledgement g)),
      assign ''downtime'' (show_int (downtime g)),
      assign ''custom_variables'' (show_int (custom_variables g)),
      assign ''urls'' (show_int (urls g)),
      assign ''amqp_wait_time'' (show_int (amqp_wait_time g)),
      assign ''debug'' (show_int (log_level g))] @
     (case exchange_type g of None \<Rightarrow> [] | Some t \<Rightarrow> [assign ''exchange_type'' (t)])"

definition text_ok :: "string \<Rightarrow> bool" where
  "text_ok s \<longleftrightarrow> is_word s \<and> is_cstr s"

definition flag_ok :: "int \<Rightarrow> bool" where
  "flag_ok z \<longleftrightarrow> z = 0 \<or> z = 1"

text \<open>The options a line can express.\<close>

definition expressible :: "options \<Rightarrow> bool" where
  "expressible g \<longleftrightarrow>
     (case hostname g of None \<Rightarrow> False | Some h \<Rightarrow> text_ok h) \<and>
     (case exchange_type g of None \<Rightarrow> True | Some t \<Rightarrow> text_ok t) \<and>
     (\<forall>s \<in> {cache_file g, userid g, password g, virtual_host g, exchange_name g, connector g,
        eventsource_name g}. text_ok s) \<and>
     (\<forall>z \<in> {port g, max_size g, autosync g, autoflush g, flush_interval g, flush g, cache_size g,
        amqp_wait_time g, log_level g, rate g}. is_int z) \<and>
     (\<forall>z \<in> {purge g, hostgroups g, servicegroups g, acknowledgement g, downtime g, custom_variables g,
        urls g}. flag_ok z) \<and>
     (flush g > 0 \<or> flush g = -1) \<and> rate g > 0 \<and> rate g mod 1000 = 0"

lemma set_option_simps:
  "set_option ''debug'' r g = Some (g\<lparr>log_level := strtoi r 10\<rparr>)"
  "set_option ''purge'' r g = Some (g\<lparr>purge := purge_value r\<rparr>)"
  "set_option ''rate'' r g = set_rate r g"
  "set_option ''flush'' r g = Some (set_flush r g)"
  "set_option ''name'' r g = Some (g\<lparr>eventsource_name := r\<rparr>)"
  "set_option ''host'' r g = Some (set_host r g)"
  "set_option ''exchange_type'' r g = Some (g\<lparr>exchange_type := Some r\<rparr>)"
  "set_option ''max_size'' r g = Some (g\<lparr>max_size := strtoi r 10\<rparr>)"
  "set_option ''amqp_wait_time'' r g = Some (g\<lparr>amqp_wait_time := strtoi r 10\<rparr>)"
  "set_option ''autoflush'' r g = Some (g\<lparr>autoflush := strtoi r 10\<rparr>)"
  "set_option ''flush_interval'' r g = Some (g\<lparr>flush_interval := strtoi r 10\<rparr>)"
  "set_option ''cache_size'' r g = Some (g\<lparr>cache_size := strtoi r 10\<rparr>)"
  "set_option ''autosync'' r g = Some (g\<lparr>autosync := strtoi r 10\<rparr>)"
  "set_option ''port'' r g = Some (g\<lparr>port := strtoi r 10\<rparr>)"
  "set_option ''cache_file'' r g = Some (g\<lparr>cache_file := r\<rparr>)"
  "set_option ''userid'' r g = Some (g\<lparr>userid := r\<rparr>)"
  "set_option ''password'' r g = Some (g\<lparr>password := r\<rparr>)"
  "set_option ''virtual_host'' r g = Some (g\<lparr>virtual_host := r\<rparr>)"
  "set_option ''exchange_name'' r g = Some (g\<lparr>exchange_name := r\<rparr>)"
  "set_option ''connector'' r g = Some (g\<lparr>connector := r\<rparr>)"
  "set_option ''hostgroups'' r g = Some (g\<lparr>hostgroups := strtoi r 2\<rparr>)"
  "set_option ''servicegroups'' r g = Some (g\<lparr>servicegroups := strtoi r 2\<rparr>)"
  "set_option ''acknowledgement'' r g = Some (g\<lparr>acknowledgement := strtoi r 2\<rparr>)"
  "set_option ''downtime'' r g = Some (g\<lparr>downtime := strtoi r 2\<rparr>)"
  "set_option ''custom_variables'' r g = Some (g\<lparr>custom_variables := strtoi r 2\<rparr>)"
  "set_option ''urls'' r g = Some (g\<lparr>urls := strtoi r 2\<rparr>)"
  by (simp_all add: set_option_def set_identity_option_def)

lemma digit_chars: "digit_char 0 = CHR ''0''" "digit_char (Suc 0) = CHR ''1''"
  by code_simp+

lemma show_flags: "show_int 0 = ''0''" "show_int 1 = ''1''"
  by (simp_all add: show_int_def dec_digits.simps [of 0] dec_digits.simps [of "Suc 0"] digit_chars)

lemma strtol_flags: "strtol ''0'' b = (0, True)" "strtol ''1'' b = (1, True)" if "b \<in> {2, 10}"
  using that by (auto simp: strtol_def Let_def isspace_def is_digit_def digit_value_def digits_value_def
      LONG_MIN_def LONG_MAX_def)

lemma flag_value: "flag_ok z \<Longrightarrow> strtoi (show_int z) 2 = z"
  by (auto simp: flag_ok_def strtoi_def show_flags strtol_flags is_int_def INT_MIN_def INT_MAX_def)

lemma purge_flag: "flag_ok z \<Longrightarrow> purge_value (show_int z) = z"
  by (auto simp: flag_ok_def purge_value_def strtoi_def show_flags strtol_flags is_int_def INT_MIN_def
      INT_MAX_def starts_with_ci_def tolower_def)

lemma set_host_show:
  assumes "text_ok h" and "is_int p"
  shows "set_host (show_int p @ CHR '':'' # h) g = g\<lparr>hostname := Some h, port := p\<rparr>"
proof -
  have "n2a_next_token (show_int p @ CHR '':'' # h) (CHR '':'') = (Some (show_int p), h)"
    by (rule next_token_split) (rule show_int_no_colon)
  moreover have "n2a_next_token h NUL = (Some h, [])"
    using assms(1) by (intro next_token_all) (auto simp: text_ok_def is_word_def is_cstr_def)
  ultimately show ?thesis by (simp add: set_host_def strtoi_show_int assms(2))
qed

lemma set_rate_show:
  assumes "is_int r" and "r > 0" and "r mod 1000 = 0"
  shows "set_rate (show_int (r div 1000)) g = Some (g\<lparr>rate := r\<rparr>)"
proof -
  obtain k where k: "r = 1000 * k" using assms(3) by (auto elim: dvdE dest: mod_0_imp_dvd)
  with assms(1,2) have "is_int k" "0 < k" by (auto simp: is_int_def INT_MIN_def INT_MAX_def)
  with k assms(1) show ?thesis by (simp add: set_rate_def strtoi_show_int int_result_def mult.commute)
qed

text \<open>Every token printed assigns its field.\<close>

lemma parse_token_text:
  "CHR ''='' \<notin> set l \<Longrightarrow> text_ok r \<Longrightarrow> parse_token (assign l r) g = set_option l r g"
  unfolding assign_def by (rule parse_token_assign) (auto simp: text_ok_def is_word_def)

lemma parse_token_int:
  "CHR ''='' \<notin> set l \<Longrightarrow> parse_token (assign l (show_int z)) g = set_option l (show_int z) g"
  unfolding assign_def by (rule parse_token_assign) (auto simp: show_int_cstr)

lemma parse_token_host:
  assumes "text_ok h"
  shows "parse_token (assign ''host'' (show_int p @ CHR '':'' # h)) g =
     set_option ''host'' (show_int p @ CHR '':'' # h) g"
  unfolding assign_def by (rule parse_token_assign) (use assms show_int_cstr in \<open>auto simp: text_ok_def is_cstr_def\<close>)

lemma show_options_parse:
  assumes "expressible o'" and "exchange_type g = None"
  shows "parse_tokens (show_options o') g = Some o'"
proof -
  from assms(1) obtain h where h: "hostname o' = Some h" "text_ok h"
    by (auto simp: expressible_def split: option.splits)
  note e = assms(1)[unfolded expressible_def]
  have t: "text_ok (cache_file o')" "text_ok (userid o')" "text_ok (password o')" "text_ok (virtual_host o')"
    "text_ok (exchange_name o')" "text_ok (connector o')" "text_ok (eventsource_name o')"
    using e by simp_all
  have i: "is_int (port o')" "is_int (max_size o')" "is_int (autosync o')" "is_int (autoflush o')"
    "is_int (flush_interval o')" "is_int (flush o')" "is_int (cache_size o')" "is_int (amqp_wait_time o')"
    "is_int (log_level o')" "is_int (rate o')"
    using e by simp_all
  have f: "flag_ok (purge o')" "flag_ok (hostgroups o')" "flag_ok (servicegroups o')"
    "flag_ok (acknowledgement o')" "flag_ok (downtime o')" "flag_ok (custom_variables o')" "flag_ok (urls o')"
    using e by simp_all
  have fl: "flush o' > 0 \<or> flush o' = -1" and r: "rate o' > 0" "rate o' mod 1000 = 0" using e by simp_all
  note tokens = parse_token_host [OF h(2)] parse_token_int parse_token_text set_option_simps
    set_host_show [OF h(2)] set_rate_show set_flush_def strtoi_show_int flag_value purge_flag
  have all: "parse_tokens (show_options o') g = parse_tokens
      (case exchange_type o' of None \<Rightarrow> [] | Some t \<Rightarrow> [assign ''exchange_type'' t])
      (o'\<lparr>exchange_type := None\<rparr>)"
    unfolding show_options_def
    by (simp add: tokens i f h(1) t r set_rate_show [OF i(10) r] fl)
      (use assms(2) h(1) in \<open>cases g; cases o'; simp\<close>)
  show ?thesis
  proof (cases "exchange_type o'")
    case None
    then show ?thesis by (simp add: all)
  next
    case (Some ty)
    then have "text_ok ty" using e by simp
    then show ?thesis using Some by (simp add: all parse_token_text set_option_simps)
  qed
qed

end
