(* ===== verification/Amqp.thy ===== *)
theory Amqp
  imports Fifo_Queue Fifo_File Options
begin

text \<open>
  \<^verbatim>\<open>src/neb2amqp.c\<close>: the connection to the AMQP bus and the delivery of events. The file's
  static variables, the queue and the memory form one record. What the network, the AMQP
  library and the clock answer is a parameter: the \<open>n\<close>-th external call gets the \<open>n\<close>-th
  answer of \<open>env\<close>, whatever that is. The calls made to the library are recorded in \<open>wire\<close>,
  those whose result the program looks at with that result.
\<close>

section \<open>The outside world\<close>

text \<open>\<^verbatim>\<open>amqp_rpc_reply_t\<close>, as far as \<^verbatim>\<open>n2a_on_amqp_error\<close> distinguishes replies.\<close>

datatype server_method = Connection_close int string | Channel_close int string | Other_method nat

datatype rpc_reply =
    Response_normal
  | Response_none
  | Response_library_exception int
  | Response_server_exception server_method

record env =
  clock :: "nat \<Rightarrow> int"
  ret_int :: "nat \<Rightarrow> int"
  ret_rpc :: "nat \<Rightarrow> rpc_reply"

datatype amqp_call =
    Call_new_connection nat
  | Call_socket_open "string option" int int
  | Call_login rpc_reply
  | Call_channel_open rpc_reply
  | Call_exchange_declare string string rpc_reply
  | Call_publish string string int
  | Call_channel_close nat
  | Call_connection_close nat
  | Call_destroy nat

section \<open>The program state\<close>

record n2a =
  mem :: heap
  files :: fs
  pFifo :: "fifo option"
  amqp_errors :: bool
  amqp_last_connect :: int
  fifo_last_sync :: int
  fifo_last_flush :: int
  amqp_connected :: bool
  blackout :: bool
  conn :: "nat option"
  tick :: nat
  wire :: "amqp_call list"

definition gettimeofday :: "env \<Rightarrow> n2a \<Rightarrow> int \<times> n2a" where
  "gettimeofday env s = (clock env (tick s), s\<lparr>tick := Suc (tick s)\<rparr>)"

text \<open>A call is made, answered by the environment and recorded with the answer.\<close>

definition call_int :: "env \<Rightarrow> (int \<Rightarrow> amqp_call) \<Rightarrow> n2a \<Rightarrow> int \<times> n2a" where
  "call_int env c s =
     (let r = ret_int env (tick s) in (r, s\<lparr>tick := Suc (tick s), wire := wire s @ [c r]\<rparr>))"

definition call_rpc :: "env \<Rightarrow> (rpc_reply \<Rightarrow> amqp_call) \<Rightarrow> n2a \<Rightarrow> rpc_reply \<times> n2a" where
  "call_rpc env c s =
     (let r = ret_rpc env (tick s) in (r, s\<lparr>tick := Suc (tick s), wire := wire s @ [c r]\<rparr>))"

section \<open>Error reporting\<close>

definition n2a_on_error :: "int \<Rightarrow> n2a \<Rightarrow> n2a" where
  "n2a_on_error x s = (if x < 0 then s\<lparr>amqp_errors := True\<rparr> else s)"

fun n2a_on_amqp_error :: "rpc_reply \<Rightarrow> n2a \<Rightarrow> n2a" where
  "n2a_on_amqp_error Response_normal s = s"
| "n2a_on_amqp_error Response_none s = s\<lparr>amqp_errors := True\<rparr>"
| "n2a_on_amqp_error (Response_library_exception err) s = s\<lparr>amqp_errors := True\<rparr>"
| "n2a_on_amqp_error (Response_server_exception m) s = s\<lparr>amqp_errors := True\<rparr>"

section \<open>Connecting and disconnecting\<close>

text \<open>The old connection is closed and destroyed, the results are ignored.\<close>

definition close_old :: "env \<Rightarrow> n2a \<Rightarrow> n2a" where
  "close_old env s =
     (case conn s of
        None \<Rightarrow> s
      | Some c \<Rightarrow>
          (let s1 = snd (call_rpc env (\<lambda>_. Call_channel_close c) s);
               s2 = snd (call_rpc env (\<lambda>_. Call_connection_close c) s1)
           in snd (call_int env (\<lambda>_. Call_destroy c) s2)))"

text \<open>A new connection is named by the number of the call that made it.\<close>

definition new_connection :: "env \<Rightarrow> n2a \<Rightarrow> n2a" where
  "new_connection env s =
     snd (call_int env (\<lambda>_. Call_new_connection (tick s)) s)\<lparr>conn := Some (tick s)\<rparr>"

definition open_socket :: "env \<Rightarrow> options \<Rightarrow> n2a \<Rightarrow> n2a" where
  "open_socket env g s =
     (let (r, s1) = call_int env (Call_socket_open (hostname g) (port g)) s in n2a_on_error r s1)"

text \<open>A remote call that is made only when no error has been seen, with its reply checked.\<close>

definition rpc_step :: "env \<Rightarrow> (rpc_reply \<Rightarrow> amqp_call) \<Rightarrow> n2a \<Rightarrow> n2a" where
  "rpc_step env c s =
     (if \<not> amqp_errors s then let (x, s1) = call_rpc env c s in n2a_on_amqp_error x s1 else s)"

definition n2a_amqp_connect :: "env \<Rightarrow> options \<Rightarrow> n2a \<Rightarrow> bool \<times> n2a" where
  "n2a_amqp_connect env g s0 =
     (let s1 = s0\<lparr>amqp_errors := False\<rparr>;
          (t, s2) = gettimeofday env s1;
          s3 = s2\<lparr>amqp_last_connect := to_int t\<rparr>;
          s4 = close_old env s3;
          s5 = new_connection env s4;
          s7 = open_socket env g s5;
          s8 = rpc_step env Call_login s7;
          s9 = rpc_step env Call_channel_open s8;
          s10 = (case exchange_type g of
                   Some ty \<Rightarrow> rpc_step env (Call_exchange_declare (exchange_name g) ty) s9
                 | None \<Rightarrow> s9);
          s11 = (if \<not> amqp_errors s10
                 then s10\<lparr>amqp_connected := True, fifo_last_flush := 0\<rparr>
                 else s10\<lparr>amqp_connected := False\<rparr>)
      in (amqp_connected s11, s11))"

definition n2a_amqp_disconnect :: "env \<Rightarrow> n2a \<Rightarrow> n2a option" where
  "n2a_amqp_disconnect env s0 = do {
     let s1 = s0\<lparr>amqp_errors := False\<rparr>;
     s5 \<leftarrow>
       (if amqp_connected s1 then do {
          c \<leftarrow> conn s1;
          let (x, s2) = call_rpc env (\<lambda>_. Call_channel_close c) s1;
          let (y, s3) = call_rpc env (\<lambda>_. Call_connection_close c) (n2a_on_amqp_error x s2);
          let (z, s4) = call_int env (\<lambda>_. Call_destroy c) (n2a_on_amqp_error y s3);
          Some (n2a_on_error z s4)
        } else Some s1);
     Some (s5\<lparr>conn := None, amqp_connected := False\<rparr>)
   }"

definition n2a_toggle_blackout :: "env \<Rightarrow> n2a \<Rightarrow> (bool \<times> n2a) option" where
  "n2a_toggle_blackout env s =
     (if \<not> blackout s then do {
        s1 \<leftarrow> n2a_amqp_disconnect env s;
        let s2 = s1\<lparr>blackout := True\<rparr>;
        Some (blackout s2, s2)
      } else do {
        let s1 = s\<lparr>blackout := False\<rparr>;
        Some (blackout s1, s1)
      })"

definition n2a_amqp_check :: "env \<Rightarrow> options \<Rightarrow> n2a \<Rightarrow> (bool \<times> n2a) option" where
  "n2a_amqp_check env g s0 =
     (if blackout s0 then Some (False, s0)
      else if amqp_connected s0 then Some (amqp_connected s0, s0)
      else do {
        let s1 = s0\<lparr>amqp_connected := False\<rparr>;
        let (t, s2) = gettimeofday env s1;
        let timestamp = to_int t;
        elapsed \<leftarrow> int_sub timestamp (amqp_last_connect s2);
        let s3 = (if amqp_last_connect s2 = 0 \<or>
                     (\<not> amqp_connected s2 \<and> amqp_wait_time g \<le> elapsed)
                  then snd (n2a_amqp_connect env g s2) else s2);
        Some (amqp_connected s3, s3)
      })"

section \<open>Publishing\<close>

text \<open>The library call of a publication, with its result handed to \<^verbatim>\<open>n2a_on_error\<close>.\<close>

definition publish_call :: "env \<Rightarrow> string \<Rightarrow> string \<Rightarrow> n2a \<Rightarrow> n2a" where
  "publish_call env r m s =
     (let (result, s1) = call_int env (Call_publish r m) s
      in n2a_on_error result s1)"

text \<open>
  \<^verbatim>\<open>amqp_cstring_bytes\<close> takes the length of its argument, so a NULL key or message is
  undefined once the connection is up.
\<close>

definition n2a_amqp_publish ::
  "env \<Rightarrow> options \<Rightarrow> string option \<Rightarrow> string option \<Rightarrow> n2a \<Rightarrow> (bool \<times> n2a) option" where
  "n2a_amqp_publish env g routingkey message s0 = do {
     (ok, s1) \<leftarrow> n2a_amqp_check env g s0;
     if \<not> ok then Some (False, s1)
     else do {
       r \<leftarrow> routingkey;
       m \<leftarrow> message;
       let s3 = publish_call env r m s1;
       if amqp_errors s3 then do {
         s4 \<leftarrow> n2a_amqp_disconnect env s3;
         Some (False, s4)
       } else Some (True, s3)
     }
   }"

section \<open>The queue in the program state\<close>

definition q_shift :: "n2a \<Rightarrow> (addr option \<times> n2a) option" where
  "q_shift s = do {
     f \<leftarrow> pFifo s;
     (p, h', f') \<leftarrow> n2a_shift (mem s) f;
     Some (p, s\<lparr>mem := h', pFifo := Some f'\<rparr>)
   }"

definition q_push :: "n2a \<Rightarrow> addr \<Rightarrow> (int \<times> n2a) option" where
  "q_push s p = do {
     f \<leftarrow> pFifo s;
     (n, h', f') \<leftarrow> n2a_push (mem s) f p;
     Some (n, s\<lparr>mem := h', pFifo := Some f'\<rparr>)
   }"

definition q_prepend :: "n2a \<Rightarrow> addr \<Rightarrow> (int \<times> n2a) option" where
  "q_prepend s p = do {
     f \<leftarrow> pFifo s;
     (n, h', f') \<leftarrow> n2a_prepend (mem s) f p;
     Some (n, s\<lparr>mem := h', pFifo := Some f'\<rparr>)
   }"

definition q_init :: "n2a \<Rightarrow> string option \<Rightarrow> string option \<Rightarrow> (addr \<times> n2a) option" where
  "q_init s r m = do {
     (p, h') \<leftarrow> n2a_event_init (mem s) r m;
     Some (p, s\<lparr>mem := h'\<rparr>)
   }"

definition q_free :: "n2a \<Rightarrow> addr \<Rightarrow> n2a option" where
  "q_free s p = do {
     h' \<leftarrow> n2a_free_event (mem s) (Some p);
     Some (s\<lparr>mem := h'\<rparr>)
   }"

definition q_csync :: "n2a \<Rightarrow> n2a option" where
  "q_csync s = do {
     (i, d', f') \<leftarrow> n2a_csync (mem s) (files s) (pFifo s);
     Some (s\<lparr>files := d', pFifo := f'\<rparr>)
   }"

section \<open>Flushing and sending\<close>

text \<open>The \<^verbatim>\<open>for\<close> loop of \<^verbatim>\<open>n2a_fifo_check\<close>, with the iterations that are left.\<close>

fun flush_loop :: "env \<Rightarrow> options \<Rightarrow> nat \<Rightarrow> n2a \<Rightarrow> n2a option" where
  "flush_loop env g 0 s = Some s"
| "flush_loop env g (Suc n) s = do {
     (pEvent, s1) \<leftarrow> q_shift s;
     (case pEvent of
        None \<Rightarrow> Some s1
      | Some p \<Rightarrow> do {
          e \<leftarrow> cells (mem s1) p;
          (ok, s2) \<leftarrow> n2a_amqp_publish env g (rk e) (msg e) s1;
          if \<not> ok then do {
            (sz, s3) \<leftarrow> q_prepend s2 p;
            Some s3
          } else do {
            s3 \<leftarrow> q_free s2 p;
            flush_loop env g n s3
          }
        })
   }"

definition flush_count :: "options \<Rightarrow> int option" where
  "flush_count g =
     (if flush g = -1 then do {
        fl \<leftarrow> int_div (cache_size g) 5;
        Some (if fl > 1000 then 1000 else fl)
      } else Some (flush g))"

text \<open>The two halves of \<^verbatim>\<open>n2a_fifo_check\<close>: sending queued events and saving the queue.\<close>

definition flush_queue :: "env \<Rightarrow> options \<Rightarrow> int \<Rightarrow> n2a \<Rightarrow> n2a option" where
  "flush_queue env g timestamp s = do {
     elapsed \<leftarrow> int_sub timestamp (fifo_last_flush s);
     f \<leftarrow> pFifo s;
     if amqp_connected s \<and> fifo_size f > 0 \<and> flush_interval g \<le> elapsed then do {
       fl \<leftarrow> flush_count g;
       s' \<leftarrow> flush_loop env g (nat fl) s;
       Some (s'\<lparr>fifo_last_flush := timestamp\<rparr>)
     } else Some s
   }"

definition save_queue :: "options \<Rightarrow> int \<Rightarrow> n2a \<Rightarrow> n2a option" where
  "save_queue g timestamp s = do {
     elapsed \<leftarrow> int_sub timestamp (fifo_last_sync s);
     if autosync g \<le> elapsed then do {
       s' \<leftarrow> q_csync s;
       Some (s'\<lparr>fifo_last_sync := timestamp\<rparr>)
     } else Some s
   }"

definition n2a_fifo_check :: "env \<Rightarrow> options \<Rightarrow> n2a \<Rightarrow> n2a option" where
  "n2a_fifo_check env g s0 = do {
     let (t, s1) = gettimeofday env s0;
     s2 \<leftarrow> flush_queue env g (to_int t) s1;
     save_queue g (to_int t) s2
   }"

text \<open>\<^verbatim>\<open>n2a_push (g_options.pFifo, n2a_event_init (routingkey, message))\<close>\<close>

definition queue_event :: "string option \<Rightarrow> string option \<Rightarrow> n2a \<Rightarrow> (int \<times> n2a) option" where
  "queue_event routingkey message s = do {
     (p, s1) \<leftarrow> q_init s routingkey message;
     q_push s1 p
   }"

definition n2a_send_event ::
  "env \<Rightarrow> options \<Rightarrow> string option \<Rightarrow> string option \<Rightarrow> n2a \<Rightarrow> (int \<times> n2a) option" where
  "n2a_send_event env g routingkey message s0 = do {
     (amqp_state, s1) \<leftarrow> n2a_amqp_check env g s0;
     s2 \<leftarrow> n2a_fifo_check env g s1;
     f \<leftarrow> pFifo s2;
     if amqp_state \<and> fifo_size f = 0 then do {
       (ok, s3) \<leftarrow> n2a_amqp_publish env g routingkey message s2;
       if \<not> ok then do {
         (n, s4) \<leftarrow> queue_event routingkey message s3;
         Some (-1, s4)
       } else Some (0, s3)
     } else queue_event routingkey message s2
   }"

end
