(* ===== verification/Amqp_Link.thy ===== *)
theory Amqp_Link
  imports Amqp
begin

text \<open>
  The connection state machine: what every operation of \<^verbatim>\<open>neb2amqp.c\<close> keeps true of the
  connection flags, which memory it leaves alone, and what it adds to the delivered events.
\<close>

section \<open>Delivered events\<close>

definition published_of :: "amqp_call \<Rightarrow> (string \<times> string) list" where
  "published_of c = (case c of Call_publish r m x \<Rightarrow> if x < 0 then [] else [(r, m)] | _ \<Rightarrow> [])"

definition published :: "amqp_call list \<Rightarrow> (string \<times> string) list" where
  "published cs = concat (map published_of cs)"

lemma published_simps [simp]:
  "published [] = []"
  "published (xs @ ys) = published xs @ published ys"
  "published (c # cs) = published_of c @ published cs"
  by (simp_all add: published_def)

lemma published_of_simps [simp]:
  "published_of (Call_publish r m x) = (if x < 0 then [] else [(r, m)])"
  "published_of (Call_new_connection n) = []"
  "published_of (Call_socket_open h p x) = []"
  "published_of (Call_login y) = []"
  "published_of (Call_channel_open y) = []"
  "published_of (Call_exchange_declare e t y) = []"
  "published_of (Call_channel_close n) = []"
  "published_of (Call_connection_close n) = []"
  "published_of (Call_destroy n) = []"
  by (simp_all add: published_of_def)

abbreviation delivered :: "n2a \<Rightarrow> (string \<times> string) list" where
  "delivered s \<equiv> published (wire s)"

section \<open>Invariants\<close>

definition link_ok :: "n2a \<Rightarrow> bool" where
  "link_ok s \<longleftrightarrow> (amqp_connected s \<longrightarrow> \<not> amqp_errors s \<and> conn s \<noteq> None \<and> \<not> blackout s)"

definition time_ok :: "int \<Rightarrow> bool" where
  "time_ok t \<longleftrightarrow> 0 \<le> t \<and> t \<le> INT_MAX"

definition times_ok :: "n2a \<Rightarrow> bool" where
  "times_ok s \<longleftrightarrow> time_ok (amqp_last_connect s) \<and> time_ok (fifo_last_sync s) \<and> time_ok (fifo_last_flush s)"

text \<open>The clock stays within the non-negative \<^verbatim>\<open>int\<close> range (no event after January 2038).\<close>

definition clock_ok :: "env \<Rightarrow> bool" where
  "clock_ok env \<longleftrightarrow> (\<forall>n. time_ok (clock env n))"

lemma time_ok_to_int [simp]: "time_ok t \<Longrightarrow> to_int t = t"
  by (simp add: time_ok_def is_int_def INT_MIN_def INT_MAX_def)

lemma time_ok_0 [simp]: "time_ok 0"
  by (simp add: time_ok_def INT_MAX_def)

lemma time_ok_sub: "time_ok a \<Longrightarrow> time_ok b \<Longrightarrow> int_sub a b = Some (a - b)"
  by (simp add: time_ok_def)

lemma clock_okD [simp]: "clock_ok env \<Longrightarrow> time_ok (clock env n)"
  by (simp add: clock_ok_def)

text \<open>A network on which every call succeeds.\<close>

definition net_up :: "env \<Rightarrow> bool" where
  "net_up env \<longleftrightarrow> (\<forall>n. 0 \<le> ret_int env n) \<and> (\<forall>n. ret_rpc env n = Response_normal)"

section \<open>What an operation leaves alone\<close>

definition same_store :: "n2a \<Rightarrow> n2a \<Rightarrow> bool" where
  "same_store s s' \<longleftrightarrow> mem s' = mem s \<and> files s' = files s \<and> pFifo s' = pFifo s \<and>
     blackout s' = blackout s \<and> fifo_last_sync s' = fifo_last_sync s"

lemma same_store_refl [simp]: "same_store s s"
  by (simp add: same_store_def)

lemma same_store_trans: "same_store a b \<Longrightarrow> same_store b c \<Longrightarrow> same_store a c"
  by (simp add: same_store_def)

definition quiet :: "n2a \<Rightarrow> n2a \<Rightarrow> bool" where
  "quiet s s' \<longleftrightarrow> same_store s s' \<and> delivered s' = delivered s"

lemma quiet_refl [simp]: "quiet s s"
  by (simp add: quiet_def)

lemma quiet_trans [trans]: "quiet a b \<Longrightarrow> quiet b c \<Longrightarrow> quiet a c"
  by (auto simp: quiet_def intro: same_store_trans)

lemmas call_defs = gettimeofday_def call_int_def call_rpc_def Let_def

lemma on_error_simps [simp]:
  "amqp_errors (n2a_on_error x s) \<longleftrightarrow> amqp_errors s \<or> x < 0"
  "quiet s (n2a_on_error x s)"
  "conn (n2a_on_error x s) = conn s"
  "amqp_connected (n2a_on_error x s) = amqp_connected s"
  "amqp_last_connect (n2a_on_error x s) = amqp_last_connect s"
  "fifo_last_flush (n2a_on_error x s) = fifo_last_flush s"
  "tick (n2a_on_error x s) = tick s"
  "wire (n2a_on_error x s) = wire s"
  by (auto simp: n2a_on_error_def quiet_def same_store_def)

lemma on_amqp_error_cases:
  "n2a_on_amqp_error x s = (if x = Response_normal then s else s\<lparr>amqp_errors := True\<rparr>)"
  by (cases x) auto

lemma on_amqp_error_simps [simp]:
  "amqp_errors (n2a_on_amqp_error x s) \<longleftrightarrow> amqp_errors s \<or> x \<noteq> Response_normal"
  "quiet s (n2a_on_amqp_error x s)"
  "conn (n2a_on_amqp_error x s) = conn s"
  "amqp_connected (n2a_on_amqp_error x s) = amqp_connected s"
  "amqp_last_connect (n2a_on_amqp_error x s) = amqp_last_connect s"
  "fifo_last_flush (n2a_on_amqp_error x s) = fifo_last_flush s"
  "tick (n2a_on_amqp_error x s) = tick s"
  "wire (n2a_on_amqp_error x s) = wire s"
  by (auto simp: on_amqp_error_cases quiet_def same_store_def)

lemma rpc_step_simps:
  assumes "\<And>y. published_of (c y) = []"
  shows "quiet s (rpc_step env c s)"
    and "conn (rpc_step env c s) = conn s"
    and "amqp_last_connect (rpc_step env c s) = amqp_last_connect s"
    and "fifo_last_flush (rpc_step env c s) = fifo_last_flush s"
    and "amqp_errors (rpc_step env c s) \<longleftrightarrow> amqp_errors s \<or> ret_rpc env (tick s) \<noteq> Response_normal"
  using assms by (auto simp: rpc_step_def call_defs Let_def on_amqp_error_cases quiet_def same_store_def)

lemma close_old_simps [simp]:
  "quiet s (close_old env s)"
  "amqp_errors (close_old env s) = amqp_errors s"
  "amqp_last_connect (close_old env s) = amqp_last_connect s"
  "fifo_last_flush (close_old env s) = fifo_last_flush s"
  by (auto simp: close_old_def call_defs Let_def quiet_def same_store_def split: option.splits)

lemma new_connection_simps [simp]:
  "quiet s (new_connection env s)"
  "conn (new_connection env s) = Some (tick s)"
  "amqp_errors (new_connection env s) = amqp_errors s"
  "amqp_last_connect (new_connection env s) = amqp_last_connect s"
  "fifo_last_flush (new_connection env s) = fifo_last_flush s"
  by (auto simp: new_connection_def call_defs quiet_def same_store_def)

lemma open_socket_simps [simp]:
  "quiet s (open_socket env g s)"
  "conn (open_socket env g s) = conn s"
  "amqp_last_connect (open_socket env g s) = amqp_last_connect s"
  "fifo_last_flush (open_socket env g s) = fifo_last_flush s"
  by (auto simp: open_socket_def call_defs n2a_on_error_def quiet_def same_store_def)

section \<open>Connecting\<close>

text \<open>
  The connection attempt, step by step: it is quiet, it stamps the attempt with the clock, and
  it ends connected exactly when no step of it reported an error.
\<close>

lemma amqp_connect_spec:
  assumes "n2a_amqp_connect env g s = (b, s')"
  shows "quiet s s'" and "b = amqp_connected s'" and "amqp_connected s' \<longleftrightarrow> \<not> amqp_errors s'"
    and "conn s' \<noteq> None" and "amqp_last_connect s' = to_int (clock env (tick s))"
    and "fifo_last_flush s' = (if amqp_connected s' then 0 else fifo_last_flush s)"
proof -
  define s2 where "s2 = snd (gettimeofday env (s\<lparr>amqp_errors := False\<rparr>))
    \<lparr>amqp_last_connect := to_int (fst (gettimeofday env (s\<lparr>amqp_errors := False\<rparr>)))\<rparr>"
  define s5 where "s5 = new_connection env (close_old env s2)"
  define s9 where "s9 = rpc_step env Call_channel_open (rpc_step env Call_login (open_socket env g s5))"
  define s10 where "s10 = (case exchange_type g of
      Some ty \<Rightarrow> rpc_step env (Call_exchange_declare (exchange_name g) ty) s9 | None \<Rightarrow> s9)"
  define s11 where "s11 = (if \<not> amqp_errors s10 then s10\<lparr>amqp_connected := True, fifo_last_flush := 0\<rparr>
                  else s10\<lparr>amqp_connected := False\<rparr>)"
  have "n2a_amqp_connect env g s = (amqp_connected s11, s11)"
    unfolding n2a_amqp_connect_def Let_def split_beta s11_def s10_def s9_def s5_def s2_def ..
  with assms have s': "s' = s11" and b: "b = amqp_connected s'" by auto
  have q2: "quiet s s2" by (simp add: s2_def call_defs quiet_def same_store_def)
  have q5: "quiet s2 s5" unfolding s5_def by (rule quiet_trans [of _ "close_old env s2"]) simp_all
  have q9: "quiet s5 s9" unfolding s9_def
    by (rule quiet_trans [of _ "rpc_step env Call_login (open_socket env g s5)"],
        rule quiet_trans [of _ "open_socket env g s5"]) (simp_all add: rpc_step_simps)
  have q10: "quiet s9 s10" by (simp add: s10_def rpc_step_simps split: option.splits)
  have q: "quiet s s10" using q2 q5 q9 q10 by (meson quiet_trans)
  have c: "conn s10 \<noteq> None" "amqp_last_connect s10 = to_int (clock env (tick s))"
    "fifo_last_flush s10 = fifo_last_flush s"
    by (simp_all add: s10_def s9_def s5_def s2_def rpc_step_simps call_defs split: option.splits)
  show "quiet s s'" using q by (simp add: s' s11_def quiet_def same_store_def)
  show "b = amqp_connected s'" by (rule b)
  show "amqp_connected s' \<longleftrightarrow> \<not> amqp_errors s'" by (simp add: s' s11_def)
  show "conn s' \<noteq> None" "amqp_last_connect s' = to_int (clock env (tick s))"
    "fifo_last_flush s' = (if amqp_connected s' then 0 else fifo_last_flush s)"
    using c by (auto simp: s' s11_def)
qed


section \<open>The state between two operations\<close>

definition ready :: "n2a \<Rightarrow> bool" where
  "ready s \<longleftrightarrow> link_ok s \<and> times_ok s"

lemma quiet_storeD: "quiet s s' \<Longrightarrow> same_store s s'" "quiet s s' \<Longrightarrow> delivered s' = delivered s"
  by (simp_all add: quiet_def)

lemma same_store_fields:
  "same_store s s' \<Longrightarrow> mem s' = mem s" "same_store s s' \<Longrightarrow> files s' = files s"
  "same_store s s' \<Longrightarrow> pFifo s' = pFifo s" "same_store s s' \<Longrightarrow> blackout s' = blackout s"
  "same_store s s' \<Longrightarrow> fifo_last_sync s' = fifo_last_sync s"
  by (simp_all add: same_store_def)

lemma amqp_connect_ready:
  assumes "clock_ok env" and "ready s" and "\<not> blackout s"
    and "n2a_amqp_connect env g s = (b, s')"
  shows "ready s'" and "quiet s s'" and "b = amqp_connected s'"
proof -
  note spec = amqp_connect_spec [OF assms(4)]
  from spec(1) have "blackout s' = blackout s" "fifo_last_sync s' = fifo_last_sync s"
    by (simp_all add: quiet_def same_store_def)
  with spec assms(1-3) show "ready s'"
    by (auto simp: ready_def link_ok_def times_ok_def)
  from spec(1,2) show "quiet s s'" "b = amqp_connected s'" by simp_all
qed

text \<open>On such a network a connection attempt succeeds.\<close>

lemma rpc_step_up: "net_up env \<Longrightarrow> amqp_errors (rpc_step env c s) = amqp_errors s"
  by (auto simp: rpc_step_def call_defs Let_def on_amqp_error_cases net_up_def)

lemma amqp_connect_up: "net_up env \<Longrightarrow> n2a_amqp_connect env g s = (b, s') \<Longrightarrow> amqp_connected s'"
proof -
  assume up: "net_up env" and run: "n2a_amqp_connect env g s = (b, s')"
  have "amqp_errors (open_socket env g s) = amqp_errors s" for s
    using up by (simp add: open_socket_def call_defs n2a_on_error_def net_up_def leD)
  then show ?thesis
    using run up by (auto simp: n2a_amqp_connect_def Let_def rpc_step_up call_defs
        split: option.splits if_splits prod.splits)
qed

lemma amqp_disconnect_spec:
  assumes "link_ok s"
  shows "\<exists>s'. n2a_amqp_disconnect env s = Some s' \<and> quiet s s' \<and> \<not> amqp_connected s' \<and>
     conn s' = None \<and> amqp_last_connect s' = amqp_last_connect s \<and> fifo_last_flush s' = fifo_last_flush s"
  using assms
  by (cases "amqp_connected s"; cases "conn s")
    (auto simp: n2a_amqp_disconnect_def Let_def call_defs n2a_on_error_def on_amqp_error_cases
       link_ok_def quiet_def same_store_def split: if_splits)

lemma amqp_disconnect_ready:
  assumes "ready s"
  shows "\<exists>s'. n2a_amqp_disconnect env s = Some s' \<and> quiet s s' \<and> ready s' \<and> \<not> amqp_connected s' \<and> conn s' = None"
proof -
  from assms have "link_ok s" by (simp add: ready_def)
  from amqp_disconnect_spec [OF this] obtain s' where s': "n2a_amqp_disconnect env s = Some s'"
    "quiet s s'" "\<not> amqp_connected s'" "conn s' = None"
    "amqp_last_connect s' = amqp_last_connect s" "fifo_last_flush s' = fifo_last_flush s" by blast
  then have "ready s'" using assms by (auto simp: ready_def link_ok_def times_ok_def quiet_def same_store_def)
  with s' show ?thesis by blast
qed

lemma amqp_check_ready:
  assumes "clock_ok env" and "ready s"
  shows "\<exists>s'. n2a_amqp_check env g s = Some (amqp_connected s', s') \<and> ready s' \<and> quiet s s'"
proof -
  consider "blackout s" | "\<not> blackout s" "amqp_connected s" | (attempt) "\<not> blackout s" "\<not> amqp_connected s"
    by blast
  then show ?thesis
  proof cases
    case attempt
    let ?s2 = "s\<lparr>amqp_connected := False, tick := Suc (tick s)\<rparr>"
    have r2: "ready ?s2" using assms(2) attempt by (simp add: ready_def link_ok_def times_ok_def)
    have q2: "quiet s ?s2" by (simp add: quiet_def same_store_def)
    have el: "int_sub (to_int (clock env (tick s))) (amqp_last_connect s) =
        Some (clock env (tick s) - amqp_last_connect s)"
      using assms by (simp add: time_ok_sub ready_def times_ok_def)
    obtain b s' where c: "n2a_amqp_connect env g ?s2 = (b, s')" by (cases "n2a_amqp_connect env g ?s2")
    note con = amqp_connect_ready [OF assms(1) r2 _ c]
    have "quiet s s'" using q2 con(2) attempt by (simp add: quiet_trans [OF q2])
    with con attempt r2 q2 c el show ?thesis
      by (auto simp: n2a_amqp_check_def Let_def gettimeofday_def)
  qed (use assms in \<open>auto simp: n2a_amqp_check_def ready_def link_ok_def\<close>)
qed

lemma amqp_publish_ready:
  assumes "clock_ok env" and "ready s"
  shows "\<exists>s'. n2a_amqp_publish env g (Some r) (Some m) s = Some (amqp_connected s', s') \<and> ready s' \<and>
     same_store s s' \<and> delivered s' = delivered s @ (if amqp_connected s' then [(r, m)] else []) \<and>
     (net_up env \<and> amqp_connected s \<longrightarrow> amqp_connected s')"
proof -
  have up: "amqp_connected s \<Longrightarrow> n2a_amqp_check env g s = Some (True, s)"
    using assms(2) by (simp add: n2a_amqp_check_def ready_def link_ok_def)
  from amqp_check_ready [OF assms] obtain s1 where
    s1: "n2a_amqp_check env g s = Some (amqp_connected s1, s1)" "ready s1" "quiet s s1" by blast
  show ?thesis
  proof (cases "amqp_connected s1")
    case False
    with s1 up show ?thesis by (auto simp: n2a_amqp_publish_def quiet_def)
  next
    case True
    let ?x = "ret_int env (tick s1)"
    let ?s2 = "s1\<lparr>tick := Suc (tick s1), wire := wire s1 @ [Call_publish r m ?x]\<rparr>"
    have ne: "\<not> amqp_errors s1" using True s1(2) by (simp add: ready_def link_ok_def)
    have ss2: "same_store s ?s2" using s1(3) by (simp add: quiet_def same_store_def)
    have d1: "delivered s1 = delivered s" using s1(3) by (simp add: quiet_def)
    show ?thesis
    proof (cases "?x < 0")
      case False
      then have "n2a_amqp_publish env g (Some r) (Some m) s = Some (True, ?s2)"
        using True s1 ne by (simp add: n2a_amqp_publish_def publish_call_def call_defs n2a_on_error_def)
      moreover have "ready ?s2" using s1(2) by (simp add: ready_def link_ok_def times_ok_def)
      ultimately show ?thesis using False True ss2 d1
        by (intro exI [of _ ?s2]) simp
    next
      case bad: True
      let ?s3 = "?s2\<lparr>amqp_errors := True\<rparr>"
      have "n2a_amqp_disconnect env ?s3 = n2a_amqp_disconnect env ?s2"
        by (simp add: n2a_amqp_disconnect_def)
      moreover have "ready ?s2" using s1(2) by (simp add: ready_def link_ok_def times_ok_def)
      ultimately obtain s4 where s4: "n2a_amqp_disconnect env ?s3 = Some s4" "quiet ?s2 s4" "ready s4"
        "\<not> amqp_connected s4" using amqp_disconnect_ready by metis
      have "n2a_amqp_publish env g (Some r) (Some m) s = Some (False, s4)"
        using True s1 bad s4(1) by (simp add: n2a_amqp_publish_def publish_call_def call_defs n2a_on_error_def)
      moreover have "same_store s s4" using ss2 s4(2) by (auto simp: quiet_def intro: same_store_trans)
      moreover have "\<not> net_up env" using bad by (auto simp: net_up_def not_le)
      ultimately show ?thesis using s4 bad d1 by (intro exI [of _ s4]) (simp add: quiet_def)
    qed
  qed
qed

end
