(* ===== verification/Amqp_Delivery.thy ===== *)
theory Amqp_Delivery
  imports Amqp_Link Fifo_Sync
begin

text \<open>
  Delivery of events by \<^verbatim>\<open>n2a_send_event\<close>. \<open>queued s xs\<close> says that the program's queue holds
  the events \<open>xs\<close>, within a capacity of at least one; \<open>owns\<close> is the state while one event is
  out of the queue. The theorems relate what was queued and sent before a call to what is
  queued and has been delivered after it, for every behaviour of the network and the clock.
\<close>

section \<open>The queue in the program state\<close>

definition capacity :: "n2a \<Rightarrow> nat" where
  "capacity s = (case pFifo s of None \<Rightarrow> 0 | Some f \<Rightarrow> unat (fifo_max_size f))"

definition queued :: "n2a \<Rightarrow> (string \<times> string) list \<Rightarrow> bool" where
  "queued s xs \<longleftrightarrow> (\<exists>f. pFifo s = Some f \<and> queue_rep (mem s, f) xs \<and> \<not> file_lock f \<and>
        (dirty f \<or> file_current (files s) xs)) \<and>
     length xs \<le> capacity s \<and> 0 < capacity s"

definition owns :: "n2a \<Rightarrow> addr \<Rightarrow> string \<times> string \<Rightarrow> (string \<times> string) list \<Rightarrow> bool" where
  "owns s p x xs \<longleftrightarrow> (\<exists>f. pFifo s = Some f \<and> queue_held (mem s, f) p x xs \<and> \<not> file_lock f \<and> dirty f) \<and>
     length xs \<le> capacity s \<and> 0 < capacity s"

text \<open>The fields of the state that have nothing to do with the queue.\<close>

definition same_link :: "n2a \<Rightarrow> n2a \<Rightarrow> bool" where
  "same_link s s' \<longleftrightarrow> amqp_errors s' = amqp_errors s \<and> amqp_last_connect s' = amqp_last_connect s \<and>
     fifo_last_sync s' = fifo_last_sync s \<and> fifo_last_flush s' = fifo_last_flush s \<and>
     amqp_connected s' = amqp_connected s \<and> blackout s' = blackout s \<and> conn s' = conn s \<and>
     tick s' = tick s \<and> wire s' = wire s"

lemma same_link_ready: "same_link s s' \<Longrightarrow> ready s \<Longrightarrow> ready s'"
  by (simp add: same_link_def ready_def link_ok_def times_ok_def)

lemma same_store_queued: "same_store s s' \<Longrightarrow> queued s xs \<Longrightarrow> queued s' xs"
  by (simp add: same_store_def queued_def capacity_def)

lemma same_store_owns: "same_store s s' \<Longrightarrow> owns s p x xs \<Longrightarrow> owns s' p x xs"
  by (simp add: same_store_def owns_def capacity_def)

lemma same_store_capacity: "same_store s s' \<Longrightarrow> capacity s' = capacity s"
  by (simp add: same_store_def capacity_def)

lemma queued_size_zero:
  "queued s xs \<Longrightarrow> pFifo s = Some f \<Longrightarrow> fifo_size f = 0 \<longleftrightarrow> xs = []"
  by (auto simp: queued_def queue_rep_def dest: fifo_rep_size_zero)

section \<open>The queue's contract, in the program state\<close>

lemma q_shift_empty: "queued s [] \<Longrightarrow> q_shift s = Some (None, s)"
  using q.shift_empty_law [of "(mem s, the (pFifo s))"]
  by (auto simp: queued_def q_shift_def)

lemma q_shift_first:
  assumes "queued s (x # xs)"
  shows "\<exists>p s'. q_shift s = Some (Some p, s') \<and> owns s' p x xs \<and> same_link s s' \<and>
     files s' = files s \<and> capacity s' = capacity s \<and> length xs < capacity s"
proof -
  from assms obtain f where f: "pFifo s = Some f" "queue_rep (mem s, f) (x # xs)" "\<not> file_lock f"
    "Suc (length xs) \<le> capacity s" "0 < capacity s" by (auto simp: queued_def)
  from queue_shift [OF f(2)] obtain p h' f'
    where sh: "n2a_shift (mem s) f = Some (Some p, h', f')" "queue_held (h', f') p x xs" "touched f f'"
    by blast
  then show ?thesis using f
    by (auto simp: q_shift_def owns_def same_link_def capacity_def touched_def)
qed

lemma q_free_owned:
  assumes "owns s p x xs"
  shows "\<exists>s'. q_free s p = Some s' \<and> queued s' xs \<and> same_link s s' \<and> files s' = files s \<and>
     capacity s' = capacity s"
proof -
  from assms obtain f where f: "pFifo s = Some f" "queue_held (mem s, f) p x xs" "\<not> file_lock f" "dirty f"
    "length xs \<le> capacity s" "0 < capacity s" by (auto simp: owns_def)
  from queue_release [OF f(2)] f show ?thesis
    by (auto simp: q_free_def queued_def same_link_def capacity_def)
qed

lemma q_prepend_owned:
  assumes "owns s p x xs" and "length xs < capacity s"
  shows "\<exists>n s'. q_prepend s p = Some (n, s') \<and> queued s' (x # xs) \<and> same_link s s' \<and>
     files s' = files s \<and> capacity s' = capacity s"
proof -
  from assms obtain f where f: "pFifo s = Some f" "queue_held (mem s, f) p x xs" "\<not> file_lock f"
    "length xs < unat (fifo_max_size f)" by (auto simp: owns_def capacity_def)
  from queue_prepend [OF f(2,4)] obtain n h' f'
    where "n2a_prepend (mem s) f p = Some (n, h', f')" "queue_rep (h', f') (x # xs)" "touched f f'"
    by blast
  then show ?thesis using f
    by (auto simp: q_prepend_def queued_def same_link_def capacity_def touched_def)
qed

lemma queue_event_queued:
  assumes "queued s xs"
  shows "\<exists>s'. queue_event (Some r) (Some m) s =
       Some (to_int (int (length (push_list (capacity s) xs (r, m)))), s') \<and>
     queued s' (push_list (capacity s) xs (r, m)) \<and> same_link s s' \<and>
     files s' = files s \<and> capacity s' = capacity s"
proof -
  from assms obtain f where f: "pFifo s = Some f" "queue_rep (mem s, f) xs" "\<not> file_lock f"
    "length xs \<le> capacity s" "0 < capacity s" by (auto simp: queued_def)
  from queue_alloc [OF f(2), of r m] obtain p h1
    where a: "n2a_event_init (mem s) (Some r) (Some m) = Some (p, h1)" "queue_held (h1, f) p (r, m) xs"
    by blast
  from queue_push [OF a(2)] obtain h' f'
    where b: "n2a_push h1 f p = Some (to_int (int (length (push_list (unat (fifo_max_size f)) xs (r, m)))), h', f')"
      "queue_rep (h', f') (push_list (unat (fifo_max_size f)) xs (r, m))" "touched f f'" by blast
  have cap: "capacity s = unat (fifo_max_size f)" using f(1) by (simp add: capacity_def)
  have "length (push_list (capacity s) xs (r, m)) \<le> capacity s"
    using f(4,5) by (auto simp: push_list_def)
  then show ?thesis using a b f cap
    by (auto simp: queue_event_def q_init_def q_push_def queued_def same_link_def capacity_def touched_def)
qed

lemma q_csync_queued:
  assumes "queued s xs"
  shows "\<exists>s'. q_csync s = Some s' \<and> queued s' xs \<and> same_link s s' \<and> capacity s' = capacity s \<and>
     mem s' = mem s"
proof -
  from assms obtain f where f: "pFifo s = Some f" "queue_rep (mem s, f) xs" "\<not> file_lock f"
    "dirty f \<or> file_current (files s) xs" by (auto simp: queued_def)
  from csync_effect [OF f(2-4)] obtain i d' f'
    where c: "n2a_csync (mem s) (files s) (Some f) = Some (i, d', Some f')" "same_queue f f'"
      "\<not> file_lock f'" "dirty f' \<or> file_current d' xs" by blast
  moreover have "queue_rep (mem s, f') xs" by (rule same_queue_rep [OF c(2) f(2)])
  ultimately show ?thesis using assms f(1)
    by (auto simp: q_csync_def queued_def same_link_def capacity_def same_queue_def)
qed

section \<open>Flushing\<close>

lemma queue_held_node:
  "queue_held (h, f) p (r, m) xs \<Longrightarrow> cells h p = Some (fresh_node r m)"
  by (auto simp: queue_held_def)

lemma same_link_delivered: "same_link s s' \<Longrightarrow> delivered s' = delivered s"
  by (simp add: same_link_def)

text \<open>
  The loop sends a prefix of the queue, in order, and keeps the rest in order: it stops when
  the queue is empty, the count is used up or the connection is lost.
\<close>

lemma flush_loop_delivers:
  assumes "clock_ok env" and "ready s" and "queued s xs"
  shows "\<exists>s' ys zs. flush_loop env g n s = Some s' \<and> xs = ys @ zs \<and> ready s' \<and> queued s' zs \<and>
     delivered s' = delivered s @ ys \<and> capacity s' = capacity s \<and> blackout s' = blackout s \<and>
     (zs = [] \<or> length ys = n \<or> \<not> amqp_connected s') \<and> length ys \<le> n \<and>
     ((net_up env \<or> zs = []) \<and> amqp_connected s \<longrightarrow> amqp_connected s')"
  using assms(2,3)
proof (induction n arbitrary: s xs)
  case 0
  then show ?case by (intro exI [of _ s] exI [of _ "[]"] exI [of _ xs]) simp
next
  case (Suc n)
  show ?case
  proof (cases xs)
    case Nil
    with Suc.prems q_shift_empty show ?thesis
      by (intro exI [of _ s] exI [of _ "[]"]) simp
  next
    case (Cons x xs')
    obtain r m where x: "x = (r, m)" by (cases x)
    from Suc.prems(2) Cons obtain p s1 where sh: "q_shift s = Some (Some p, s1)" "owns s1 p x xs'"
      "same_link s s1" "capacity s1 = capacity s" "length xs' < capacity s"
      using q_shift_first by blast
    from sh(2) x have node: "cells (mem s1) p = Some (fresh_node r m)"
      by (auto simp: owns_def dest: queue_held_node)
    have r1: "ready s1" using sh(3) Suc.prems(1) by (rule same_link_ready)
    from amqp_publish_ready [OF assms(1) r1, of g r m] obtain s2
      where pub: "n2a_amqp_publish env g (Some r) (Some m) s1 = Some (amqp_connected s2, s2)" "ready s2"
        "same_store s1 s2" "delivered s2 = delivered s1 @ (if amqp_connected s2 then [(r, m)] else [])"
        "net_up env \<and> amqp_connected s1 \<longrightarrow> amqp_connected s2"
      by blast
    have c1: "amqp_connected s1 = amqp_connected s" using sh(3) by (simp add: same_link_def)
    have o2: "owns s2 p x xs'" by (rule same_store_owns [OF pub(3) sh(2)])
    have cap2: "capacity s2 = capacity s" using same_store_capacity [OF pub(3)] sh(4) by simp
    have bl2: "blackout s2 = blackout s" using pub(3) sh(3) by (simp add: same_store_def same_link_def)
    have del2: "delivered s2 = delivered s @ (if amqp_connected s2 then [(r, m)] else [])"
      using pub(4) same_link_delivered [OF sh(3)] by simp
    show ?thesis
    proof (cases "amqp_connected s2")
      case False
      from q_prepend_owned [OF o2] sh(5) cap2 obtain k s3 where pre: "q_prepend s2 p = Some (k, s3)"
        "queued s3 (x # xs')" "same_link s2 s3" "capacity s3 = capacity s2" by auto
      have "flush_loop env g (Suc n) s = Some s3"
        using sh(1) node pub(1) False pre(1) by simp
      moreover have "ready s3" by (rule same_link_ready [OF pre(3) pub(2)])
      ultimately show ?thesis using pre cap2 bl2 del2 False Cons pub(5) c1
        by (intro exI [of _ s3] exI [of _ "[]"] exI [of _ xs]) (auto simp: same_link_def)
    next
      case True
      from q_free_owned [OF o2] obtain s3 where fr: "q_free s2 p = Some s3" "queued s3 xs'"
        "same_link s2 s3" "capacity s3 = capacity s2" by blast
      have r3: "ready s3" by (rule same_link_ready [OF fr(3) pub(2)])
      from Suc.IH [OF r3 fr(2)] obtain s' ys zs
        where ih: "flush_loop env g n s3 = Some s'" "xs' = ys @ zs" "ready s'" "queued s' zs"
          "delivered s' = delivered s3 @ ys" "capacity s' = capacity s3" "blackout s' = blackout s3"
          "zs = [] \<or> length ys = n \<or> \<not> amqp_connected s'" "length ys \<le> n"
          "(net_up env \<or> zs = []) \<and> amqp_connected s3 \<longrightarrow> amqp_connected s'" by blast
      have "amqp_connected s3" using True fr(3) by (simp add: same_link_def)
      moreover have "flush_loop env g (Suc n) s = Some s'"
        using sh(1) node pub(1) True fr(1) ih(1) by simp
      moreover have "delivered s' = delivered s @ x # ys"
        using ih(5) same_link_delivered [OF fr(3)] del2 True x by simp
      moreover have "blackout s3 = blackout s2" using fr(3) by (simp add: same_link_def)
      ultimately show ?thesis using ih fr cap2 bl2 Cons
        by (intro exI [of _ s'] exI [of _ "x # ys"] exI [of _ zs]) auto
    qed
  qed
qed


section \<open>The periodic check\<close>

lemma sdiv_5_bounds: "is_int a \<Longrightarrow> is_int (a sdiv 5)"
proof -
  assume a: "is_int a"
  have "\<bar>a sdiv 5\<bar> = \<bar>a\<bar> div 5"
    by (simp add: signed_divide_int_def abs_mult sgn_if)
  with a show ?thesis by (auto simp: is_int_def INT_MIN_def INT_MAX_def)
qed

lemma flush_count_defined: "is_int (cache_size g) \<Longrightarrow> \<exists>c. flush_count g = Some c"
  using sdiv_5_bounds [of "cache_size g"] by (auto simp: flush_count_def int_div_def int_result_def)

text \<open>What \<^verbatim>\<open>n2a_fifo_check\<close> does when it is time to flush, and when it is not.\<close>

definition flush_due :: "env \<Rightarrow> options \<Rightarrow> n2a \<Rightarrow> bool" where
  "flush_due env g s \<longleftrightarrow> amqp_connected s \<and> flush_interval g \<le> clock env (tick s) - fifo_last_flush s"

lemma fifo_check_delivers:
  assumes env: "clock_ok env" and r: "ready s" and xs: "queued s xs" and cs: "flush_count g = Some c"
  shows "\<exists>s' ys zs. n2a_fifo_check env g s = Some s' \<and> xs = ys @ zs \<and> ready s' \<and> queued s' zs \<and>
     delivered s' = delivered s @ ys \<and> capacity s' = capacity s \<and> blackout s' = blackout s \<and>
     length ys \<le> nat c \<and> (\<not> flush_due env g s \<longrightarrow> ys = [] \<and> amqp_connected s' = amqp_connected s \<and> wire s' = wire s) \<and>
     (flush_due env g s \<longrightarrow> zs = [] \<or> length ys = nat c \<or> \<not> amqp_connected s') \<and>
     ((net_up env \<or> zs = []) \<and> amqp_connected s \<longrightarrow> amqp_connected s')"
proof -
  from xs obtain f where f: "pFifo s = Some f" by (auto simp: queued_def)
  let ?t = "clock env (tick s)"
  let ?s1 = "s\<lparr>tick := Suc (tick s)\<rparr>"
  have t: "time_ok ?t" using env by simp
  have tlf: "time_ok (fifo_last_flush s)" "time_ok (fifo_last_sync s)" using r by (simp_all add: ready_def times_ok_def)
  have r1: "ready ?s1" using r by (simp add: ready_def link_ok_def times_ok_def)
  have x1: "queued ?s1 xs" using xs by (simp add: queued_def capacity_def)
  let ?go = "amqp_connected s \<and> fifo_size f > 0 \<and> flush_interval g \<le> ?t - fifo_last_flush s"
  have size: "fifo_size f > 0 \<longleftrightarrow> xs \<noteq> []"
    using queued_size_zero [OF xs f] by (simp add: word_gt_0)
  have el: "int_sub (to_int ?t) (fifo_last_flush s) = Some (?t - fifo_last_flush s)"
    using t tlf by (simp add: time_ok_sub)
  have "\<exists>s2 ys zs. flush_queue env g (to_int ?t) ?s1 = Some s2 \<and> xs = ys @ zs \<and> ready s2 \<and>
       queued s2 zs \<and> delivered s2 = delivered s @ ys \<and> capacity s2 = capacity s \<and>
       blackout s2 = blackout s \<and> length ys \<le> nat c \<and>
       (\<not> flush_due env g s \<longrightarrow> ys = [] \<and> amqp_connected s2 = amqp_connected s \<and> wire s2 = wire s) \<and>
       (flush_due env g s \<longrightarrow> zs = [] \<or> length ys = nat c \<or> \<not> amqp_connected s2) \<and>
       ((net_up env \<or> zs = []) \<and> amqp_connected s \<longrightarrow> amqp_connected s2)"
  proof (cases ?go)
    case True
    from flush_loop_delivers [OF env r1 x1, of g "nat c"] obtain s' ys zs
      where fl: "flush_loop env g (nat c) ?s1 = Some s'" "xs = ys @ zs" "ready s'" "queued s' zs"
        "delivered s' = delivered ?s1 @ ys" "capacity s' = capacity ?s1" "blackout s' = blackout ?s1"
        "zs = [] \<or> length ys = nat c \<or> \<not> amqp_connected s'" "length ys \<le> nat c"
        "(net_up env \<or> zs = []) \<and> amqp_connected ?s1 \<longrightarrow> amqp_connected s'" by blast
    have "flush_due env g s" using True by (simp add: flush_due_def)
    moreover have "ready (s'\<lparr>fifo_last_flush := to_int ?t\<rparr>)"
      using fl(3) t by (simp add: ready_def link_ok_def times_ok_def)
    moreover have "flush_queue env g (to_int ?t) ?s1 = Some (s'\<lparr>fifo_last_flush := to_int ?t\<rparr>)"
      using True f el cs fl(1) by (simp add: flush_queue_def)
    ultimately show ?thesis using fl
      by (intro exI [of _ "s'\<lparr>fifo_last_flush := to_int ?t\<rparr>"] exI [of _ ys] exI [of _ zs])
        (simp add: queued_def capacity_def)
  next
    case False
    then have "flush_queue env g (to_int ?t) ?s1 = Some ?s1"
      using f el by (auto simp: flush_queue_def)
    with False x1 r1 size show ?thesis
      by (intro exI [of _ ?s1] exI [of _ "[]"] exI [of _ xs])
        (auto simp: flush_due_def capacity_def)
  qed
  then obtain s2 ys zs where s2: "flush_queue env g (to_int ?t) ?s1 = Some s2"
    "xs = ys @ zs" "ready s2" "queued s2 zs" "delivered s2 = delivered s @ ys" "capacity s2 = capacity s"
    "blackout s2 = blackout s" "length ys \<le> nat c"
    "\<not> flush_due env g s \<longrightarrow> ys = [] \<and> amqp_connected s2 = amqp_connected s \<and> wire s2 = wire s"
    "flush_due env g s \<longrightarrow> zs = [] \<or> length ys = nat c \<or> \<not> amqp_connected s2"
    "(net_up env \<or> zs = []) \<and> amqp_connected s \<longrightarrow> amqp_connected s2" by blast
  have "int_sub (to_int ?t) (fifo_last_sync s2) = Some (?t - fifo_last_sync s2)"
    using t s2(3) by (simp add: time_ok_sub ready_def times_ok_def)
  then have run: "n2a_fifo_check env g s =
      (if autosync g \<le> ?t - fifo_last_sync s2
       then Option.bind (q_csync s2) (\<lambda>s3. Some (s3\<lparr>fifo_last_sync := to_int ?t\<rparr>)) else Some s2)"
    using s2(1) by (simp add: n2a_fifo_check_def gettimeofday_def save_queue_def)
  from q_csync_queued [OF s2(4)] obtain s3 where s3: "q_csync s2 = Some s3" "queued s3 zs"
    "same_link s2 s3" "capacity s3 = capacity s2" by blast
  show ?thesis
  proof (cases "autosync g \<le> ?t - fifo_last_sync s2")
    case True
    have "ready (s3\<lparr>fifo_last_sync := to_int ?t\<rparr>)"
      using same_link_ready [OF s3(3) s2(3)] t by (simp add: ready_def link_ok_def times_ok_def)
    with True run s3 s2 show ?thesis
      by (intro exI [of _ "s3\<lparr>fifo_last_sync := to_int ?t\<rparr>"] exI [of _ ys] exI [of _ zs])
        (simp add: queued_def capacity_def same_link_def)
  next
    case False
    with run s2 show ?thesis by (intro exI [of _ s2] exI [of _ ys] exI [of _ zs]) simp
  qed
qed


section \<open>Sending\<close>

lemma send_event_spec:
  assumes env: "clock_ok env" and r: "ready s" and xs: "queued s xs" and cs: "flush_count g = Some c"
  shows "\<exists>n s' ys zs. n2a_send_event env g (Some k) (Some m) s = Some (n, s') \<and> xs = ys @ zs \<and>
     ready s' \<and> capacity s' = capacity s \<and> blackout s' = blackout s \<and> length ys \<le> nat c \<and>
     ((n = 0 \<and> zs = [] \<and> delivered s' = delivered s @ xs @ [(k, m)] \<and> queued s' []) \<or>
      (n = -1 \<and> zs = [] \<and> delivered s' = delivered s @ xs \<and> queued s' [(k, m)] \<and> \<not> amqp_connected s') \<or>
      (n = to_int (int (length (push_list (capacity s) zs (k, m)))) \<and>
       delivered s' = delivered s @ ys \<and> queued s' (push_list (capacity s) zs (k, m)) \<and>
       (zs \<noteq> [] \<or> \<not> amqp_connected s')))"
proof -
  from amqp_check_ready [OF env r, of g] obtain s1
    where s1: "n2a_amqp_check env g s = Some (amqp_connected s1, s1)" "ready s1" "quiet s s1" by blast
  have st1: "same_store s s1" and d1: "delivered s1 = delivered s" using s1(3) by (simp_all add: quiet_def)
  have x1: "queued s1 xs" by (rule same_store_queued [OF st1 xs])
  from fifo_check_delivers [OF env s1(2) x1 cs] obtain s2 ys zs
    where s2: "n2a_fifo_check env g s1 = Some s2" "xs = ys @ zs" "ready s2" "queued s2 zs"
      "delivered s2 = delivered s1 @ ys" "capacity s2 = capacity s1" "blackout s2 = blackout s1"
      "length ys \<le> nat c" "\<not> flush_due env g s1 \<longrightarrow> ys = [] \<and> amqp_connected s2 = amqp_connected s1 \<and> wire s2 = wire s1"
    by blast
  from s2(4) obtain f where f: "pFifo s2 = Some f" by (auto simp: queued_def)
  have z: "fifo_size f = 0 \<longleftrightarrow> zs = []" by (rule queued_size_zero [OF s2(4) f])
  have cap: "capacity s2 = capacity s" and bl: "blackout s2 = blackout s"
    using s2(6,7) same_store_capacity [OF st1] st1 by (simp_all add: same_store_def)
  show ?thesis
  proof (cases "amqp_connected s1 \<and> zs = []")
    case True
    from amqp_publish_ready [OF env s2(3), of g k m] obtain s3
      where s3: "n2a_amqp_publish env g (Some k) (Some m) s2 = Some (amqp_connected s3, s3)" "ready s3"
        "same_store s2 s3" "delivered s3 = delivered s2 @ (if amqp_connected s3 then [(k, m)] else [])"
      by blast
    have x3: "queued s3 []" using same_store_queued [OF s3(3) s2(4)] True by simp
    have cap3: "capacity s3 = capacity s" and bl3: "blackout s3 = blackout s"
      using same_store_capacity [OF s3(3)] s3(3) cap bl by (simp_all add: same_store_def)
    show ?thesis
    proof (cases "amqp_connected s3")
      case sent: True
      have "n2a_send_event env g (Some k) (Some m) s = Some (0, s3)"
        using s1 s2(1) f z True s3(1) sent by (simp add: n2a_send_event_def)
      with s3 sent x3 cap3 bl3 s2 d1 True show ?thesis
        by (intro exI [of _ 0] exI [of _ s3] exI [of _ ys] exI [of _ zs]) simp
    next
      case lost: False
      from queue_event_queued [OF x3, of k m] obtain s5
        where s5: "queue_event (Some k) (Some m) s3 =
            Some (to_int (int (length (push_list (capacity s3) [] (k, m)))), s5)"
          "queued s5 (push_list (capacity s3) [] (k, m))" "same_link s3 s5" "capacity s5 = capacity s3"
        by blast
      have one: "push_list (capacity s3) [] (k, m) = [(k, m)]" by (simp add: push_list_def)
      have "n2a_send_event env g (Some k) (Some m) s = Some (-1, s5)"
        using s1 s2(1) f z True s3(1) lost s5(1) by (simp add: n2a_send_event_def)
      moreover have "ready s5" by (rule same_link_ready [OF s5(3) s3(2)])
      ultimately show ?thesis
        using s3 lost s5 one cap3 bl3 s2 d1 True same_link_delivered [OF s5(3)]
        by (intro exI [of _ "-1"] exI [of _ s5] exI [of _ ys] exI [of _ zs]) (simp add: same_link_def)
    qed
  next
    case False
    from queue_event_queued [OF s2(4), of k m] obtain s4
      where s4: "queue_event (Some k) (Some m) s2 =
          Some (to_int (int (length (push_list (capacity s2) zs (k, m)))), s4)"
        "queued s4 (push_list (capacity s2) zs (k, m))" "same_link s2 s4" "capacity s4 = capacity s2"
      by blast
    have "n2a_send_event env g (Some k) (Some m) s =
        Some (to_int (int (length (push_list (capacity s) zs (k, m)))), s4)"
      using s1 s2(1) f z False s4(1) cap by (auto simp: n2a_send_event_def)
    moreover have "ready s4" by (rule same_link_ready [OF s4(3) s2(3)])
    moreover have "zs \<noteq> [] \<or> \<not> amqp_connected s4"
      using False s2(9) s4(3) by (auto simp: same_link_def flush_due_def)
    ultimately show ?thesis
      using s4 cap bl s2 d1 same_link_delivered [OF s4(3)]
      by (intro exI [of _ "to_int (int (length (push_list (capacity s) zs (k, m))))"]
            exI [of _ s4] exI [of _ ys] exI [of _ zs]) (simp add: same_link_def)
  qed
qed

end
