(* ===== verification/Amqp_Protocol.thy ===== *)
theory Amqp_Protocol
  imports Amqp_Delivery
begin

text \<open>
  Invariants of the calls made to the AMQP library. A locale states what a predicate on the
  connection part of the state must satisfy to be kept by every operation of the connector;
  its instance is the protocol of the calls: which call may follow which on a connection.
\<close>

section \<open>Invariants of the connection part of the state\<close>

text \<open>What such an invariant may look at.\<close>

definition link_view :: "n2a \<Rightarrow> amqp_call list \<times> nat option \<times> bool \<times> bool \<times> nat \<times> bool \<times> bool \<times> bool" where
  "link_view s = (wire s, conn s, amqp_connected s, amqp_errors s, tick s, permissions (files s))"

lemma csync_loop_permissions:
  "csync_loop h p d st i = Some y \<Longrightarrow> permissions (fst (snd y)) = permissions d"
proof (induction h p d st i y rule: csync_loop.raw_induct [rotated 1, consumes 1])
  case (1 loop h p d st i y)
  show ?case
  proof (cases p)
    case None
    with 1 show ?thesis by auto
  next
    case (Some a)
    with 1(2) obtain e :: event and r m where "loop h (pNext e)
        (fst (fwrite_string d st (r @ [NL] @ m @ [NL]))) (snd (fwrite_string d st (r @ [NL] @ m @ [NL]))) (i + 1) = Some y"
      by (auto simp: bind_eq_Some_conv)
    from 1(1) [OF this] show ?thesis by (simp add: fwrite_string_def permissions_def)
  qed
qed

lemma csync_permissions:
  assumes "n2a_csync h d q = Some (i, d', q')"
  shows "permissions d' = permissions d"
proof (cases q)
  case None
  with assms show ?thesis by (simp add: n2a_csync_def)
next
  case (Some f)
  obtain r d1 f1 where c: "n2a_clear d (f\<lparr>file_lock := True\<rparr>) = (r, d1, f1)" by (rule prod_cases3)
  obtain ok d2 f2 where op: "n2a_fifo_open_file d1 f1 = (ok, d2, f2)" by (rule prod_cases3)
  from assms Some c op show ?thesis
    using clear_permissions [OF c] open_file_permissions [OF op]
    by (auto simp: n2a_csync_def Let_def bind_eq_Some_conv split: if_splits dest!: csync_loop_permissions)
qed

locale link_invariant =
  fixes env :: env and g :: options and P :: "n2a \<Rightarrow> bool"
  assumes view_law: "link_view s' = link_view s \<Longrightarrow> P s \<Longrightarrow> P s'"
    and clock_law: "P s \<Longrightarrow> P (s\<lparr>tick := Suc (tick s)\<rparr>)"
    and connect_law: "P s \<Longrightarrow> P (snd (n2a_amqp_connect env g s))"
    and disconnect_law: "P s \<Longrightarrow> n2a_amqp_disconnect env s = Some s' \<Longrightarrow> P s'"
    and publish_law: "P s \<Longrightarrow> amqp_connected s \<Longrightarrow> \<not> amqp_errors (publish_call env r m s) \<Longrightarrow>
          P (publish_call env r m s)"
    and failure_law: "P s \<Longrightarrow> amqp_connected s \<Longrightarrow> amqp_errors (publish_call env r m s) \<Longrightarrow>
          n2a_amqp_disconnect env (publish_call env r m s) = Some s' \<Longrightarrow> P s'"
begin

lemma link_keeps: "same_link s s' \<Longrightarrow> permissions (files s') = permissions (files s) \<Longrightarrow> P s \<Longrightarrow> P s'"
  by (rule view_law) (simp_all add: link_view_def same_link_def)

lemma check_keeps:
  assumes "P s" and "n2a_amqp_check env g s = Some (b, s')"
  shows "P s' \<and> b = (amqp_connected s' \<and> \<not> blackout s)"
proof -
  let ?s2 = "s\<lparr>amqp_connected := False, tick := Suc (tick s)\<rparr>"
  show ?thesis
  proof (cases "blackout s \<or> amqp_connected s")
    case True
    with assms show ?thesis by (auto simp: n2a_amqp_check_def split: if_splits)
  next
    case False
    have "P (s\<lparr>tick := Suc (tick s)\<rparr>)" using assms(1) by (rule clock_law)
    then have "P ?s2" by (rule view_law [rotated]) (use False in \<open>simp add: link_view_def\<close>)
    with False assms(2) connect_law [of ?s2] show ?thesis
      by (auto simp: n2a_amqp_check_def gettimeofday_def Let_def elim!: bind_eq_SomeE split: if_splits)
  qed
qed

lemma disconnect_keeps: "n2a_amqp_disconnect env s = Some s' \<Longrightarrow> P s \<Longrightarrow> P s'"
  by (rule disconnect_law)

lemma publish_keeps:
  assumes run: "n2a_amqp_publish env g r m s = Some (b, s')" and "P s"
  shows "P s'"
proof -
  from run obtain ok s1 where c: "n2a_amqp_check env g s = Some (ok, s1)"
    by (auto simp: n2a_amqp_publish_def elim!: bind_eq_SomeE)
  from check_keeps [OF assms(2) c] have p1: "P s1" "ok \<Longrightarrow> amqp_connected s1" by simp_all
  show ?thesis
  proof (cases ok)
    case True
    from True run c p1 show ?thesis
      by (auto simp: n2a_amqp_publish_def Let_def elim!: bind_eq_SomeE split: if_splits
          intro: publish_law failure_law)
  next
    case False
    with run c p1 show ?thesis by (simp add: n2a_amqp_publish_def)
  qed
qed

lemma q_ops_keep:
  "q_shift s = Some (p, s') \<Longrightarrow> P s \<Longrightarrow> P s'"
  "q_push s a = Some (n, s') \<Longrightarrow> P s \<Longrightarrow> P s'"
  "q_prepend s a = Some (n, s') \<Longrightarrow> P s \<Longrightarrow> P s'"
  "q_init s r m = Some (a, s') \<Longrightarrow> P s \<Longrightarrow> P s'"
  "q_free s a = Some s' \<Longrightarrow> P s \<Longrightarrow> P s'"
  "q_csync s = Some s' \<Longrightarrow> P s \<Longrightarrow> P s'"
  by (rule link_keeps, auto simp: q_shift_def q_push_def q_prepend_def q_init_def q_free_def q_csync_def
      same_link_def elim!: bind_eq_SomeE dest: csync_permissions)+

lemma time_fields_keep:
  "P s \<Longrightarrow> P (s\<lparr>fifo_last_flush := t\<rparr>)" "P s \<Longrightarrow> P (s\<lparr>fifo_last_sync := t\<rparr>)"
  "P s \<Longrightarrow> P (s\<lparr>blackout := b\<rparr>)"
  by (auto intro: view_law simp: link_view_def)

lemma flush_loop_keeps: "flush_loop env g n s = Some s' \<Longrightarrow> P s \<Longrightarrow> P s'"
proof (induction n arbitrary: s)
  case 0
  then show ?case by simp
next
  case (Suc n)
  then obtain pe s1 where sh: "q_shift s = Some (pe, s1)"
    by (auto simp: bind_eq_Some_conv)
  have p1: "P s1" using sh Suc.prems(2) by (rule q_ops_keep)
  show ?case
  proof (cases pe)
    case None
    with sh p1 Suc.prems(1) show ?thesis by simp
  next
    case (Some p)
    with sh Suc.prems(1) obtain e where e: "cells (mem s1) p = Some e"
      by (cases "cells (mem s1) p") auto
    with Some sh Suc.prems(1) obtain ok s2
      where pub: "n2a_amqp_publish env g (rk e) (msg e) s1 = Some (ok, s2)"
      by (cases "n2a_amqp_publish env g (rk e) (msg e) s1") auto
    have p2: "P s2" using pub p1 by (rule publish_keeps)
    from Suc.prems(1) Some sh e pub show ?thesis
      by (cases ok) (auto elim!: bind_eq_SomeE intro: q_ops_keep(3) [OF _ p2]
          Suc.IH q_ops_keep(5) [OF _ p2])
  qed
qed

lemma flush_queue_keeps: "flush_queue env g t s = Some s' \<Longrightarrow> P s \<Longrightarrow> P s'"
  by (auto simp: flush_queue_def bind_eq_Some_conv split: if_splits
      intro: time_fields_keep dest: flush_loop_keeps)

lemma save_queue_keeps: "save_queue g t s = Some s' \<Longrightarrow> P s \<Longrightarrow> P s'"
  by (auto simp: save_queue_def bind_eq_Some_conv split: if_splits
      intro: time_fields_keep dest: q_ops_keep)

lemma fifo_check_keeps:
  assumes "n2a_fifo_check env g s = Some s'" and "P s"
  shows "P s'"
proof -
  from assms(1) obtain t s2 where "flush_queue env g t (s\<lparr>tick := Suc (tick s)\<rparr>) = Some s2"
    and "save_queue g t s2 = Some s'"
    by (auto simp: n2a_fifo_check_def gettimeofday_def bind_eq_Some_conv)
  then show ?thesis using clock_law [OF assms(2)] by (auto dest: flush_queue_keeps save_queue_keeps)
qed

lemma queue_event_keeps: "queue_event r m s = Some (n, s') \<Longrightarrow> P s \<Longrightarrow> P s'"
  by (auto simp: queue_event_def bind_eq_Some_conv dest: q_ops_keep)

lemma send_event_keeps:
  assumes "n2a_send_event env g r m s = Some (n, s')" and "P s"
  shows "P s'"
proof -
  from assms(1) obtain ok s1 s2 where c: "n2a_amqp_check env g s = Some (ok, s1)"
    and fc: "n2a_fifo_check env g s1 = Some s2"
    by (auto simp: n2a_send_event_def bind_eq_Some_conv)
  have "P s1" using check_keeps [OF assms(2) c] by simp
  with fc have "P s2" by (rule fifo_check_keeps)
  with assms(1) c fc show ?thesis
    by (auto simp: n2a_send_event_def bind_eq_Some_conv split: if_splits
        dest: publish_keeps queue_event_keeps)
qed

lemma toggle_keeps: "n2a_toggle_blackout env s = Some (b, s') \<Longrightarrow> P s \<Longrightarrow> P s'"
  by (auto simp: n2a_toggle_blackout_def Let_def bind_eq_Some_conv split: if_splits
      intro!: time_fields_keep dest: disconnect_keeps)

end


section \<open>The protocol of the calls\<close>

text \<open>
  How far the handshake of a connection has come. The stages up to \<open>Exchange_declared\<close> are
  reached by a call that succeeded: the socket function returned no error code, the reply to
  the remote call was a normal one. A handshake in which a call failed is given up.
\<close>

datatype stage =
    Created | Socket_opened | Logged_in | Channel_opened | Exchange_declared | Given_up
  | Publishing | Publish_failed | Channel_closed | Connection_closed

text \<open>The stages in which events may be published; \<open>b\<close> says that an exchange is declared.\<close>

definition publishable :: "bool \<Rightarrow> stage \<Rightarrow> bool" where
  "publishable b st \<longleftrightarrow> st = Publishing \<or> st = (if b then Exchange_declared else Channel_opened)"

definition advance :: "(nat \<times> stage) option \<Rightarrow> stage \<Rightarrow> bool \<Rightarrow> stage \<Rightarrow> (nat \<times> stage) option option" where
  "advance ph old ok new =
     (case ph of
        None \<Rightarrow> None
      | Some (k, st) \<Rightarrow> if st = old then Some (Some (k, if ok then new else Given_up)) else None)"

text \<open>
  One call, at the connection and stage reached so far: \<open>None\<close> is a call out of order. A
  connection is closed by three calls in a row that name it; it may be closed when it can be
  published on, after a publication that failed, and when it was given up. Only one that was
  given up may also be followed by a new one without being closed.
\<close>

definition next_stage ::
  "bool \<Rightarrow> (nat \<times> stage) option \<Rightarrow> amqp_call \<Rightarrow> (nat \<times> stage) option option" where
  "next_stage b ph c =
     (case c of
        Call_new_connection n \<Rightarrow>
          (case ph of
             None \<Rightarrow> Some (Some (n, Created))
           | Some (k, st) \<Rightarrow> if st = Given_up then Some (Some (n, Created)) else None)
      | Call_socket_open h p x \<Rightarrow> advance ph Created (0 \<le> x) Socket_opened
      | Call_login y \<Rightarrow> advance ph Socket_opened (y = Response_normal) Logged_in
      | Call_channel_open y \<Rightarrow> advance ph Logged_in (y = Response_normal) Channel_opened
      | Call_exchange_declare e t y \<Rightarrow>
          advance ph Channel_opened (y = Response_normal) Exchange_declared
      | Call_publish r m x \<Rightarrow>
          (case ph of
             None \<Rightarrow> None
           | Some (k, st) \<Rightarrow>
               if publishable b st then Some (Some (k, if x < 0 then Publish_failed else Publishing))
               else None)
      | Call_channel_close n \<Rightarrow>
          (case ph of
             None \<Rightarrow> None
           | Some (k, st) \<Rightarrow>
               if k = n \<and> (publishable b st \<or> st = Publish_failed \<or> st = Given_up)
               then Some (Some (k, Channel_closed)) else None)
      | Call_connection_close n \<Rightarrow>
          (if ph = Some (n, Channel_closed) then Some (Some (n, Connection_closed)) else None)
      | Call_destroy n \<Rightarrow> if ph = Some (n, Connection_closed) then Some None else None)"

definition protocol :: "bool \<Rightarrow> amqp_call list \<Rightarrow> (nat \<times> stage) option option" where
  "protocol b cs = foldl (\<lambda>ph c. Option.bind ph (\<lambda>q. next_stage b q c)) (Some None) cs"

lemma protocol_simps [simp]:
  "protocol b [] = Some None"
  "protocol b (cs @ ds) = foldl (\<lambda>ph c. Option.bind ph (\<lambda>q. next_stage b q c)) (protocol b cs) ds"
  by (simp_all add: protocol_def)

text \<open>
  What the stage says about the calls made: the handshake of the connection and, behind it,
  publications that succeeded.
\<close>

definition handshake :: "bool \<Rightarrow> nat \<Rightarrow> amqp_call list \<Rightarrow> bool" where
  "handshake b k cs \<longleftrightarrow> (\<exists>h p x ex. 0 \<le> x \<and>
     cs = [Call_new_connection k, Call_socket_open h p x, Call_login Response_normal,
           Call_channel_open Response_normal] @ ex \<and>
     (if b then \<exists>e t. ex = [Call_exchange_declare e t Response_normal] else ex = []))"

definition accepted :: "amqp_call \<Rightarrow> bool" where
  "accepted c \<longleftrightarrow> (case c of Call_publish r m x \<Rightarrow> 0 \<le> x | _ \<Rightarrow> False)"

definition session :: "bool \<Rightarrow> nat \<Rightarrow> amqp_call list \<Rightarrow> bool" where
  "session b k cs \<longleftrightarrow> (\<exists>pre hs ps. cs = pre @ hs @ ps \<and> handshake b k hs \<and> (\<forall>c \<in> set ps. accepted c))"

definition stage_calls :: "bool \<Rightarrow> nat \<Rightarrow> stage \<Rightarrow> amqp_call list \<Rightarrow> bool" where
  "stage_calls b k st cs \<longleftrightarrow>
     (st = Created \<longrightarrow> (\<exists>pre. cs = pre @ [Call_new_connection k])) \<and>
     (st = Socket_opened \<longrightarrow> (\<exists>pre h p x. 0 \<le> x \<and> cs = pre @ [Call_new_connection k, Call_socket_open h p x])) \<and>
     (st = Logged_in \<longrightarrow> (\<exists>pre h p x. 0 \<le> x \<and>
        cs = pre @ [Call_new_connection k, Call_socket_open h p x, Call_login Response_normal])) \<and>
     (st = Channel_opened \<longrightarrow> (\<exists>pre h p x. 0 \<le> x \<and>
        cs = pre @ [Call_new_connection k, Call_socket_open h p x, Call_login Response_normal,
               Call_channel_open Response_normal])) \<and>
     (st = Exchange_declared \<longrightarrow> (\<exists>pre h p x e t. 0 \<le> x \<and>
        cs = pre @ [Call_new_connection k, Call_socket_open h p x, Call_login Response_normal,
               Call_channel_open Response_normal, Call_exchange_declare e t Response_normal])) \<and>
     (st = Publishing \<longrightarrow> session b k cs)"

lemma session_start: "handshake b k hs \<Longrightarrow> session b k (pre @ hs)"
  unfolding session_def by (rule exI [of _ pre], rule exI [of _ hs], rule exI [of _ "[]"]) simp

lemma session_step:
  assumes "session b k cs" and "accepted c"
  shows "session b k (cs @ [c])"
proof -
  obtain pre hs ps where "cs = pre @ hs @ ps" "handshake b k hs" "\<forall>c \<in> set ps. accepted c"
    using assms(1) by (auto simp: session_def)
  with assms(2) have "cs @ [c] = pre @ hs @ (ps @ [c])" "handshake b k hs" "\<forall>c \<in> set (ps @ [c]). accepted c"
    by auto
  then show ?thesis unfolding session_def by blast
qed

lemma stage_calls_publishable:
  assumes "stage_calls b k st cs" and "publishable b st"
  shows "session b k cs"
proof -
  consider "st = Publishing" | "st = Exchange_declared" "b" | "st = Channel_opened" "\<not> b"
    using assms(2) by (auto simp: publishable_def split: if_splits)
  then show ?thesis
    by cases (use assms(1) in \<open>auto simp: stage_calls_def handshake_def intro!: session_start\<close>)
qed

lemma next_stage_calls:
  assumes "stage_calls b k st cs" and "next_stage b (Some (k, st)) c = Some (Some (k', st'))"
  shows "stage_calls b k' st' (cs @ [c])"
proof (cases "\<exists>r m x. c = Call_publish r m x")
  case True
  then obtain r m x where c: "c = Call_publish r m x" by blast
  with assms(2) have p: "publishable b st" "k' = k" "st' = (if x < 0 then Publish_failed else Publishing)"
    by (auto simp: next_stage_def split: if_splits)
  from stage_calls_publishable [OF assms(1) p(1)] have "session b k cs" .
  then show ?thesis using session_step [of b k cs c] p(2,3) c
    by (auto simp: stage_calls_def accepted_def)
next
  case False
  with assms show ?thesis
    by (cases c) (auto simp: next_stage_def advance_def stage_calls_def split: if_splits)
qed

lemma protocol_stage_calls: "protocol b cs = Some (Some (k, st)) \<Longrightarrow> stage_calls b k st cs"
proof (induction cs arbitrary: k st rule: rev_induct)
  case Nil
  then show ?case by simp
next
  case (snoc c cs)
  then obtain q where q: "protocol b cs = Some q" "next_stage b q c = Some (Some (k, st))"
    by (cases "protocol b cs") auto
  show ?case
  proof (cases q)
    case None
    with q(2) show ?thesis
      by (cases c) (auto simp: next_stage_def advance_def stage_calls_def split: if_splits)
  next
    case (Some r)
    with snoc.IH q(1) have "stage_calls b (fst r) (snd r) cs" by (cases r) simp
    with q(2) Some show ?thesis using next_stage_calls by (cases r) simp
  qed
qed

text \<open>Where an event is published, the calls before it are those of an open session.\<close>

lemma protocol_append_None: "foldl (\<lambda>ph c. Option.bind ph (\<lambda>q. next_stage b q c)) None cs = None"
  by (induction cs) simp_all

lemma protocol_publish_session:
  assumes "protocol b (cs @ Call_publish r m x # ds) = Some ph"
  shows "\<exists>k. session b k cs"
proof -
  obtain q where q: "protocol b cs = Some q" "next_stage b q (Call_publish r m x) \<noteq> None"
    using assms by (cases "protocol b cs"; cases "next_stage b (the (protocol b cs)) (Call_publish r m x)")
      (auto simp: protocol_append_None)
  then obtain k st where "q = Some (k, st)" "publishable b st"
    by (auto simp: next_stage_def split: option.splits if_splits)
  with q(1) show ?thesis using protocol_stage_calls stage_calls_publishable by blast
qed

text \<open>The connection of the state is the one the calls are about, in a stage that fits.\<close>

definition stage_ok :: "bool \<Rightarrow> n2a \<Rightarrow> (nat \<times> stage) option \<Rightarrow> bool" where
  "stage_ok b s ph \<longleftrightarrow>
     (case ph of
        None \<Rightarrow> conn s = None \<and> \<not> amqp_connected s
      | Some (k, st) \<Rightarrow>
          if amqp_connected s then conn s = Some k \<and> publishable b st \<and> \<not> amqp_errors s
          else conn s \<in> {None, Some k} \<and> st = Given_up)"

definition proto_ok :: "options \<Rightarrow> n2a \<Rightarrow> bool" where
  "proto_ok g s \<longleftrightarrow> (\<exists>ph. protocol (exchange_type g \<noteq> None) (wire s) = Some ph \<and>
     stage_ok (exchange_type g \<noteq> None) s ph)"

lemmas stage_defs = next_stage_def advance_def publishable_def

text \<open>The calls of a connection attempt, one after the other.\<close>

definition closed_or_given_up :: "(nat \<times> stage) option \<Rightarrow> bool" where
  "closed_or_given_up q \<longleftrightarrow> (case q of None \<Rightarrow> True | Some (k, st) \<Rightarrow> st = Given_up)"

lemma close_old_stage:
  assumes "protocol b (wire s) = Some ph" and "stage_ok b s ph"
  shows "\<exists>q. protocol b (wire (close_old env s)) = Some q \<and> closed_or_given_up q"
  using assms
  by (auto simp: close_old_def call_defs stage_ok_def stage_defs closed_or_given_up_def
      split: option.splits if_splits prod.splits)

lemma new_connection_stage:
  assumes "protocol b (wire s) = Some q" and "closed_or_given_up q"
  shows "protocol b (wire (new_connection env s)) = Some (Some (tick s, Created))"
  using assms
  by (auto simp: new_connection_def call_defs next_stage_def closed_or_given_up_def split: option.splits)

text \<open>The stage of an attempt: how far it has come, or given up once an error was seen.\<close>

abbreviation reached :: "bool \<Rightarrow> nat \<Rightarrow> stage \<Rightarrow> n2a \<Rightarrow> bool" where
  "reached b k st s \<equiv> protocol b (wire s) = Some (Some (k, if amqp_errors s then Given_up else st))"

lemma open_socket_stage:
  "protocol b (wire s) = Some (Some (k, Created)) \<Longrightarrow> \<not> amqp_errors s \<Longrightarrow>
   reached b k Socket_opened (open_socket env g s)"
  by (simp add: open_socket_def call_defs next_stage_def advance_def)

lemma rpc_step_stage:
  assumes "reached b k st s"
    and "\<And>y. next_stage b (Some (k, st)) (c y) =
           Some (Some (k, if y = Response_normal then st' else Given_up))"
  shows "reached b k st' (rpc_step env c s)"
  using assms by (simp add: rpc_step_def call_defs)

lemma proto_connect:
  assumes "proto_ok g s"
  shows "proto_ok g (snd (n2a_amqp_connect env g s))"
proof -
  let ?b = "exchange_type g \<noteq> None"
  define s2 where "s2 = snd (gettimeofday env (s\<lparr>amqp_errors := False\<rparr>))
    \<lparr>amqp_last_connect := to_int (fst (gettimeofday env (s\<lparr>amqp_errors := False\<rparr>)))\<rparr>"
  define s4 where "s4 = close_old env s2"
  define s5 where "s5 = new_connection env s4"
  define s7 where "s7 = open_socket env g s5"
  define s8 where "s8 = rpc_step env Call_login s7"
  define s9 where "s9 = rpc_step env Call_channel_open s8"
  define s10 where "s10 = (case exchange_type g of
      Some ty \<Rightarrow> rpc_step env (Call_exchange_declare (exchange_name g) ty) s9 | None \<Rightarrow> s9)"
  define s11 where "s11 = (if \<not> amqp_errors s10 then s10\<lparr>amqp_connected := True, fifo_last_flush := 0\<rparr>
                  else s10\<lparr>amqp_connected := False\<rparr>)"
  have s11: "snd (n2a_amqp_connect env g s) = s11"
    unfolding n2a_amqp_connect_def Let_def split_beta snd_conv
      s11_def s10_def s9_def s8_def s7_def s5_def s4_def s2_def ..
  have view: "wire s2 = wire s" "conn s2 = conn s" "amqp_connected s2 = amqp_connected s"
    "amqp_errors s2 = False"
    by (simp_all add: s2_def call_defs)
  obtain ph where ph: "protocol ?b (wire s2) = Some ph" "stage_ok ?b s2 ph"
  proof -
    from assms obtain ph where "protocol ?b (wire s) = Some ph" "stage_ok ?b s ph"
      by (auto simp: proto_ok_def)
    moreover from this(2) have "stage_ok ?b s2 ph"
      by (auto simp: stage_ok_def view split: option.splits if_splits)
    ultimately show ?thesis using that by (simp add: view)
  qed
  obtain q where "protocol ?b (wire s4) = Some q" "closed_or_given_up q"
    using close_old_stage [OF ph] by (auto simp: s4_def)
  then have p5: "protocol ?b (wire s5) = Some (Some (tick s4, Created))"
    unfolding s5_def by (rule new_connection_stage)
  have "\<not> amqp_errors s5" by (simp add: s5_def s4_def view)
  with p5 have p7: "reached ?b (tick s4) Socket_opened s7"
    unfolding s7_def by (rule open_socket_stage)
  have p8: "reached ?b (tick s4) Logged_in s8"
    unfolding s8_def by (rule rpc_step_stage [OF p7]) (simp add: next_stage_def advance_def)
  have p9: "reached ?b (tick s4) Channel_opened s9"
    unfolding s9_def by (rule rpc_step_stage [OF p8]) (simp add: next_stage_def advance_def)
  have p10: "reached ?b (tick s4) (if ?b then Exchange_declared else Channel_opened) s10"
  proof (cases "exchange_type g")
    case None
    with p9 show ?thesis by (simp add: s10_def)
  next
    case (Some ty)
    have "reached ?b (tick s4) Exchange_declared
        (rpc_step env (Call_exchange_declare (exchange_name g) ty) s9)"
      by (rule rpc_step_stage [OF p9]) (simp add: next_stage_def advance_def)
    with Some show ?thesis by (simp add: s10_def)
  qed
  have "conn s10 = Some (tick s4)"
    by (simp add: s10_def s9_def s8_def s7_def s5_def rpc_step_simps split: option.splits)
  with p10 have "proto_ok g s11"
    by (auto simp: proto_ok_def s11_def stage_ok_def publishable_def)
  then show ?thesis by (simp add: s11)
qed

text \<open>A connection that is up is closed by the three calls; one that is not is forgotten.\<close>

definition closing :: "n2a \<Rightarrow> amqp_call list" where
  "closing s = (if amqp_connected s then
     (case conn s of None \<Rightarrow> [] | Some c \<Rightarrow> [Call_channel_close c, Call_connection_close c, Call_destroy c])
     else [])"

lemma disconnect_wire:
  "n2a_amqp_disconnect env s = Some s' \<Longrightarrow> wire s' = wire s @ closing s \<and> conn s' = None \<and> \<not> amqp_connected s'"
  by (cases "conn s"; cases "amqp_connected s")
    (auto simp: n2a_amqp_disconnect_def closing_def Let_def call_defs n2a_on_error_def on_amqp_error_cases)

lemma publish_call_wire:
  "wire (publish_call env r m s) = wire s @ [Call_publish r m (ret_int env (tick s))]"
  "conn (publish_call env r m s) = conn s"
  "amqp_connected (publish_call env r m s) = amqp_connected s"
  "amqp_errors (publish_call env r m s) \<longleftrightarrow> amqp_errors s \<or> ret_int env (tick s) < 0"
  by (simp_all add: publish_call_def call_defs Let_def)

lemma proto_ok_cases:
  assumes "proto_ok g s"
  obtains (down) "\<not> amqp_connected s" "protocol (exchange_type g \<noteq> None) (wire s) = Some None"
  | (given_up) k where "\<not> amqp_connected s"
      "protocol (exchange_type g \<noteq> None) (wire s) = Some (Some (k, Given_up))"
  | (up) k st where "amqp_connected s" "\<not> amqp_errors s" "conn s = Some k"
      "publishable (exchange_type g \<noteq> None) st"
      "protocol (exchange_type g \<noteq> None) (wire s) = Some (Some (k, st))"
proof -
  let ?b = "exchange_type g \<noteq> None"
  from assms obtain ph where ph: "protocol ?b (wire s) = Some ph" "stage_ok ?b s ph"
    unfolding proto_ok_def by blast
  then show thesis
    by (cases ph; cases "amqp_connected s")
      (simp_all add: stage_ok_def down, (auto simp: up given_up)+)
qed

lemma proto_disconnect:
  assumes "proto_ok g s" and "n2a_amqp_disconnect env s = Some s'"
  shows "proto_ok g s'"
proof -
  note w = disconnect_wire [OF assms(2)]
  from assms(1) show ?thesis
  proof (cases rule: proto_ok_cases)
    case (up k st)
    then show ?thesis using w
      by (simp add: proto_ok_def stage_ok_def closing_def next_stage_def)
  qed (use w in \<open>simp_all add: proto_ok_def stage_ok_def closing_def\<close>)
qed

lemma proto_publish:
  assumes "proto_ok g s" and "amqp_connected s" and "\<not> amqp_errors (publish_call env r m s)"
  shows "proto_ok g (publish_call env r m s)"
  using assms(1)
proof (cases rule: proto_ok_cases)
  case (up k st)
  then show ?thesis using assms(3)
    by (simp add: proto_ok_def stage_ok_def publish_call_wire next_stage_def publishable_def)
qed (use assms(2) in simp_all)

lemma proto_failure:
  assumes "proto_ok g s" and "amqp_connected s" and "amqp_errors (publish_call env r m s)"
    and "n2a_amqp_disconnect env (publish_call env r m s) = Some s'"
  shows "proto_ok g s'"
  using assms(1)
proof (cases rule: proto_ok_cases)
  case (up k st)
  then show ?thesis using assms(3) disconnect_wire [OF assms(4)]
    by (simp add: proto_ok_def stage_ok_def publish_call_wire closing_def next_stage_def)
qed (use assms(2) in simp_all)

interpretation protocol_link: link_invariant env g "proto_ok g" for env g
proof (unfold_locales, goal_cases)
  case (1 s' s)
  then show ?case
    by (auto simp: link_view_def proto_ok_def stage_ok_def split: option.splits if_splits)
next
  case (2 s)
  then show ?case by (auto simp: proto_ok_def stage_ok_def split: option.splits if_splits)
qed (fact proto_connect proto_disconnect proto_publish proto_failure)+

text \<open>A second instance: no operation changes what the process may do with the cache file.\<close>

lemma disconnect_files: "n2a_amqp_disconnect env s = Some s' \<Longrightarrow> files s' = files s"
  by (cases "conn s"; cases "amqp_connected s")
    (auto simp: n2a_amqp_disconnect_def Let_def call_defs n2a_on_error_def on_amqp_error_cases)

lemma publish_call_files: "files (publish_call env r m s) = files s"
  by (simp add: publish_call_def call_defs n2a_on_error_def Let_def)

interpretation permissions_link: link_invariant env g "\<lambda>s. permissions (files s) = p" for env g p
proof (unfold_locales, goal_cases)
  case (1 s' s)
  then show ?case by (simp add: link_view_def)
next
  case (2 s)
  then show ?case by simp
next
  case (3 s)
  then show ?case using amqp_connect_spec(1) [of env g s]
    by (cases "n2a_amqp_connect env g s") (simp add: quiet_def same_store_def)
qed (simp_all add: disconnect_files publish_call_files)

end
