(* ===== verification/Amqp_Run.thy ===== *)
theory Amqp_Run
  imports Amqp_Protocol "HOL-Library.Sublist"
begin

text \<open>
  Runs of the connector: any sequence of events handed to \<^verbatim>\<open>n2a_send_event\<close> and of blackout
  switches, on any network. The invariants of a run, what it delivers and in which order, when
  it connects, and when it makes progress.
\<close>

section \<open>Runs\<close>

datatype action = Send string string | Toggle

inductive connector_step :: "env \<Rightarrow> options \<Rightarrow> n2a \<Rightarrow> action \<Rightarrow> n2a \<Rightarrow> bool" for env g where
  send: "n2a_send_event env g (Some k) (Some m) s = Some (n, s') \<Longrightarrow>
         connector_step env g s (Send k m) s'"
| toggle: "n2a_toggle_blackout env s = Some (b, s') \<Longrightarrow> connector_step env g s Toggle s'"

inductive connector_run :: "env \<Rightarrow> options \<Rightarrow> n2a \<Rightarrow> action list \<Rightarrow> n2a \<Rightarrow> bool" for env g where
  run_start: "connector_run env g s [] s"
| run_step: "connector_run env g s as s' \<Longrightarrow> connector_step env g s' a s'' \<Longrightarrow>
             connector_run env g s (as @ [a]) s''"

inductive_cases step_sendE: "connector_step env g s (Send k m) s'"
inductive_cases step_toggleE: "connector_step env g s Toggle s'"
inductive_simps step_simps: "connector_step env g s a s'"

definition submitted_by :: "action \<Rightarrow> (string \<times> string) list" where
  "submitted_by a = (case a of Send k m \<Rightarrow> [(k, m)] | Toggle \<Rightarrow> [])"

definition submitted :: "action list \<Rightarrow> (string \<times> string) list" where
  "submitted as = concat (map submitted_by as)"

lemma submitted_simps [simp]:
  "submitted [] = []"
  "submitted (as @ [a]) = submitted as @ submitted_by a"
  "submitted_by (Send k m) = [(k, m)]"
  "submitted_by Toggle = []"
  by (simp_all add: submitted_def submitted_by_def)

section \<open>One step\<close>

text \<open>The state of a connector between two steps: \<open>xs\<close> is queued.\<close>

definition connector_ok :: "options \<Rightarrow> n2a \<Rightarrow> (string \<times> string) list \<Rightarrow> bool" where
  "connector_ok g s xs \<longleftrightarrow> ready s \<and> queued s xs \<and> proto_ok g s \<and> is_int (cache_size g)"

lemma push_list_subseq: "subseq (push_list mx zs x) (zs @ [x])"
  by (cases zs) (auto simp: push_list_def intro: subseq_order.order_trans)

lemma push_list_room: "length zs < mx \<Longrightarrow> push_list mx zs x = zs @ [x]"
  by (simp add: push_list_def)

text \<open>
  Sending an event from such a state: it is defined, the state after it is such a state, and
  the delivered and queued events together are the old ones in the old order, followed by the
  new one; only a full queue loses an event, its oldest.
\<close>

lemma send_event_ok:
  assumes "clock_ok env" and ok: "connector_ok g s xs"
  shows "\<exists>n s' ds zs lost. n2a_send_event env g (Some k) (Some m) s = Some (n, s') \<and>
     connector_ok g s' zs \<and> capacity s' = capacity s \<and> blackout s' = blackout s \<and>
     delivered s' = delivered s @ ds \<and> ds @ lost @ zs = xs @ [(k, m)] \<and>
     length lost \<le> 1 \<and> (lost \<noteq> [] \<longrightarrow> length zs = capacity s)"
proof -
  from ok have r: "ready s" and q: "queued s xs" and p: "proto_ok g s" and i: "is_int (cache_size g)"
    by (simp_all add: connector_ok_def)
  from flush_count_defined [OF i] obtain c where c: "flush_count g = Some c" by blast
  from send_event_spec [OF assms(1) r q c, of k m] obtain n s' ys zs where
    run: "n2a_send_event env g (Some k) (Some m) s = Some (n, s')" and split: "xs = ys @ zs"
    and r': "ready s'" and cap: "capacity s' = capacity s" and b: "blackout s' = blackout s"
    and out: "(n = 0 \<and> zs = [] \<and> delivered s' = delivered s @ xs @ [(k, m)] \<and> queued s' []) \<or>
      (n = -1 \<and> zs = [] \<and> delivered s' = delivered s @ xs \<and> queued s' [(k, m)] \<and> \<not> amqp_connected s') \<or>
      (n = to_int (int (length (push_list (capacity s) zs (k, m)))) \<and>
       delivered s' = delivered s @ ys \<and> queued s' (push_list (capacity s) zs (k, m)) \<and>
       (zs \<noteq> [] \<or> \<not> amqp_connected s'))"
    by blast
  have p': "proto_ok g s'" by (rule protocol_link.send_event_keeps [OF run p])
  have okI: "queued s' us \<Longrightarrow> connector_ok g s' us" for us
    using r' p' i by (simp add: connector_ok_def)
  show ?thesis
  proof (cases "n = 0 \<and> zs = [] \<and> delivered s' = delivered s @ xs @ [(k, m)] \<and> queued s' []")
    case True
    then show ?thesis using run cap b okI by (intro exI [of _ n] exI [of _ s'] exI [of _ "xs @ [(k, m)]"] exI [of _ "[]"] exI [of _ "[]"]) auto
  next
    case nd: False
    show ?thesis
    proof (cases "n = -1 \<and> zs = [] \<and> delivered s' = delivered s @ xs \<and> queued s' [(k, m)]")
      case True
      then show ?thesis using run cap b okI
        by (intro exI [of _ n] exI [of _ s'] exI [of _ xs] exI [of _ "[(k, m)]"] exI [of _ "[]"]) auto
    next
      case False
      with nd out have d: "delivered s' = delivered s @ ys"
        and q': "queued s' (push_list (capacity s) zs (k, m))" by blast+
      let ?lost = "if capacity s \<le> length zs then take 1 zs else []"
      have len: "length (push_list (capacity s) zs (k, m)) \<le> capacity s"
        using q' cap by (simp add: queued_def)
      have "capacity s \<le> length zs \<Longrightarrow> zs \<noteq> []" using q by (auto simp: queued_def)
      then have "ys @ ?lost @ push_list (capacity s) zs (k, m) = xs @ [(k, m)]"
        using split by (cases zs) (auto simp: push_list_def)
      moreover have "?lost \<noteq> [] \<Longrightarrow> length (push_list (capacity s) zs (k, m)) = capacity s"
        using len by (cases zs) (auto simp: push_list_def split: if_splits)
      ultimately show ?thesis using run cap b okI [OF q'] d
        by (intro exI [of _ n] exI [of _ s'] exI [of _ ys]
            exI [of _ "push_list (capacity s) zs (k, m)"] exI [of _ ?lost]) auto
    qed
  qed
qed

lemma toggle_ok:
  assumes "connector_ok g s xs"
  shows "\<exists>b s'. n2a_toggle_blackout env s = Some (b, s') \<and> connector_ok g s' xs \<and>
     capacity s' = capacity s \<and> delivered s' = delivered s \<and> blackout s' = (\<not> blackout s) \<and>
     b = blackout s' \<and> (blackout s' \<longrightarrow> \<not> amqp_connected s' \<and> conn s' = None)"
proof (cases "blackout s")
  case True
  let ?s' = "s\<lparr>blackout := False\<rparr>"
  have run: "n2a_toggle_blackout env s = Some (False, ?s')" using True by (simp add: n2a_toggle_blackout_def)
  have "proto_ok g ?s'"
    by (rule protocol_link.toggle_keeps [OF run]) (use assms in \<open>simp add: connector_ok_def\<close>)
  with run True assms show ?thesis
    by (auto simp: connector_ok_def ready_def link_ok_def times_ok_def queued_def capacity_def)
next
  case False
  from assms have r: "ready s" by (simp add: connector_ok_def)
  from amqp_disconnect_ready [OF this, of env] obtain s1 where s1: "n2a_amqp_disconnect env s = Some s1"
    "quiet s s1" "ready s1" "\<not> amqp_connected s1" "conn s1 = None" by blast
  let ?s' = "s1\<lparr>blackout := True\<rparr>"
  have run: "n2a_toggle_blackout env s = Some (True, ?s')"
    using False s1(1) by (simp add: n2a_toggle_blackout_def)
  have "proto_ok g ?s'"
    by (rule protocol_link.toggle_keeps [OF run]) (use assms in \<open>simp add: connector_ok_def\<close>)
  with run False assms s1 show ?thesis
    by (auto simp: connector_ok_def ready_def link_ok_def times_ok_def queued_def capacity_def
        quiet_def same_store_def)
qed

text \<open>Every action has a defined result, so a run can always be continued.\<close>

lemma connector_step_total:
  assumes "clock_ok env" and "connector_ok g s xs"
  shows "\<exists>s'. connector_step env g s a s'"
proof (cases a)
  case (Send k m)
  from send_event_ok [OF assms, of k m] Send show ?thesis by (auto intro: send)
next
  case Toggle
  from toggle_ok [OF assms(2), of env] obtain b s' where "n2a_toggle_blackout env s = Some (b, s')" by blast
  with Toggle show ?thesis by (auto intro: toggle)
qed

section \<open>Whole runs\<close>

lemma connector_run_invariant:
  assumes "connector_run env g s as s'" and "clock_ok env" and "connector_ok g s xs"
  shows "\<exists>ds ys. connector_ok g s' ys \<and> capacity s' = capacity s \<and>
     delivered s' = delivered s @ ds \<and> subseq (ds @ ys) (xs @ submitted as) \<and>
     (length (xs @ submitted as) \<le> capacity s \<longrightarrow> ds @ ys = xs @ submitted as)"
  using assms
proof (induction rule: connector_run.induct)
  case (run_start s)
  then show ?case by (intro exI [of _ "[]"] exI [of _ xs]) simp
next
  case (run_step s as s' a s'')
  then obtain ds ys where ok: "connector_ok g s' ys" and cap: "capacity s' = capacity s"
    and d: "delivered s' = delivered s @ ds" and sub: "subseq (ds @ ys) (xs @ submitted as)"
    and fits: "length (xs @ submitted as) \<le> capacity s \<longrightarrow> ds @ ys = xs @ submitted as" by blast
  show ?case
  proof (cases a)
    case Toggle
    with run_step.hyps(2) toggle_ok [OF ok, of env] cap d sub fits show ?thesis
      by (intro exI [of _ ds] exI [of _ ys]) (auto elim!: step_toggleE)
  next
    case (Send k m)
    from run_step.hyps(2) Send obtain n where run: "n2a_send_event env g (Some k) (Some m) s' = Some (n, s'')"
      by (auto elim: step_sendE)
    from send_event_ok [OF run_step.prems(1) ok, of k m] run obtain es zs lost where
      s: "connector_ok g s'' zs" "capacity s'' = capacity s'" "delivered s'' = delivered s' @ es"
      "es @ lost @ zs = ys @ [(k, m)]" "lost \<noteq> [] \<longrightarrow> length zs = capacity s'"
      by auto
    have "subseq (es @ zs) (es @ lost @ zs)" by (simp add: subseq_append' list_emb_append2)
    then have "subseq (es @ zs) (ys @ [(k, m)])" by (simp only: s(4))
    then have "subseq (ds @ es @ zs) (ds @ ys @ [(k, m)])" by (simp add: subseq_append')
    also have "subseq (ds @ ys @ [(k, m)]) (xs @ submitted (as @ [a]))"
      using list_emb_append_mono [OF sub, of "[(k, m)]" "[(k, m)]"] Send by simp
    finally have sub': "subseq ((ds @ es) @ zs) (xs @ submitted (as @ [a]))" by simp
    have "length (xs @ submitted (as @ [a])) \<le> capacity s \<longrightarrow> (ds @ es) @ zs = xs @ submitted (as @ [a])"
    proof
      assume le: "length (xs @ submitted (as @ [a])) \<le> capacity s"
      then have all: "ds @ ys = xs @ submitted as" using fits by simp
      from arg_cong [OF s(4), of length] have l: "length es + length lost + length zs = Suc (length ys)" by simp
      from arg_cong [OF all, of length] have "length ys \<le> length xs + length (submitted as)" by simp
      with le Send l s(5) cap have "lost = []" by (cases lost) auto
      with s(4) all Send show "(ds @ es) @ zs = xs @ submitted (as @ [a])"
        by (metis append.assoc append_Nil submitted_simps(2,3))
    qed
    with s cap d sub' show ?thesis by (intro exI [of _ "ds @ es"] exI [of _ zs]) simp
  qed
qed

lemma connector_run_permissions:
  assumes "connector_run env g s as s'"
  shows "permissions (files s') = permissions (files s)"
  using assms
proof (induction rule: connector_run.induct)
  case (run_step s as s' a s'')
  then show ?case
    by (auto simp: step_simps dest: permissions_link.send_event_keeps permissions_link.toggle_keeps)
qed simp

section \<open>A blackout\<close>

text \<open>During a blackout nothing is called and every event goes to the queue.\<close>

lemma blackout_check: "blackout s \<Longrightarrow> n2a_amqp_check env g s = Some (False, s)"
  by (simp add: n2a_amqp_check_def)

lemma send_event_blackout:
  assumes "clock_ok env" and "connector_ok g s xs" and "blackout s"
  shows "\<exists>n s'. n2a_send_event env g (Some k) (Some m) s = Some (n, s') \<and> wire s' = wire s \<and>
     connector_ok g s' (push_list (capacity s) xs (k, m)) \<and> capacity s' = capacity s \<and> blackout s'"
proof -
  from assms(2) have r: "ready s" and q: "queued s xs" and p: "proto_ok g s" and i: "is_int (cache_size g)"
    by (simp_all add: connector_ok_def)
  have down: "\<not> amqp_connected s" using r assms(3) by (auto simp: ready_def link_ok_def)
  from flush_count_defined [OF i] obtain c where c: "flush_count g = Some c" by blast
  from fifo_check_delivers [OF assms(1) r q c] down obtain s1 where
    s1: "n2a_fifo_check env g s = Some s1" "ready s1" "queued s1 xs" "capacity s1 = capacity s"
      "blackout s1" "wire s1 = wire s"
    using assms(3) by (fastforce simp: flush_due_def)
  from queue_event_queued [OF s1(3), of k m] obtain s2 where
    s2: "queue_event (Some k) (Some m) s1 = Some (to_int (int (length (push_list (capacity s1) xs (k, m)))), s2)"
      "queued s2 (push_list (capacity s1) xs (k, m))" "same_link s1 s2" "capacity s2 = capacity s1" by blast
  obtain f where "pFifo s1 = Some f" using s1(3) by (auto simp: queued_def)
  then have run: "n2a_send_event env g (Some k) (Some m) s =
      Some (to_int (int (length (push_list (capacity s1) xs (k, m)))), s2)"
    using s1(1) s2(1) blackout_check [OF assms(3)] by (simp add: n2a_send_event_def)
  have "proto_ok g s2" by (rule protocol_link.send_event_keeps [OF run p])
  with run s1 s2 i same_link_ready [OF s2(3) s1(2)] show ?thesis
    by (auto simp: connector_ok_def same_link_def)
qed

section \<open>Connection attempts\<close>

definition attempts :: "amqp_call list \<Rightarrow> nat" where
  "attempts cs = length (filter (\<lambda>c. case c of Call_new_connection n \<Rightarrow> True | _ \<Rightarrow> False) cs)"

lemma attempts_simps [simp]:
  "attempts [] = 0"
  "attempts (cs @ ds) = attempts cs + attempts ds"
  "attempts (c # cs) = (case c of Call_new_connection n \<Rightarrow> 1 | _ \<Rightarrow> 0) + attempts cs"
  by (simp_all add: attempts_def split: amqp_call.splits)

lemma rpc_step_attempts:
  "(\<And>y. attempts [c y] = 0) \<Longrightarrow> attempts (wire (rpc_step env c s)) = attempts (wire s)"
  by (auto simp: rpc_step_def call_defs Let_def on_amqp_error_cases)

lemma connect_attempts:
  "n2a_amqp_connect env g s = (b, s') \<Longrightarrow> attempts (wire s') = Suc (attempts (wire s))"
proof -
  have co: "attempts (wire (close_old env s)) = attempts (wire s)" for s
    by (auto simp: close_old_def call_defs Let_def split: option.splits)
  have nc: "attempts (wire (new_connection env s)) = Suc (attempts (wire s))" for s
    by (simp add: new_connection_def call_defs)
  have os: "attempts (wire (open_socket env g s)) = attempts (wire s)" for s
    by (simp add: open_socket_def call_defs n2a_on_error_def)
  assume "n2a_amqp_connect env g s = (b, s')"
  then show ?thesis
    by (auto simp: n2a_amqp_connect_def Let_def rpc_step_attempts co nc os call_defs
        split: option.splits if_splits prod.splits)
qed

text \<open>An event leads to at most one attempt, in \<^verbatim>\<open>n2a_amqp_check\<close>, when one is due.\<close>

lemma check_attempts:
  assumes "clock_ok env" and "ready s" and "n2a_amqp_check env g s = Some (b, s')"
  shows "attempts (wire s') \<le> Suc (attempts (wire s))"
    and "attempts (wire s') \<noteq> attempts (wire s) \<Longrightarrow> \<not> blackout s \<and> \<not> amqp_connected s \<and>
       (amqp_last_connect s = 0 \<or> amqp_wait_time g \<le> clock env (tick s) - amqp_last_connect s)"
proof -
  let ?s2 = "s\<lparr>amqp_connected := False, tick := Suc (tick s)\<rparr>"
  have el: "int_sub (to_int (clock env (tick s))) (amqp_last_connect s) =
      Some (clock env (tick s) - amqp_last_connect s)"
    using assms by (simp add: time_ok_sub ready_def times_ok_def)
  have "attempts (wire (snd (n2a_amqp_connect env g ?s2))) = Suc (attempts (wire s))"
    using connect_attempts [of env g ?s2] by (cases "n2a_amqp_connect env g ?s2") simp
  with assms(3) el show "attempts (wire s') \<le> Suc (attempts (wire s))"
    and "attempts (wire s') \<noteq> attempts (wire s) \<Longrightarrow> \<not> blackout s \<and> \<not> amqp_connected s \<and>
       (amqp_last_connect s = 0 \<or> amqp_wait_time g \<le> clock env (tick s) - amqp_last_connect s)"
    by (auto simp: n2a_amqp_check_def gettimeofday_def Let_def split: if_splits)
qed

text \<open>While the connection is up no attempt is made.\<close>

lemma publish_attempts:
  assumes "n2a_amqp_publish env g r m s = Some (b, s')" and "amqp_connected s" and "\<not> blackout s"
  shows "attempts (wire s') = attempts (wire s)" and "b \<Longrightarrow> amqp_connected s' \<and> \<not> blackout s'"
proof -
  have c: "n2a_amqp_check env g s = Some (True, s)" using assms(2,3) by (simp add: n2a_amqp_check_def)
  have bl: "blackout (publish_call env x y s) = blackout s" for x y
    by (simp add: publish_call_def call_defs n2a_on_error_def Let_def)
  have cl: "attempts (closing t) = 0" for t by (simp add: closing_def split: option.splits)
  show "attempts (wire s') = attempts (wire s)" and "b \<Longrightarrow> amqp_connected s' \<and> \<not> blackout s'"
    using assms c bl cl
    by (auto simp: n2a_amqp_publish_def Let_def publish_call_wire bind_eq_Some_conv split: if_splits
        dest!: disconnect_wire)
qed

lemma q_ops_link:
  "q_shift s = Some (p, s') \<Longrightarrow> same_link s s'"
  "q_prepend s a = Some (n, s') \<Longrightarrow> same_link s s'"
  "q_free s a = Some s' \<Longrightarrow> same_link s s'"
  "q_csync s = Some s' \<Longrightarrow> same_link s s'"
  "queue_event r m s = Some (n, s') \<Longrightarrow> same_link s s'"
  by (auto simp: q_shift_def q_push_def q_prepend_def q_init_def q_free_def q_csync_def queue_event_def
      same_link_def elim!: bind_eq_SomeE)

lemma same_link_fields:
  "same_link s s' \<Longrightarrow> wire s' = wire s" "same_link s s' \<Longrightarrow> blackout s' = blackout s"
  "same_link s s' \<Longrightarrow> amqp_connected s' = amqp_connected s"
  by (simp_all add: same_link_def)

lemma flush_loop_attempts:
  "flush_loop env g n s = Some s' \<Longrightarrow> amqp_connected s \<Longrightarrow> \<not> blackout s \<Longrightarrow>
   attempts (wire s') = attempts (wire s)"
proof (induction n arbitrary: s)
  case 0
  then show ?case by simp
next
  case (Suc n)
  from Suc.prems(1) obtain pe s1 where sh: "q_shift s = Some (pe, s1)" by (auto simp: bind_eq_Some_conv)
  note l1 = same_link_fields [OF q_ops_link(1) [OF sh]]
  show ?case
  proof (cases pe)
    case None
    with sh Suc.prems(1) l1 show ?thesis by simp
  next
    case (Some p)
    with sh Suc.prems(1) obtain e where e: "cells (mem s1) p = Some e" by (cases "cells (mem s1) p") auto
    with Some sh Suc.prems(1) obtain ok s2 where pub: "n2a_amqp_publish env g (rk e) (msg e) s1 = Some (ok, s2)"
      by (cases "n2a_amqp_publish env g (rk e) (msg e) s1") auto
    note pa = publish_attempts [OF pub]
    show ?thesis
    proof (cases ok)
      case False
      with Suc.prems Some sh e pub l1 pa show ?thesis
        by (auto simp: bind_eq_Some_conv dest!: q_ops_link(2) same_link_fields(1))
    next
      case True
      with Suc.prems(1) Some sh e pub obtain s3 where s3: "q_free s2 p = Some s3" "flush_loop env g n s3 = Some s'"
        by (auto simp: bind_eq_Some_conv)
      from same_link_fields [OF q_ops_link(3) [OF s3(1)]] Suc.IH [OF s3(2)] pa True l1 Suc.prems
      show ?thesis by simp
    qed
  qed
qed

lemma fifo_check_attempts:
  assumes "n2a_fifo_check env g s = Some s'" and "link_ok s"
  shows "attempts (wire s') = attempts (wire s)"
proof -
  let ?s1 = "s\<lparr>tick := Suc (tick s)\<rparr>"
  from assms(1) obtain t s2 where fl: "flush_queue env g t ?s1 = Some s2" and sv: "save_queue g t s2 = Some s'"
    by (auto simp: n2a_fifo_check_def gettimeofday_def bind_eq_Some_conv)
  have "amqp_connected s \<Longrightarrow> \<not> blackout s" using assms(2) by (simp add: link_ok_def)
  then have "attempts (wire s2) = attempts (wire s)"
    using fl by (auto simp: flush_queue_def bind_eq_Some_conv split: if_splits dest!: flush_loop_attempts)
  moreover have "wire s' = wire s2"
    using sv by (auto simp: save_queue_def bind_eq_Some_conv split: if_splits
        dest!: q_ops_link(4) same_link_fields(1))
  ultimately show ?thesis by simp
qed

lemma send_event_attempts:
  assumes env: "clock_ok env" and ok: "connector_ok g s xs"
    and run: "n2a_send_event env g (Some k) (Some m) s = Some (n, s')"
  shows "attempts (wire s') \<le> Suc (attempts (wire s))"
    and "attempts (wire s') \<noteq> attempts (wire s) \<Longrightarrow> \<not> blackout s \<and> \<not> amqp_connected s \<and>
       (amqp_last_connect s = 0 \<or> amqp_wait_time g \<le> clock env (tick s) - amqp_last_connect s)"
proof -
  from ok have r: "ready s" and q: "queued s xs" and i: "is_int (cache_size g)" by (simp_all add: connector_ok_def)
  from amqp_check_ready [OF env r, of g] obtain s1 where
    s1: "n2a_amqp_check env g s = Some (amqp_connected s1, s1)" "ready s1" "quiet s s1" by blast
  note ca = check_attempts [OF env r s1(1)]
  have q1: "queued s1 xs" using s1(3) q by (auto simp: quiet_def intro: same_store_queued)
  from flush_count_defined [OF i] obtain c where c: "flush_count g = Some c" by blast
  from fifo_check_delivers [OF env s1(2) q1 c] obtain s2 zs where
    s2: "n2a_fifo_check env g s1 = Some s2" "ready s2" "queued s2 zs" "blackout s2 = blackout s1"
      "zs = [] \<and> amqp_connected s1 \<longrightarrow> amqp_connected s2" by blast
  have a2: "attempts (wire s2) = attempts (wire s1)"
    using s1(2) by (intro fifo_check_attempts [OF s2(1)]) (simp add: ready_def)
  have "attempts (wire s') = attempts (wire s2)"
  proof (cases "amqp_connected s1 \<and> fifo_size (the (pFifo s2)) = 0")
    case True
    from s2(3) obtain f where f: "pFifo s2 = Some f" by (auto simp: queued_def)
    with run True s1(1) s2(1) obtain b s3 where pub: "n2a_amqp_publish env g (Some k) (Some m) s2 = Some (b, s3)"
      "wire s' = wire s3"
      by (auto simp: n2a_send_event_def bind_eq_Some_conv split: if_splits dest!: q_ops_link(5) same_link_fields(1))
    have up: "amqp_connected s2" using True queued_size_zero [OF s2(3) f] f s2(5) by simp
    then have "\<not> blackout s2" using s2(2) by (simp add: ready_def link_ok_def)
    from publish_attempts(1) [OF pub(1) up this] pub(2) show ?thesis by simp
  next
    case False
    with run s1(1) s2(1) show ?thesis
      by (auto simp: n2a_send_event_def bind_eq_Some_conv split: if_splits dest!: q_ops_link(5) same_link_fields(1))
  qed
  with a2 ca show "attempts (wire s') \<le> Suc (attempts (wire s))"
    and "attempts (wire s') \<noteq> attempts (wire s) \<Longrightarrow> \<not> blackout s \<and> \<not> amqp_connected s \<and>
       (amqp_last_connect s = 0 \<or> amqp_wait_time g \<le> clock env (tick s) - amqp_last_connect s)" by simp_all
qed

section \<open>Progress\<close>

text \<open>
  An attempt to connect is due: the connector is not connected and has not tried for
  \<^verbatim>\<open>amqp_wait_time\<close> seconds.
\<close>

definition attempt_due :: "env \<Rightarrow> options \<Rightarrow> n2a \<Rightarrow> bool" where
  "attempt_due env g s \<longleftrightarrow> \<not> blackout s \<and> \<not> amqp_connected s \<and>
     (amqp_last_connect s = 0 \<or> amqp_wait_time g \<le> clock env (tick s) - amqp_last_connect s)"

lemma check_recovers:
  assumes "clock_ok env" and "net_up env" and "ready s" and "attempt_due env g s"
  shows "\<exists>s'. n2a_amqp_check env g s = Some (True, s') \<and> ready s' \<and> quiet s s' \<and> amqp_connected s' \<and>
     fifo_last_flush s' = 0"
proof -
  let ?s2 = "s\<lparr>amqp_connected := False, tick := Suc (tick s)\<rparr>"
  have el: "int_sub (to_int (clock env (tick s))) (amqp_last_connect s) =
      Some (clock env (tick s) - amqp_last_connect s)"
    using assms by (simp add: time_ok_sub ready_def times_ok_def)
  obtain b s' where con: "n2a_amqp_connect env g ?s2 = (b, s')" by (cases "n2a_amqp_connect env g ?s2")
  have up: "amqp_connected s'" by (rule amqp_connect_up [OF assms(2) con])
  have run: "n2a_amqp_check env g s = Some (True, s')"
    using assms(1,4) el con up by (auto simp: n2a_amqp_check_def gettimeofday_def Let_def attempt_due_def)
  from amqp_check_ready [OF assms(1,3), of g] run have "ready s'" "quiet s s'" by auto
  with run up amqp_connect_spec(6) [OF con] show ?thesis by simp
qed

text \<open>
  What one call to \<^verbatim>\<open>n2a_send_event\<close> achieves when the connection is up after its first
  check, a flush is due, and no call to the network fails: up to \<open>c\<close> queued events are sent,
  and the new one too if that was all of them.
\<close>

lemma send_event_progress:
  assumes env: "clock_ok env" "net_up env" and ok: "connector_ok g s xs" and c: "flush_count g = Some c"
    and chk: "n2a_amqp_check env g s = Some (True, s1)" "ready s1" "quiet s s1" "amqp_connected s1"
    and due: "flush_due env g s1"
  shows "\<exists>n s'. n2a_send_event env g (Some k) (Some m) s = Some (n, s') \<and>
     delivered s' = delivered s @ (if length xs \<le> nat c then xs @ [(k, m)] else take (nat c) xs) \<and>
     connector_ok g s' (if length xs \<le> nat c then [] else push_list (capacity s) (drop (nat c) xs) (k, m)) \<and>
     (length xs \<le> nat c \<longrightarrow> n = 0) \<and> amqp_connected s'"
proof -
  from ok have q: "queued s xs" and p: "proto_ok g s" and i: "is_int (cache_size g)"
    by (simp_all add: connector_ok_def)
  have q1: "queued s1 xs" using chk(3) q by (auto simp: quiet_def intro: same_store_queued)
  have cap1: "capacity s1 = capacity s" using chk(3) by (simp add: quiet_def same_store_capacity)
  from fifo_check_delivers [OF env(1) chk(2) q1 c] due chk(4) env(2) obtain s2 ys zs where
    s2: "n2a_fifo_check env g s1 = Some s2" "xs = ys @ zs" "ready s2" "queued s2 zs"
      "delivered s2 = delivered s1 @ ys" "capacity s2 = capacity s1" "length ys \<le> nat c"
      "zs = [] \<or> length ys = nat c" "amqp_connected s2" by blast
  have d2: "delivered s2 = delivered s @ ys" using s2(5) chk(3) by (simp add: quiet_def)
  from s2(4) obtain f where f: "pFifo s2 = Some f" by (auto simp: queued_def)
  note z = queued_size_zero [OF s2(4) f]
  have okI: "n2a_send_event env g (Some k) (Some m) s = Some (n, s') \<Longrightarrow> ready s' \<Longrightarrow> queued s' us \<Longrightarrow>
      connector_ok g s' us" for n s' us
    using protocol_link.send_event_keeps [OF _ p] i by (simp add: connector_ok_def)
  show ?thesis
  proof (cases "length xs \<le> nat c")
    case True
    with s2(2,8) have "zs = []" by auto
    with s2(2) d2 have zs: "zs = []" "delivered s2 = delivered s @ xs" by simp_all
    from amqp_publish_ready [OF env(1) s2(3), of g k m] s2(9) env(2) obtain s3
      where pub: "n2a_amqp_publish env g (Some k) (Some m) s2 = Some (True, s3)" "ready s3" "same_store s2 s3"
        "delivered s3 = delivered s2 @ [(k, m)]" "amqp_connected s3" by auto
    have run: "n2a_send_event env g (Some k) (Some m) s = Some (0, s3)"
      using chk(1) s2(1) f z zs pub(1) by (simp add: n2a_send_event_def)
    have "queued s3 []" using s2(4) zs(1) pub(3) by (auto intro: same_store_queued)
    with okI [OF run pub(2)] run zs pub True show ?thesis
      by (intro exI [of _ 0] exI [of _ s3]) simp
  next
    case False
    with s2(2,7,8) have "length ys = nat c" "zs \<noteq> []" by auto
    with s2(2) have ys: "ys = take (nat c) xs" "zs = drop (nat c) xs" "zs \<noteq> []" by simp_all
    from queue_event_queued [OF s2(4), of k m] obtain s3 where
      qe: "queue_event (Some k) (Some m) s2 = Some (to_int (int (length (push_list (capacity s2) zs (k, m)))), s3)"
        "queued s3 (push_list (capacity s2) zs (k, m))" "same_link s2 s3" by blast
    have run: "n2a_send_event env g (Some k) (Some m) s =
        Some (to_int (int (length (push_list (capacity s2) zs (k, m)))), s3)"
      using chk(1) s2(1) f z ys(3) qe(1) by (simp add: n2a_send_event_def)
    from okI [OF run same_link_ready [OF qe(3) s2(3)] qe(2)] run d2 ys False qe(3) s2(6,9) cap1
    show ?thesis by (intro exI [of _ "to_int (int (length (push_list (capacity s2) zs (k, m))))"] exI [of _ s3])
        (simp add: same_link_def)
  qed
qed

section \<open>Starvation\<close>

text \<open>
  When the flush count is not positive, queued events stay queued for ever, whatever the
  network does, and every later event joins them.
\<close>

lemma send_event_starves:
  assumes env: "clock_ok env" and ok: "connector_ok g s xs" and c: "flush_count g = Some c" "c \<le> 0"
    and "xs \<noteq> []"
  shows "\<exists>n s'. n2a_send_event env g (Some k) (Some m) s = Some (n, s') \<and> delivered s' = delivered s \<and>
     connector_ok g s' (push_list (capacity s) xs (k, m)) \<and> capacity s' = capacity s"
proof -
  from ok have r: "ready s" and q: "queued s xs" and p: "proto_ok g s" and i: "is_int (cache_size g)"
    by (simp_all add: connector_ok_def)
  from send_event_spec [OF env r q c(1), of k m] obtain n s' ys zs where
    run: "n2a_send_event env g (Some k) (Some m) s = Some (n, s')" and split: "xs = ys @ zs"
    and r': "ready s'" and cap: "capacity s' = capacity s" and l: "length ys \<le> nat c"
    and out: "(n = 0 \<and> zs = [] \<and> delivered s' = delivered s @ xs @ [(k, m)] \<and> queued s' []) \<or>
      (n = -1 \<and> zs = [] \<and> delivered s' = delivered s @ xs \<and> queued s' [(k, m)] \<and> \<not> amqp_connected s') \<or>
      (n = to_int (int (length (push_list (capacity s) zs (k, m)))) \<and>
       delivered s' = delivered s @ ys \<and> queued s' (push_list (capacity s) zs (k, m)) \<and>
       (zs \<noteq> [] \<or> \<not> amqp_connected s'))"
    by blast
  from l c(2) split have "ys = []" "zs = xs" by auto
  with out assms(5) have "delivered s' = delivered s" "queued s' (push_list (capacity s) xs (k, m))" by auto
  with run r' cap i protocol_link.send_event_keeps [OF run p] show ?thesis
    by (auto simp: connector_ok_def)
qed

lemma connector_run_starves:
  assumes "connector_run env g s as s'" and "clock_ok env" and "connector_ok g s xs"
    and "flush_count g = Some c" and "c \<le> 0" and "xs \<noteq> []"
  shows "\<exists>ys. connector_ok g s' ys \<and> ys \<noteq> [] \<and> delivered s' = delivered s"
  using assms
proof (induction rule: connector_run.induct)
  case (run_start s)
  then show ?case by blast
next
  case (run_step s as s' a s'')
  then obtain ys where ok: "connector_ok g s' ys" "ys \<noteq> []" "delivered s' = delivered s" by blast
  show ?case
  proof (cases a)
    case Toggle
    with run_step.hyps(2) toggle_ok [OF ok(1), of env] ok show ?thesis by (auto elim!: step_toggleE)
  next
    case (Send k m)
    with run_step.hyps(2) send_event_starves [OF run_step.prems(1) ok(1) run_step.prems(3,4) ok(2), of k m] ok
    show ?thesis by (auto elim!: step_sendE simp: push_list_def)
  qed
qed

end
