(* ===== verification/Module.thy ===== *)
theory Module
  imports Arguments Amqp_Run
begin

text \<open>
  The module's life cycle: \<^verbatim>\<open>nebmodule_init\<close> and \<^verbatim>\<open>nebmodule_deinit\<close> of \<^verbatim>\<open>src/module.c\<close>
  and the broker glue of \<^verbatim>\<open>src/broker.c\<close>. The calls to Nagios' \<^verbatim>\<open>neb_register_callback\<close>
  and \<^verbatim>\<open>neb_deregister_callback\<close> are recorded in order; Nagios' answers are ignored by the code.
\<close>

unbundle bit_operations_syntax

section \<open>The event broker\<close>

definition BROKER_SERVICE_CHECKS :: int where "BROKER_SERVICE_CHECKS = 4"
definition BROKER_HOST_CHECKS :: int where "BROKER_HOST_CHECKS = 8"

definition n2a_verify_event_broker_options :: "int \<Rightarrow> bool" where
  "n2a_verify_event_broker_options event_broker_options =
     (let errors = 0 :: nat;
          errors1 = (if event_broker_options AND BROKER_SERVICE_CHECKS = 0 then errors + 1 else errors);
          errors2 = (if event_broker_options AND BROKER_HOST_CHECKS = 0 then errors1 + 1 else errors1)
      in errors2 = 0)"

datatype callback_type =
    NEBCALLBACK_SERVICE_CHECK_DATA | NEBCALLBACK_HOST_CHECK_DATA
  | NEBCALLBACK_ACKNOWLEDGEMENT_DATA | NEBCALLBACK_DOWNTIME_DATA

datatype handler =
    N2a_event_service_check | N2a_event_host_check | N2a_event_acknowledgement | N2a_event_downtime

datatype broker_call =
    Neb_register_callback callback_type handler
  | Neb_deregister_callback callback_type handler

definition n2a_register_callbacks :: "options \<Rightarrow> broker_call list" where
  "n2a_register_callbacks g =
     [Neb_register_callback NEBCALLBACK_SERVICE_CHECK_DATA N2a_event_service_check,
      Neb_register_callback NEBCALLBACK_HOST_CHECK_DATA N2a_event_host_check] @
     (if acknowledgement g \<noteq> 0
      then [Neb_register_callback NEBCALLBACK_ACKNOWLEDGEMENT_DATA N2a_event_acknowledgement] else []) @
     (if downtime g \<noteq> 0
      then [Neb_register_callback NEBCALLBACK_DOWNTIME_DATA N2a_event_downtime] else [])"

definition n2a_deregister_callbacks :: "options \<Rightarrow> broker_call list" where
  "n2a_deregister_callbacks g =
     [Neb_deregister_callback NEBCALLBACK_SERVICE_CHECK_DATA N2a_event_service_check,
      Neb_deregister_callback NEBCALLBACK_HOST_CHECK_DATA N2a_event_host_check] @
     (if acknowledgement g \<noteq> 0
      then [Neb_deregister_callback NEBCALLBACK_ACKNOWLEDGEMENT_DATA N2a_event_acknowledgement] else []) @
     (if downtime g \<noteq> 0
      then [Neb_deregister_callback NEBCALLBACK_DOWNTIME_DATA N2a_event_downtime] else [])"

text \<open>The callbacks that a sequence of these calls leaves registered.\<close>

definition registered :: "broker_call list \<Rightarrow> (callback_type \<times> handler) set" where
  "registered cs = foldl (\<lambda>R c. case c of Neb_register_callback t h \<Rightarrow> insert (t, h) R
                                 | Neb_deregister_callback t h \<Rightarrow> R - {(t, h)}) {} cs"

lemma callbacks_cancel: "registered (n2a_register_callbacks g @ n2a_deregister_callbacks g) = {}"
  by (auto simp: registered_def n2a_register_callbacks_def n2a_deregister_callbacks_def)

section \<open>The module\<close>

record neb_module =
  g_options :: options
  connector_state :: n2a
  broker_calls :: "broker_call list"

text \<open>What \<^verbatim>\<open>nebmodule_init\<close> assigns before it parses its arguments; \<^verbatim>\<open>urls\<close> keeps its value.\<close>

definition init_defaults :: "options \<Rightarrow> options" where
  "init_defaults g = default_options\<lparr>urls := urls g\<rparr>"

text \<open>
  \<open>stk\<close> is what the stack holds under the buffers of \<^verbatim>\<open>n2a_load\<close>, \<open>event_broker_options\<close>
  the variable Nagios exports.
\<close>

definition nebmodule_init ::
  "env \<Rightarrow> (nat \<Rightarrow> string \<times> string) \<Rightarrow> int \<Rightarrow> string option \<Rightarrow> neb_module \<Rightarrow> (int \<times> neb_module) option" where
  "nebmodule_init env stk event_broker_options args s = do {
     let c0 = (connector_state s)\<lparr>pFifo := None\<rparr>;
     g \<leftarrow> n2a_parse_arguments args (init_defaults (g_options s));
     if \<not> n2a_verify_event_broker_options event_broker_options
     then Some (1, s\<lparr>g_options := g, connector_state := c0\<rparr>)
     else do {
       (h, d, f) \<leftarrow> n2a_fifo_init stk (mem c0) (files c0) (cache_size g) (cache_file g);
       let c1 = c0\<lparr>mem := h, files := d, pFifo := Some f\<rparr>;
       (connected, c2) \<leftarrow> n2a_amqp_check env g c1;
       Some (0, s\<lparr>g_options := g, connector_state := c2,
                  broker_calls := broker_calls s @ n2a_register_callbacks g\<rparr>)
     }
   }"

text \<open>After \<^verbatim>\<open>n2a_free_fifo\<close> the pointer \<^verbatim>\<open>pFifo\<close> dangles: it counts as invalid from then on.\<close>

definition nebmodule_deinit :: "env \<Rightarrow> neb_module \<Rightarrow> (int \<times> neb_module) option" where
  "nebmodule_deinit env s = do {
     let calls = broker_calls s @ n2a_deregister_callbacks (g_options s);
     c1 \<leftarrow> n2a_amqp_disconnect env (connector_state s);
     (h, d) \<leftarrow> n2a_free_fifo (mem c1) (files c1) (pFifo c1);
     Some (0, s\<lparr>connector_state := c1\<lparr>mem := h, files := d, pFifo := None\<rparr>, broker_calls := calls\<rparr>)
   }"

section \<open>Start-up and shut-down\<close>

text \<open>The state of a freshly loaded module: static storage is zeroed.\<close>

definition loaded_module :: "fs \<Rightarrow> options \<Rightarrow> neb_module" where
  "loaded_module d g = \<lparr>g_options = g,
     connector_state = \<lparr>mem = empty_heap, files = d, pFifo = None, amqp_errors = False,
       amqp_last_connect = 0, fifo_last_sync = 0, fifo_last_flush = 0, amqp_connected = False,
       blackout = False, conn = None, tick = 0, wire = []\<rparr>,
     broker_calls = []\<rparr>"

lemma init_ready:
  assumes "clock_ok env" and "n2a_parse_arguments args (init_defaults g0) = Some g"
    and "n2a_verify_event_broker_options ebo"
    and "disk d = Some (file_of xs)" and "may_update d" and "\<forall>x \<in> set xs. storable x"
    and "fst (stk (length xs)) = r0 @ [c0]" and "snd (stk (length xs)) = m0 @ [c1]"
    and "0 < cache_size g" and "cache_size g \<le> INT_MAX"
  shows "\<exists>s. nebmodule_init env stk ebo args (loaded_module d g0) = Some (0, s) \<and> g_options s = g \<and>
     connector_ok g (connector_state s)
       (drop (Suc (length xs) - nat (cache_size g)) (xs @ [(r0, m0)])) \<and>
     delivered (connector_state s) = [] \<and> broker_calls s = n2a_register_callbacks g \<and>
     permissions (files (connector_state s)) = permissions d \<and>
     capacity (connector_state s) = nat (cache_size g)"
proof -
  let ?q = "drop (Suc (length xs) - nat (cache_size g)) (xs @ [(r0, m0)])"
  from fifo_init_loads [where stk = stk and xs = xs and ?r0.0 = r0 and ?c0.0 = c0 and ?m0.0 = m0 and
      ?c1.0 = c1 and path = "cache_file g", OF assms(4-10)] obtain h f where
    f: "n2a_fifo_init stk empty_heap d (cache_size g) (cache_file g) = Some (h, d, f)"
      "queue_rep (h, f) ?q" "fifo_max_size f = word_of_int (cache_size g)" "\<not> file_lock f" "dirty f" by blast
  let ?c1 = "(connector_state (loaded_module d g0))\<lparr>mem := h, files := d, pFifo := Some f\<rparr>"
  have cap: "unat (fifo_max_size f) = nat (cache_size g)"
    using f(3) assms(9,10) by (simp add: unat_eq_nat_uint uint_word_of_int INT_MAX_def)
  have i: "is_int (cache_size g)" using assms(9,10) by (simp add: is_int_def INT_MIN_def)
  have ready1: "ready ?c1" and queued1: "queued ?c1 ?q" and proto1: "proto_ok g ?c1"
    using f(2,4,5) cap assms(9)
    by (auto simp: loaded_module_def ready_def link_ok_def times_ok_def queued_def capacity_def
        proto_ok_def stage_ok_def)
  from amqp_check_ready [OF assms(1) ready1, of g] obtain c2 where
    c2: "n2a_amqp_check env g ?c1 = Some (amqp_connected c2, c2)" "ready c2" "quiet ?c1 c2" by blast
  have "proto_ok g c2" using protocol_link.check_keeps [OF proto1 c2(1)] by simp
  moreover have "queued c2 ?q" using c2(3) queued1 by (auto simp: quiet_def intro: same_store_queued)
  moreover have "capacity c2 = capacity ?c1" using c2(3) by (simp add: quiet_def same_store_capacity)
  then have "capacity c2 = nat (cache_size g)" using cap by (simp add: capacity_def)
  moreover have "delivered c2 = []" "files c2 = d"
    using c2(3) by (simp_all add: quiet_def same_store_def loaded_module_def)
  moreover have "nebmodule_init env stk ebo args (loaded_module d g0) =
      Some (0, (loaded_module d g0)\<lparr>g_options := g, connector_state := c2,
        broker_calls := n2a_register_callbacks g\<rparr>)"
    using assms(2,3) f(1) c2(1) by (simp add: nebmodule_init_def loaded_module_def)
  ultimately show ?thesis using c2(2) i by (simp add: connector_ok_def)
qed

lemma deinit_clean:
  assumes "connector_ok g (connector_state s) xs"
  shows "\<exists>s'. nebmodule_deinit env s = Some (0, s') \<and> cells (mem (connector_state s')) = Map.empty \<and>
     conn (connector_state s') = None \<and> \<not> amqp_connected (connector_state s') \<and>
     delivered (connector_state s') = delivered (connector_state s) \<and>
     (file_rw (files (connector_state s)) \<longrightarrow> disk (files (connector_state s')) = Some (file_of xs)) \<and>
     broker_calls s' = broker_calls s @ n2a_deregister_callbacks (g_options s)"
proof -
  let ?c = "connector_state s"
  from assms have r: "ready ?c" and q: "queued ?c xs" by (simp_all add: connector_ok_def)
  from amqp_disconnect_ready [OF r, of env] obtain c1 where
    c1: "n2a_amqp_disconnect env ?c = Some c1" "quiet ?c c1" "\<not> amqp_connected c1" "conn c1 = None" by blast
  have "queued c1 xs" using c1(2) q by (auto simp: quiet_def intro: same_store_queued)
  then obtain f where f: "pFifo c1 = Some f" "queue_rep (mem c1, f) xs" "\<not> file_lock f"
    "dirty f \<or> file_current (files c1) xs" by (auto simp: queued_def)
  from free_fifo_defined [OF f(2), of "files c1"] obtain h' d' i f' where
    fr: "n2a_free_fifo (mem c1) (files c1) (Some f) = Some (h', d')" "cells h' = Map.empty"
      "n2a_csync (mem c1) (files c1) (Some f) = Some (i, d', Some f')" by blast
  from csync_effect [OF f(2-4)] fr(3) have
    "permissions d' = permissions (files c1)" "file_rw (files c1) \<longrightarrow> file_current d' xs" by auto
  then have "file_rw (files c1) \<longrightarrow> disk d' = Some (file_of xs)"
    by (simp add: file_current_def file_rw_def)
  moreover have "files c1 = files ?c" by (rule disconnect_files [OF c1(1)])
  ultimately show ?thesis using c1 f(1) fr by (simp add: nebmodule_deinit_def quiet_def)
qed

text \<open>Shutting down after any run: what is left to deliver is in the cache file.\<close>

lemma deinit_after_run:
  assumes env: "clock_ok env" and s: "connector_ok g (connector_state s) q" "delivered (connector_state s) = []"
      "file_rw (files (connector_state s))" "capacity (connector_state s) = n"
    and q: "q = drop (length al - n) al"
    and r: "connector_run env g (connector_state s) as c"
  shows "\<exists>s' ys. nebmodule_deinit env (s\<lparr>connector_state := c\<rparr>) = Some (0, s') \<and>
    cells (mem (connector_state s')) = Map.empty \<and>
    disk (files (connector_state s')) = Some (file_of ys) \<and>
    subseq (delivered (connector_state s') @ ys) (al @ submitted as) \<and>
    (length (al @ submitted as) \<le> n \<longrightarrow> delivered (connector_state s') @ ys = al @ submitted as) \<and>
    broker_calls s' = broker_calls s @ n2a_deregister_callbacks (g_options s)"
proof -
  from connector_run_invariant [OF r env s(1)] s(2) obtain ds ys where
    d: "connector_ok g c ys" "delivered c = ds" "subseq (ds @ ys) (q @ submitted as)"
      "length (q @ submitted as) \<le> capacity (connector_state s) \<longrightarrow> ds @ ys = q @ submitted as"
    by auto
  have "file_rw (files c)" using connector_run_permissions [OF r] s(3) by (simp add: file_rw_def)
  with deinit_clean [of g "s\<lparr>connector_state := c\<rparr>" ys env] d(1,2) obtain s' where
    s': "nebmodule_deinit env (s\<lparr>connector_state := c\<rparr>) = Some (0, s')"
      "cells (mem (connector_state s')) = Map.empty"
      "disk (files (connector_state s')) = Some (file_of ys)" "delivered (connector_state s') = ds"
      "broker_calls s' = broker_calls s @ n2a_deregister_callbacks (g_options s)"
    by auto
  have "subseq q al" unfolding q by (metis append_take_drop_id list_emb_append2 subseq_order.order_refl)
  then have "subseq (q @ submitted as) (al @ submitted as)" by (rule list_emb_append_mono) simp
  with d(3) have "subseq (ds @ ys) (al @ submitted as)" by (rule subseq_order.order_trans)
  moreover have "ds @ ys = al @ submitted as" if "length (al @ submitted as) \<le> n"
  proof -
    from that have "q = al" by (simp add: q)
    with that d(4) s(4) show ?thesis by simp
  qed
  ultimately show ?thesis using s' by blast
qed

end
