(* ===== verification/Jansson_Hashtable.thy ===== *)
theory Jansson_Hashtable
  imports Prelude
begin

text \<open>
  The hash table of the bundled jansson library (\<^verbatim>\<open>src/lib/jansson-2.3.1/src/hashtable.c\<close>).
  All pairs are on one doubly linked list; a bucket is the stretch of that list from its
  \<^verbatim>\<open>first\<close> to its \<^verbatim>\<open>last\<close> pair. The circular list is the list of its pairs, each with the
  address that the buckets hold. Allocation does not fail; the reference counts of the values
  are not part of the model.
\<close>

section \<open>Data\<close>

type_synonym pair_addr = nat

datatype 'v pair = Pair (pair_id: pair_addr) (pair_hash: "64 word") (pair_key: string)
  (pair_serial: "64 word") (pair_value: 'v)

text \<open>A bucket whose ends point to the list head is empty.\<close>

type_synonym bucket = "(pair_addr \<times> pair_addr) option"

datatype 'v hashtable = Hashtable (ht_size: nat) (ht_buckets: "bucket list") (ht_num_buckets: nat)
  (ht_list: "'v pair list") (ht_fresh: pair_addr)

text \<open>\<^verbatim>\<open>(size_t)*str\<close> extends the sign of a \<^verbatim>\<open>char\<close>.\<close>

definition char_size_t :: "char \<Rightarrow> 64 word" where
  "char_size_t c = (if (of_char c :: int) < 128 then word_of_int (of_char c) else word_of_int (of_char c - 256))"

definition hash_str :: "string \<Rightarrow> 64 word" where
  "hash_str str = foldl (\<lambda>hash c. (push_bit 5 hash + hash) + char_size_t c) 5381 str"

definition primes :: "nat list" where
  "primes = [5, 13, 23, 53, 97, 193, 389, 769, 1543, 3079, 6151, 12289, 24593,
     49157, 98317, 196613, 393241, 786433, 1572869, 3145739, 6291469,
     12582917, 25165843, 50331653, 100663319, 201326611, 402653189,
     805306457, 1610612741]"

definition num_buckets :: "'v hashtable \<Rightarrow> nat option" where
  "num_buckets t = (if ht_num_buckets t < length primes then Some (primes ! ht_num_buckets t) else None)"

section \<open>The list and the buckets\<close>

text \<open>\<^verbatim>\<open>list_insert\<close> in front of a pair, or of the head, which is the end of the list.\<close>

definition list_insert_end :: "'v pair list \<Rightarrow> 'v pair \<Rightarrow> 'v pair list" where
  "list_insert_end ps p = ps @ [p]"

definition list_insert_before :: "'v pair list \<Rightarrow> pair_addr \<Rightarrow> 'v pair \<Rightarrow> 'v pair list" where
  "list_insert_before ps a p =
     takeWhile (\<lambda>q. pair_id q \<noteq> a) ps @ p # dropWhile (\<lambda>q. pair_id q \<noteq> a) ps"

definition list_remove :: "'v pair list \<Rightarrow> pair_addr \<Rightarrow> 'v pair list" where
  "list_remove ps a = filter (\<lambda>q. pair_id q \<noteq> a) ps"

definition insert_to_bucket :: "bucket list \<times> 'v pair list \<Rightarrow> nat \<Rightarrow> 'v pair \<Rightarrow> bucket list \<times> 'v pair list" where
  "insert_to_bucket = (\<lambda>(buckets, ps) index p.
     (case buckets ! index of
        None \<Rightarrow> (buckets[index := Some (pair_id p, pair_id p)], list_insert_end ps p)
      | Some (first_id, last_id) \<Rightarrow>
          (buckets[index := Some (pair_id p, last_id)], list_insert_before ps first_id p)))"

text \<open>The walk from \<^verbatim>\<open>first\<close> to \<^verbatim>\<open>last\<close>; running into the list head is undefined.\<close>

fun find_walk :: "pair_addr \<Rightarrow> string \<Rightarrow> 64 word \<Rightarrow> 'v pair list \<Rightarrow> 'v pair option option" where
  "find_walk last_id key hash [] = None"
| "find_walk last_id key hash (p # ps) =
     (if pair_hash p = hash \<and> pair_key p = key then Some (Some p)
      else if pair_id p = last_id then Some None
      else find_walk last_id key hash ps)"

definition hashtable_find_pair ::
  "'v hashtable \<Rightarrow> bucket \<Rightarrow> string \<Rightarrow> 64 word \<Rightarrow> 'v pair option option" where
  "hashtable_find_pair t bucket key hash =
     (case bucket of
        None \<Rightarrow> Some None
      | Some (first_id, last_id) \<Rightarrow>
          find_walk last_id key hash (dropWhile (\<lambda>q. pair_id q \<noteq> first_id) (ht_list t)))"

section \<open>Operations\<close>

definition bucket_index :: "64 word \<Rightarrow> nat \<Rightarrow> nat" where
  "bucket_index hash n = unat hash mod n"

definition hashtable_init :: "'v hashtable" where
  "hashtable_init = Hashtable 0 (replicate (primes ! 0) None) 0 [] 0"

definition hashtable_do_rehash :: "'v hashtable \<Rightarrow> 'v hashtable option" where
  "hashtable_do_rehash t = do {
     let k = ht_num_buckets t + 1;
     defined (k < length primes);
     let new_size = primes ! k;
     let (bs, ps) = foldl (\<lambda>st p. insert_to_bucket st (bucket_index (pair_hash p) new_size) p)
                      (replicate new_size None, []) (ht_list t);
     Some (Hashtable (ht_size t) bs k ps (ht_fresh t))
   }"

definition set_pair_value :: "'v pair list \<Rightarrow> pair_addr \<Rightarrow> 'v \<Rightarrow> 'v pair list" where
  "set_pair_value ps a v =
     map (\<lambda>q. if pair_id q = a then Pair (pair_id q) (pair_hash q) (pair_key q) (pair_serial q) v else q) ps"

definition hashtable_set :: "'v hashtable \<Rightarrow> string \<Rightarrow> 64 word \<Rightarrow> 'v \<Rightarrow> 'v hashtable option" where
  "hashtable_set t0 key serial v = do {
     n0 \<leftarrow> num_buckets t0;
     t \<leftarrow> (if ht_size t0 \<ge> n0 then hashtable_do_rehash t0 else Some t0);
     n \<leftarrow> num_buckets t;
     let hash = hash_str key;
     let index = bucket_index hash n;
     pair \<leftarrow> hashtable_find_pair t (ht_buckets t ! index) key hash;
     (case pair of
        Some p \<Rightarrow>
          Some (Hashtable (ht_size t) (ht_buckets t) (ht_num_buckets t)
                  (set_pair_value (ht_list t) (pair_id p) v) (ht_fresh t))
      | None \<Rightarrow>
          (let p = Pair (ht_fresh t) hash key serial v;
               (bs, ps) = insert_to_bucket (ht_buckets t, ht_list t) index p
           in Some (Hashtable (ht_size t + 1) bs (ht_num_buckets t) ps (ht_fresh t + 1))))
   }"

definition hashtable_get :: "'v hashtable \<Rightarrow> string \<Rightarrow> 'v option option" where
  "hashtable_get t key = do {
     n \<leftarrow> num_buckets t;
     pair \<leftarrow> hashtable_find_pair t (ht_buckets t ! bucket_index (hash_str key) n) key (hash_str key);
     Some (map_option pair_value pair)
   }"

text \<open>The neighbours of a pair on the list, for the new ends of a bucket.\<close>

definition next_of :: "'v pair list \<Rightarrow> pair_addr \<Rightarrow> pair_addr option" where
  "next_of ps a = (case dropWhile (\<lambda>q. pair_id q \<noteq> a) ps of p # q # qs \<Rightarrow> Some (pair_id q) | _ \<Rightarrow> None)"

definition prev_of :: "'v pair list \<Rightarrow> pair_addr \<Rightarrow> pair_addr option" where
  "prev_of ps a = (case takeWhile (\<lambda>q. pair_id q \<noteq> a) ps of [] \<Rightarrow> None | qs \<Rightarrow> Some (pair_id (last qs)))"

definition hashtable_do_del :: "'v hashtable \<Rightarrow> string \<Rightarrow> 64 word \<Rightarrow> (int \<times> 'v hashtable) option" where
  "hashtable_do_del t key hash = do {
     n \<leftarrow> num_buckets t;
     let index = bucket_index hash n;
     let bucket = ht_buckets t ! index;
     pair \<leftarrow> hashtable_find_pair t bucket key hash;
     (case pair of
        None \<Rightarrow> Some (-1, t)
      | Some p \<Rightarrow> do {
          (first_id, last_id) \<leftarrow> bucket;
          new \<leftarrow>
            (if pair_id p = first_id \<and> pair_id p = last_id then Some None
             else if pair_id p = first_id
               then do { nx \<leftarrow> next_of (ht_list t) (pair_id p); Some (Some (nx, last_id)) }
             else if pair_id p = last_id
               then do { pv \<leftarrow> prev_of (ht_list t) (pair_id p); Some (Some (first_id, pv)) }
             else Some (Some (first_id, last_id)));
          Some (0, Hashtable (ht_size t - 1) ((ht_buckets t)[index := new]) (ht_num_buckets t)
                     (list_remove (ht_list t) (pair_id p)) (ht_fresh t))
        })
   }"

definition hashtable_del :: "'v hashtable \<Rightarrow> string \<Rightarrow> (int \<times> 'v hashtable) option" where
  "hashtable_del t key = hashtable_do_del t key (hash_str key)"

definition hashtable_clear :: "'v hashtable \<Rightarrow> 'v hashtable option" where
  "hashtable_clear t = do {
     n \<leftarrow> num_buckets t;
     Some (Hashtable 0 (map (\<lambda>b. None) (ht_buckets t)) (ht_num_buckets t) [] (ht_fresh t))
   }"

text \<open>Iteration: an iterator is the address of a pair, the pairs come in list order.\<close>

definition hashtable_iter :: "'v hashtable \<Rightarrow> pair_addr option" where
  "hashtable_iter t = (case ht_list t of [] \<Rightarrow> None | p # ps \<Rightarrow> Some (pair_id p))"

definition hashtable_iter_next :: "'v hashtable \<Rightarrow> pair_addr \<Rightarrow> pair_addr option" where
  "hashtable_iter_next t a = next_of (ht_list t) a"

definition iter_pair :: "'v hashtable \<Rightarrow> pair_addr \<Rightarrow> 'v pair option" where
  "iter_pair t a = List.find (\<lambda>q. pair_id q = a) (ht_list t)"

definition hashtable_iter_at :: "'v hashtable \<Rightarrow> string \<Rightarrow> pair_addr option option" where
  "hashtable_iter_at t key = do {
     n \<leftarrow> num_buckets t;
     pair \<leftarrow> hashtable_find_pair t (ht_buckets t ! bucket_index (hash_str key) n) key (hash_str key);
     Some (map_option pair_id pair)
   }"

end
