(* ===== verification/Jansson_Utf.thy ===== *)
theory Jansson_Utf
  imports Prelude
begin

unbundle bit_operations_syntax

text \<open>
  The UTF-8 routines of the bundled jansson library
  (\<^verbatim>\<open>src/lib/jansson-2.3.1/src/utf.c\<close>). A buffer is the list of its bytes before the
  terminating NUL. Results that the code returns through a pointer are returned beside the
  status; \<open>check_cont\<close> and \<open>utf8_check_full\<close> are \<open>None\<close> where the code returns 0, and
  \<open>utf8_iterate\<close> is \<open>None\<close> where it returns NULL.
\<close>

section \<open>Definitions\<close>

definition utf8_encode :: "int \<Rightarrow> int \<times> string" where
  "utf8_encode codepoint =
    (if codepoint < 0 then (-1, [])
     else if codepoint < 0x80 then (0, [byte codepoint])
     else if codepoint < 0x800 then
       (0, [byte (0xC0 + drop_bit 6 (codepoint AND 0x7C0)),
            byte (0x80 + (codepoint AND 0x03F))])
     else if codepoint < 0x10000 then
       (0, [byte (0xE0 + drop_bit 12 (codepoint AND 0xF000)),
            byte (0x80 + drop_bit 6 (codepoint AND 0x0FC0)),
            byte (0x80 + (codepoint AND 0x003F))])
     else if codepoint \<le> 0x10FFFF then
       (0, [byte (0xF0 + drop_bit 18 (codepoint AND 0x1C0000)),
            byte (0x80 + drop_bit 12 (codepoint AND 0x03F000)),
            byte (0x80 + drop_bit 6 (codepoint AND 0x000FC0)),
            byte (0x80 + (codepoint AND 0x00003F))])
     else (-1, []))"

definition utf8_check_first :: "char \<Rightarrow> int" where
  "utf8_check_first b =
    (let u = uchar b in
     if u < 0x80 then 1
     else if 0x80 \<le> u \<and> u \<le> 0xBF then 0
     else if u = 0xC0 \<or> u = 0xC1 then 0
     else if 0xC2 \<le> u \<and> u \<le> 0xDF then 2
     else if 0xE0 \<le> u \<and> u \<le> 0xEF then 3
     else if 0xF0 \<le> u \<and> u \<le> 0xF4 then 4
     else 0)"

text \<open>The loop over the continuation bytes; the terminating NUL is none.\<close>

fun check_cont :: "string \<Rightarrow> nat \<Rightarrow> int \<Rightarrow> int option" where
  "check_cont bs 0 v = Some v"
| "check_cont [] (Suc n) v = None"
| "check_cont (b # bs) (Suc n) v =
     (if uchar b < 0x80 \<or> uchar b > 0xBF then None
      else check_cont bs n (push_bit 6 v + (uchar b AND 0x3F)))"

definition check_value :: "int \<Rightarrow> int \<Rightarrow> int option" where
  "check_value sz v =
    (if v > 0x10FFFF then None
     else if 0xD800 \<le> v \<and> v \<le> 0xDFFF then None
     else if (sz = 2 \<and> v < 0x80) \<or> (sz = 3 \<and> v < 0x800) \<or> (sz = 4 \<and> v < 0x10000) then None
     else Some v)"

fun utf8_check_full :: "string \<Rightarrow> int \<Rightarrow> int option" where
  "utf8_check_full [] sz = None"
| "utf8_check_full (b # bs) sz =
    (if sz = 2 then Option.bind (check_cont bs 1 (uchar b AND 0x1F)) (check_value sz)
     else if sz = 3 then Option.bind (check_cont bs 2 (uchar b AND 0xF)) (check_value sz)
     else if sz = 4 then Option.bind (check_cont bs 3 (uchar b AND 0x7)) (check_value sz)
     else None)"

text \<open>The rest of the buffer, and the code point when one was read.\<close>

definition utf8_iterate :: "string \<Rightarrow> (string \<times> int option) option" where
  "utf8_iterate buffer =
    (case buffer of
       [] \<Rightarrow> Some (buffer, None)
     | b # bs \<Rightarrow>
         (let count = utf8_check_first b in
          if count \<le> 0 then None
          else if count = 1 then Some (bs, Some (uchar b))
          else (case utf8_check_full buffer count of
                  None \<Rightarrow> None
                | Some v \<Rightarrow> Some (drop (nat count) buffer, Some v))))"

function utf8_check_bytes :: "string \<Rightarrow> bool" where
  "utf8_check_bytes [] = True"
| "utf8_check_bytes (b # bs) =
    (let count = utf8_check_first b in
     if count = 0 then False
     else if count > 1 then
       (if count > int (length (b # bs)) then False
        else if utf8_check_full (b # bs) count = None then False
        else utf8_check_bytes (drop (nat count) (b # bs)))
     else utf8_check_bytes bs)"
  by pat_completeness auto
termination by (relation "measure length") (auto simp: Let_def)

text \<open>
  \<^verbatim>\<open>length\<close> is an \<^verbatim>\<open>int\<close>: a string of more than \<^verbatim>\<open>INT_MAX\<close> bytes is measured modulo
  \<open>2 ^ 32\<close>. A length beyond the string reads out of bounds.
\<close>

definition utf8_check_string :: "string \<Rightarrow> int \<Rightarrow> bool option" where
  "utf8_check_string string len = do {
     let n = (if len = -1 then to_int (int (length string)) else len);
     defined (nat n \<le> length string);
     Some (utf8_check_bytes (take (nat n) string))
   }"

section \<open>Bits as digits in base 64\<close>

lemma uchar_range: "0 \<le> uchar c" "uchar c < 256"
proof -
  have "(of_char c :: int) mod 256 = of_char c" by (simp add: of_char_mod_256)
  then show "0 \<le> uchar c" "uchar c < 256"
    using pos_mod_sign [of 256 "of_char c :: int"] pos_mod_bound [of 256 "of_char c :: int"] by simp_all
qed

lemma uchar_byte [simp]: "0 \<le> u \<Longrightarrow> u < 256 \<Longrightarrow> uchar (byte u) = u"
  by (simp add: of_char_of)

lemma and_low:
  "(v :: int) AND 0x3F = v mod 64" "v AND 0x1F = v mod 32" "v AND 0xF = v mod 16" "v AND 0x7 = v mod 8"
  using take_bit_eq_mask [of 6 v] take_bit_eq_mask [of 5 v] take_bit_eq_mask [of 4 v] take_bit_eq_mask [of 3 v]
  by (simp_all add: take_bit_eq_mod mask_eq_exp_minus_1)

lemma and_high:
  "drop_bit 6 ((v :: int) AND 0x7C0) = v div 64 mod 32"
  "drop_bit 12 (v AND 0xF000) = v div 4096 mod 16"
  "drop_bit 6 (v AND 0xFC0) = v div 64 mod 64"
  "drop_bit 18 (v AND 0x1C0000) = v div 262144 mod 8"
  "drop_bit 12 (v AND 0x3F000) = v div 4096 mod 64"
  by (simp_all add: drop_bit_and, simp_all add: drop_bit_eq_div and_low)


section \<open>Code points and their encodings\<close>

definition scalar :: "int \<Rightarrow> bool" where
  "scalar cp \<longleftrightarrow> 0 \<le> cp \<and> cp \<le> 0x10FFFF \<and> \<not> (0xD800 \<le> cp \<and> cp \<le> 0xDFFF)"

abbreviation enc :: "int \<Rightarrow> string" where "enc cp \<equiv> snd (utf8_encode cp)"

lemma div_64: "(v :: int) div 4096 = v div 64 div 64" "v div 262144 = v div 64 div 64 div 64"
  by (simp_all add: zdiv_zmult2_eq [symmetric])

lemma div_64_less: "0 \<le> (v :: int) \<Longrightarrow> v < 64 * k \<Longrightarrow> 0 \<le> v div 64 \<and> v div 64 < k"
  by (simp add: pos_imp_zdiv_nonneg_iff div_less_iff_less_mult)

lemma enc_1: "0 \<le> cp \<Longrightarrow> cp < 0x80 \<Longrightarrow> utf8_encode cp = (0, [byte cp])"
  by (simp add: utf8_encode_def)

lemma enc_2:
  assumes "0x80 \<le> cp" "cp < 0x800"
  shows "utf8_encode cp = (0, [byte (0xC0 + cp div 64), byte (0x80 + cp mod 64)])"
  using assms div_64_less [of cp 32] unfolding utf8_encode_def and_high and_low by simp

lemma enc_3:
  assumes "0x800 \<le> cp" "cp < 0x10000"
  shows "utf8_encode cp = (0, [byte (0xE0 + cp div 64 div 64), byte (0x80 + cp div 64 mod 64),
    byte (0x80 + cp mod 64)])"
  using assms div_64_less [of cp 1024] div_64_less [of "cp div 64" 16]
  unfolding utf8_encode_def and_high and_low by (simp add: div_64)

lemma enc_4:
  assumes "0x10000 \<le> cp" "cp \<le> 0x10FFFF"
  shows "utf8_encode cp = (0, [byte (0xF0 + cp div 64 div 64 div 64), byte (0x80 + cp div 64 div 64 mod 64),
    byte (0x80 + cp div 64 mod 64), byte (0x80 + cp mod 64)])"
  using assms div_64_less [of cp 32768] div_64_less [of "cp div 64" 512] div_64_less [of "cp div 64 div 64" 8]
  unfolding utf8_encode_def and_high and_low by (simp add: div_64)

lemma split_64: "0 \<le> y \<Longrightarrow> y < 64 \<Longrightarrow> (64 * x + y) div 64 = x \<and> (64 * x + y) mod 64 = (y :: int)"
  by simp

lemma join_64: "64 * ((v :: int) div 64) + v mod 64 = v" by simp

lemma cont_mod: "0x80 \<le> u \<Longrightarrow> u \<le> 0xBF \<Longrightarrow> u mod 64 = u - (0x80 :: int)"
  by presburger

lemma check_cont_byte:
  "0 \<le> d \<Longrightarrow> d < 64 \<Longrightarrow> check_cont (byte (0x80 + d) # bs) (Suc n) v = check_cont bs n (64 * v + d)"
  using cont_mod [of "0x80 + d"] by (simp add: push_bit_eq_mult and_low mult.commute [of v])

lemma cont_byte:
  assumes "check_cont (b # bs) (Suc n) v = Some w"
  obtains d where "0 \<le> d" "d < 64" "b = byte (0x80 + d)" "check_cont bs n (64 * v + d) = Some w"
proof (rule that [of "uchar b - 0x80"])
  have u: "0x80 \<le> uchar b" "uchar b \<le> 0xBF" using assms by (simp_all split: if_splits)
  then show "0 \<le> uchar b - 0x80" "uchar b - 0x80 < 64" by simp_all
  show "b = byte (0x80 + (uchar b - 0x80))" by simp
  have "(uchar b AND 0x3F) = uchar b - 0x80"
    using u by (simp add: and_low cont_mod)
  with assms u show "check_cont bs n (64 * v + (uchar b - 0x80)) = Some w"
    by (simp add: push_bit_eq_mult ac_simps)
qed


lemma check_first_range:
  "utf8_check_first b = 1 \<longleftrightarrow> uchar b < 0x80"
  "utf8_check_first b = 2 \<longleftrightarrow> 0xC2 \<le> uchar b \<and> uchar b \<le> 0xDF"
  "utf8_check_first b = 3 \<longleftrightarrow> 0xE0 \<le> uchar b \<and> uchar b \<le> 0xEF"
  "utf8_check_first b = 4 \<longleftrightarrow> 0xF0 \<le> uchar b \<and> uchar b \<le> 0xF4"
  "utf8_check_first b \<in> {0, 1, 2, 3, 4}"
  by (auto simp: utf8_check_first_def Let_def)

lemma lead_mod:
  "0 \<le> x \<Longrightarrow> x < 32 \<Longrightarrow> (0xC0 + x) mod 32 = (x :: int)"
  "0 \<le> x \<Longrightarrow> x < 16 \<Longrightarrow> (0xE0 + x) mod 16 = x"
  "0 \<le> x \<Longrightarrow> x < 8 \<Longrightarrow> (0xF0 + x) mod 8 = x"
  using mod_add_left_eq [of 192 32 x] mod_add_left_eq [of 224 16 x] mod_add_left_eq [of 240 8 x] by simp_all

lemma lead_byte:
  assumes "k \<le> uchar b"
  obtains x where "0 \<le> x" "uchar b = k + x" "b = byte (k + x)"
  using assms by (intro that [of "uchar b - k"]) simp_all

lemma digits:
  "0 \<le> d \<Longrightarrow> d < 64 \<Longrightarrow> (64 * x + d) div 64 = (x :: int) \<and> (64 * x + d) mod 64 = d"
  "0 \<le> e \<Longrightarrow> e < 64 \<Longrightarrow> (4096 * x + 64 * d + e) div 64 = 64 * x + d \<and> (4096 * x + 64 * d + e) mod 64 = e"
  "0 \<le> g \<Longrightarrow> g < 64 \<Longrightarrow> (262144 * x + 4096 * d + 64 * e + g) div 64 = 4096 * x + 64 * d + e \<and>
    (262144 * x + 4096 * d + 64 * e + g) mod 64 = g"
  using split_64 [of d x] split_64 [of e "64 * x + d"] split_64 [of g "4096 * x + 64 * d + e"]
  by (simp_all add: algebra_simps)

lemma push_6: "push_bit 6 (v :: int) = 64 * v"
  by (simp add: push_bit_eq_mult)

text \<open>A sequence of two, three and four bytes, by its digits.\<close>

lemma dec_2:
  assumes "0 \<le> x" "x < 32" "0 \<le> d" "d < 64"
  shows "utf8_check_full (byte (0xC0 + x) # byte (0x80 + d) # rest) 2 = check_value 2 (64 * x + d)"
    and "2 \<le> x \<Longrightarrow> enc (64 * x + d) = [byte (0xC0 + x), byte (0x80 + d)]"
  using assms by (simp_all add: and_low lead_mod cont_mod push_6 enc_2 digits)

lemma dec_3:
  assumes "0 \<le> x" "x < 16" "0 \<le> d" "d < 64" "0 \<le> e" "e < 64"
  shows "utf8_check_full (byte (0xE0 + x) # byte (0x80 + d) # byte (0x80 + e) # rest) 3 =
      check_value 3 (4096 * x + 64 * d + e)"
    and "0x800 \<le> 4096 * x + 64 * d + e \<Longrightarrow>
      enc (4096 * x + 64 * d + e) = [byte (0xE0 + x), byte (0x80 + d), byte (0x80 + e)]"
  using assms by (simp_all add: and_low lead_mod cont_mod push_6 enc_3 digits numeral_2_eq_2)

lemma dec_4:
  assumes "0 \<le> x" "x < 5" "0 \<le> d" "d < 64" "0 \<le> e" "e < 64" "0 \<le> g" "g < 64"
  shows "utf8_check_full (byte (0xF0 + x) # byte (0x80 + d) # byte (0x80 + e) # byte (0x80 + g) # rest) 4 =
      check_value 4 (262144 * x + 4096 * d + 64 * e + g)"
    and "0x10000 \<le> 262144 * x + 4096 * d + 64 * e + g \<Longrightarrow> 262144 * x + 4096 * d + 64 * e + g \<le> 0x10FFFF \<Longrightarrow>
      enc (262144 * x + 4096 * d + 64 * e + g) =
        [byte (0xF0 + x), byte (0x80 + d), byte (0x80 + e), byte (0x80 + g)]"
  using assms by (simp_all add: and_low lead_mod cont_mod push_6 enc_4 digits numeral_3_eq_3)

lemma enc_cases:
  assumes "scalar cp"
  obtains "cp < 0x80" "enc cp = [byte cp]"
  | n where "n \<in> {2, 3, 4}" "0x80 \<le> cp" "utf8_check_first (hd (enc cp)) = n" "length (enc cp) = nat n"
      "\<And>rest. utf8_check_full (enc cp @ rest) n = Some cp"
proof -
  have cp: "0 \<le> cp" "cp \<le> 0x10FFFF" "\<not> (0xD800 \<le> cp \<and> cp \<le> 0xDFFF)" using assms by (auto simp: scalar_def)
  note bytes = check_first_range check_value_def
  consider "cp < 0x80" | "0x80 \<le> cp" "cp < 0x800" | "0x800 \<le> cp" "cp < 0x10000" | "0x10000 \<le> cp" by linarith
  then show thesis
  proof cases
    case 1
    with cp that(1) show thesis by (simp add: enc_1)
  next
    case 2
    define x d where "x = cp div 64" and "d = cp mod 64"
    then have n: "cp = 64 * x + d" "0 \<le> d" "d < 64" "0 \<le> x" "2 \<le> x" "x < 32" using 2 by simp_all
    show thesis
      by (rule that(2) [of 2]) (use n 2 cp in \<open>simp_all add: dec_2 bytes del: utf8_check_full.simps\<close>)
  next
    case 3
    define x d e where "x = cp div 64 div 64" and "d = cp div 64 mod 64" and "e = cp mod 64"
    then have "cp = 4096 * x + 64 * d + e"
      using join_64 [of cp] join_64 [of "cp div 64"] by linarith
    moreover have "0 \<le> d" "d < 64" "0 \<le> e" "e < 64" "0 \<le> x" "x < 16"
      using 3 by (simp_all add: x_def d_def e_def)
    moreover note n = calculation this
    show thesis
      by (rule that(2) [of 3]) (use n 3 cp in \<open>simp_all add: dec_3 bytes del: utf8_check_full.simps\<close>)
  next
    case 4
    define x d e g where "x = cp div 64 div 64 div 64" and "d = cp div 64 div 64 mod 64"
      and "e = cp div 64 mod 64" and "g = cp mod 64"
    then have "cp = 262144 * x + 4096 * d + 64 * e + g"
      using join_64 [of cp] join_64 [of "cp div 64"] join_64 [of "cp div 64 div 64"] by linarith
    moreover have "0 \<le> d" "d < 64" "0 \<le> e" "e < 64" "0 \<le> g" "g < 64" "0 \<le> x" "x < 5"
      using 4 cp by (simp_all add: x_def d_def e_def g_def)
    moreover note n = calculation this
    show thesis
      by (rule that(2) [of 4]) (use n 4 cp in \<open>simp_all add: dec_4 bytes del: utf8_check_full.simps\<close>)
  qed
qed

lemma check_cont_SucD:
  assumes "check_cont bs (Suc n) v = Some w"
  obtains d cs where "0 \<le> d" "d < 64" "bs = byte (0x80 + d) # cs" "check_cont cs n (64 * v + d) = Some w"
proof (cases bs)
  case (Cons b cs)
  from assms [unfolded Cons] show thesis by (rule cont_byte) (use that Cons in blast)
qed (use assms in simp)

lemma check_value_Some:
  "check_value n v = Some w \<longleftrightarrow> v = w \<and> w \<le> 0x10FFFF \<and> \<not> (0xD800 \<le> w \<and> w \<le> 0xDFFF) \<and>
     \<not> (n = 2 \<and> w < 0x80 \<or> n = 3 \<and> w < 0x800 \<or> n = 4 \<and> w < 0x10000)"
  by (auto simp: check_value_def)

lemma check_full_enc:
  assumes first: "utf8_check_first b = n" "n > 1" and full: "utf8_check_full (b # bs) n = Some v"
  shows "scalar v \<and> 0x80 \<le> v \<and> b # bs = enc v @ drop (nat n) (b # bs)"
proof -
  consider "n = 2" | "n = 3" | "n = 4" using check_first_range(5) [of b] first by auto
  then show ?thesis
  proof cases
    case 1
    then have r: "0xC2 \<le> uchar b" "uchar b \<le> 0xDF" using first check_first_range(2) by auto
    then have "0xC0 \<le> uchar b" by simp
    then obtain x where b: "0 \<le> x" "uchar b = 0xC0 + x" "b = byte (0xC0 + x)" by (rule lead_byte)
    with r have x: "2 \<le> x" "x < 32" by simp_all
    from full 1 obtain w where "check_cont bs (Suc 0) (uchar b AND 0x1F) = Some w"
      by (auto simp: bind_eq_Some_conv)
    then obtain d cs where d: "0 \<le> d" "d < 64" "bs = byte (0x80 + d) # cs" by (rule check_cont_SucD)
    from full have "check_value 2 (64 * x + d) = Some v"
      unfolding 1 b(3) d(3) by (simp only: dec_2(1) [OF b(1) x(2) d(1,2)])
    then have v: "v = 64 * x + d" "scalar v" "0x80 \<le> v" using b(1) d(1) by (auto simp: check_value_Some scalar_def)
    then show ?thesis using dec_2(2) [OF b(1) x(2) d(1,2) x(1)] 1 b(3) d(3) by simp
  next
    case 2
    then have r: "0xE0 \<le> uchar b" "uchar b \<le> 0xEF" using first check_first_range(3) by auto
    from r(1) obtain x where b: "0 \<le> x" "uchar b = 0xE0 + x" "b = byte (0xE0 + x)" by (rule lead_byte)
    with r have x: "x < 16" by simp
    from full 2 obtain w where "check_cont bs (Suc (Suc 0)) (uchar b AND 0xF) = Some w"
      by (auto simp: bind_eq_Some_conv numeral_2_eq_2)
    then obtain d cs where d: "0 \<le> d" "d < 64" "bs = byte (0x80 + d) # cs"
      and c: "check_cont cs (Suc 0) (64 * (uchar b AND 0xF) + d) = Some w" by (rule check_cont_SucD)
    from c obtain e es where e: "0 \<le> e" "e < 64" "cs = byte (0x80 + e) # es" by (rule check_cont_SucD)
    from full have "check_value 3 (4096 * x + 64 * d + e) = Some v"
      unfolding 2 b(3) d(3) e(3) by (simp only: dec_3(1) [OF b(1) x d(1,2) e(1,2)])
    then have v: "v = 4096 * x + 64 * d + e" "scalar v" "0x800 \<le> v"
      using b(1) d(1) e(1) by (auto simp: check_value_Some scalar_def)
    then show ?thesis using dec_3(2) [OF b(1) x d(1,2) e(1,2)] 2 b(3) d(3) e(3) by simp
  next
    case 3
    then have r: "0xF0 \<le> uchar b" "uchar b \<le> 0xF4" using first check_first_range(4) by auto
    from r(1) obtain x where b: "0 \<le> x" "uchar b = 0xF0 + x" "b = byte (0xF0 + x)" by (rule lead_byte)
    with r have x: "x < 5" by simp
    from full 3 obtain w where "check_cont bs (Suc (Suc (Suc 0))) (uchar b AND 0x7) = Some w"
      by (auto simp: bind_eq_Some_conv numeral_3_eq_3)
    then obtain d cs where d: "0 \<le> d" "d < 64" "bs = byte (0x80 + d) # cs"
      and c: "check_cont cs (Suc (Suc 0)) (64 * (uchar b AND 0x7) + d) = Some w" by (rule check_cont_SucD)
    from c obtain e es where e: "0 \<le> e" "e < 64" "cs = byte (0x80 + e) # es"
      and c': "check_cont es (Suc 0) (64 * (64 * (uchar b AND 0x7) + d) + e) = Some w" by (rule check_cont_SucD)
    from c' obtain g gs where g: "0 \<le> g" "g < 64" "es = byte (0x80 + g) # gs" by (rule check_cont_SucD)
    from full have "check_value 4 (262144 * x + 4096 * d + 64 * e + g) = Some v"
      unfolding 3 b(3) d(3) e(3) g(3) by (simp only: dec_4(1) [OF b(1) x d(1,2) e(1,2) g(1,2)])
    then have v: "v = 262144 * x + 4096 * d + 64 * e + g" "scalar v" "0x10000 \<le> v" "v \<le> 0x10FFFF"
      using b(1) d(1) e(1) g(1) by (auto simp: check_value_Some scalar_def)
    then show ?thesis using dec_4(2) [OF b(1) x d(1,2) e(1,2) g(1,2)] 3 b(3) d(3) e(3) g(3) by simp
  qed
qed

section \<open>Iterating and checking\<close>

lemma utf8_iterate_enc:
  assumes "scalar cp" "cp \<noteq> 0"
  shows "utf8_iterate (enc cp @ rest) = Some (rest, Some cp)"
  using assms(1)
proof (cases rule: enc_cases)
  case 1
  with assms have "utf8_check_first (byte cp) = 1" by (simp add: check_first_range scalar_def)
  with 1 assms show ?thesis by (simp add: utf8_iterate_def scalar_def)
next
  case (2 n)
  then obtain b bs where "enc cp = b # bs" by (cases "enc cp") auto
  with 2 show ?thesis by (auto simp: utf8_iterate_def Let_def)
qed

lemma utf8_iterate_SomeD:
  assumes "utf8_iterate s = Some (rest, Some cp)"
  shows "scalar cp \<and> s = enc cp @ rest"
proof -
  from assms obtain b bs where s: "s = b # bs" by (cases s) (simp_all add: utf8_iterate_def)
  show ?thesis
  proof (cases "utf8_check_first b = 1")
    case True
    with assms s uchar_range(1) [of b] show ?thesis
      by (auto simp: utf8_iterate_def Let_def scalar_def enc_1 check_first_range)
  next
    case False
    with assms s obtain n where n: "utf8_check_first b = n" "n > 1" "utf8_check_full (b # bs) n = Some cp"
      "rest = drop (nat n) (b # bs)"
      using check_first_range(5) [of b] by (auto simp: utf8_iterate_def Let_def split: if_splits option.splits)
    from check_full_enc [OF n(1-3)] s n(4) show ?thesis by simp
  qed
qed

lemma utf8_check_bytes_enc:
  assumes "scalar cp"
  shows "utf8_check_bytes (enc cp @ rest) = utf8_check_bytes rest"
  using assms
proof (cases rule: enc_cases)
  case 1
  with assms have "utf8_check_first (byte cp) = 1" by (simp add: check_first_range scalar_def)
  with 1 show ?thesis by simp
next
  case (2 n)
  then obtain b bs where e: "enc cp = b # bs" by (cases "enc cp") auto
  with 2 have "utf8_check_first b = n" "n > 1" "nat n = Suc (length bs)" by auto
  with 2(5) [of rest] e show ?thesis by auto
qed

lemma utf8_check_bytes_iff:
  "utf8_check_bytes s \<longleftrightarrow> (\<exists>cps. (\<forall>cp \<in> set cps. scalar cp) \<and> s = concat (map enc cps))"
proof
  show "\<exists>cps. (\<forall>cp \<in> set cps. scalar cp) \<and> s = concat (map enc cps)" if "utf8_check_bytes s"
    using that
  proof (induction s rule: utf8_check_bytes.induct)
    case 1
    show ?case by (rule exI [of _ "[]"]) simp
  next
    case (2 b bs)
    have *: "\<exists>cps. (\<forall>cp \<in> set cps. scalar cp) \<and> b # bs = concat (map enc cps)"
      if "scalar v" "b # bs = enc v @ r" "\<exists>cps. (\<forall>cp \<in> set cps. scalar cp) \<and> r = concat (map enc cps)" for v r
    proof -
      from that(3) obtain cps where "\<forall>cp \<in> set cps. scalar cp" "r = concat (map enc cps)" by blast
      with that show ?thesis by (intro exI [of _ "v # cps"]) auto
    qed
    show ?case
    proof (cases "utf8_check_first b > 1")
      case True
      with 2(3) obtain v where v: "utf8_check_full (b # bs) (utf8_check_first b) = Some v"
        and r: "utf8_check_bytes (drop (nat (utf8_check_first b)) (b # bs))"
        by (auto simp: Let_def split: if_splits)
      from check_full_enc [OF refl True v] have v': "scalar v"
        "b # bs = enc v @ drop (nat (utf8_check_first b)) (b # bs)" by simp_all
      show ?thesis
        by (rule * [OF v'], rule 2(1) [OF refl _ True _ _ r]) (use True 2(3) v in \<open>auto simp: Let_def split: if_splits\<close>)
    next
      case False
      with 2(3) have "utf8_check_first b = 1" "utf8_check_bytes bs"
        using check_first_range(5) [of b] by (auto simp: Let_def split: if_splits)
      moreover from this 2(2) [OF refl] have "\<exists>cps. (\<forall>cp \<in> set cps. scalar cp) \<and> bs = concat (map enc cps)"
        by simp
      ultimately show ?thesis
        using uchar_range(1) [of b]
        by (intro * [of "uchar b" bs]) (simp_all add: check_first_range scalar_def enc_1)
    qed
  qed
  show "utf8_check_bytes s" if "\<exists>cps. (\<forall>cp \<in> set cps. scalar cp) \<and> s = concat (map enc cps)"
  proof -
    have "\<forall>cp \<in> set cps. scalar cp \<Longrightarrow> utf8_check_bytes (concat (map enc cps))" for cps
      by (induction cps) (simp_all add: utf8_check_bytes_enc del: utf8_check_bytes.simps(2))
    with that show ?thesis by blast
  qed
qed

end
