(* ===== verification/Jansson_Value.thy ===== *)
theory Jansson_Value
  imports Jansson_Hashtable Jansson_Utf
begin

text \<open>
  The values of the bundled jansson library (\<^verbatim>\<open>src/lib/jansson-2.3.1/src/value.c\<close>).
  A value is a tree: the reference counts, and with them \<^verbatim>\<open>json_delete\<close>, a value that is part
  of two others and a value that contains itself are not represented. A pointer to a value
  that the code tests for NULL is a \<open>json option\<close>; a container is updated by returning it.
  A \<^verbatim>\<open>double\<close> is its 64 bits, a \<^verbatim>\<open>long long\<close> an integer, and allocation succeeds.
\<close>

section \<open>Data\<close>

type_synonym double = "64 word"

datatype json =
    JNull
  | JTrue
  | JFalse
  | JInteger int
  | JReal double
  | JString string
  | JArray (array_alloc: nat) (array_table: "json list")
  | JObject (object_table: "json hashtable") (object_serial: "64 word")

datatype json_type = JSON_OBJECT | JSON_ARRAY | JSON_STRING | JSON_INTEGER | JSON_REAL | JSON_TRUE
  | JSON_FALSE | JSON_NULL

fun json_typeof :: "json \<Rightarrow> json_type" where
  "json_typeof JNull = JSON_NULL"
| "json_typeof JTrue = JSON_TRUE"
| "json_typeof JFalse = JSON_FALSE"
| "json_typeof (JInteger i) = JSON_INTEGER"
| "json_typeof (JReal d) = JSON_REAL"
| "json_typeof (JString s) = JSON_STRING"
| "json_typeof (JArray n xs) = JSON_ARRAY"
| "json_typeof (JObject t s) = JSON_OBJECT"

text \<open>Equality of two numbers in the IEEE format: no NaN equals anything, the zeros are equal.\<close>

definition is_nan :: "double \<Rightarrow> bool" where
  "is_nan d \<longleftrightarrow> push_bit 1 d > push_bit 53 0x7FF"

definition double_eq :: "double \<Rightarrow> double \<Rightarrow> bool" where
  "double_eq a b \<longleftrightarrow> \<not> is_nan a \<and> \<not> is_nan b \<and> (a = b \<or> push_bit 1 a = 0 \<and> push_bit 1 b = 0)"

section \<open>Objects\<close>

definition json_object :: json where
  "json_object = JObject hashtable_init 0"

definition json_object_size :: "json \<Rightarrow> nat" where
  "json_object_size json = (case json of JObject t s \<Rightarrow> ht_size t | _ \<Rightarrow> 0)"

definition json_object_get :: "json \<Rightarrow> string \<Rightarrow> json option option" where
  "json_object_get json key = (case json of JObject t s \<Rightarrow> hashtable_get t key | _ \<Rightarrow> Some None)"

definition json_object_set_new_nocheck ::
  "json \<Rightarrow> string option \<Rightarrow> json option \<Rightarrow> (int \<times> json) option" where
  "json_object_set_new_nocheck json key value =
    (case value of
       None \<Rightarrow> Some (-1, json)
     | Some v \<Rightarrow>
         (case (key, json) of
            (Some k, JObject t s) \<Rightarrow> do {
              t' \<leftarrow> hashtable_set t k s v;
              Some (0, JObject t' (s + 1))
            }
          | _ \<Rightarrow> Some (-1, json)))"

definition json_object_set_new :: "json \<Rightarrow> string option \<Rightarrow> json option \<Rightarrow> (int \<times> json) option" where
  "json_object_set_new json key value =
    (case key of
       None \<Rightarrow> Some (-1, json)
     | Some k \<Rightarrow> do {
         valid \<leftarrow> utf8_check_string k (-1);
         if \<not> valid then Some (-1, json) else json_object_set_new_nocheck json key value
       })"

text \<open>\<^verbatim>\<open>json_object_set\<close> and \<^verbatim>\<open>json_object_set_nocheck\<close> only take one more reference.\<close>

abbreviation "json_object_set \<equiv> json_object_set_new"
abbreviation "json_object_set_nocheck \<equiv> json_object_set_new_nocheck"

definition json_object_del :: "json \<Rightarrow> string \<Rightarrow> (int \<times> json) option" where
  "json_object_del json key =
    (case json of
       JObject t s \<Rightarrow> do { (r, t') \<leftarrow> hashtable_del t key; Some (r, JObject t' s) }
     | _ \<Rightarrow> Some (-1, json))"

definition json_object_clear :: "json \<Rightarrow> (int \<times> json) option" where
  "json_object_clear json =
    (case json of
       JObject t s \<Rightarrow> do { t' \<leftarrow> hashtable_clear t; Some (0, JObject t' 0) }
     | _ \<Rightarrow> Some (-1, json))"

text \<open>
  The iterators. \<^verbatim>\<open>json_object_foreach\<close> goes from \<^verbatim>\<open>json_object_iter\<close> through
  \<^verbatim>\<open>json_object_iter_next\<close>, which is the order of the table's list: \<open>object_items\<close>.
\<close>

definition json_object_iter :: "json \<Rightarrow> pair_addr option" where
  "json_object_iter json = (case json of JObject t s \<Rightarrow> hashtable_iter t | _ \<Rightarrow> None)"

definition json_object_iter_at :: "json \<Rightarrow> string option \<Rightarrow> pair_addr option option" where
  "json_object_iter_at json key =
    (case (key, json) of (Some k, JObject t s) \<Rightarrow> hashtable_iter_at t k | _ \<Rightarrow> Some None)"

definition json_object_iter_next :: "json \<Rightarrow> pair_addr option \<Rightarrow> pair_addr option" where
  "json_object_iter_next json iter =
    (case (json, iter) of (JObject t s, Some a) \<Rightarrow> hashtable_iter_next t a | _ \<Rightarrow> None)"

definition json_object_iter_key :: "json \<Rightarrow> pair_addr option \<Rightarrow> string option" where
  "json_object_iter_key json iter =
    (case (json, iter) of (JObject t s, Some a) \<Rightarrow> map_option pair_key (iter_pair t a) | _ \<Rightarrow> None)"

definition json_object_iter_value :: "json \<Rightarrow> pair_addr option \<Rightarrow> json option" where
  "json_object_iter_value json iter =
    (case (json, iter) of (JObject t s, Some a) \<Rightarrow> map_option pair_value (iter_pair t a) | _ \<Rightarrow> None)"

definition json_object_iter_set_new :: "json \<Rightarrow> pair_addr option \<Rightarrow> json option \<Rightarrow> int \<times> json" where
  "json_object_iter_set_new json iter value =
    (case (json, iter, value) of
       (JObject t s, Some a, Some v) \<Rightarrow>
         (0, JObject (Hashtable (ht_size t) (ht_buckets t) (ht_num_buckets t)
                        (set_pair_value (ht_list t) a v) (ht_fresh t)) s)
     | _ \<Rightarrow> (-1, json))"

definition table_items :: "'v hashtable \<Rightarrow> (string \<times> 'v) list" where
  "table_items t = map (\<lambda>p. (pair_key p, pair_value p)) (ht_list t)"

definition object_items :: "json \<Rightarrow> (string \<times> json) list" where
  "object_items json = (case json of JObject t s \<Rightarrow> table_items t | _ \<Rightarrow> [])"

definition json_is_object :: "json \<Rightarrow> bool" where
  "json_is_object json \<longleftrightarrow> json_typeof json = JSON_OBJECT"

fun update_items :: "json \<Rightarrow> (string \<times> json) list \<Rightarrow> (int \<times> json) option" where
  "update_items json [] = Some (0, json)"
| "update_items json ((k, v) # kvs) = do {
     (r, json') \<leftarrow> json_object_set_nocheck json (Some k) (Some v);
     if r \<noteq> 0 then Some (-1, json') else update_items json' kvs
   }"

definition json_object_update :: "json \<Rightarrow> json \<Rightarrow> (int \<times> json) option" where
  "json_object_update json other =
    (if \<not> json_is_object json \<or> \<not> json_is_object other then Some (-1, json)
     else update_items json (object_items other))"

text \<open>The two variants go on when an entry cannot be set.\<close>

fun update_items_if :: "bool \<Rightarrow> json \<Rightarrow> (string \<times> json) list \<Rightarrow> (int \<times> json) option" where
  "update_items_if present json [] = Some (0, json)"
| "update_items_if present json ((k, v) # kvs) = do {
     old \<leftarrow> json_object_get json k;
     if (old \<noteq> None) = present
     then do {
       (r, json') \<leftarrow> json_object_set_nocheck json (Some k) (Some v);
       update_items_if present json' kvs
     }
     else update_items_if present json kvs
   }"

definition json_object_update_existing :: "json \<Rightarrow> json \<Rightarrow> (int \<times> json) option" where
  "json_object_update_existing json other =
    (if \<not> json_is_object json \<or> \<not> json_is_object other then Some (-1, json)
     else update_items_if True json (object_items other))"

definition json_object_update_missing :: "json \<Rightarrow> json \<Rightarrow> (int \<times> json) option" where
  "json_object_update_missing json other =
    (if \<not> json_is_object json \<or> \<not> json_is_object other then Some (-1, json)
     else update_items_if False json (object_items other))"

fun copy_items :: "json \<Rightarrow> (string \<times> json) list \<Rightarrow> json option" where
  "copy_items json [] = Some json"
| "copy_items json ((k, v) # kvs) = do {
     (r, json') \<leftarrow> json_object_set_nocheck json (Some k) (Some v);
     copy_items json' kvs
   }"

definition json_object_copy :: "json \<Rightarrow> json option" where
  "json_object_copy json = copy_items json_object (object_items json)"

section \<open>Arrays\<close>

definition json_array :: json where
  "json_array = JArray 8 []"

definition json_array_size :: "json \<Rightarrow> nat" where
  "json_array_size json = (case json of JArray n xs \<Rightarrow> length xs | _ \<Rightarrow> 0)"

definition json_array_get :: "json \<Rightarrow> nat \<Rightarrow> json option" where
  "json_array_get json index =
    (case json of JArray n xs \<Rightarrow> if index \<ge> length xs then None else Some (xs ! index) | _ \<Rightarrow> None)"

definition json_array_set_new :: "json \<Rightarrow> nat \<Rightarrow> json option \<Rightarrow> int \<times> json" where
  "json_array_set_new json index value =
    (case value of
       None \<Rightarrow> (-1, json)
     | Some v \<Rightarrow>
         (case json of
            JArray n xs \<Rightarrow> if index \<ge> length xs then (-1, json) else (0, JArray n (xs[index := v]))
          | _ \<Rightarrow> (-1, json)))"

text \<open>The slots after \<^verbatim>\<open>json_array_grow\<close>.\<close>

definition json_array_grow :: "nat \<Rightarrow> nat \<Rightarrow> nat \<Rightarrow> nat" where
  "json_array_grow n entries amount = (if entries + amount \<le> n then n else max (n + amount) (n * 2))"

definition json_array_append_new :: "json \<Rightarrow> json option \<Rightarrow> (int \<times> json) option" where
  "json_array_append_new json value =
    (case value of
       None \<Rightarrow> Some (-1, json)
     | Some v \<Rightarrow>
         (case json of
            JArray n xs \<Rightarrow> do {
              let n' = json_array_grow n (length xs) 1;
              defined (length xs < n');
              Some (0, JArray n' (xs @ [v]))
            }
          | _ \<Rightarrow> Some (-1, json)))"

definition json_array_insert_new :: "json \<Rightarrow> nat \<Rightarrow> json option \<Rightarrow> (int \<times> json) option" where
  "json_array_insert_new json index value =
    (case value of
       None \<Rightarrow> Some (-1, json)
     | Some v \<Rightarrow>
         (case json of
            JArray n xs \<Rightarrow>
              (if index > length xs then Some (-1, json)
               else do {
                 let n' = json_array_grow n (length xs) 1;
                 defined (length xs < n');
                 Some (0, JArray n' (take index xs @ v # drop index xs))
               })
          | _ \<Rightarrow> Some (-1, json)))"

text \<open>
  The move in \<^verbatim>\<open>json_array_remove\<close> reads as many slots behind \<^verbatim>\<open>index\<close> as there are entries
  from \<^verbatim>\<open>index\<close> on, one more than are in use.
\<close>

definition json_array_remove :: "json \<Rightarrow> nat \<Rightarrow> (int \<times> json) option" where
  "json_array_remove json index =
    (case json of
       JArray n xs \<Rightarrow>
         (if index \<ge> length xs then Some (-1, json)
          else do {
            defined ((index + 1) + (length xs - index) \<le> n);
            Some (0, JArray n (take index xs @ drop (index + 1) xs))
          })
     | _ \<Rightarrow> Some (-1, json))"

definition json_array_clear :: "json \<Rightarrow> int \<times> json" where
  "json_array_clear json = (case json of JArray n xs \<Rightarrow> (0, JArray n []) | _ \<Rightarrow> (-1, json))"

definition json_array_extend :: "json \<Rightarrow> json \<Rightarrow> (int \<times> json) option" where
  "json_array_extend json other =
    (case (json, other) of
       (JArray n xs, JArray m ys) \<Rightarrow> do {
         let n' = json_array_grow n (length xs) (length ys);
         defined (length xs + length ys \<le> n');
         Some (0, JArray n' (xs @ ys))
       }
     | _ \<Rightarrow> Some (-1, json))"

fun append_all :: "json \<Rightarrow> json list \<Rightarrow> json option" where
  "append_all json [] = Some json"
| "append_all json (x # xs) = do {
     (r, json') \<leftarrow> json_array_append_new json (Some x);
     append_all json' xs
   }"

definition json_array_copy :: "json \<Rightarrow> json option" where
  "json_array_copy json = append_all json_array (case json of JArray n xs \<Rightarrow> xs | _ \<Rightarrow> [])"

section \<open>Strings, integers, reals\<close>

definition json_string_nocheck :: "string option \<Rightarrow> json option" where
  "json_string_nocheck value = map_option JString value"

definition json_string :: "string option \<Rightarrow> json option option" where
  "json_string value =
    (case value of
       None \<Rightarrow> Some None
     | Some s \<Rightarrow> do {
         valid \<leftarrow> utf8_check_string s (-1);
         Some (if valid then json_string_nocheck value else None)
       })"

definition json_string_value :: "json \<Rightarrow> string option" where
  "json_string_value json = (case json of JString s \<Rightarrow> Some s | _ \<Rightarrow> None)"

definition json_string_set_nocheck :: "json \<Rightarrow> string option \<Rightarrow> int \<times> json" where
  "json_string_set_nocheck json value =
    (case (json, value) of (JString s, Some t) \<Rightarrow> (0, JString t) | _ \<Rightarrow> (-1, json))"

definition json_string_set :: "json \<Rightarrow> string option \<Rightarrow> (int \<times> json) option" where
  "json_string_set json value =
    (case value of
       None \<Rightarrow> Some (-1, json)
     | Some s \<Rightarrow> do {
         valid \<leftarrow> utf8_check_string s (-1);
         Some (if valid then json_string_set_nocheck json value else (-1, json))
       })"

definition json_integer :: "int \<Rightarrow> json" where
  "json_integer value = JInteger value"

definition json_integer_value :: "json \<Rightarrow> int" where
  "json_integer_value json = (case json of JInteger i \<Rightarrow> i | _ \<Rightarrow> 0)"

definition json_integer_set :: "json \<Rightarrow> int \<Rightarrow> int \<times> json" where
  "json_integer_set json value = (case json of JInteger i \<Rightarrow> (0, JInteger value) | _ \<Rightarrow> (-1, json))"

definition json_real :: "double \<Rightarrow> json" where
  "json_real value = JReal value"

definition json_real_value :: "json \<Rightarrow> double" where
  "json_real_value json = (case json of JReal d \<Rightarrow> d | _ \<Rightarrow> 0)"

text \<open>Unlike its siblings, \<^verbatim>\<open>json_real_set\<close> returns 0 for a value of another type.\<close>

definition json_real_set :: "json \<Rightarrow> double \<Rightarrow> int \<times> json" where
  "json_real_set json value = (case json of JReal d \<Rightarrow> (0, JReal value) | _ \<Rightarrow> (0, json))"

text \<open>\<open>of_integer\<close> is the conversion of a \<^verbatim>\<open>long long\<close> to \<^verbatim>\<open>double\<close>.\<close>

definition json_number_value :: "(int \<Rightarrow> double) \<Rightarrow> json \<Rightarrow> double" where
  "json_number_value of_integer json =
    (case json of JInteger i \<Rightarrow> of_integer (json_integer_value json) | JReal d \<Rightarrow> json_real_value json | _ \<Rightarrow> 0)"

section \<open>Equality and copies\<close>

text \<open>
  The recursive calls for the members of a container are made on the mapped container:
  each member is replaced by the call on it. Two pointers to one value are equal at once in
  the code; for a value without NaN the comparison has the same result.
\<close>

fun equal_items :: "(string \<times> (json \<Rightarrow> bool option)) list \<Rightarrow> json hashtable \<Rightarrow> bool option" where
  "equal_items [] t2 = Some True"
| "equal_items ((k, eq) # kvs) t2 = do {
     value2 \<leftarrow> hashtable_get t2 k;
     same \<leftarrow> (case value2 of None \<Rightarrow> Some False | Some v2 \<Rightarrow> eq v2);
     if \<not> same then Some False else equal_items kvs t2
   }"

definition json_object_equal :: "(json \<Rightarrow> bool option) hashtable \<Rightarrow> json hashtable \<Rightarrow> bool option" where
  "json_object_equal t1 t2 = (if ht_size t1 \<noteq> ht_size t2 then Some False else equal_items (table_items t1) t2)"

fun equal_entries :: "(json \<Rightarrow> bool option) list \<Rightarrow> json list \<Rightarrow> bool option" where
  "equal_entries [] ys = Some True"
| "equal_entries (eq # eqs) [] = Some False"
| "equal_entries (eq # eqs) (y # ys) = do {
     same \<leftarrow> eq y;
     if \<not> same then Some False else equal_entries eqs ys
   }"

definition json_array_equal :: "(json \<Rightarrow> bool option) list \<Rightarrow> json list \<Rightarrow> bool option" where
  "json_array_equal xs ys = (if length xs \<noteq> length ys then Some False else equal_entries xs ys)"

primrec json_equal_to :: "json \<Rightarrow> json \<Rightarrow> bool option" where
  "json_equal_to JNull = (\<lambda>json2. Some (json2 = JNull))"
| "json_equal_to JTrue = (\<lambda>json2. Some (json2 = JTrue))"
| "json_equal_to JFalse = (\<lambda>json2. Some (json2 = JFalse))"
| "json_equal_to (JInteger i) = (\<lambda>json2. case json2 of JInteger j \<Rightarrow> Some (i = j) | _ \<Rightarrow> Some False)"
| "json_equal_to (JReal d) = (\<lambda>json2. case json2 of JReal e \<Rightarrow> Some (double_eq d e) | _ \<Rightarrow> Some False)"
| "json_equal_to (JString s) = (\<lambda>json2. case json2 of JString t \<Rightarrow> Some (s = t) | _ \<Rightarrow> Some False)"
| "json_equal_to (JArray n xs) =
     (\<lambda>json2. case json2 of JArray m ys \<Rightarrow> json_array_equal (map json_equal_to xs) ys | _ \<Rightarrow> Some False)"
| "json_equal_to (JObject t s) =
     (\<lambda>json2. case json2 of JObject t2 s2 \<Rightarrow> json_object_equal (map_hashtable json_equal_to t) t2
               | _ \<Rightarrow> Some False)"

definition json_equal :: "json option \<Rightarrow> json option \<Rightarrow> bool option" where
  "json_equal json1 json2 =
    (case (json1, json2) of (Some v1, Some v2) \<Rightarrow> json_equal_to v1 v2 | _ \<Rightarrow> Some False)"

definition json_copy :: "json option \<Rightarrow> json option option" where
  "json_copy json =
    (case json of
       None \<Rightarrow> Some None
     | Some v \<Rightarrow>
         (case v of
            JObject t s \<Rightarrow> map_option Some (json_object_copy v)
          | JArray n xs \<Rightarrow> map_option Some (json_array_copy v)
          | JString s \<Rightarrow> Some (json_string_nocheck (json_string_value v))
          | JInteger i \<Rightarrow> Some (Some (json_integer (json_integer_value v)))
          | JReal d \<Rightarrow> Some (Some (json_real (json_real_value v)))
          | _ \<Rightarrow> Some (Some v)))"

fun deep_copy_items :: "json \<Rightarrow> (string \<times> json option) list \<Rightarrow> json option" where
  "deep_copy_items json [] = Some json"
| "deep_copy_items json ((k, copy) # kvs) = do {
     v \<leftarrow> copy;
     (r, json') \<leftarrow> json_object_set_new_nocheck json (Some k) (Some v);
     deep_copy_items json' kvs
   }"

fun deep_append_all :: "json \<Rightarrow> json option list \<Rightarrow> json option" where
  "deep_append_all json [] = Some json"
| "deep_append_all json (copy # xs) = do {
     x \<leftarrow> copy;
     (r, json') \<leftarrow> json_array_append_new json (Some x);
     deep_append_all json' xs
   }"

primrec deep_copy_of :: "json \<Rightarrow> json option" where
  "deep_copy_of JNull = Some JNull"
| "deep_copy_of JTrue = Some JTrue"
| "deep_copy_of JFalse = Some JFalse"
| "deep_copy_of (JInteger i) = Some (json_integer i)"
| "deep_copy_of (JReal d) = Some (json_real d)"
| "deep_copy_of (JString s) = json_string_nocheck (Some s)"
| "deep_copy_of (JArray n xs) = deep_append_all json_array (map deep_copy_of xs)"
| "deep_copy_of (JObject t s) = deep_copy_items json_object (table_items (map_hashtable deep_copy_of t))"

definition json_deep_copy :: "json option \<Rightarrow> json option option" where
  "json_deep_copy json = (case json of None \<Rightarrow> Some None | Some v \<Rightarrow> map_option Some (deep_copy_of v))"

end
