(* ===== verification/Jansson_Strbuffer.thy ===== *)
theory Jansson_Strbuffer
  imports Prelude
begin

text \<open>
  The growing string buffer of the bundled jansson library
  (\<^verbatim>\<open>src/lib/jansson-2.3.1/src/strbuffer.c\<close>). \<open>sb_value\<close> holds the bytes in use, which a
  NUL follows, \<open>sb_size\<close> the bytes allocated; \<^verbatim>\<open>size_t\<close> has 64 bits. Allocation succeeds.
  A write beyond the allocation is \<open>None\<close>.
\<close>

section \<open>Definitions\<close>

record strbuffer =
  sb_value :: "string option"
  sb_length :: "64 word"
  sb_size :: "64 word"

definition STRBUFFER_MIN_SIZE :: "64 word" where "STRBUFFER_MIN_SIZE = 16"
definition STRBUFFER_FACTOR :: "64 word" where "STRBUFFER_FACTOR = 2"
definition STRBUFFER_SIZE_MAX :: "64 word" where "STRBUFFER_SIZE_MAX = -1"

definition strbuffer_init :: strbuffer where
  "strbuffer_init = \<lparr>sb_value = Some [], sb_length = 0, sb_size = STRBUFFER_MIN_SIZE\<rparr>"

definition strbuffer_close :: "strbuffer \<Rightarrow> strbuffer" where
  "strbuffer_close sb = sb\<lparr>sb_size := 0, sb_length := 0, sb_value := None\<rparr>"

definition strbuffer_clear :: "strbuffer \<Rightarrow> strbuffer option" where
  "strbuffer_clear sb = do {
     v \<leftarrow> sb_value sb;
     defined (0 < sb_size sb);
     Some (sb\<lparr>sb_length := 0, sb_value := Some []\<rparr>)
   }"

definition strbuffer_steal_value :: "strbuffer \<Rightarrow> string option \<times> strbuffer" where
  "strbuffer_steal_value sb = (sb_value sb, strbuffer_init)"

text \<open>The bytes are copied once the buffer has the room.\<close>

definition sb_write :: "strbuffer \<Rightarrow> string \<Rightarrow> 64 word \<Rightarrow> strbuffer option" where
  "sb_write sb data n = do {
     v \<leftarrow> sb_value sb;
     defined (unat (sb_length sb) + unat n < unat (sb_size sb) \<and> unat n \<le> length data);
     Some (sb\<lparr>sb_value := Some (take (unat (sb_length sb)) v @ take (unat n) data),
             sb_length := sb_length sb + n\<rparr>)
   }"

definition strbuffer_append_bytes :: "strbuffer \<Rightarrow> string \<Rightarrow> 64 word \<Rightarrow> (int \<times> strbuffer) option" where
  "strbuffer_append_bytes sb data n =
    (if n \<ge> sb_size sb - sb_length sb then
       (if sb_size sb > STRBUFFER_SIZE_MAX div STRBUFFER_FACTOR \<or> n > STRBUFFER_SIZE_MAX - 1
           \<or> sb_length sb > STRBUFFER_SIZE_MAX - 1 - n
        then Some (-1, sb)
        else do {
          let new_size = max (sb_size sb * STRBUFFER_FACTOR) (sb_length sb + n + 1);
          sb' \<leftarrow> sb_write (sb\<lparr>sb_size := new_size\<rparr>) data n;
          Some (0, sb')
        })
     else do { sb' \<leftarrow> sb_write sb data n; Some (0, sb') })"

definition strbuffer_append :: "strbuffer \<Rightarrow> string \<Rightarrow> (int \<times> strbuffer) option" where
  "strbuffer_append sb str = strbuffer_append_bytes sb str (word_of_nat (length str))"

definition strbuffer_append_byte :: "strbuffer \<Rightarrow> char \<Rightarrow> (int \<times> strbuffer) option" where
  "strbuffer_append_byte sb b = strbuffer_append_bytes sb [b] 1"

definition strbuffer_pop :: "strbuffer \<Rightarrow> (char \<times> strbuffer) option" where
  "strbuffer_pop sb =
    (if sb_length sb > 0 then do {
       v \<leftarrow> sb_value sb;
       let n = unat (sb_length sb - 1);
       defined (n < length v);
       Some (v ! n, sb\<lparr>sb_length := sb_length sb - 1, sb_value := Some (take n v)\<rparr>)
     }
     else Some (NUL, sb))"

section \<open>The buffer stays within its allocation\<close>

definition sb_ok :: "strbuffer \<Rightarrow> bool" where
  "sb_ok sb \<longleftrightarrow> (\<exists>v. sb_value sb = Some v \<and> unat (sb_length sb) = length v \<and> sb_length sb < sb_size sb)"

text \<open>A buffer that only grew is never much larger than what it holds.\<close>

definition sb_tight :: "strbuffer \<Rightarrow> bool" where
  "sb_tight sb \<longleftrightarrow> unat (sb_size sb) \<le> 2 * unat (sb_length sb) + 16"

lemma strbuffer_init_ok: "sb_ok strbuffer_init" "sb_tight strbuffer_init"
  by (simp_all add: sb_ok_def sb_tight_def strbuffer_init_def STRBUFFER_MIN_SIZE_def)

lemma unat_64: "unat (w :: 64 word) < 2 ^ 64"
  using unsigned_less [of w] by simp

lemma unat_of_nat_64: "n < 2 ^ 64 \<Longrightarrow> unat (word_of_nat n :: 64 word) = n"
  by (simp add: unsigned_of_nat take_bit_nat_eq_self)

lemma unat_plus_64: "unat a + unat b < 2 ^ 64 \<Longrightarrow> unat (a + b) = unat a + unat (b :: 64 word)"
  by (subst unat_add_lem [THEN iffD1]) simp_all

lemma sb_write_ok:
  assumes "sb_value sb = Some v" "unat (sb_length sb) = length v"
    and "unat (sb_length sb) + length data < unat (sb_size sb)"
  shows "\<exists>sb'. sb_write sb data (word_of_nat (length data)) = Some sb' \<and> sb_ok sb' \<and>
    sb_value sb' = Some (v @ data) \<and> sb_size sb' = sb_size sb"
proof -
  note l = unat_64 [of "sb_size sb"]
  have n: "unat (word_of_nat (length data) :: 64 word) = length data"
    using assms(3) l by (simp add: unat_of_nat_64)
  have s: "unat (sb_length sb + word_of_nat (length data)) = unat (sb_length sb) + length data"
    using assms(3) l n by (subst unat_add_lem [THEN iffD1]) simp_all
  with assms n show ?thesis
    by (simp add: sb_write_def sb_ok_def word_less_nat_alt)
qed

lemma strbuffer_append_bytes_ok:
  assumes ok: "sb_ok sb" and v: "sb_value sb = Some v" and len: "length data < 2 ^ 64"
  shows "\<exists>r sb'. strbuffer_append_bytes sb data (word_of_nat (length data)) = Some (r, sb') \<and> sb_ok sb' \<and>
    (if r = 0 then sb_value sb' = Some (v @ data) else r = -1 \<and> sb' = sb) \<and>
    (sb_tight sb \<and> length v + length data < 2 ^ 61 \<longrightarrow> r = 0 \<and> sb_tight sb')"
proof -
  let ?n = "word_of_nat (length data) :: 64 word"
  have n: "unat ?n = length data" using len by (simp add: unat_of_nat_64)
  from ok v have lv: "unat (sb_length sb) = length v" and ls: "unat (sb_length sb) < unat (sb_size sb)"
    by (auto simp: sb_ok_def word_less_nat_alt)
  have diff: "unat (sb_size sb - sb_length sb) = unat (sb_size sb) - unat (sb_length sb)"
    using ls by (simp add: unat_sub word_le_nat_alt)
  show ?thesis
  proof (cases "?n \<ge> sb_size sb - sb_length sb")
    case False
    then have "unat (sb_length sb) + length data < unat (sb_size sb)"
      using n diff ls by (simp add: word_le_nat_alt)
    from sb_write_ok [OF v lv this] obtain sb' where w: "sb_write sb data ?n = Some sb'" "sb_ok sb'"
      "sb_value sb' = Some (v @ data)" "sb_size sb' = sb_size sb" by blast
    moreover have "sb_tight sb \<Longrightarrow> sb_tight sb'"
      using w lv by (auto simp: sb_tight_def sb_ok_def)
    ultimately show ?thesis using False by (simp add: strbuffer_append_bytes_def)
  next
    case grow: True
    let ?over = "sb_size sb > STRBUFFER_SIZE_MAX div STRBUFFER_FACTOR \<or> ?n > STRBUFFER_SIZE_MAX - 1
      \<or> sb_length sb > STRBUFFER_SIZE_MAX - 1 - ?n"
    have max1: "unat (STRBUFFER_SIZE_MAX - 1) = 2 ^ 64 - 2"
      and half: "unat (STRBUFFER_SIZE_MAX div STRBUFFER_FACTOR) = 2 ^ 63 - 1"
      by (simp_all add: STRBUFFER_SIZE_MAX_def STRBUFFER_FACTOR_def unat_div_distrib)
    have over: "?over \<longleftrightarrow> unat (sb_size sb) \<ge> 2 ^ 63 \<or> length v + length data > 2 ^ 64 - 2"
    proof (cases "?n > STRBUFFER_SIZE_MAX - 1")
      case True
      then show ?thesis using n max1 by (auto simp: word_less_nat_alt)
    next
      case False
      then have "unat (STRBUFFER_SIZE_MAX - 1 - ?n) = 2 ^ 64 - 2 - length data"
        using n max1 by (simp add: unat_sub word_le_nat_alt not_less)
      with False show ?thesis using n max1 half lv by (auto simp: word_less_nat_alt)
    qed
    show ?thesis
    proof (cases ?over)
      case True
      then have "strbuffer_append_bytes sb data ?n = Some (-1, sb)"
        using grow by (simp add: strbuffer_append_bytes_def)
      moreover have "length v + length data < 2 ^ 61 \<Longrightarrow> \<not> sb_tight sb"
        using True over lv by (auto simp: sb_tight_def)
      ultimately show ?thesis using ok by auto
    next
      case False
      then have b: "unat (sb_size sb) < 2 ^ 63" "length v + length data \<le> 2 ^ 64 - 2" using over by auto
      let ?s = "max (sb_size sb * STRBUFFER_FACTOR) (sb_length sb + ?n + 1)"
      have "sb_size sb * STRBUFFER_FACTOR = sb_size sb + sb_size sb" by (simp add: STRBUFFER_FACTOR_def)
      then have s1: "unat (sb_size sb * STRBUFFER_FACTOR) = 2 * unat (sb_size sb)"
        using unat_plus_64 [of "sb_size sb" "sb_size sb"] b(1) by simp
      have "unat (sb_length sb + ?n) = length v + length data"
        using b(2) lv n by (simp add: unat_plus_64)
      then have s2: "unat (sb_length sb + ?n + 1) = length v + length data + 1"
        using b(2) by (simp add: unat_plus_64)
      have s: "unat ?s = max (2 * unat (sb_size sb)) (length v + length data + 1)"
        using s1 s2 by (auto simp: max_def word_le_nat_alt)
      let ?sb = "sb\<lparr>sb_size := ?s\<rparr>"
      have "unat (sb_length ?sb) + length data < unat (sb_size ?sb)" using s lv by simp
      from sb_write_ok [of ?sb v data] v lv this obtain sb' where w: "sb_write ?sb data ?n = Some sb'" "sb_ok sb'"
        "sb_value sb' = Some (v @ data)" "sb_size sb' = ?s" by auto
      moreover have "sb_tight sb'"
        using w s grow diff n lv ls by (auto simp: sb_tight_def sb_ok_def word_le_nat_alt)
      moreover have "strbuffer_append_bytes sb data ?n = Some (0, sb')"
        using grow False w(1) by (simp add: strbuffer_append_bytes_def Let_def)
      ultimately show ?thesis by simp
    qed
  qed
qed

lemma strbuffer_pop_ok:
  assumes "sb_ok sb" "sb_value sb = Some v" "v \<noteq> []"
  shows "\<exists>sb'. strbuffer_pop sb = Some (last v, sb') \<and> sb_ok sb' \<and> sb_value sb' = Some (butlast v)"
proof -
  have l: "unat (sb_length sb) = length v" "sb_length sb < sb_size sb" using assms by (auto simp: sb_ok_def)
  with assms(3) have "sb_length sb \<noteq> 0" by (auto simp: unat_eq_0)
  then have p: "0 < sb_length sb" "unat (sb_length sb - 1) = length v - 1"
    using l by (simp_all add: word_gt_0 unat_minus_one)
  then have "sb_length sb - 1 < sb_size sb" using l by (simp add: word_less_nat_alt)
  with p l assms show ?thesis
    by (simp add: strbuffer_pop_def sb_ok_def Let_def last_conv_nth butlast_conv_take)
qed

end
