(* ===== verification/Jansson_Dump.thy ===== *)
theory Jansson_Dump
  imports Jansson_Value Jansson_Strbuffer Xutils
begin

text \<open>
  Writing a value as text: \<^verbatim>\<open>dump.c\<close> and \<^verbatim>\<open>jsonp_dtostr\<close> of \<^verbatim>\<open>strconv.c\<close> in
  \<^verbatim>\<open>src/lib/jansson-2.3.1/src\<close>. The text goes piece by piece to a callback over a state of
  its own; a piece is the list of the bytes it is called with. A value is a tree, so the
  \<^verbatim>\<open>visited\<close> marks never find a cycle. Output to a \<^verbatim>\<open>FILE\<close> is not modelled.
\<close>

section \<open>Flags and callbacks\<close>

definition JSON_INDENT :: "64 word \<Rightarrow> nat" where "JSON_INDENT flags = unat (flags AND 0x1F)"
definition JSON_COMPACT :: "64 word" where "JSON_COMPACT = 0x20"
definition JSON_ENSURE_ASCII :: "64 word" where "JSON_ENSURE_ASCII = 0x40"
definition JSON_SORT_KEYS :: "64 word" where "JSON_SORT_KEYS = 0x80"
definition JSON_PRESERVE_ORDER :: "64 word" where "JSON_PRESERVE_ORDER = 0x100"
definition JSON_ENCODE_ANY :: "64 word" where "JSON_ENCODE_ANY = 0x200"

definition flag :: "64 word \<Rightarrow> 64 word \<Rightarrow> bool" where
  "flag flags m \<longleftrightarrow> flags AND m \<noteq> 0"

type_synonym 's callback = "string \<Rightarrow> 's \<Rightarrow> (int \<times> 's) option"

text \<open>\<^verbatim>\<open>if(call) return -1;\<close> and then the rest.\<close>

definition and_then :: "(int \<times> 's) option \<Rightarrow> ('s \<Rightarrow> (int \<times> 's) option) \<Rightarrow> (int \<times> 's) option" where
  "and_then call rest = do { (r, s) \<leftarrow> call; if r \<noteq> 0 then Some (-1, s) else rest s }"

definition dump_to_strbuffer :: "strbuffer callback" where
  "dump_to_strbuffer buffer sb = strbuffer_append_bytes sb buffer (word_of_nat (length buffer))"

definition whitespace :: string where
  "whitespace = replicate 32 (CHR '' '')"

fun indent_loop :: "'s callback \<Rightarrow> nat \<Rightarrow> nat \<Rightarrow> 's \<Rightarrow> (int \<times> 's) option" where
  "indent_loop dump ws_count 0 s = Some (0, s)"
| "indent_loop dump ws_count (Suc depth) s =
     and_then (dump (take ws_count whitespace) s) (indent_loop dump ws_count depth)"

definition dump_indent :: "64 word \<Rightarrow> nat \<Rightarrow> bool \<Rightarrow> 's callback \<Rightarrow> 's \<Rightarrow> (int \<times> 's) option" where
  "dump_indent flags depth space dump s =
    (if JSON_INDENT flags > 0 then and_then (dump [NL] s) (indent_loop dump (JSON_INDENT flags) depth)
     else if space \<and> \<not> flag flags JSON_COMPACT then dump '' '' s
     else Some (0, s))"

section \<open>Strings\<close>

text \<open>\<^verbatim>\<open>%04x\<close>, for the numbers below \<open>2 ^ 16\<close> it is used with.\<close>

definition hex_char :: "int \<Rightarrow> char" where
  "hex_char d = (if d < 10 then byte (48 + d) else byte (87 + d))"

definition hex4 :: "int \<Rightarrow> string" where
  "hex4 v = [hex_char (v div 4096 mod 16), hex_char (v div 256 mod 16), hex_char (v div 16 mod 16),
     hex_char (v mod 16)]"

definition must_escape :: "bool \<Rightarrow> int \<Rightarrow> bool" where
  "must_escape ascii codepoint \<longleftrightarrow>
     codepoint = 0x5C \<or> codepoint = 0x22 \<or> codepoint < 0x20 \<or> ascii \<and> codepoint > 0x7F"

definition escape_text :: "int \<Rightarrow> string" where
  "escape_text codepoint =
    (if codepoint = 0x5C then [CHR 0x5C, CHR 0x5C]
     else if codepoint = 0x22 then [CHR 0x5C, CHR 0x22]
     else if codepoint = 0x08 then [CHR 0x5C, CHR ''b'']
     else if codepoint = 0x0C then [CHR 0x5C, CHR ''f'']
     else if codepoint = 0x0A then [CHR 0x5C, CHR ''n'']
     else if codepoint = 0x0D then [CHR 0x5C, CHR ''r'']
     else if codepoint = 0x09 then [CHR 0x5C, CHR ''t'']
     else if codepoint < 0x10000 then [CHR 0x5C, CHR ''u''] @ hex4 codepoint
     else
       (let c = codepoint - 0x10000;
            first_half = 0xD800 OR drop_bit 10 (c AND 0xffc00);
            last_half = 0xDC00 OR (c AND 0x003ff)
        in [CHR 0x5C, CHR ''u''] @ hex4 first_half @ [CHR 0x5C, CHR ''u''] @ hex4 last_half))"

text \<open>
  The inner loop, from \<^verbatim>\<open>pos\<close> on: the text before the next code point to escape, that code
  point and what follows it. \<open>None\<close>: the string is not UTF-8.
\<close>

function scan_plain :: "bool \<Rightarrow> string \<Rightarrow> string \<Rightarrow> (string \<times> (int \<times> string) option) option" where
  "scan_plain ascii plain pos =
    (if pos = [] then Some (plain, None)
     else (case utf8_iterate pos of
        Some (rest, Some codepoint) \<Rightarrow>
          (if must_escape ascii codepoint then Some (plain, Some (codepoint, rest))
           else scan_plain ascii (plain @ take (length pos - length rest) pos) rest)
      | _ \<Rightarrow> None))"
  by pat_completeness auto

lemma utf8_iterate_shorter: "utf8_iterate s = Some (rest, Some cp) \<Longrightarrow> length rest < length s"
  by (cases s) (auto simp: utf8_iterate_def Let_def split: if_splits option.splits)

termination scan_plain
  by (relation "measure (\<lambda>(ascii, plain, pos). length pos)") (auto dest: utf8_iterate_shorter)

declare scan_plain.simps [simp del]

lemma scan_plain_shorter:
  "scan_plain ascii plain pos = Some (text, Some (cp, rest)) \<Longrightarrow> length rest < length pos"
proof (induction ascii plain pos rule: scan_plain.induct)
  case (1 ascii plain pos)
  from "1.prems" have ne: "pos \<noteq> []" by (subst (asm) scan_plain.simps) auto
  with "1.prems" obtain r c where u: "utf8_iterate pos = Some (r, Some c)"
    by (subst (asm) scan_plain.simps) (auto split: option.splits)
  show ?case
  proof (cases "must_escape ascii c")
    case True
    with "1.prems" ne u have "rest = r" by (subst (asm) scan_plain.simps) simp
    with utf8_iterate_shorter [OF u] show ?thesis by simp
  next
    case False
    with "1.prems" ne u have "scan_plain ascii (plain @ take (length pos - length r) pos) r = Some (text, Some (cp, rest))"
      by (subst (asm) scan_plain.simps) simp
    from "1.IH" [OF ne u refl refl False this] utf8_iterate_shorter [OF u] show ?thesis by simp
  qed
qed

function dump_chunks :: "bool \<Rightarrow> 's callback \<Rightarrow> string \<Rightarrow> 's \<Rightarrow> (int \<times> 's) option" where
  "dump_chunks ascii dump str s =
    (case scan_plain ascii [] str of
       None \<Rightarrow> Some (-1, s)
     | Some (plain, escape) \<Rightarrow>
         and_then (if plain \<noteq> [] then dump plain s else Some (0, s)) (\<lambda>s.
           (case escape of
              None \<Rightarrow> dump [CHR 0x22] s
            | Some (codepoint, rest) \<Rightarrow>
                and_then (dump (escape_text codepoint) s) (\<lambda>s. dump_chunks ascii dump rest s))))"
  by pat_completeness auto
termination
  by (relation "measure (\<lambda>(ascii, dump, str, s). length str)") (auto dest: scan_plain_shorter)

declare dump_chunks.simps [simp del]

definition dump_string :: "string \<Rightarrow> bool \<Rightarrow> 's callback \<Rightarrow> 's \<Rightarrow> (int \<times> 's) option" where
  "dump_string str ascii dump s = and_then (dump [CHR 0x22] s) (\<lambda>s. dump_chunks ascii dump str s)"

section \<open>Numbers\<close>

text \<open>The C library's part: \<^verbatim>\<open>snprintf\<close> with \<^verbatim>\<open>%.17g\<close>, and the decimal point of the locale.\<close>

record number_format =
  format_g17 :: "double \<Rightarrow> string"
  decimal_point :: char

definition from_locale :: "char \<Rightarrow> string \<Rightarrow> string" where
  "from_locale point buffer =
    (if point = CHR ''.'' then buffer
     else (case dropWhile (\<lambda>c. c \<noteq> point) buffer of
             [] \<Rightarrow> buffer
           | c # cs \<Rightarrow> takeWhile (\<lambda>c. c \<noteq> point) buffer @ CHR ''.'' # cs))"

text \<open>The zeros that lead the exponent are skipped, and a plus sign.\<close>

definition trim_exponent :: "string \<Rightarrow> string option" where
  "trim_exponent buffer =
    (case dropWhile (\<lambda>c. c \<noteq> CHR ''e'') buffer of
       [] \<Rightarrow> Some buffer
     | e # rest \<Rightarrow>
         (let mantissa = takeWhile (\<lambda>c. c \<noteq> CHR ''e'') buffer @ [e] in
          case rest of
            [] \<Rightarrow> None
          | c # cs \<Rightarrow>
              Some (mantissa @ (if c = CHR ''-'' then [c] else []) @ dropWhile (\<lambda>c. c = CHR ''0'') cs)))"

definition jsonp_dtostr :: "number_format \<Rightarrow> nat \<Rightarrow> double \<Rightarrow> (int \<times> string) option" where
  "jsonp_dtostr fmt size_max value =
    (let text = format_g17 fmt value in
     if length text \<ge> size_max then Some (-1, text)
     else
       (let buffer = from_locale (decimal_point fmt) text in
        if CHR ''.'' \<notin> set buffer \<and> CHR ''e'' \<notin> set buffer
        then (if length text + 3 \<ge> size_max then Some (-1, buffer)
              else Some (int (length text) + 2, buffer @ ''.0''))
        else do { buffer' \<leftarrow> trim_exponent buffer; Some (int (length buffer'), buffer') }))"

section \<open>Values\<close>

text \<open>\<^verbatim>\<open>strcmp\<close>: the bytes are compared as \<^verbatim>\<open>unsigned char\<close>. \<open>qsort_by\<close> is a sorting algorithm.\<close>

fun strcmp :: "string \<Rightarrow> string \<Rightarrow> int" where
  "strcmp [] [] = 0"
| "strcmp [] (d # ds) = -1"
| "strcmp (c # cs) [] = 1"
| "strcmp (c # cs) (d # ds) = (if uchar c < uchar d then -1 else if uchar c > uchar d then 1 else strcmp cs ds)"

type_synonym object_key = "64 word \<times> string"

definition object_key_compare_keys :: "object_key \<Rightarrow> object_key \<Rightarrow> int" where
  "object_key_compare_keys key1 key2 = strcmp (snd key1) (snd key2)"

definition object_key_compare_serials :: "object_key \<Rightarrow> object_key \<Rightarrow> int" where
  "object_key_compare_serials key1 key2 =
    (let a = fst key1; b = fst key2 in if a < b then -1 else if a = b then 0 else 1)"

fun insert_by :: "('a \<Rightarrow> 'a \<Rightarrow> int) \<Rightarrow> 'a \<Rightarrow> 'a list \<Rightarrow> 'a list" where
  "insert_by cmp x [] = [x]"
| "insert_by cmp x (y # ys) = (if cmp x y \<le> 0 then x # y # ys else y # insert_by cmp x ys)"

definition qsort_by :: "('a \<Rightarrow> 'a \<Rightarrow> int) \<Rightarrow> 'a list \<Rightarrow> 'a list" where
  "qsort_by cmp xs = foldr (insert_by cmp) xs []"

text \<open>How a member is written: at a depth, to a state.\<close>

type_synonym 's writer = "nat \<Rightarrow> 's \<Rightarrow> (int \<times> 's) option"

fun dump_entries :: "64 word \<Rightarrow> nat \<Rightarrow> 's callback \<Rightarrow> 's writer list \<Rightarrow> 's \<Rightarrow> (int \<times> 's) option" where
  "dump_entries flags depth dump [] s = Some (0, s)"
| "dump_entries flags depth dump (w # ws) s =
     and_then (w (depth + 1) s) (\<lambda>s.
       and_then
         (if ws \<noteq> [] then and_then (dump '','' s) (dump_indent flags (depth + 1) True dump)
          else dump_indent flags depth False dump s)
         (dump_entries flags depth dump ws))"


text \<open>The result of \<^verbatim>\<open>dump_string\<close> is not looked at for a key.\<close>

fun dump_members :: "64 word \<Rightarrow> nat \<Rightarrow> 's callback \<Rightarrow> (string \<times> 's writer option) list \<Rightarrow> 's \<Rightarrow> (int \<times> 's) option" where
  "dump_members flags depth dump [] s = Some (0, s)"
| "dump_members flags depth dump ((key, value) # ms) s = do {
     w \<leftarrow> value;
     (r, s) \<leftarrow> dump_string key (flag flags JSON_ENSURE_ASCII) dump s;
     and_then (and_then (dump (if flag flags JSON_COMPACT then '':'' else '': '') s) (w (depth + 1))) (\<lambda>s.
       and_then
         (if ms \<noteq> [] then and_then (dump '','' s) (dump_indent flags (depth + 1) True dump)
          else dump_indent flags depth False dump s)
         (dump_members flags depth dump ms))
   }"

definition dump_array :: "64 word \<Rightarrow> 's callback \<Rightarrow> 's writer list \<Rightarrow> 's writer" where
  "dump_array flags dump ws depth s =
    and_then (dump ''['' s) (\<lambda>s.
      if ws = [] then dump '']'' s
      else and_then (dump_indent flags (depth + 1) False dump s) (\<lambda>s.
             and_then (dump_entries flags depth dump ws s) (dump '']'')))"

definition sorted_members :: "64 word \<Rightarrow> 's writer hashtable \<Rightarrow> (string \<times> 's writer option) list option" where
  "sorted_members flags t = do {
     let keys = map (\<lambda>p. (pair_serial p, pair_key p)) (ht_list t);
     defined (length keys = ht_size t);
     let cmp_func = (if flag flags JSON_SORT_KEYS then object_key_compare_keys else object_key_compare_serials);
     Some (map (\<lambda>k. (snd k, Option.bind (hashtable_get t (snd k)) (\<lambda>v. v))) (qsort_by cmp_func keys))
   }"

definition dump_object :: "64 word \<Rightarrow> 's callback \<Rightarrow> 's writer hashtable \<Rightarrow> 's writer" where
  "dump_object flags dump t depth s =
    and_then (dump ''{'' s) (\<lambda>s.
      if hashtable_iter t = None then dump ''}'' s
      else and_then (dump_indent flags (depth + 1) False dump s) (\<lambda>s.
             and_then
               (if flag flags JSON_SORT_KEYS \<or> flag flags JSON_PRESERVE_ORDER
                then do { ms \<leftarrow> sorted_members flags t; dump_members flags depth dump ms s }
                else dump_members flags depth dump (map (\<lambda>(k, w). (k, Some w)) (table_items t)) s)
               (dump ''}'')))"

definition dump_integer :: "'s callback \<Rightarrow> int \<Rightarrow> 's \<Rightarrow> (int \<times> 's) option" where
  "dump_integer dump i s = (let buffer = show_int i in if length buffer \<ge> 100 then Some (-1, s) else dump buffer s)"

definition dump_real :: "number_format \<Rightarrow> 's callback \<Rightarrow> double \<Rightarrow> 's \<Rightarrow> (int \<times> 's) option" where
  "dump_real fmt dump d s = do {
     (n, buffer) \<leftarrow> jsonp_dtostr fmt 100 d;
     if n < 0 then Some (-1, s) else dump (take (nat n) buffer) s
   }"

primrec do_dump :: "json \<Rightarrow> number_format \<Rightarrow> 64 word \<Rightarrow> 's callback \<Rightarrow> 's writer" where
  "do_dump JNull = (\<lambda>fmt flags dump depth. dump ''null'')"
| "do_dump JTrue = (\<lambda>fmt flags dump depth. dump ''true'')"
| "do_dump JFalse = (\<lambda>fmt flags dump depth. dump ''false'')"
| "do_dump (JInteger i) = (\<lambda>fmt flags dump depth. dump_integer dump i)"
| "do_dump (JReal d) = (\<lambda>fmt flags dump depth. dump_real fmt dump d)"
| "do_dump (JString str) = (\<lambda>fmt flags dump depth. dump_string str (flag flags JSON_ENSURE_ASCII) dump)"
| "do_dump (JArray n xs) = (\<lambda>fmt flags dump.
     dump_array flags dump (map (\<lambda>w. w fmt flags dump) (map do_dump xs)))"
| "do_dump (JObject t ser) = (\<lambda>fmt flags dump.
     dump_object flags dump (map_hashtable (\<lambda>w. w fmt flags dump) (map_hashtable do_dump t)))"

definition json_dump_callback ::
  "number_format \<Rightarrow> json \<Rightarrow> 's callback \<Rightarrow> 's \<Rightarrow> 64 word \<Rightarrow> (int \<times> 's) option" where
  "json_dump_callback fmt json callback data flags =
    (if \<not> flag flags JSON_ENCODE_ANY \<and> json_typeof json \<noteq> JSON_ARRAY \<and> json_typeof json \<noteq> JSON_OBJECT
     then Some (-1, data)
     else do_dump json fmt flags callback 0 data)"

text \<open>The result is NULL when the value cannot be written.\<close>

definition json_dumps :: "number_format \<Rightarrow> json \<Rightarrow> 64 word \<Rightarrow> string option option" where
  "json_dumps fmt json flags = do {
     (r, strbuff) \<leftarrow> json_dump_callback fmt json dump_to_strbuffer strbuffer_init flags;
     if r \<noteq> 0 then Some None
     else do { v \<leftarrow> sb_value strbuff; Some (Some (c_string v)) }
   }"

end
