(* ===== verification/Json.thy ===== *)
theory Json
  imports Jansson_Dump Options
begin

text \<open>
  The JSON form of the Nagios events: \<^verbatim>\<open>src/json.c\<close>. The event structures of Nagios are
  records of the fields that the module reads; a linked list is the list of its members. A
  field that the code reads through an \<^verbatim>\<open>int\<close> pointer although it is wider contributes its low
  32 bits. \<open>fmt\<close> is how the C library prints a \<^verbatim>\<open>double\<close>. A NULL argument of \<^verbatim>\<open>%s\<close> is \<open>None\<close>.
\<close>

section \<open>The structures of Nagios\<close>

type_synonym customvariables = "(string option \<times> string option) list"

record host =
  address :: "string option"
  hostgroups_ptr :: "string option list"
  host_custom_variables :: customvariables
  host_action_url :: "string option"
  host_notes_url :: "string option"

record service =
  host_ptr :: "host option"
  servicegroups_ptr :: "string option list"
  service_custom_variables :: customvariables
  service_action_url :: "string option"
  service_notes_url :: "string option"

record service_check_data =
  sc_type :: int
  sc_timestamp :: int
  sc_host_name :: "string option"
  sc_service_description :: "string option"
  sc_check_type :: int
  sc_current_attempt :: int
  sc_max_attempts :: int
  sc_state_type :: int
  sc_state :: int
  sc_command_name :: "string option"
  sc_execution_time :: double
  sc_latency :: double
  sc_output :: "string option"
  sc_long_output :: "string option"
  sc_perf_data :: "string option"
  sc_object_ptr :: "service option"

record host_check_data =
  hc_type :: int
  hc_timestamp :: int
  hc_host_name :: "string option"
  hc_check_type :: int
  hc_current_attempt :: int
  hc_max_attempts :: int
  hc_state_type :: int
  hc_state :: int
  hc_command_name :: "string option"
  hc_execution_time :: double
  hc_latency :: double
  hc_output :: "string option"
  hc_long_output :: "string option"
  hc_perf_data :: "string option"
  hc_object_ptr :: "host option"

record acknowledgement_data =
  ack_type :: int
  ack_timestamp :: int
  acknowledgement_type :: int
  ack_host_name :: "string option"
  ack_service_description :: "string option"
  ack_state :: int
  ack_author_name :: "string option"
  ack_comment_data :: "string option"

record downtime_data =
  dt_type :: int
  dt_timestamp :: int
  downtime_type :: int
  dt_host_name :: "string option"
  dt_service_description :: "string option"
  dt_entry_time :: int
  dt_author_name :: "string option"
  dt_comment_data :: "string option"
  dt_start_time :: int
  dt_end_time :: int
  dt_fixed :: int
  dt_duration :: int
  dt_downtime_id :: int

definition HOST_ACKNOWLEDGEMENT :: int where "HOST_ACKNOWLEDGEMENT = 0"
definition SERVICE_ACKNOWLEDGEMENT :: int where "SERVICE_ACKNOWLEDGEMENT = 1"
definition SERVICE_DOWNTIME :: int where "SERVICE_DOWNTIME = 1"
definition HOST_DOWNTIME :: int where "HOST_DOWNTIME = 2"

section \<open>Adding fields\<close>

text \<open>A \<^verbatim>\<open>size_t\<close> compared with an \<^verbatim>\<open>int\<close>: the \<^verbatim>\<open>int\<close> is converted, a negative one is huge.\<close>

definition size_gt :: "nat \<Rightarrow> int \<Rightarrow> bool" where
  "size_gt n m \<longleftrightarrow> (word_of_nat n :: 64 word) > word_of_int m"

definition n2a_bool_to_json :: "int \<Rightarrow> json" where
  "n2a_bool_to_json boolean = (if boolean \<noteq> 0 then JTrue else JFalse)"

definition n2a_string_to_truncated_json :: "options \<Rightarrow> string option \<Rightarrow> json option" where
  "n2a_string_to_truncated_json g str =
    (if size_gt (xstrlen str) (max_size g) then json_string_nocheck (Some [])
     else json_string_nocheck str)"

text \<open>An entry of the table \<^verbatim>\<open>options\<close>: the callback and what its pointer leads to.\<close>

datatype event_option =
    Json_string_nocheck "string option"
  | N2a_string_to_truncated_json "string option"
  | Json_integer int
  | Json_real double
  | N2a_bool_to_json int

definition option_item :: "options \<Rightarrow> event_option \<Rightarrow> json option" where
  "option_item g opt =
    (case opt of
       Json_string_nocheck s \<Rightarrow> json_string_nocheck s
     | N2a_string_to_truncated_json s \<Rightarrow> n2a_string_to_truncated_json g s
     | Json_integer i \<Rightarrow> Some (json_integer (to_int i))
     | Json_real d \<Rightarrow> Some (json_real d)
     | N2a_bool_to_json b \<Rightarrow> Some (n2a_bool_to_json (to_int b)))"

fun n2a_add_options_to_event ::
  "options \<Rightarrow> (string \<times> event_option) list \<Rightarrow> json \<Rightarrow> (event_option \<Rightarrow> bool) option \<Rightarrow> json option" where
  "n2a_add_options_to_event g [] jdata cmp = Some jdata"
| "n2a_add_options_to_event g ((name, opt) # opts) jdata cmp =
    (if cmp = None \<or> the cmp opt then do {
       (r, jdata') \<leftarrow> json_object_set jdata (Some name) (option_item g opt);
       n2a_add_options_to_event g opts jdata' cmp
     }
     else n2a_add_options_to_event g opts jdata cmp)"

text \<open>\<^verbatim>\<open>n2a_str_maxsize\<close> reads its option as a \<^verbatim>\<open>char **\<close>; it is used with strings only.\<close>

definition n2a_str_maxsize :: "64 word \<Rightarrow> event_option \<Rightarrow> bool" where
  "n2a_str_maxsize size_min opt \<longleftrightarrow>
     (case opt of Json_string_nocheck s \<Rightarrow> size_min \<le> word_of_nat (xstrlen s) | _ \<Rightarrow> False)"

text \<open>The object refers to the array, so it is the filled array that it holds in the end.\<close>

fun append_groups :: "json \<Rightarrow> string option list \<Rightarrow> json option" where
  "append_groups item [] = Some item"
| "append_groups item (group_name # groups) = do {
     (r, item') \<leftarrow> json_array_append_new item (json_string_nocheck group_name);
     append_groups item' groups
   }"

definition n2a_nebstruct_add_hostgroups :: "options \<Rightarrow> json \<Rightarrow> host \<Rightarrow> json option" where
  "n2a_nebstruct_add_hostgroups g jdata host_object =
    (if hostgroups g \<noteq> 0 then do {
       item \<leftarrow> append_groups json_array (hostgroups_ptr host_object);
       (r, jdata') \<leftarrow> json_object_set jdata (Some ''hostgroups'') (Some item);
       Some jdata'
     }
     else Some jdata)"

definition n2a_nebstruct_add_servicegroups :: "options \<Rightarrow> json \<Rightarrow> service \<Rightarrow> json option" where
  "n2a_nebstruct_add_servicegroups g jdata service_object =
    (if servicegroups g \<noteq> 0 then do {
       item \<leftarrow> append_groups json_array (servicegroups_ptr service_object);
       (r, jdata') \<leftarrow> json_object_set jdata (Some ''servicegroups'') (Some item);
       Some jdata'
     }
     else Some jdata)"

fun add_variables :: "json \<Rightarrow> customvariables \<Rightarrow> json option" where
  "add_variables jdata [] = Some jdata"
| "add_variables jdata ((variable_name, variable_value) # cvars) = do {
     (r, jdata') \<leftarrow> json_object_set jdata variable_name (json_string_nocheck variable_value);
     add_variables jdata' cvars
   }"

definition n2a_nebstruct_add_custom_variables :: "options \<Rightarrow> json \<Rightarrow> customvariables \<Rightarrow> json option" where
  "n2a_nebstruct_add_custom_variables g jdata cvars =
    (if custom_variables g \<noteq> 0 then add_variables jdata cvars else Some jdata)"

definition n2a_nebstruct_add_urls :: "options \<Rightarrow> json \<Rightarrow> string option \<Rightarrow> string option \<Rightarrow> json option" where
  "n2a_nebstruct_add_urls g jdata action_url notes_url =
    (if urls g \<noteq> 0
     then n2a_add_options_to_event g
            [(''action_url'', Json_string_nocheck action_url), (''notes_url'', Json_string_nocheck notes_url)]
            jdata None
     else Some jdata)"

section \<open>Service checks\<close>

text \<open>A stretch of at most \<open>size - 1\<close> bytes of a long field; the buffer is not written for size 0.\<close>

definition n2a_nebstruct_service_check_data_update_json ::
  "json \<Rightarrow> string option \<Rightarrow> string \<Rightarrow> int \<Rightarrow> int \<Rightarrow> json option" where
  "n2a_nebstruct_service_check_data_update_json jdata message field size_max cpt = do {
     n \<leftarrow> int_sub size_max 1;
     offset \<leftarrow> int_result (cpt * n);
     defined (0 < size_max);
     msg \<leftarrow> message;
     defined (0 \<le> offset \<and> nat offset \<le> length msg);
     let temp = take (nat n) (drop (nat offset) msg);
     (r, jdata1) \<leftarrow> json_object_del jdata field;
     (r, jdata2) \<leftarrow> json_object_set jdata1 (Some field) (json_string_nocheck (Some temp));
     Some jdata2
   }"

definition service_check_options :: "options \<Rightarrow> service_check_data \<Rightarrow> host \<Rightarrow> (string \<times> event_option) list" where
  "service_check_options g c host_object =
    [(''connector'', Json_string_nocheck (Some (connector g))),
     (''connector_name'', Json_string_nocheck (Some (eventsource_name g))),
     (''event_type'', Json_string_nocheck (Some ''check'')),
     (''source_type'', Json_string_nocheck (Some ''resource'')),
     (''component'', Json_string_nocheck (sc_host_name c)),
     (''resource'', Json_string_nocheck (sc_service_description c)),
     (''address'', Json_string_nocheck (address host_object)),
     (''timestamp'', Json_integer (sc_timestamp c)),
     (''state'', Json_integer (sc_state c)),
     (''state_type'', Json_integer (sc_state_type c)),
     (''check_type'', Json_integer (sc_check_type c)),
     (''current_attempt'', Json_integer (sc_current_attempt c)),
     (''max_attempts'', Json_integer (sc_max_attempts c)),
     (''execution_time'', Json_real (sc_execution_time c)),
     (''latency'', Json_real (sc_latency c)),
     (''command_name'', Json_string_nocheck (sc_command_name c))]"

definition service_additionals :: "service_check_data \<Rightarrow> (string \<times> event_option) list" where
  "service_additionals c =
    [(''output'', Json_string_nocheck (sc_output c)),
     (''long_output'', Json_string_nocheck (sc_long_output c)),
     (''perf_data'', Json_string_nocheck (sc_perf_data c))]"

text \<open>The result: the number of messages, the value and the length of its text so far.\<close>

definition n2a_nebstruct_service_check_data_to_json ::
  "number_format \<Rightarrow> options \<Rightarrow> service_check_data \<Rightarrow> (int \<times> json \<times> nat) option" where
  "n2a_nebstruct_service_check_data_to_json fmt g c = do {
     service_object \<leftarrow> sc_object_ptr c;
     host_object \<leftarrow> host_ptr service_object;
     j1 \<leftarrow> n2a_add_options_to_event g (service_check_options g c host_object) json_object None;
     j2 \<leftarrow> n2a_nebstruct_add_hostgroups g j1 host_object;
     j3 \<leftarrow> n2a_nebstruct_add_servicegroups g j2 service_object;
     j4 \<leftarrow> n2a_nebstruct_add_custom_variables g j3 (service_custom_variables service_object);
     j5 \<leftarrow> n2a_nebstruct_add_urls g j4 (service_action_url service_object) (service_notes_url service_object);
     json \<leftarrow> json_dumps fmt j5 0;
     let message_size = xstrlen json;
     left \<leftarrow> int_sub (max_size g) (to_int (int message_size));
     let rest = to_int (int (xstrlen (sc_long_output c) + xstrlen (sc_output c) + xstrlen (sc_perf_data c)));
     if rest > left then do {
       q \<leftarrow> int_div rest left;
       nbmsg \<leftarrow> int_add q 1;
       Some (nbmsg, j5, message_size)
     }
     else do {
       j6 \<leftarrow> n2a_add_options_to_event g (service_additionals c) j5 None;
       json \<leftarrow> json_dumps fmt j6 0;
       Some (1, j6, xstrlen json)
     }
   }"

section \<open>Host checks\<close>

definition host_check_options :: "options \<Rightarrow> host_check_data \<Rightarrow> host \<Rightarrow> (string \<times> event_option) list" where
  "host_check_options g c host_object =
    [(''connector'', Json_string_nocheck (Some (connector g))),
     (''connector_name'', Json_string_nocheck (Some (eventsource_name g))),
     (''event_type'', Json_string_nocheck (Some ''check'')),
     (''source_type'', Json_string_nocheck (Some ''component'')),
     (''component'', Json_string_nocheck (hc_host_name c)),
     (''address'', Json_string_nocheck (address host_object)),
     (''timestamp'', Json_integer (hc_timestamp c)),
     (''state'', Json_integer (hc_state c)),
     (''state_type'', Json_integer (hc_state_type c)),
     (''check_type'', Json_integer (hc_check_type c)),
     (''current_attempt'', Json_integer (hc_current_attempt c)),
     (''max_attempts'', Json_integer (hc_max_attempts c)),
     (''execution_time'', Json_real (hc_execution_time c)),
     (''latency'', Json_real (hc_latency c)),
     (''command_name'', Json_string_nocheck (hc_command_name c))]"

definition host_additionals :: "host_check_data \<Rightarrow> (string \<times> event_option) list" where
  "host_additionals c =
    [(''output'', Json_string_nocheck (hc_output c)),
     (''long_output'', Json_string_nocheck (hc_long_output c)),
     (''perf_data'', Json_string_nocheck (hc_perf_data c))]"

text \<open>\<^verbatim>\<open>snprintf (*buffer, l + 1, "%s", s)\<close> into a buffer of \<open>l + 1\<close> bytes.\<close>

definition text_buffer :: "string option \<Rightarrow> string option" where
  "text_buffer s = do { t \<leftarrow> s; Some (take (xstrlen s) t) }"

definition n2a_nebstruct_host_check_data_to_json ::
  "number_format \<Rightarrow> options \<Rightarrow> host_check_data \<Rightarrow> (int \<times> string) option" where
  "n2a_nebstruct_host_check_data_to_json fmt g c = do {
     host_object \<leftarrow> hc_object_ptr c;
     j1 \<leftarrow> n2a_add_options_to_event g (host_check_options g c host_object) json_object None;
     j2 \<leftarrow> n2a_nebstruct_add_hostgroups g j1 host_object;
     j3 \<leftarrow> n2a_nebstruct_add_custom_variables g j2 (host_custom_variables host_object);
     j4 \<leftarrow> n2a_nebstruct_add_urls g j3 (host_action_url host_object) (host_notes_url host_object);
     json \<leftarrow> json_dumps fmt j4 0;
     let ref = xstrlen json;
     j5 \<leftarrow>
       (if to_int (int ref) > max_size g
        then n2a_add_options_to_event g (host_additionals c) j4
               (Some (n2a_str_maxsize (word_of_nat ref - word_of_int (max_size g))))
        else n2a_add_options_to_event g (host_additionals c) j4 None);
     json \<leftarrow> json_dumps fmt j5 0;
     buffer \<leftarrow> text_buffer json;
     Some (0, buffer)
   }"

section \<open>Acknowledgements and downtimes\<close>

definition acknowledgement_options ::
  "options \<Rightarrow> acknowledgement_data \<Rightarrow> string option \<Rightarrow> string option \<Rightarrow> (string \<times> event_option) list" where
  "acknowledgement_options g c source_type ref_rk =
    [(''connector'', Json_string_nocheck (Some (connector g))),
     (''connector_name'', Json_string_nocheck (Some (eventsource_name g))),
     (''event_type'', Json_string_nocheck (Some ''ack'')),
     (''source_type'', Json_string_nocheck source_type),
     (''component'', Json_string_nocheck (ack_host_name c)),
     (''resource'', Json_string_nocheck (ack_service_description c)),
     (''referer'', Json_string_nocheck ref_rk),
     (''ref_rk'', Json_string_nocheck ref_rk),
     (''author'', Json_string_nocheck (ack_author_name c)),
     (''state'', Json_integer (ack_state c)),
     (''state_type'', Json_integer 1),
     (''timestamp'', Json_integer (ack_timestamp c)),
     (''output'', N2a_string_to_truncated_json (ack_comment_data c))]"

definition n2a_nebstruct_acknowlegement_data_to_json ::
  "number_format \<Rightarrow> options \<Rightarrow> acknowledgement_data \<Rightarrow> (int \<times> string) option" where
  "n2a_nebstruct_acknowlegement_data_to_json fmt g c = do {
     (source_type, ref_rk) \<leftarrow>
       (if acknowledgement_type c = HOST_ACKNOWLEDGEMENT then do {
          rk \<leftarrow> n2a_str_join (Some ''.'') [Some (connector g), Some (eventsource_name g), Some ''check'',
                  Some ''component'', ack_host_name c];
          Some (Some ''component'', rk)
        }
        else if acknowledgement_type c = SERVICE_ACKNOWLEDGEMENT then do {
          rk \<leftarrow> n2a_str_join (Some ''.'') [Some (connector g), Some (eventsource_name g), Some ''check'',
                  Some ''resource'', ack_host_name c, ack_service_description c];
          Some (Some ''resource'', rk)
        }
        else Some (None, None));
     jdata \<leftarrow> n2a_add_options_to_event g (acknowledgement_options g c source_type ref_rk) json_object None;
     s \<leftarrow> json_dumps fmt jdata 0;
     buffer \<leftarrow> text_buffer s;
     Some (1, buffer)
   }"

definition downtime_options :: "options \<Rightarrow> downtime_data \<Rightarrow> string option \<Rightarrow> (string \<times> event_option) list" where
  "downtime_options g c source_type =
    [(''connector'', Json_string_nocheck (Some (connector g))),
     (''connector_name'', Json_string_nocheck (Some (eventsource_name g))),
     (''event_type'', Json_string_nocheck (Some ''downtime'')),
     (''source_type'', Json_string_nocheck source_type),
     (''component'', Json_string_nocheck (dt_host_name c)),
     (''resource'', Json_string_nocheck (dt_service_description c)),
     (''author'', Json_string_nocheck (dt_author_name c)),
     (''timestamp'', Json_integer (dt_timestamp c)),
     (''output'', N2a_string_to_truncated_json (dt_comment_data c)),
     (''start'', Json_integer (dt_start_time c)),
     (''end'', Json_integer (dt_end_time c)),
     (''duration'', Json_integer (dt_duration c)),
     (''entry'', Json_integer (dt_entry_time c)),
     (''fixed'', N2a_bool_to_json (dt_fixed c)),
     (''downtime_id'', Json_integer (dt_downtime_id c))]"

definition n2a_nebstruct_downtime_data_to_json ::
  "number_format \<Rightarrow> options \<Rightarrow> downtime_data \<Rightarrow> (int \<times> string) option" where
  "n2a_nebstruct_downtime_data_to_json fmt g c = do {
     let source_type =
       (if downtime_type c = HOST_DOWNTIME then Some ''component''
        else if downtime_type c = SERVICE_DOWNTIME then Some ''resource''
        else None);
     jdata \<leftarrow> n2a_add_options_to_event g (downtime_options g c source_type) json_object None;
     s \<leftarrow> json_dumps fmt jdata 0;
     buffer \<leftarrow> text_buffer s;
     Some (1, buffer)
   }"

end
