(* ===== verification/Events.thy ===== *)
theory Events
  imports Json Amqp_Run
begin

text \<open>
  The handlers of the Nagios events: \<^verbatim>\<open>src/events.c\<close>. A handler takes the event, the options
  and the state of the connector; log lines and the \<^verbatim>\<open>printf\<close> of a state are not modelled.
  \<open>fmt\<close> is how the C library prints a \<^verbatim>\<open>double\<close>.
\<close>

section \<open>Event types\<close>

definition NEBTYPE_SERVICECHECK_PROCESSED :: int where "NEBTYPE_SERVICECHECK_PROCESSED = 701"
definition NEBTYPE_HOSTCHECK_PROCESSED :: int where "NEBTYPE_HOSTCHECK_PROCESSED = 801"
definition NEBTYPE_DOWNTIME_ADD :: int where "NEBTYPE_DOWNTIME_ADD = 1100"
definition NEBTYPE_ACKNOWLEDGEMENT_ADD :: int where "NEBTYPE_ACKNOWLEDGEMENT_ADD = 1700"

section \<open>Routing keys\<close>

text \<open>A routing key longer than the maximal size is cut; a negative maximum is a huge one.\<close>

definition truncate_key :: "options \<Rightarrow> string option \<Rightarrow> string option" where
  "truncate_key g key =
    (if size_gt (xstrlen key) (max_size g) then map_option (take (nat (max_size g))) key else key)"

section \<open>Service checks\<close>

text \<open>One turn of the loop in the macro \<^verbatim>\<open>split_message\<close>.\<close>

definition split_step ::
  "env \<Rightarrow> number_format \<Rightarrow> options \<Rightarrow> string option \<Rightarrow> string option \<Rightarrow> string \<Rightarrow> int \<Rightarrow> int \<Rightarrow> json \<times> n2a \<Rightarrow>
   (json \<times> n2a) option" where
  "split_step env fmt g key message field left i = (\<lambda>(jdata, s). do {
     jdata' \<leftarrow> n2a_nebstruct_service_check_data_update_json jdata message field left i;
     json \<leftarrow> json_dumps fmt jdata' 0;
     buffer \<leftarrow> text_buffer json;
     (r, s') \<leftarrow> n2a_send_event env g key (Some buffer) s;
     Some (jdata', s')
   })"

function split_loop ::
  "env \<Rightarrow> number_format \<Rightarrow> options \<Rightarrow> string option \<Rightarrow> string option \<Rightarrow> string \<Rightarrow> int \<Rightarrow> int \<Rightarrow> int \<Rightarrow> json \<times> n2a \<Rightarrow>
   (json \<times> n2a) option" where
  "split_loop env fmt g key message field left temp i st =
    (if i < temp
     then Option.bind (split_step env fmt g key message field left i st)
            (\<lambda>st'. split_loop env fmt g key message field left temp (i + 1) st')
     else Some st)"
  by pat_completeness auto
termination
  by (relation "measure (\<lambda>(env, fmt, g, key, message, field, left, temp, i, st). nat (temp - i))") auto

declare split_loop.simps [simp del]

text \<open>The number of messages that a field is split into.\<close>

definition split_count :: "string option \<Rightarrow> int \<Rightarrow> int option" where
  "split_count message left = do {
     q \<leftarrow> int_div (to_int (int (xstrlen message))) left;
     int_add q 1
   }"

definition split_message ::
  "env \<Rightarrow> number_format \<Rightarrow> options \<Rightarrow> string option \<Rightarrow> string option \<Rightarrow> string \<Rightarrow> int \<Rightarrow> json \<times> n2a \<Rightarrow>
   (json \<times> n2a) option" where
  "split_message env fmt g key message field left st = do {
     temp \<leftarrow> split_count message left;
     split_loop env fmt g key message field left temp 0 st
   }"

definition n2a_event_service_check ::
  "env \<Rightarrow> number_format \<Rightarrow> options \<Rightarrow> service_check_data \<Rightarrow> n2a \<Rightarrow> (int \<times> n2a) option" where
  "n2a_event_service_check env fmt g c s =
    (if sc_type c = NEBTYPE_SERVICECHECK_PROCESSED then do {
       (nbmsg, jdata, message_size) \<leftarrow> n2a_nebstruct_service_check_data_to_json fmt g c;
       key0 \<leftarrow> n2a_str_join (Some ''.'') [Some (connector g), Some (eventsource_name g), Some ''check'',
                 Some ''resource'', sc_host_name c, sc_service_description c];
       let key = truncate_key g key0;
       if nbmsg = 1 then do {
         json \<leftarrow> json_dumps fmt jdata 0;
         t \<leftarrow> json;
         (r, s') \<leftarrow> n2a_send_event env g key (Some (take message_size t)) s;
         Some (0, s')
       }
       else do {
         left \<leftarrow> int_sub (max_size g) (to_int (int message_size));
         n1 \<leftarrow> split_count (sc_long_output c) left;
         n2 \<leftarrow> split_count (sc_output c) left;
         n3 \<leftarrow> split_count (sc_perf_data c) left;
         n12 \<leftarrow> int_add n1 n2;
         msgs \<leftarrow> int_add n12 n3;
         st1 \<leftarrow> split_message env fmt g key (sc_long_output c) ''long_output'' left (jdata, s);
         st2 \<leftarrow> split_message env fmt g key (sc_output c) ''output'' left st1;
         (jdata', s') \<leftarrow> split_message env fmt g key (sc_perf_data c) ''perf_data'' left st2;
         Some (0, s')
       }
     }
     else Some (0, s))"

section \<open>Host checks, acknowledgements, downtimes\<close>

definition n2a_event_host_check ::
  "env \<Rightarrow> number_format \<Rightarrow> options \<Rightarrow> host_check_data \<Rightarrow> n2a \<Rightarrow> (int \<times> n2a) option" where
  "n2a_event_host_check env fmt g c s =
    (if hc_type c = NEBTYPE_HOSTCHECK_PROCESSED then do {
       (r, buffer) \<leftarrow> n2a_nebstruct_host_check_data_to_json fmt g c;
       key0 \<leftarrow> n2a_str_join (Some ''.'') [Some (connector g), Some (eventsource_name g), Some ''check'',
                 Some ''component'', hc_host_name c];
       (r, s') \<leftarrow> n2a_send_event env g (truncate_key g key0) (Some buffer) s;
       Some (0, s')
     }
     else Some (0, s))"

definition n2a_event_acknowledgement ::
  "env \<Rightarrow> number_format \<Rightarrow> options \<Rightarrow> acknowledgement_data \<Rightarrow> n2a \<Rightarrow> (int \<times> n2a) option" where
  "n2a_event_acknowledgement env fmt g c s =
    (if ack_type c = NEBTYPE_ACKNOWLEDGEMENT_ADD then do {
       key0 \<leftarrow>
         (if acknowledgement_type c = HOST_ACKNOWLEDGEMENT
          then n2a_str_join (Some ''.'') [Some (connector g), Some (eventsource_name g), Some ''ack'',
                 Some ''component'', ack_host_name c]
          else if acknowledgement_type c = SERVICE_ACKNOWLEDGEMENT
          then n2a_str_join (Some ''.'') [Some (connector g), Some (eventsource_name g), Some ''ack'',
                 Some ''resource'', ack_host_name c, ack_service_description c]
          else Some None);
       let key = truncate_key g key0;
       (r, buffer) \<leftarrow> n2a_nebstruct_acknowlegement_data_to_json fmt g c;
       (r, s') \<leftarrow> n2a_send_event env g key (Some buffer) s;
       Some (0, s')
     }
     else Some (0, s))"

definition n2a_event_downtime ::
  "env \<Rightarrow> number_format \<Rightarrow> options \<Rightarrow> downtime_data \<Rightarrow> n2a \<Rightarrow> (int \<times> n2a) option" where
  "n2a_event_downtime env fmt g c s =
    (if dt_type c = NEBTYPE_DOWNTIME_ADD then do {
       key0 \<leftarrow>
         (if downtime_type c = HOST_DOWNTIME
          then n2a_str_join (Some ''.'') [Some (connector g), Some (eventsource_name g), Some ''downtime'',
                 Some ''component'', dt_host_name c]
          else if downtime_type c = SERVICE_DOWNTIME
          then n2a_str_join (Some ''.'') [Some (connector g), Some (eventsource_name g), Some ''downtime'',
                 Some ''resource'', dt_host_name c, dt_service_description c]
          else Some None);
       let key = truncate_key g key0;
       (r, buffer) \<leftarrow> n2a_nebstruct_downtime_data_to_json fmt g c;
       (r, s') \<leftarrow> n2a_send_event env g key (Some buffer) s;
       Some (0, s')
     }
     else Some (0, s))"

section \<open>Handlers without messages\<close>

text \<open>
  \<^verbatim>\<open>n2a_event_void\<close>, \<^verbatim>\<open>n2a_event_process\<close> and \<^verbatim>\<open>n2a_event_comment\<close> return 0 and change nothing;
  the handler of the program status keeps the time of the last event it took.
\<close>

definition n2a_event_void :: "n2a \<Rightarrow> (int \<times> n2a) option" where
  "n2a_event_void s = Some (0, s)"

definition n2a_event_process :: "n2a \<Rightarrow> (int \<times> n2a) option" where
  "n2a_event_process s = Some (0, s)"

definition n2a_event_comment :: "int \<Rightarrow> n2a \<Rightarrow> (int \<times> n2a) option" where
  "n2a_event_comment comment_type s = Some (0, s)"

definition n2a_event_program_status :: "int \<Rightarrow> int \<Rightarrow> (int \<times> int) option" where
  "n2a_event_program_status tv_sec g_last_event_program_status = do {
     next_time \<leftarrow> int_add g_last_event_program_status 10;
     Some (0, if to_int tv_sec \<ge> next_time then to_int tv_sec else g_last_event_program_status)
   }"

end
