(* ===== verification/Jansson_Hashtable_Map.thy ===== *)
theory Jansson_Hashtable_Map
  imports Jansson_Hashtable "HOL-Library.Multiset"
begin

text \<open>
  The hash table implements a finite map from strings. The proof follows the shape of the
  list: it is a sequence of groups, one for each non-empty bucket, and every operation works
  inside one group.
\<close>

declare map_eq_conv [simp del]

section \<open>The shape of the list\<close>

definition group_ok :: "nat \<Rightarrow> bucket list \<Rightarrow> nat \<times> 'v pair list \<Rightarrow> bool" where
  "group_ok n bs = (\<lambda>(i, g). i < n \<and> g \<noteq> [] \<and> (\<forall>p \<in> set g. bucket_index (pair_hash p) n = i) \<and>
     bs ! i = Some (pair_id (hd g), pair_id (last g)))"

definition groups_ok ::
  "nat \<Rightarrow> (nat \<times> 'v pair list) list \<Rightarrow> bucket list \<Rightarrow> 'v pair list \<Rightarrow> bool" where
  "groups_ok n gs bs ps \<longleftrightarrow>
     ps = concat (map snd gs) \<and> distinct (map fst gs) \<and> length bs = n \<and>
     (\<forall>x \<in> set gs. group_ok n bs x) \<and>
     (\<forall>i < n. i \<notin> fst ` set gs \<longrightarrow> bs ! i = None)"

definition table_ok :: "nat \<Rightarrow> bucket list \<Rightarrow> 'v pair list \<Rightarrow> bool" where
  "table_ok n bs ps \<longleftrightarrow> (\<exists>gs. groups_ok n gs bs ps) \<and> distinct (map pair_id ps)"

definition ht_ok :: "'v hashtable \<Rightarrow> bool" where
  "ht_ok t \<longleftrightarrow> (\<exists>n. num_buckets t = Some n \<and> table_ok n (ht_buckets t) (ht_list t)) \<and>
     distinct (map pair_key (ht_list t)) \<and>
     (\<forall>p \<in> set (ht_list t). pair_hash p = hash_str (pair_key p) \<and> pair_id p < ht_fresh t) \<and>
     ht_size t = length (ht_list t)"

definition ht_map :: "'v hashtable \<Rightarrow> string \<rightharpoonup> 'v" where
  "ht_map t = map_of (map (\<lambda>p. (pair_key p, pair_value p)) (ht_list t))"

lemma primes_pos: "k < length primes \<Longrightarrow> 0 < primes ! k"
proof -
  have "\<forall>p \<in> set primes. 0 < p" by (simp add: primes_def)
  then show "k < length primes \<Longrightarrow> 0 < primes ! k" by simp
qed

lemma num_buckets_pos: "num_buckets t = Some n \<Longrightarrow> 0 < n"
  by (auto simp: num_buckets_def primes_pos split: if_splits)

lemma groups_split:
  assumes "groups_ok n gs bs ps" and "(i, g) \<in> set gs"
  obtains gs1 gs2 where "gs = gs1 @ (i, g) # gs2" "ps = concat (map snd gs1) @ g @ concat (map snd gs2)"
    "i \<notin> fst ` set gs1" "i \<notin> fst ` set gs2"
proof -
  from assms(2) obtain gs1 gs2 where gs: "gs = gs1 @ (i, g) # gs2" by (meson split_list)
  with assms(1) that show thesis by (simp add: groups_ok_def)
qed

lemma groups_other:
  assumes "groups_ok n gs bs ps" and "p \<in> set ps"
  obtains i g where "(i, g) \<in> set gs" "p \<in> set g" "bucket_index (pair_hash p) n = i"
  using assms by (fastforce simp: groups_ok_def group_ok_def)

section \<open>Looking a key up\<close>

lemma find_walk_group:
  assumes "g \<noteq> []" and "distinct (map pair_id g)"
  shows "find_walk (pair_id (last g)) key hash (g @ vs) =
     Some (List.find (\<lambda>p. pair_hash p = hash \<and> pair_key p = key) g)"
  using assms
proof (induction g)
  case Nil
  then show ?case by simp
next
  case (Cons p g)
  show ?case
  proof (cases "g = []")
    case True
    then show ?thesis by simp
  next
    case False
    with Cons.prems have "pair_id p \<noteq> pair_id (last g)" by auto
    with False Cons show ?thesis by simp
  qed
qed

lemma drop_to_group:
  assumes "distinct (map pair_id (us @ g @ vs))" and "g \<noteq> []"
  shows "dropWhile (\<lambda>q. pair_id q \<noteq> pair_id (hd g)) (us @ g @ vs) = g @ vs"
    and "takeWhile (\<lambda>q. pair_id q \<noteq> pair_id (hd g)) (us @ g @ vs) = us"
proof -
  obtain a g' where g: "g = a # g'" using assms(2) by (cases g) auto
  with assms(1) have "pair_id a \<notin> pair_id ` set us" by auto
  with g have "\<And>q. q \<in> set us \<Longrightarrow> pair_id q \<noteq> pair_id (hd g)" by (metis imageI list.sel(1))
  then show "dropWhile (\<lambda>q. pair_id q \<noteq> pair_id (hd g)) (us @ g @ vs) = g @ vs"
    and "takeWhile (\<lambda>q. pair_id q \<noteq> pair_id (hd g)) (us @ g @ vs) = us"
    using assms(2) by (cases g; simp add: dropWhile_append2 takeWhile_append2)+
qed

lemma find_pair_ok:
  assumes tab: "table_ok n (ht_buckets t) (ht_list t)" and "0 < n"
    and hash: "\<forall>p \<in> set (ht_list t). pair_hash p = hash_str (pair_key p)"
    and keys: "distinct (map pair_key (ht_list t))"
  shows "\<exists>r. hashtable_find_pair t (ht_buckets t ! bucket_index (hash_str key) n) key (hash_str key) = Some r \<and>
     (case r of None \<Rightarrow> key \<notin> pair_key ` set (ht_list t)
      | Some p \<Rightarrow> p \<in> set (ht_list t) \<and> pair_key p = key)"
proof -
  let ?i = "bucket_index (hash_str key) n"
  from tab obtain gs where gs: "groups_ok n gs (ht_buckets t) (ht_list t)" and ids: "distinct (map pair_id (ht_list t))"
    by (auto simp: table_ok_def)
  have i: "?i < n" using assms(2) by (simp add: bucket_index_def)
  show ?thesis
  proof (cases "?i \<in> fst ` set gs")
    case False
    have "key \<notin> pair_key ` set (ht_list t)"
    proof
      assume "key \<in> pair_key ` set (ht_list t)"
      then obtain p where p: "p \<in> set (ht_list t)" "pair_key p = key" by auto
      from groups_other [OF gs p(1)] obtain j g where "(j, g) \<in> set gs" "bucket_index (pair_hash p) n = j" by blast
      with hash p have "(?i, g) \<in> set gs" by auto
      with False show False by (metis fst_conv image_eqI)
    qed
    with False i gs show ?thesis by (auto simp: groups_ok_def hashtable_find_pair_def)
  next
    case True
    then obtain g where g: "(?i, g) \<in> set gs" by auto
    with gs have b: "g \<noteq> []" "ht_buckets t ! ?i = Some (pair_id (hd g), pair_id (last g))"
      by (auto simp: groups_ok_def group_ok_def)
    obtain gs1 gs2 where "gs = gs1 @ (?i, g) # gs2"
      and l: "ht_list t = concat (map snd gs1) @ g @ concat (map snd gs2)"
      and "?i \<notin> fst ` set gs1" "?i \<notin> fst ` set gs2" by (rule groups_split [OF gs g])
    have dg: "distinct (map pair_id g)" using ids l by simp
    have find: "hashtable_find_pair t (ht_buckets t ! ?i) key (hash_str key) =
        Some (List.find (\<lambda>p. pair_hash p = hash_str key \<and> pair_key p = key) g)"
      using b drop_to_group(1) [OF ids [unfolded l] b(1)] find_walk_group [OF b(1) dg] l
      by (simp add: hashtable_find_pair_def)
    have "key \<notin> pair_key ` set (ht_list t)"
      if none: "List.find (\<lambda>p. pair_hash p = hash_str key \<and> pair_key p = key) g = None"
    proof
      assume "key \<in> pair_key ` set (ht_list t)"
      then obtain p where p: "p \<in> set (ht_list t)" "pair_key p = key" by auto
      from groups_other [OF gs p(1)] obtain j g' where g': "(j, g') \<in> set gs" "p \<in> set g'"
        "bucket_index (pair_hash p) n = j" by blast
      then have "j = ?i" using hash p by auto
      moreover have "distinct (map fst gs)" using gs by (simp add: groups_ok_def)
      ultimately have "g' = g" using g g'(1) eq_key_imp_eq_value by metis
      with none g'(2) p hash show False by (auto simp: find_None_iff)
    qed
    moreover have "p \<in> set (ht_list t) \<and> pair_key p = key"
      if "List.find (\<lambda>p. pair_hash p = hash_str key \<and> pair_key p = key) g = Some p" for p
      using that l by (auto simp: find_Some_iff)
    ultimately show ?thesis using find
      by (cases "List.find (\<lambda>p. pair_hash p = hash_str key \<and> pair_key p = key) g") auto
  qed
qed

section \<open>Changing one group\<close>

lemma group_ok_update:
  "group_ok n bs x \<Longrightarrow> fst x \<noteq> i \<Longrightarrow> group_ok n (bs[i := b]) x"
  by (cases x) (simp add: group_ok_def)

lemma groups_update_others:
  assumes "\<forall>x \<in> set gs. group_ok n bs x" and "i \<notin> fst ` set gs"
  shows "\<forall>x \<in> set gs. group_ok n (bs[i := b]) x"
  using assms by (auto intro!: group_ok_update)

text \<open>Replacing the group of one bucket, and with it the bucket's ends.\<close>

lemma groups_replace:
  assumes gs: "groups_ok n (gs1 @ (i, g) # gs2) bs ps"
    and g': "g' \<noteq> []" "\<forall>p \<in> set g'. bucket_index (pair_hash p) n = i"
  shows "groups_ok n (gs1 @ (i, g') # gs2) (bs[i := Some (pair_id (hd g'), pair_id (last g'))])
     (concat (map snd gs1) @ g' @ concat (map snd gs2))"
proof -
  from gs have i: "i < n" "length bs = n" "i \<notin> fst ` set gs1" "i \<notin> fst ` set gs2"
    by (auto simp: groups_ok_def group_ok_def)
  with g' have "group_ok n (bs[i := Some (pair_id (hd g'), pair_id (last g'))]) (i, g')"
    by (simp add: group_ok_def)
  moreover have "\<forall>x \<in> set gs1. group_ok n bs x" "\<forall>x \<in> set gs2. group_ok n bs x"
    using gs by (simp_all add: groups_ok_def)
  note others = groups_update_others [OF this(1) i(3)] groups_update_others [OF this(2) i(4)]
  ultimately show ?thesis using gs i others by (auto simp: groups_ok_def)
qed

lemma groups_add:
  assumes gs: "groups_ok n gs bs ps" and i: "i \<notin> fst ` set gs" "bucket_index (pair_hash p) n = i" "i < n"
  shows "groups_ok n (gs @ [(i, [p])]) (bs[i := Some (pair_id p, pair_id p)]) (ps @ [p])"
proof -
  have "\<forall>x \<in> set gs. group_ok n bs x" using gs by (simp add: groups_ok_def)
  note this [THEN groups_update_others, OF i(1)]
  moreover have "group_ok n (bs[i := Some (pair_id p, pair_id p)]) (i, [p])"
    using gs i by (simp add: group_ok_def groups_ok_def)
  ultimately show ?thesis using gs i(1) by (simp add: groups_ok_def)
qed

lemma groups_remove:
  assumes gs: "groups_ok n (gs1 @ (i, g) # gs2) bs ps"
  shows "groups_ok n (gs1 @ gs2) (bs[i := None]) (concat (map snd gs1) @ concat (map snd gs2))"
proof -
  from gs have i: "i < n" "length bs = n" "i \<notin> fst ` set gs1" "i \<notin> fst ` set gs2"
    by (auto simp: groups_ok_def group_ok_def)
  have "\<forall>x \<in> set gs1. group_ok n bs x" "\<forall>x \<in> set gs2. group_ok n bs x"
    using gs by (simp_all add: groups_ok_def)
  note others = groups_update_others [OF this(1) i(3)] groups_update_others [OF this(2) i(4)]
  have "bs[i := None] ! j = None" if "j < n" "j \<notin> fst ` set (gs1 @ gs2)" for j
    using gs that i by (cases "j = i") (auto simp: groups_ok_def)
  with gs i others show ?thesis by (auto simp: groups_ok_def)
qed

section \<open>Inserting\<close>

lemma insert_to_bucket_ok:
  assumes tab: "table_ok n bs ps" and i: "bucket_index (pair_hash p) n = i" "i < n"
    and fresh: "pair_id p \<notin> pair_id ` set ps"
    and ins: "insert_to_bucket (bs, ps) i p = (bs', ps')"
  shows "table_ok n bs' ps' \<and> mset ps' = add_mset p (mset ps)"
proof -
  from tab obtain gs where gs: "groups_ok n gs bs ps" and ids: "distinct (map pair_id ps)"
    by (auto simp: table_ok_def)
  show ?thesis
  proof (cases "i \<in> fst ` set gs")
    case False
    with gs i(2) have "bs ! i = None" by (auto simp: groups_ok_def)
    with ins have "bs' = bs[i := Some (pair_id p, pair_id p)]" "ps' = ps @ [p]"
      by (simp_all add: insert_to_bucket_def list_insert_end_def)
    with groups_add [OF gs False i] ids fresh show ?thesis by (auto simp: table_ok_def)
  next
    case True
    then obtain g where "(i, g) \<in> set gs" by auto
    from gs this obtain gs1 gs2 where l: "gs = gs1 @ (i, g) # gs2"
      "ps = concat (map snd gs1) @ g @ concat (map snd gs2)"
      "i \<notin> fst ` set gs1" "i \<notin> fst ` set gs2" by (rule groups_split)
    have g: "g \<noteq> []" "\<forall>p \<in> set g. bucket_index (pair_hash p) n = i"
      "bs ! i = Some (pair_id (hd g), pair_id (last g))"
      using gs l(1) by (auto simp: groups_ok_def group_ok_def)
    have "bs' = bs[i := Some (pair_id (hd (p # g)), pair_id (last (p # g)))]"
      "ps' = concat (map snd gs1) @ (p # g) @ concat (map snd gs2)"
      using ins g drop_to_group [OF ids [unfolded l(2)] g(1)] l(2)
      by (simp_all add: insert_to_bucket_def list_insert_before_def)
    moreover have "groups_ok n (gs1 @ (i, p # g) # gs2)
        (bs[i := Some (pair_id (hd (p # g)), pair_id (last (p # g)))])
        (concat (map snd gs1) @ (p # g) @ concat (map snd gs2))"
      using gs [unfolded l(1)] by (rule groups_replace) (use g i(1) in simp_all)
    ultimately show ?thesis using ids fresh l(2) by (auto simp: table_ok_def)
  qed
qed

lemma table_ok_empty: "table_ok n (replicate n None) []"
  by (auto simp: table_ok_def groups_ok_def intro!: exI [of _ "[]"])

lemma rehash_fold_ok:
  assumes "table_ok n bs ps" and "distinct (map pair_id (ps @ qs))" and "0 < n"
    and "foldl (\<lambda>st p. insert_to_bucket st (bucket_index (pair_hash p) n) p) (bs, ps) qs = (bs', ps')"
  shows "table_ok n bs' ps' \<and> mset ps' = mset ps + mset qs"
  using assms
proof (induction qs arbitrary: bs ps)
  case Nil
  then show ?case by simp
next
  case (Cons q qs)
  obtain bs1 ps1 where ins: "insert_to_bucket (bs, ps) (bucket_index (pair_hash q) n) q = (bs1, ps1)"
    by (cases "insert_to_bucket (bs, ps) (bucket_index (pair_hash q) n) q") auto
  have one: "table_ok n bs1 ps1 \<and> mset ps1 = add_mset q (mset ps)"
    by (rule insert_to_bucket_ok [OF Cons.prems(1) refl _ _ ins])
      (use Cons.prems(2,3) in \<open>auto simp: bucket_index_def\<close>)
  have "mset (map pair_id (ps1 @ qs)) = mset (map pair_id (ps @ q # qs))" using one by simp
  then have "distinct (map pair_id (ps1 @ qs))" using Cons.prems(2) by (metis mset_eq_imp_distinct_iff)
  with Cons.IH [of bs1 ps1] one Cons.prems(3,4) ins show ?case by simp
qed

lemma rehash_ok:
  assumes "ht_ok t" and "ht_num_buckets t + 1 < length primes"
  shows "\<exists>t'. hashtable_do_rehash t = Some t' \<and> ht_ok t' \<and> mset (ht_list t') = mset (ht_list t) \<and>
     ht_num_buckets t' = ht_num_buckets t + 1"
proof -
  let ?n = "primes ! (ht_num_buckets t + 1)"
  obtain bs ps where fd: "foldl (\<lambda>st p. insert_to_bucket st (bucket_index (pair_hash p) ?n) p)
      (replicate ?n None, []) (ht_list t) = (bs, ps)" by fastforce
  have "distinct (map pair_id ([] @ ht_list t))" using assms(1) by (auto simp: ht_ok_def table_ok_def)
  from rehash_fold_ok [OF table_ok_empty this primes_pos [OF assms(2)] fd]
  have tab: "table_ok ?n bs ps" "mset ps = mset (ht_list t)" by simp_all
  from tab(2) have "set ps = set (ht_list t)" "length ps = length (ht_list t)"
    by (metis mset_eq_setD, metis mset_eq_length)
  moreover have "distinct (map pair_key ps)"
    using assms(1) tab(2) by (metis ht_ok_def mset_eq_imp_distinct_iff mset_map)
  ultimately show ?thesis using assms tab fd by (auto simp: ht_ok_def hashtable_do_rehash_def num_buckets_def)
qed

section \<open>The map\<close>

abbreviation kv :: "'v pair \<Rightarrow> string \<times> 'v" where
  "kv p \<equiv> (pair_key p, pair_value p)"

lemma map_of_same_pairs:
  assumes "mset ps = mset qs" and "distinct (map pair_key ps)"
  shows "map_of (map kv ps) = map_of (map kv qs)"
proof -
  have "distinct (map pair_key qs)" using assms by (metis mset_eq_imp_distinct_iff mset_map)
  moreover have "set (map kv ps) = set (map kv qs)" using assms(1) by (metis mset_map set_mset_mset)
  ultimately show ?thesis using assms(2)
    by (intro map_of_inject_set [THEN iffD2]) (simp_all add: comp_def)
qed

lemma map_of_replace:
  "key \<in> pair_key ` set ps \<Longrightarrow>
   map_of (map (\<lambda>q. (pair_key q, if pair_key q = key then v else pair_value q)) ps) =
   (map_of (map kv ps))(key \<mapsto> v)"
proof (induction ps)
  case Nil
  then show ?case by simp
next
  case (Cons p ps)
  show ?case
  proof (cases "key \<in> pair_key ` set ps")
    case True
    with Cons.IH show ?thesis by (auto simp: fun_upd_twist)
  next
    case False
    then have meq: "map (\<lambda>q. (pair_key q, if pair_key q = key then v else pair_value q)) ps = map kv ps"
      by (auto intro!: map_cong)
    have "pair_key p = key" using Cons.prems False by auto
    then show ?thesis by (simp add: meq fun_upd_upd fun_upd_def [symmetric])
  qed
qed

lemma table_ok_map:
  assumes "table_ok n bs ps" and "\<And>p. pair_id (f p) = pair_id p" and "\<And>p. pair_hash (f p) = pair_hash p"
  shows "table_ok n bs (map f ps)"
proof -
  from assms(1) obtain gs where gs: "groups_ok n gs bs ps" by (auto simp: table_ok_def)
  let ?gs = "map (\<lambda>(i, g). (i, map f g)) gs"
  have "concat (map snd ?gs) = map f ps"
    using gs by (simp add: groups_ok_def map_concat comp_def split_def)
  moreover have fst: "map fst ?gs = map fst gs" "fst ` set ?gs = fst ` set gs"
    by (auto simp: comp_def split_def image_image)
  moreover have "group_ok n bs (i, map f g)" if "group_ok n bs (i, g)" for i g
    using that by (simp add: group_ok_def hd_map last_map assms(2,3))
  then have "\<forall>x \<in> set ?gs. group_ok n bs x" using gs by (auto simp: groups_ok_def)
  ultimately have "groups_ok n ?gs bs (map f ps)" using gs by (simp add: groups_ok_def)
  moreover have "map pair_id (map f ps) = map pair_id ps" using assms(2) by (simp add: map_eq_conv)
  ultimately show ?thesis using assms(1) unfolding table_ok_def by metis
qed

text \<open>\<^verbatim>\<open>hashtable_get\<close> reads the map.\<close>

lemma hashtable_get_ok:
  assumes "ht_ok t"
  shows "hashtable_get t key = Some (ht_map t key)"
proof -
  from assms obtain n where n: "num_buckets t = Some n" "table_ok n (ht_buckets t) (ht_list t)"
    and keys: "distinct (map pair_key (ht_list t))"
    and hash: "\<forall>p \<in> set (ht_list t). pair_hash p = hash_str (pair_key p)" by (auto simp: ht_ok_def)
  from find_pair_ok [OF n(2) num_buckets_pos [OF n(1)] hash keys, of key] obtain r where
    r: "hashtable_find_pair t (ht_buckets t ! bucket_index (hash_str key) n) key (hash_str key) = Some r"
      "case r of None \<Rightarrow> key \<notin> pair_key ` set (ht_list t)
       | Some p \<Rightarrow> p \<in> set (ht_list t) \<and> pair_key p = key" by blast
  have "map_option pair_value r = ht_map t key"
  proof (cases r)
    case None
    with r(2) have "key \<notin> fst ` set (map kv (ht_list t))" by force
    then have "ht_map t key = None" unfolding ht_map_def by (simp add: map_of_eq_None_iff)
    with None show ?thesis by simp
  next
    case (Some p)
    with r(2) have "kv p \<in> set (map kv (ht_list t))" "pair_key p = key" by auto
    with keys have "ht_map t key = Some (pair_value p)"
      unfolding ht_map_def by (intro map_of_is_SomeI) (simp_all add: comp_def)
    with Some show ?thesis by simp
  qed
  with n(1) r(1) show ?thesis by (simp add: hashtable_get_def)
qed

text \<open>\<^verbatim>\<open>hashtable_set\<close> updates it, and never fails while the table can still grow.\<close>

lemma hashtable_set_ok:
  assumes "ht_ok t0" and room: "ht_size t0 < 1610612741"
  shows "\<exists>t'. hashtable_set t0 key serial v = Some t' \<and> ht_ok t' \<and> ht_map t' = (ht_map t0)(key \<mapsto> v) \<and>
     ht_num_buckets t' \<le> ht_num_buckets t0 + 1"
proof -
  from assms obtain n0 where n0: "num_buckets t0 = Some n0" by (auto simp: ht_ok_def)
  have grows: "ht_num_buckets t0 + 1 < length primes" if "ht_size t0 \<ge> n0"
  proof -
    from n0 have "ht_num_buckets t0 < length primes" "n0 = primes ! ht_num_buckets t0"
      by (auto simp: num_buckets_def split: if_splits)
    moreover have "primes ! 28 = 1610612741" "length primes = 29" by (simp_all add: primes_def)
    ultimately show ?thesis using that room by (cases "ht_num_buckets t0 = 28") auto
  qed
  obtain t where t: "(if ht_size t0 \<ge> n0 then hashtable_do_rehash t0 else Some t0) = Some t" "ht_ok t"
    "mset (ht_list t) = mset (ht_list t0)" "ht_num_buckets t \<le> ht_num_buckets t0 + 1"
    using rehash_ok [OF assms(1) grows] assms(1) by (cases "ht_size t0 \<ge> n0") auto
  from t(2) obtain n where n: "num_buckets t = Some n" "table_ok n (ht_buckets t) (ht_list t)"
    and keys: "distinct (map pair_key (ht_list t))"
    and hash: "\<forall>p \<in> set (ht_list t). pair_hash p = hash_str (pair_key p)"
    and fresh: "\<forall>p \<in> set (ht_list t). pair_id p < ht_fresh t"
    and size: "ht_size t = length (ht_list t)" by (auto simp: ht_ok_def)
  have same: "ht_map t = ht_map t0"
    unfolding ht_map_def by (rule map_of_same_pairs [OF t(3) keys])
  let ?i = "bucket_index (hash_str key) n"
  have i: "?i < n" using num_buckets_pos [OF n(1)] by (simp add: bucket_index_def)
  from find_pair_ok [OF n(2) num_buckets_pos [OF n(1)] hash keys, of key] obtain r where
    r: "hashtable_find_pair t (ht_buckets t ! ?i) key (hash_str key) = Some r"
      "case r of None \<Rightarrow> key \<notin> pair_key ` set (ht_list t)
       | Some p \<Rightarrow> p \<in> set (ht_list t) \<and> pair_key p = key" by blast
  show ?thesis
  proof (cases r)
    case (Some p)
    with r(2) have p: "p \<in> set (ht_list t)" "pair_key p = key" by auto
    let ?f = "\<lambda>q. if pair_id q = pair_id p then Pair (pair_id q) (pair_hash q) (pair_key q) (pair_serial q) v else q"
    let ?t' = "Hashtable (ht_size t) (ht_buckets t) (ht_num_buckets t) (map ?f (ht_list t)) (ht_fresh t)"
    have run: "hashtable_set t0 key serial v = Some ?t'"
      using n0 t(1) n(1) r(1) Some by (simp add: hashtable_set_def set_pair_value_def)
    have ids: "distinct (map pair_id (ht_list t))" using n(2) by (simp add: table_ok_def)
    have eq: "q \<in> set (ht_list t) \<Longrightarrow> pair_id q = pair_id p \<longleftrightarrow> pair_key q = key" for q
      using p keys ids by (metis distinct_map inj_onD)
    have meq: "map (kv \<circ> ?f) (ht_list t) =
        map (\<lambda>q. (pair_key q, if pair_key q = key then v else pair_value q)) (ht_list t)"
      by (rule map_cong) (auto simp: eq)
    have "ht_map ?t' = (ht_map t)(key \<mapsto> v)"
      unfolding ht_map_def hashtable.sel map_map meq by (rule map_of_replace) (use p in force)
    moreover have "table_ok n (ht_buckets t) (map ?f (ht_list t))"
      by (rule table_ok_map [OF n(2)]) auto
    moreover have "map pair_key (map ?f (ht_list t)) = map pair_key (ht_list t)" by (simp add: map_eq_conv)
    ultimately have "ht_ok ?t'" "ht_map ?t' = (ht_map t)(key \<mapsto> v)"
      using n(1) keys hash fresh size by (auto simp: ht_ok_def num_buckets_def split: if_splits simp del: map_map)
    with run same t(4) show ?thesis by auto
  next
    case None
    let ?p = "Pair (ht_fresh t) (hash_str key) key serial v"
    obtain bs ps where ins: "insert_to_bucket (ht_buckets t, ht_list t) ?i ?p = (bs, ps)" by fastforce
    let ?t' = "Hashtable (ht_size t + 1) bs (ht_num_buckets t) ps (ht_fresh t + 1)"
    have run: "hashtable_set t0 key serial v = Some ?t'"
      using n0 t(1) n(1) r(1) None ins by (simp add: hashtable_set_def)
    have "pair_id ?p \<notin> pair_id ` set (ht_list t)" using fresh by force
    from insert_to_bucket_ok [OF n(2) _ i this ins] have tab: "table_ok n bs ps"
      and ms: "mset ps = mset (?p # ht_list t)" by simp_all
    have dk: "distinct (map pair_key (?p # ht_list t))" using None r(2) keys by simp
    then have dk': "distinct (map pair_key ps)" using ms by (metis mset_eq_imp_distinct_iff mset_map)
    have "ht_map ?t' = (ht_map t)(key \<mapsto> v)"
      using map_of_same_pairs [OF ms dk'] by (simp add: ht_map_def)
    moreover have "set ps = set (?p # ht_list t)" "length ps = Suc (length (ht_list t))"
      using ms by (metis mset_eq_setD, metis mset_eq_length length_Cons)
    ultimately have "ht_ok ?t'" "ht_map ?t' = (ht_map t)(key \<mapsto> v)"
      using n(1) tab dk' hash fresh size by (auto simp: ht_ok_def num_buckets_def less_Suc_eq split: if_splits)
    with run same t(4) show ?thesis by auto
  qed
qed

lemma hashtable_init_ok: "ht_ok hashtable_init \<and> ht_map hashtable_init = Map.empty"
  using table_ok_empty [of "primes ! 0"]
  by (auto simp: ht_ok_def hashtable_init_def num_buckets_def primes_def ht_map_def)

section \<open>Deleting\<close>

lemma list_remove_group:
  assumes "distinct (map pair_id (us @ (g1 @ p # g2) @ vs))"
  shows "list_remove (us @ (g1 @ p # g2) @ vs) (pair_id p) = us @ (g1 @ g2) @ vs"
proof -
  have keep: "filter (\<lambda>q. pair_id q \<noteq> pair_id p) qs = qs" if "pair_id p \<notin> pair_id ` set qs" for qs :: "'a pair list"
    using that by (metis (mono_tags, lifting) filter_True image_eqI)
  have "pair_id p \<notin> pair_id ` set us" "pair_id p \<notin> pair_id ` set g1" "pair_id p \<notin> pair_id ` set g2"
    "pair_id p \<notin> pair_id ` set vs" using assms by auto
  then show ?thesis by (simp add: list_remove_def keep)
qed

lemma del_bucket_ends:
  assumes ids: "distinct (map pair_id (us @ (g1 @ p # g2) @ vs))"
  shows "g1 = [] \<Longrightarrow> pair_id p = pair_id (hd (g1 @ p # g2))"
    and "g1 \<noteq> [] \<Longrightarrow> pair_id p \<noteq> pair_id (hd (g1 @ p # g2))"
    and "g2 = [] \<Longrightarrow> pair_id p = pair_id (last (g1 @ p # g2))"
    and "g2 \<noteq> [] \<Longrightarrow> pair_id p \<noteq> pair_id (last (g1 @ p # g2))"
    and "g2 \<noteq> [] \<Longrightarrow> next_of (us @ (g1 @ p # g2) @ vs) (pair_id p) = Some (pair_id (hd g2))"
    and "g1 \<noteq> [] \<Longrightarrow> prev_of (us @ (g1 @ p # g2) @ vs) (pair_id p) = Some (pair_id (last g1))"
proof -
  show "g1 = [] \<Longrightarrow> pair_id p = pair_id (hd (g1 @ p # g2))" by simp
  show "g2 = [] \<Longrightarrow> pair_id p = pair_id (last (g1 @ p # g2))" by simp
  have notin: "pair_id p \<notin> pair_id ` set (us @ g1)" "pair_id p \<notin> pair_id ` set g2" using ids by auto
  show "g1 \<noteq> [] \<Longrightarrow> pair_id p \<noteq> pair_id (hd (g1 @ p # g2))" using notin(1) by (cases g1) auto
  show "g2 \<noteq> [] \<Longrightarrow> pair_id p \<noteq> pair_id (last (g1 @ p # g2))" using notin(2) last_in_set by fastforce
  have other: "\<And>q. q \<in> set (us @ g1) \<Longrightarrow> pair_id q \<noteq> pair_id p" using notin(1) by (metis imageI)
  have assoc: "us @ (g1 @ p # g2) @ vs = (us @ g1) @ p # g2 @ vs" by simp
  have dw: "dropWhile (\<lambda>q. pair_id q \<noteq> pair_id p) (us @ (g1 @ p # g2) @ vs) = p # g2 @ vs"
    unfolding assoc by (subst dropWhile_append2) (use other in auto)
  have tw: "takeWhile (\<lambda>q. pair_id q \<noteq> pair_id p) (us @ (g1 @ p # g2) @ vs) = us @ g1"
    unfolding assoc by (subst takeWhile_append2) (use other in auto)
  show "g2 \<noteq> [] \<Longrightarrow> next_of (us @ (g1 @ p # g2) @ vs) (pair_id p) = Some (pair_id (hd g2))"
    unfolding next_of_def dw by (cases g2) simp_all
  have "qs \<noteq> [] \<Longrightarrow> (case qs of [] \<Rightarrow> None | q # qs' \<Rightarrow> Some (pair_id (last (q # qs')))) = Some (pair_id (last qs))"
    for qs :: "'a pair list" by (cases qs) simp_all
  then show "g1 \<noteq> [] \<Longrightarrow> prev_of (us @ (g1 @ p # g2) @ vs) (pair_id p) = Some (pair_id (last g1))"
    unfolding prev_of_def tw by simp
qed

lemma del_new_bucket:
  assumes ids: "distinct (map pair_id (us @ (g1 @ p # g2) @ vs))"
  shows "(if pair_id p = pair_id (hd (g1 @ p # g2)) \<and> pair_id p = pair_id (last (g1 @ p # g2)) then Some None
     else if pair_id p = pair_id (hd (g1 @ p # g2))
       then do { nx \<leftarrow> next_of (us @ (g1 @ p # g2) @ vs) (pair_id p); Some (Some (nx, pair_id (last (g1 @ p # g2)))) }
     else if pair_id p = pair_id (last (g1 @ p # g2))
       then do { pv \<leftarrow> prev_of (us @ (g1 @ p # g2) @ vs) (pair_id p); Some (Some (pair_id (hd (g1 @ p # g2)), pv)) }
     else Some (Some (pair_id (hd (g1 @ p # g2)), pair_id (last (g1 @ p # g2))))) =
   Some (if g1 @ g2 = [] then None else Some (pair_id (hd (g1 @ g2)), pair_id (last (g1 @ g2))))"
proof (cases "g1 = []")
  case True
  show ?thesis
  proof (cases "g2 = []")
    case False
    with del_bucket_ends(5) [OF ids] del_bucket_ends(4) [OF ids] True show ?thesis by simp
  qed (use True in simp)
next
  case False
  show ?thesis
  proof (cases "g2 = []")
    case True
    with del_bucket_ends(2) [OF ids] del_bucket_ends(6) [OF ids] \<open>g1 \<noteq> []\<close> show ?thesis by simp
  next
    case g2: False
    with del_bucket_ends(2) [OF ids] del_bucket_ends(4) [OF ids] \<open>g1 \<noteq> []\<close> show ?thesis by simp
  qed
qed

lemma hashtable_del_ok:
  assumes "ht_ok t"
  shows "\<exists>r t'. hashtable_del t key = Some (r, t') \<and> ht_ok t' \<and> ht_map t' = (ht_map t)(key := None) \<and>
     (r = 0 \<longleftrightarrow> key \<in> dom (ht_map t)) \<and> ht_num_buckets t' = ht_num_buckets t"
proof -
  from assms obtain n gs where n: "num_buckets t = Some n" and tab: "table_ok n (ht_buckets t) (ht_list t)"
    and gs: "groups_ok n gs (ht_buckets t) (ht_list t)" and ids: "distinct (map pair_id (ht_list t))"
    and keys: "distinct (map pair_key (ht_list t))"
    and hash: "\<forall>p \<in> set (ht_list t). pair_hash p = hash_str (pair_key p)"
    and fresh: "\<forall>p \<in> set (ht_list t). pair_id p < ht_fresh t"
    and size: "ht_size t = length (ht_list t)" by (auto simp: ht_ok_def table_ok_def)
  let ?i = "bucket_index (hash_str key) n"
  from find_pair_ok [OF tab num_buckets_pos [OF n] hash keys, of key] obtain r where
    r: "hashtable_find_pair t (ht_buckets t ! ?i) key (hash_str key) = Some r"
      "case r of None \<Rightarrow> key \<notin> pair_key ` set (ht_list t)
       | Some p \<Rightarrow> p \<in> set (ht_list t) \<and> pair_key p = key" by blast
  have dom: "dom (ht_map t) = pair_key ` set (ht_list t)"
    unfolding ht_map_def by (force simp: dom_map_of_conv_image_fst)
  show ?thesis
  proof (cases r)
    case None
    with r(2) dom have "ht_map t key = None" by auto
    then have "(ht_map t)(key := None) = ht_map t" by auto
    with None n r dom assms show ?thesis
      by (auto simp: hashtable_del_def hashtable_do_del_def)
  next
    case (Some p)
    with r(2) have p: "p \<in> set (ht_list t)" "pair_key p = key" by auto
    from gs p(1) obtain i g where g: "(i, g) \<in> set gs" "p \<in> set g" "bucket_index (pair_hash p) n = i"
      by (rule groups_other)
    then have i: "i = ?i" using hash p by auto
    from gs g(1) obtain gs1 gs2 where l: "gs = gs1 @ (i, g) # gs2"
      "ht_list t = concat (map snd gs1) @ g @ concat (map snd gs2)"
      "i \<notin> fst ` set gs1" "i \<notin> fst ` set gs2" by (rule groups_split)
    from g(2) obtain g1 g2 where g12: "g = g1 @ p # g2" by (meson split_list)
    let ?us = "concat (map snd gs1)" and ?vs = "concat (map snd gs2)"
    have list: "ht_list t = ?us @ (g1 @ p # g2) @ ?vs" using l(2) g12 by simp
    note ends = del_bucket_ends [OF ids [unfolded list]]
    have b: "ht_buckets t ! ?i = Some (pair_id (hd g), pair_id (last g))"
      and hb: "\<forall>q \<in> set g. bucket_index (pair_hash q) n = i"
      using gs l(1) i by (auto simp: groups_ok_def group_ok_def)
    define new where "new = (if g1 @ g2 = [] then None
        else Some (pair_id (hd (g1 @ g2)), pair_id (last (g1 @ g2))))"
    let ?ps = "?us @ (g1 @ g2) @ ?vs"
    let ?t' = "Hashtable (ht_size t - 1) ((ht_buckets t)[?i := new]) (ht_num_buckets t) ?ps (ht_fresh t)"
    have new: "(if pair_id p = pair_id (hd g) \<and> pair_id p = pair_id (last g) then Some None
       else if pair_id p = pair_id (hd g)
         then do { nx \<leftarrow> next_of (ht_list t) (pair_id p); Some (Some (nx, pair_id (last g))) }
       else if pair_id p = pair_id (last g)
         then do { pv \<leftarrow> prev_of (ht_list t) (pair_id p); Some (Some (pair_id (hd g), pv)) }
       else Some (Some (pair_id (hd g), pair_id (last g)))) = Some new"
      unfolding g12 list by (rule del_new_bucket [OF ids [unfolded list], folded new_def])
    have "hashtable_del t key = Some (0, Hashtable (ht_size t - 1) ((ht_buckets t)[?i := new])
        (ht_num_buckets t) (list_remove (ht_list t) (pair_id p)) (ht_fresh t))"
      unfolding hashtable_del_def hashtable_do_del_def
      by (simp only: n r(1) [unfolded Some b] b Let_def Option.bind.bind_lunit option.case prod.case new)
    then have run: "hashtable_del t key = Some (0, ?t')"
      unfolding list list_remove_group [OF ids [unfolded list]] .
    have "table_ok n ((ht_buckets t)[?i := new]) ?ps"
    proof (cases "g1 @ g2 = []")
      case True
      with groups_remove [OF gs [unfolded l(1)]] i ids list show ?thesis
        by (auto simp: table_ok_def new_def)
    next
      case False
      have "groups_ok n (gs1 @ (i, g1 @ g2) # gs2) ((ht_buckets t)[i := new]) ?ps"
        using groups_replace [OF gs [unfolded l(1)] False] hb g12 unfolding new_def if_not_P [OF False] by simp
      with i ids list show ?thesis by (auto simp: table_ok_def)
    qed
    moreover have ms: "mset (p # ?ps) = mset (ht_list t)" by (simp add: list)
    have dk: "distinct (map pair_key (p # ?ps))" using keys by (simp add: list)
    have "ht_map t = (ht_map ?t')(key \<mapsto> pair_value p)"
      using map_of_same_pairs [OF ms dk] p(2) by (simp add: ht_map_def)
    moreover have "ht_map ?t' key = None"
      using dk p(2) by (auto simp: ht_map_def map_of_eq_None_iff)
    ultimately have "ht_ok ?t'" "ht_map ?t' = (ht_map t)(key := None)"
      using n dk hash fresh size by (auto simp: ht_ok_def num_buckets_def list split: if_splits)
    with run p dom show ?thesis by auto
  qed
qed

lemma ht_size_card: "ht_ok t \<Longrightarrow> ht_size t = card (dom (ht_map t))"
  by (auto simp: ht_ok_def ht_map_def dom_map_of_conv_image_fst comp_def image_image distinct_card
    simp flip: set_map)

declare map_eq_conv [simp]

section \<open>The table as a finite map\<close>

text \<open>
  What the users of a table of strings rely on: \<open>look\<close> is the map that a state stands for,
  \<open>put\<close> succeeds while fewer keys are present than the last size of the table.
\<close>

datatype 'v map_op = Put string 'v | Del string

fun map_after :: "(string \<rightharpoonup> 'v) \<Rightarrow> 'v map_op list \<Rightarrow> string \<rightharpoonup> 'v" where
  "map_after m [] = m"
| "map_after m (Put k v # ops) = map_after (m(k \<mapsto> v)) ops"
| "map_after m (Del k # ops) = map_after (m(k := None)) ops"

locale string_map =
  fixes ok :: "'s \<Rightarrow> bool"
    and look :: "'s \<Rightarrow> string \<rightharpoonup> 'v"
    and count :: "'s \<Rightarrow> nat"
    and get :: "'s \<Rightarrow> string \<Rightarrow> 'v option option"
    and put :: "'s \<Rightarrow> string \<Rightarrow> 'v \<Rightarrow> 's option"
    and del :: "'s \<Rightarrow> string \<Rightarrow> (int \<times> 's) option"
  assumes count_law: "ok s \<Longrightarrow> count s = card (dom (look s))"
    and get_law: "ok s \<Longrightarrow> get s k = Some (look s k)"
    and put_law: "ok s \<Longrightarrow> count s < 1610612741 \<Longrightarrow>
        \<exists>s'. put s k v = Some s' \<and> ok s' \<and> look s' = (look s)(k \<mapsto> v)"
    and del_law: "ok s \<Longrightarrow> \<exists>r s'. del s k = Some (r, s') \<and> ok s' \<and>
        look s' = (look s)(k := None) \<and> (r = 0 \<longleftrightarrow> k \<in> dom (look s))"
    and finite_law: "finite (dom (look s))"
begin

lemma put_count:
  assumes "ok s" "ok s'" "look s' = (look s)(k \<mapsto> v)"
  shows "count s' \<le> Suc (count s)"
  using assms finite_law [of s] by (simp add: count_law card_insert_if)

lemma get_after_put:
  assumes "ok s" "count s < 1610612741"
  shows "\<exists>s'. put s k v = Some s' \<and> ok s' \<and> get s' j = (if j = k then Some (Some v) else get s j)"
proof -
  from put_law [OF assms] obtain s' where "put s k v = Some s'" "ok s'" "look s' = (look s)(k \<mapsto> v)" by blast
  with assms show ?thesis by (auto simp: get_law)
qed

lemma get_after_del:
  assumes "ok s"
  shows "\<exists>r s'. del s k = Some (r, s') \<and> ok s' \<and> get s' j = (if j = k then Some None else get s j)"
proof -
  from del_law [OF assms] obtain r s' where "del s k = Some (r, s')" "ok s'" "look s' = (look s)(k := None)" by blast
  with assms show ?thesis by (auto simp: get_law)
qed

text \<open>Several entries, put one after the other: the later ones win.\<close>

fun put_all :: "'s \<Rightarrow> (string \<times> 'v) list \<Rightarrow> 's option" where
  "put_all s [] = Some s"
| "put_all s ((k, v) # kvs) = Option.bind (put s k v) (\<lambda>s'. put_all s' kvs)"

lemma put_all_ok:
  assumes "ok s" "count s + length kvs \<le> 1610612741"
  shows "\<exists>s'. put_all s kvs = Some s' \<and> ok s' \<and> look s' = look s ++ map_of (rev kvs) \<and>
    count s' \<le> count s + length kvs"
  using assms
proof (induction kvs arbitrary: s)
  case (Cons kv kvs)
  obtain k v where kv: "kv = (k, v)" by fastforce
  from Cons.prems have "count s < 1610612741" by simp
  from put_law [OF Cons.prems(1) this, of k v] obtain s1
    where s1: "put s k v = Some s1" "ok s1" "look s1 = (look s)(k \<mapsto> v)" by blast
  have c: "count s1 \<le> Suc (count s)" by (rule put_count [OF Cons.prems(1) s1(2,3)])
  with Cons.prems have "count s1 + length kvs \<le> 1610612741" by simp
  from Cons.IH [OF s1(2) this] obtain s' where s': "put_all s1 kvs = Some s'" "ok s'"
    "look s' = look s1 ++ map_of (rev kvs)" "count s' \<le> count s1 + length kvs" by (elim exE conjE)
  have "look s1 = look s ++ [k \<mapsto> v]" by (simp add: s1(3))
  then have "look s' = look s ++ map_of (rev (kv # kvs))" by (simp add: kv s'(3) map_of_append)
  moreover have "put_all s (kv # kvs) = Some s'" by (simp add: kv s1(1) s'(1))
  moreover have "count s' \<le> count s + length (kv # kvs)" using c s'(4) by simp
  ultimately show ?case using s'(2) by (intro exI conjI)
qed simp

text \<open>Any sequence of the two changes, while there is room for every entry put.\<close>

fun run :: "'s \<Rightarrow> 'v map_op list \<Rightarrow> 's option" where
  "run s [] = Some s"
| "run s (Put k v # ops) = Option.bind (put s k v) (\<lambda>s'. run s' ops)"
| "run s (Del k # ops) = Option.bind (del s k) (\<lambda>(r, s'). run s' ops)"

lemma run_ok:
  assumes "ok s" "count s + length ops \<le> 1610612741"
  shows "\<exists>s'. run s ops = Some s' \<and> ok s' \<and> look s' = map_after (look s) ops"
  using assms
proof (induction ops arbitrary: s)
  case (Cons op ops)
  show ?case
  proof (cases op)
    case (Put k v)
    from Cons.prems have "count s < 1610612741" by simp
    from put_law [OF Cons.prems(1) this, of k v] obtain s1
      where s1: "put s k v = Some s1" "ok s1" "look s1 = (look s)(k \<mapsto> v)" by blast
    then have "count s1 + length ops \<le> 1610612741"
      using put_count [OF Cons.prems(1) s1(2,3)] Cons.prems(2) by simp
    from Cons.IH [OF s1(2) this] s1 Put show ?thesis by (simp del: fun_upd_apply)
  next
    case (Del k)
    from del_law [OF Cons.prems(1), of k] obtain r s1
      where s1: "del s k = Some (r, s1)" "ok s1" "look s1 = (look s)(k := None)" by blast
    have "card (dom (look s1)) \<le> card (dom (look s))"
      unfolding s1(3) by (rule card_mono [OF finite_law]) auto
    then have "count s1 + length ops \<le> 1610612741"
      using Cons.prems s1(2) by (simp add: count_law)
    from Cons.IH [OF s1(2) this] s1 Del show ?thesis by (simp del: fun_upd_apply)
  qed
qed simp

end

text \<open>A value is stored with the serial number of the call.\<close>

interpretation ht: string_map ht_ok ht_map ht_size hashtable_get "\<lambda>t k v. hashtable_set t k serial v" hashtable_del
proof
  show "ht_ok t \<Longrightarrow> ht_size t = card (dom (ht_map t))" for t :: "'a hashtable" by (rule ht_size_card)
  show "ht_ok t \<Longrightarrow> hashtable_get t k = Some (ht_map t k)" for t :: "'a hashtable" and k by (rule hashtable_get_ok)
  show "ht_ok t \<Longrightarrow> ht_size t < 1610612741 \<Longrightarrow>
      \<exists>t'. hashtable_set t k serial v = Some t' \<and> ht_ok t' \<and> ht_map t' = (ht_map t)(k \<mapsto> v)"
    for t :: "'a hashtable" and k v
  proof -
    assume "ht_ok t" "ht_size t < 1610612741"
    from hashtable_set_ok [OF this, of k serial v] show ?thesis by (elim exE conjE) (rule exI, intro conjI)
  qed
  show "ht_ok t \<Longrightarrow> \<exists>r t'. hashtable_del t k = Some (r, t') \<and> ht_ok t' \<and> ht_map t' = (ht_map t)(k := None) \<and>
      (r = 0) = (k \<in> dom (ht_map t))" for t :: "'a hashtable" and k
  proof -
    assume "ht_ok t"
    from hashtable_del_ok [OF this, of k] show ?thesis by (elim exE conjE) (intro exI conjI)
  qed
  show "finite (dom (ht_map t))" for t :: "'a hashtable" by (simp add: ht_map_def finite_dom_map_of)
qed

end
