(* ===== verification/Jansson_Value_Map.thy ===== *)
theory Jansson_Value_Map
  imports Jansson_Value Jansson_Hashtable_Map
begin

text \<open>
  Well-formed values, objects as finite maps (an instance of the contract of
  \<^verbatim>\<open>Jansson_Hashtable_Map\<close>), and what copying and comparing come to.
\<close>

section \<open>Well-formed values\<close>

lemma table_items_map [simp]: "table_items (map_hashtable f t) = map (\<lambda>(k, v). (k, f v)) (table_items t)"
  by (cases t) (simp add: table_items_def pair.map_sel)

lemma ht_size_map [simp]: "ht_size (map_hashtable f t) = ht_size t"
  by (cases t) simp

lemma table_items_set: "(k, v) \<in> set (table_items t) \<Longrightarrow> v \<in> set_hashtable t"
  by (cases t) (force simp: table_items_def pair.set_sel intro: pair.set_sel)

lemma ht_map_items: "ht_map t = map_of (table_items t)"
  by (simp add: ht_map_def table_items_def)

primrec json_ok :: "json \<Rightarrow> bool" where
  "json_ok JNull = True"
| "json_ok JTrue = True"
| "json_ok JFalse = True"
| "json_ok (JInteger i) = True"
| "json_ok (JReal d) = True"
| "json_ok (JString s) = True"
| "json_ok (JArray n xs) = (0 < n \<and> length xs \<le> n \<and> list_all id (map json_ok xs))"
| "json_ok (JObject t s) =
     (ht_ok t \<and> ht_size t \<le> 1610612741 \<and> list_all snd (table_items (map_hashtable json_ok t)))"

lemma json_ok_members:
  "json_ok (JArray n xs) \<longleftrightarrow> 0 < n \<and> length xs \<le> n \<and> (\<forall>x \<in> set xs. json_ok x)"
  "json_ok (JObject t s) \<longleftrightarrow> ht_ok t \<and> ht_size t \<le> 1610612741 \<and> (\<forall>(k, v) \<in> set (table_items t). json_ok v)"
  by (auto simp: list_all_iff)

section \<open>Objects as maps\<close>

definition obj_ok :: "json \<Rightarrow> bool" where
  "obj_ok json = (case json of JObject t s \<Rightarrow> ht_ok t | _ \<Rightarrow> False)"

definition obj_map :: "json \<Rightarrow> string \<rightharpoonup> json" where
  "obj_map json = (case json of JObject t s \<Rightarrow> ht_map t | _ \<Rightarrow> Map.empty)"

definition obj_put :: "json \<Rightarrow> string \<Rightarrow> json \<Rightarrow> json option" where
  "obj_put json k v = map_option snd (json_object_set_new_nocheck json (Some k) (Some v))"

lemma obj_cases:
  assumes "obj_ok json"
  obtains t s where "json = JObject t s" "ht_ok t"
  using assms by (cases json) (simp_all add: obj_ok_def)

lemma object_set_ok:
  assumes "obj_ok json" "json_object_size json < 1610612741"
  shows "\<exists>json'. json_object_set_new_nocheck json (Some k) (Some v) = Some (0, json') \<and> obj_ok json' \<and>
    obj_map json' = (obj_map json)(k \<mapsto> v)"
proof -
  from assms(1) obtain t s where j: "json = JObject t s" "ht_ok t" by (rule obj_cases)
  with assms(2) have "ht_size t < 1610612741" by (simp add: json_object_size_def)
  from ht.put_law [OF j(2) this, of k s v] obtain t' where "hashtable_set t k s v = Some t'" "ht_ok t'"
    "ht_map t' = (ht_map t)(k \<mapsto> v)" by (elim exE conjE)
  with j(1) show ?thesis by (simp add: json_object_set_new_nocheck_def obj_ok_def obj_map_def)
qed

interpretation obj: string_map obj_ok obj_map json_object_size json_object_get obj_put json_object_del
proof
  fix json :: json and k v
  show "finite (dom (obj_map json))" by (cases json) (simp_all add: obj_map_def ht.finite_law)
  assume ok: "obj_ok json"
  then obtain t s where j: "json = JObject t s" "ht_ok t" by (rule obj_cases)
  show "json_object_size json = card (dom (obj_map json))"
    using j by (simp add: json_object_size_def obj_map_def ht.count_law)
  show "json_object_get json k = Some (obj_map json k)"
    using j by (simp add: json_object_get_def obj_map_def ht.get_law)
  from ht.del_law [OF j(2), of k] obtain r t' where "hashtable_del t k = Some (r, t')" "ht_ok t'"
    "ht_map t' = (ht_map t)(k := None)" "(r = 0) = (k \<in> dom (ht_map t))" by (elim exE conjE)
  then show "\<exists>r json'. json_object_del json k = Some (r, json') \<and> obj_ok json' \<and>
      obj_map json' = (obj_map json)(k := None) \<and> (r = 0) = (k \<in> dom (obj_map json))"
    using j(1) by (simp add: json_object_del_def obj_ok_def obj_map_def)
  assume "json_object_size json < 1610612741"
  from object_set_ok [OF ok this, of k v] show "\<exists>json'. obj_put json k v = Some json' \<and> obj_ok json' \<and>
      obj_map json' = (obj_map json)(k \<mapsto> v)" by (elim exE conjE) (simp add: obj_put_def)
qed

lemma set_nocheck_put:
  "obj_ok json \<Longrightarrow> json_object_set_new_nocheck json (Some k) (Some v) =
     (case obj_put json k v of None \<Rightarrow> None | Some json' \<Rightarrow> Some (0, json'))"
  by (cases json) (auto simp: obj_ok_def obj_put_def json_object_set_new_nocheck_def split: bind_split)

lemma obj_put_object: "obj_put json k v = Some json' \<Longrightarrow> obj_ok json \<Longrightarrow> \<exists>t s. json' = JObject t s"
  by (cases json) (auto simp: obj_put_def obj_ok_def json_object_set_new_nocheck_def split: bind_split_asm)

text \<open>The loops over the entries of another object are \<open>put_all\<close>.\<close>

lemma update_items_ok:
  assumes "obj_ok json" "json_object_size json + length kvs \<le> 1610612741"
  shows "\<exists>json'. update_items json kvs = Some (0, json') \<and> copy_items json kvs = Some json' \<and>
    obj_ok json' \<and> obj_map json' = obj_map json ++ map_of (rev kvs) \<and>
    json_object_size json' \<le> json_object_size json + length kvs"
proof -
  have "update_items json kvs = Some (0, json') \<and> copy_items json kvs = Some json'"
    if "obj.put_all json kvs = Some json'" for json'
    using that assms
  proof (induction kvs arbitrary: json)
    case (Cons kv kvs)
    obtain k v where kv: "kv = (k, v)" by fastforce
    with Cons.prems(1) obtain json1 where j: "obj_put json k v = Some json1" "obj.put_all json1 kvs = Some json'"
      by (auto simp: bind_eq_Some_conv)
    from Cons.prems have c: "json_object_size json < 1610612741" by simp
    from obj.put_law [OF Cons.prems(2) c, of k v] j(1) have o1: "obj_ok json1" "obj_map json1 = (obj_map json)(k \<mapsto> v)"
      by auto
    with obj.put_count [OF Cons.prems(2) o1] Cons.prems(3) have "json_object_size json1 + length kvs \<le> 1610612741" by simp
    from Cons.IH [OF j(2) o1(1) this] show ?case
      using j(1) Cons.prems(2) by (simp add: kv set_nocheck_put)
  qed simp
  moreover from obj.put_all_ok [OF assms] obtain json' where "obj.put_all json kvs = Some json'"
    "obj_ok json'" "obj_map json' = obj_map json ++ map_of (rev kvs)"
    "json_object_size json' \<le> json_object_size json + length kvs" by (elim exE conjE)
  ultimately show ?thesis by (intro exI conjI) simp_all
qed

lemma items_map: "ht_ok t \<Longrightarrow> distinct (map fst (table_items t))"
  by (simp add: ht_ok_def table_items_def comp_def)

lemma items_size: "ht_ok t \<Longrightarrow> length (table_items t) = ht_size t"
  by (simp add: ht_ok_def table_items_def)

lemma map_of_rev_distinct: "distinct (map fst kvs) \<Longrightarrow> map_of (rev kvs) = map_of kvs"
  by (rule map_of_inject_set [THEN iffD2]) (simp_all add: rev_map [symmetric])

theorem json_object_update_ok:
  assumes "obj_ok json" "obj_ok other" "json_object_size json + json_object_size other \<le> 1610612741"
  shows "\<exists>json'. json_object_update json other = Some (0, json') \<and> obj_ok json' \<and>
    obj_map json' = obj_map json ++ obj_map other"
proof -
  from assms(1) obtain t s where j: "json = JObject t s" "ht_ok t" by (rule obj_cases)
  from assms(2) obtain t' s' where o: "other = JObject t' s'" "ht_ok t'" by (rule obj_cases)
  have "json_object_size json + length (object_items other) \<le> 1610612741"
    using assms(3) o by (simp add: json_object_size_def object_items_def items_size)
  from update_items_ok [OF assms(1) this] obtain json' where "update_items json (object_items other) = Some (0, json')"
    "obj_ok json'" "obj_map json' = obj_map json ++ map_of (rev (object_items other))" by (elim exE conjE)
  moreover have "map_of (rev (object_items other)) = obj_map other"
    using o by (simp add: object_items_def map_of_rev_distinct items_map obj_map_def ht_map_items)
  ultimately show ?thesis using j(1) o(1) by (simp add: json_object_update_def json_is_object_def)
qed

section \<open>Copies are equal\<close>

primrec no_nan :: "json \<Rightarrow> bool" where
  "no_nan JNull = True"
| "no_nan JTrue = True"
| "no_nan JFalse = True"
| "no_nan (JInteger i) = True"
| "no_nan (JReal d) = (\<not> is_nan d)"
| "no_nan (JString s) = True"
| "no_nan (JArray n xs) = list_all id (map no_nan xs)"
| "no_nan (JObject t s) = list_all snd (table_items (map_hashtable no_nan t))"

lemma append_ok:
  assumes "json_ok (JArray n xs)" "json_ok x"
  shows "\<exists>n'. json_array_append_new (JArray n xs) (Some x) = Some (0, JArray n' (xs @ [x])) \<and>
    json_ok (JArray n' (xs @ [x]))"
  using assms by (auto simp: json_array_append_new_def json_array_grow_def Let_def)

lemma deep_append_ok:
  assumes "json_ok (JArray n ys)" and "list_all2 (\<lambda>c y. c = Some y \<and> json_ok y) cs zs"
  shows "\<exists>n'. deep_append_all (JArray n ys) cs = Some (JArray n' (ys @ zs)) \<and> json_ok (JArray n' (ys @ zs))"
  using assms(2,1)
proof (induction arbitrary: n ys rule: list_all2_induct)
  case (Cons c cs z zs)
  then have z: "c = Some z" "json_ok z" by simp_all
  from append_ok [OF Cons.prems z(2)] obtain n1 where "json_array_append_new (JArray n ys) (Some z) =
      Some (0, JArray n1 (ys @ [z]))" "json_ok (JArray n1 (ys @ [z]))" by blast
  with Cons.IH [OF this(2)] z(1) show ?case by auto
qed simp

lemma deep_items_eq:
  "list_all2 (\<lambda>(k, c) (k', v). k = k' \<and> c = Some v) cs kvs \<Longrightarrow> deep_copy_items json cs = copy_items json kvs"
proof (induction arbitrary: json rule: list_all2_induct)
  case (Cons c cs kv kvs)
  then show ?case by (cases kv) (auto simp: Cons.IH)
qed simp


lemma equal_items_ok:
  assumes "ht_ok t2" and "\<And>k v. (k, v) \<in> set kvs \<Longrightarrow> \<exists>w. ht_map t2 k = Some w \<and> eq v w = Some True"
  shows "equal_items (map (\<lambda>(k, v). (k, eq v)) kvs) t2 = Some True"
  using assms(2)
proof (induction kvs)
  case (Cons kv kvs)
  obtain k v where kv: "kv = (k, v)" by fastforce
  with Cons.prems [of k v] obtain w where "ht_map t2 k = Some w" "eq v w = Some True" by auto
  with Cons ht.get_law [OF assms(1), of k] kv show ?case by simp
qed simp

lemma equal_entries_ok:
  "list_all2 (\<lambda>x y. eq x y = Some True) xs ys \<Longrightarrow> json_array_equal (map eq xs) ys = Some True"
proof -
  assume l: "list_all2 (\<lambda>x y. eq x y = Some True) xs ys"
  then have "equal_entries (map eq xs) ys = Some True" by (induction rule: list_all2_induct) simp_all
  with list_all2_lengthD [OF l] show ?thesis by (simp add: json_array_equal_def)
qed

lemma empty_object: "obj_ok json_object" "json_object_size json_object = 0" "obj_map json_object = Map.empty"
  by (simp_all add: obj_ok_def obj_map_def json_object_size_def json_object_def hashtable_init_ok)
    (simp add: hashtable_init_def)

lemma copy_object_ok:
  assumes t: "ht_ok t" "ht_size t \<le> 1610612741"
    and items: "kvs = map (\<lambda>(k, v). (k, g v)) (table_items t)"
    and ok: "\<And>k v. (k, v) \<in> set (table_items t) \<Longrightarrow> json_ok (g v)"
  shows "\<exists>t' s'. copy_items json_object kvs = Some (JObject t' s') \<and> json_ok (JObject t' s') \<and>
    ht_size t' = ht_size t \<and> ht_map t' = map_of kvs"
proof -
  have fst: "map fst kvs = map fst (table_items t)" by (simp add: items comp_def case_prod_unfold)
  have d: "distinct (map fst kvs)" using items_map [OF t(1)] by (simp add: fst)
  have len: "length kvs = ht_size t" using items_size [OF t(1)] by (simp add: items)
  note o = empty_object
  have "json_object_size json_object + length kvs \<le> 1610612741" using o len t(2) by simp
  from update_items_ok [OF o(1) this] obtain json' where c: "copy_items json_object kvs = Some json'"
    "obj_ok json'" "obj_map json' = obj_map json_object ++ map_of (rev kvs)" by (elim exE conjE)
  from c(2) obtain t' s' where j: "json' = JObject t' s'" "ht_ok t'" by (rule obj_cases)
  have m: "ht_map t' = map_of kvs" using c(3) j(1) o(3) d by (simp add: obj_map_def map_of_rev_distinct)
  have "dom (map_of kvs) = fst ` set kvs" by (rule dom_map_of_conv_image_fst)
  moreover have "card (fst ` set kvs) = length kvs" using distinct_card [OF d] by simp
  ultimately have s: "ht_size t' = ht_size t" using ht.count_law [OF j(2)] m len by simp
  have "json_ok v" if "(k, v) \<in> set (table_items t')" for k v
  proof -
    have "ht_map t' k = Some v" using that items_map [OF j(2)] by (simp add: ht_map_items)
    then have "(k, v) \<in> set kvs" by (simp add: m map_of_SomeD)
    with ok show ?thesis by (auto simp: items)
  qed
  then have "json_ok (JObject t' s')" unfolding json_ok_members using j(2) s t(2) by auto
  with c(1) j(1) s m show ?thesis by auto
qed

lemma deep_copy_ok:
  "json_ok json \<Longrightarrow> \<exists>copy. deep_copy_of json = Some copy \<and> json_ok copy \<and>
     (no_nan json \<longrightarrow> json_equal_to json copy = Some True)"
proof (induction json)
  case (JArray n xs)
  let ?zs = "map (\<lambda>x. the (deep_copy_of x)) xs"
  have m: "\<exists>copy. deep_copy_of x = Some copy \<and> json_ok copy \<and> (no_nan x \<longrightarrow> json_equal_to x copy = Some True)"
    if "x \<in> set xs" for x using JArray.IH [OF that] JArray.prems that unfolding json_ok_members by blast
  have "list_all2 (\<lambda>c y. c = Some y \<and> json_ok y) (map deep_copy_of xs) ?zs"
    by (auto simp: list_all2_map1 list_all2_map2 intro!: list.rel_refl_strong dest!: m)
  from deep_append_ok [OF _ this, of 8 "[]"] obtain n' where
    c: "deep_copy_of (JArray n xs) = Some (JArray n' ?zs)" "json_ok (JArray n' ?zs)"
    by (auto simp: json_array_def)
  have "list_all2 (\<lambda>x y. json_equal_to x y = Some True) xs ?zs" if "no_nan (JArray n xs)"
    using that m by (fastforce simp: list_all2_conv_all_nth list_all_iff dest!: nth_mem)
  with c show ?case using equal_entries_ok by auto
next
  case (JObject t s)
  let ?kvs = "map (\<lambda>(k, v). (k, the (deep_copy_of v))) (table_items t)"
  from JObject.prems have t: "ht_ok t" "ht_size t \<le> 1610612741"
    and ok: "\<And>k v. (k, v) \<in> set (table_items t) \<Longrightarrow> json_ok v" unfolding json_ok_members by auto
  have m: "\<exists>copy. deep_copy_of v = Some copy \<and> json_ok copy \<and> (no_nan v \<longrightarrow> json_equal_to v copy = Some True)"
    if "(k, v) \<in> set (table_items t)" for k v using JObject.IH [OF table_items_set [OF that]] ok [OF that] by blast
  have g: "json_ok (the (deep_copy_of v))" if "(k, v) \<in> set (table_items t)" for k v using m [OF that] by auto
  obtain t' s' where
    c: "copy_items json_object ?kvs = Some (JObject t' s')" "json_ok (JObject t' s')"
      "ht_size t' = ht_size t" "ht_map t' = map_of ?kvs"
    using copy_object_ok [OF t refl, of "\<lambda>v. the (deep_copy_of v)"] g by blast
  have "list_all2 (\<lambda>(k, c) (k', v). k = k' \<and> c = Some v) (map (\<lambda>(k, v). (k, deep_copy_of v)) (table_items t)) ?kvs"
    by (auto simp: list_all2_map1 list_all2_map2 intro!: list.rel_refl_strong dest!: m)
  from deep_items_eq [OF this] c(1) have d: "deep_copy_of (JObject t s) = Some (JObject t' s')" by simp
  have "json_equal_to (JObject t s) (JObject t' s') = Some True" if n: "no_nan (JObject t s)"
  proof -
    have "\<exists>w. ht_map t' k = Some w \<and> json_equal_to v w = Some True" if "(k, v) \<in> set (table_items t)" for k v
    proof -
      from n that have "no_nan v" by (auto simp: list_all_iff)
      moreover have "ht_map t' k = Some (the (deep_copy_of v))"
        unfolding c(4) using that items_map [OF t(1)]
        by (intro map_of_is_SomeI) (force simp: comp_def case_prod_unfold)+
      ultimately show ?thesis using m [OF that] by auto
    qed
    moreover have "ht_ok t'" using c(2) by simp
    ultimately show ?thesis
      using equal_items_ok [of t' "table_items t" json_equal_to] c(3) by (simp add: json_object_equal_def)
  qed
  with d c(2) show ?case by blast
qed (simp_all add: json_integer_def json_real_def json_string_nocheck_def double_eq_def)


section \<open>A sequence of changes to an object\<close>

fun object_run :: "json \<Rightarrow> json map_op list \<Rightarrow> json option" where
  "object_run json [] = Some json"
| "object_run json (Put k v # ops) = do {
     (r, json') \<leftarrow> json_object_set_new_nocheck json (Some k) (Some v);
     object_run json' ops
   }"
| "object_run json (Del k # ops) = do { (r, json') \<leftarrow> json_object_del json k; object_run json' ops }"

lemma object_run_eq: "object_run json ops = obj.run json ops"
proof (induction ops arbitrary: json)
  case (Cons op ops)
  show ?case
  proof (cases op)
    case (Put k v)
    with Cons show ?thesis by (cases "json_object_set_new_nocheck json (Some k) (Some v)") (auto simp: obj_put_def [of json])
  next
    case (Del k)
    with Cons show ?thesis by (cases "json_object_del json k") auto
  qed
qed simp

section \<open>Updates keep values well-formed\<close>

lemma json_array_remove_ok:
  assumes "json_ok (JArray n xs)"
  shows "json_array_remove (JArray n xs) i =
    (if i \<ge> length xs then Some (-1, JArray n xs)
     else if length xs = n then None
     else Some (0, JArray n (take i xs @ drop (i + 1) xs)))"
  using assms by (auto simp: json_array_remove_def)

lemma items_in_map: "ht_ok t \<Longrightarrow> (k, v) \<in> set (table_items t) \<longleftrightarrow> ht_map t k = Some v"
  by (simp add: ht_map_items items_map map_of_eq_Some_iff)

lemma json_ok_object_map:
  "json_ok (JObject t s) \<longleftrightarrow> ht_ok t \<and> ht_size t \<le> 1610612741 \<and> (\<forall>v \<in> ran (ht_map t). json_ok v)"
  unfolding json_ok_members by (simp add: items_in_map ran_def split_beta Ball_def cong: conj_cong) blast

declare json_ok.simps(8) [simp del]

text \<open>One call that changes a value, with well-formed arguments.\<close>

inductive json_update :: "json \<Rightarrow> json \<Rightarrow> bool" where
  object_set: "json_object_set_new_nocheck j k v = Some (r, j') \<Longrightarrow> pred_option json_ok v \<Longrightarrow>
     json_object_size j < 1610612741 \<Longrightarrow> json_update j j'"
| object_del: "json_object_del j k = Some (r, j') \<Longrightarrow> json_update j j'"
| array_set: "json_array_set_new j i v = (r, j') \<Longrightarrow> pred_option json_ok v \<Longrightarrow> json_update j j'"
| array_append: "json_array_append_new j v = Some (r, j') \<Longrightarrow> pred_option json_ok v \<Longrightarrow> json_update j j'"
| array_insert: "json_array_insert_new j i v = Some (r, j') \<Longrightarrow> pred_option json_ok v \<Longrightarrow> json_update j j'"
| array_remove: "json_array_remove j i = Some (r, j') \<Longrightarrow> json_update j j'"
| array_clear: "json_array_clear j = (r, j') \<Longrightarrow> json_update j j'"
| array_extend: "json_array_extend j j2 = Some (r, j') \<Longrightarrow> json_ok j2 \<Longrightarrow> json_update j j'"
| string_set: "json_string_set_nocheck j s = (r, j') \<Longrightarrow> json_update j j'"
| integer_set: "json_integer_set j i = (r, j') \<Longrightarrow> json_update j j'"
| real_set: "json_real_set j d = (r, j') \<Longrightarrow> json_update j j'"

lemma object_set_json_ok:
  assumes "json_ok j" "json_object_set_new_nocheck j k v = Some (r, j')" "pred_option json_ok v"
    "json_object_size j < 1610612741"
  shows "json_ok j'"
proof (cases "j' = j")
  case False
  with assms(2) obtain t s k' v' t' where e: "j = JObject t s" "k = Some k'" "v = Some v'"
    "hashtable_set t k' s v' = Some t'" "j' = JObject t' (s + 1)"
    by (auto simp: json_object_set_new_nocheck_def bind_eq_Some_conv split: option.splits json.splits)
  from e assms(1,4) have t: "ht_ok t" "ht_size t < 1610612741"
    by (auto simp: json_object_size_def json_ok_object_map)
  from ht.put_law [OF t, of k' s v'] e(4) have t': "ht_ok t'" "ht_map t' = (ht_map t)(k' \<mapsto> v')" by auto
  moreover from ht.put_count [OF t(1) t'] t(2) have "ht_size t' \<le> 1610612741" by simp
  ultimately show ?thesis
    using assms(1,3) e unfolding e(5) json_ok_object_map by (auto simp: json_ok_object_map ran_def split: if_splits)
qed (use assms in simp)

lemma object_del_json_ok:
  assumes "json_ok j" "json_object_del j k = Some (r, j')"
  shows "json_ok j'"
proof (cases j)
  case (JObject t s)
  with assms obtain t' where t: "ht_ok t" "hashtable_del t k = Some (r, t')" "j' = JObject t' s"
    by (auto simp: json_object_del_def bind_eq_Some_conv json_ok_object_map)
  from ht.del_law [OF t(1), of k] t(2) have t': "ht_ok t'" "ht_map t' = (ht_map t)(k := None)" by auto
  have "card (dom (ht_map t')) \<le> card (dom (ht_map t))"
    unfolding t' by (rule card_mono) (auto simp: ht.finite_law)
  with t' assms(1) JObject t(3) ht.count_law [OF t(1)] ht.count_law [OF t'(1)] show ?thesis
    unfolding t(3) json_ok_object_map by (auto simp: json_ok_object_map ran_def split: if_splits)
qed (use assms in \<open>auto simp: json_object_del_def\<close>)

lemmas array_update_defs = json_array_set_new_def json_array_append_new_def json_array_insert_new_def
  json_array_remove_def json_array_clear_def json_array_extend_def json_array_grow_def

lemma json_update_ok: "json_update j j' \<Longrightarrow> json_ok j \<Longrightarrow> json_ok j'"
proof (induction rule: json_update.induct)
  case (object_set j k v r j')
  then show ?case using object_set_json_ok by blast
next
  case (object_del j k r j')
  then show ?case using object_del_json_ok by blast
next
  case (array_set j i v r j')
  then show ?case
    by (cases j; cases v) (auto simp: array_update_defs list_all_iff dest!: subsetD [OF set_update_subset_insert]
      split: if_splits)
next
  case (array_append j v r j')
  then show ?case by (cases j; cases v) (auto simp: array_update_defs Let_def bind_eq_Some_conv)
next
  case (array_insert j i v r j')
  then show ?case
    by (cases j; cases v) (auto simp: array_update_defs Let_def bind_eq_Some_conv list_all_iff
      dest!: in_set_takeD in_set_dropD split: if_splits)
next
  case (array_remove j i r j')
  then show ?case
    by (cases j) (auto simp: array_update_defs bind_eq_Some_conv list_all_iff
      dest!: in_set_takeD in_set_dropD split: if_splits)
next
  case (array_clear j r j')
  then show ?case by (cases j) (auto simp: array_update_defs)
next
  case (array_extend j j2 r j')
  then show ?case
    by (cases j; cases j2) (auto simp: array_update_defs Let_def bind_eq_Some_conv split: if_splits)
next
  case (string_set j s r j')
  then show ?case by (cases j; cases s) (auto simp: json_string_set_nocheck_def)
next
  case (integer_set j i r j')
  then show ?case by (cases j) (auto simp: json_integer_set_def)
next
  case (real_set j d r j')
  then show ?case by (cases j) (auto simp: json_real_set_def)
qed

end
