(* ===== verification/Jansson_Text.thy ===== *)
theory Jansson_Text
  imports Jansson_Dump Jansson_Value_Map "HOL-Library.Sublist"
begin

text \<open>
  What \<^verbatim>\<open>json_dumps\<close> returns: the text that the pieces make up. The contract of a callback
  that collects its pieces is a locale; the string buffer fulfils it, and so does the plain
  text, which serves as the specification.
\<close>

section \<open>Tables of other values\<close>

lemma ht_list_map: "ht_list (map_hashtable f t) = map (map_pair f) (ht_list t)"
  by (cases t) simp

lemma find_walk_map:
  "find_walk a k h (map (map_pair f) ps) = map_option (map_option (map_pair f)) (find_walk a k h ps)"
  by (induction ps) (auto simp: pair.map_sel)

lemma find_walk_in: "find_walk a k h ps = Some (Some p) \<Longrightarrow> p \<in> set ps"
  by (induction ps) (auto split: if_splits)

lemma hashtable_get_map:
  "hashtable_get (map_hashtable f t) k = map_option (map_option f) (hashtable_get t k)"
proof -
  have "num_buckets (map_hashtable f t) = num_buckets t" "ht_buckets (map_hashtable f t) = ht_buckets t"
    by (cases t; simp add: num_buckets_def)+
  moreover have "hashtable_find_pair (map_hashtable f t) b k h =
      map_option (map_option (map_pair f)) (hashtable_find_pair t b k h)" for b h
    by (auto simp: hashtable_find_pair_def ht_list_map dropWhile_map comp_def pair.map_sel find_walk_map
      split: option.splits)
  ultimately show ?thesis
    by (auto simp: hashtable_get_def option.map_comp comp_def pair.map_sel map_option_case
      split: bind_split option.splits)
qed

lemma hashtable_get_in:
  assumes "hashtable_get t k = Some (Some v)"
  obtains p where "p \<in> set (ht_list t)" "v = pair_value p"
  using assms
  by (auto simp: hashtable_get_def hashtable_find_pair_def bind_eq_Some_conv split: option.splits
    dest!: find_walk_in set_dropWhileD)

section \<open>The contract of a collecting callback\<close>

definition append_text :: "string callback" where
  "append_text piece text = Some (0, text @ piece)"

lemma dump_chunks_invalid: "scan_plain ascii [] str = None \<Longrightarrow> dump_chunks ascii dump str = (\<lambda>s. Some (-1, s))"
  by (simp add: fun_eq_iff dump_chunks.simps)

lemma dump_chunks_scanned:
  "scan_plain ascii [] str = Some (plain, esc) \<Longrightarrow>
   dump_chunks ascii dump str = (\<lambda>s. and_then (if plain \<noteq> [] then dump plain s else Some (0, s)) (\<lambda>s.
     case esc of None \<Rightarrow> dump [CHR 0x22] s
     | Some (codepoint, rest) \<Rightarrow> and_then (dump (escape_text codepoint) s) (\<lambda>s. dump_chunks ascii dump rest s)))"
  by (simp add: fun_eq_iff dump_chunks.simps [of _ dump str])

locale text_sink =
  fixes dump :: "'s callback"
    and valid :: "'s \<Rightarrow> bool"
    and out :: "'s \<Rightarrow> string"
    and cap :: nat
  assumes dump_law: "valid s \<Longrightarrow> length (out s) + length piece \<le> cap \<Longrightarrow>
    \<exists>s'. dump piece s = Some (0, s') \<and> valid s' \<and> out s' = out s @ piece"
begin

text \<open>
  A writer to the sink simulates a writer of text, which only adds text: as long as the text
  fits, the sink holds it, with the same result.
\<close>

definition sim :: "('s \<Rightarrow> (int \<times> 's) option) \<Rightarrow> (string \<Rightarrow> (int \<times> string) option) \<Rightarrow> bool" where
  "sim f h \<longleftrightarrow>
     (\<forall>t0 r t. h t0 = Some (r, t) \<longrightarrow> prefix t0 t) \<and>
     (\<forall>s r t. valid s \<longrightarrow> h (out s) = Some (r, t) \<longrightarrow> length t \<le> cap \<longrightarrow>
        (\<exists>s'. f s = Some (r, s') \<and> valid s' \<and> out s' = t))"

definition sim_writer :: "'s writer \<Rightarrow> string writer \<Rightarrow> bool" where
  "sim_writer v w \<longleftrightarrow> (\<forall>depth. sim (v depth) (w depth))"

lemma sim_dump: "sim (dump piece) (append_text piece)"
  using dump_law by (fastforce simp: sim_def append_text_def)

lemma sim_const: "sim (\<lambda>s. Some (r, s)) (\<lambda>s. Some (r, s))"
  by (simp add: sim_def)

lemma sim_none: "sim (\<lambda>s. None) (\<lambda>s. None)"
  by (simp add: sim_def)

lemma sim_if:
  "(b \<Longrightarrow> sim f h) \<Longrightarrow> (\<not> b \<Longrightarrow> sim f' h') \<Longrightarrow>
   sim (\<lambda>s. if b then f s else f' s) (\<lambda>s. if b then h s else h' s)"
  by (cases b) simp_all

lemma sim_prefix: "sim f h \<Longrightarrow> h t0 = Some (r, t) \<Longrightarrow> prefix t0 t"
  by (simp add: sim_def)

lemma sim_run:
  assumes "sim f h" "valid s" "h (out s) = Some (r, t)" "length t \<le> cap"
  obtains s' where "f s = Some (r, s')" "valid s'" "out s' = t"
proof -
  from assms(1) have "\<forall>s r t. valid s \<longrightarrow> h (out s) = Some (r, t) \<longrightarrow> length t \<le> cap \<longrightarrow>
    (\<exists>s'. f s = Some (r, s') \<and> valid s' \<and> out s' = t)" by (simp add: sim_def)
  with assms(2-4) that show thesis by blast
qed

lemma sim_bind:
  assumes f: "sim f h" and k: "\<And>r. sim (k r) (l r)"
  shows "sim (\<lambda>s. Option.bind (f s) (\<lambda>(r, s). k r s)) (\<lambda>t. Option.bind (h t) (\<lambda>(r, t). l r t))"
proof -
  have "prefix t0 t" if b: "Option.bind (h t0) (\<lambda>(r, t). l r t) = Some (r, t)" for t0 r t
  proof -
    from b obtain r1 t1 where "h t0 = Some (r1, t1)" "l r1 t1 = Some (r, t)" by (auto simp: bind_eq_Some_conv)
    with sim_prefix [OF f] sim_prefix [OF k] show ?thesis by (metis prefix_order.trans)
  qed
  moreover have "\<exists>s'. Option.bind (f s) (\<lambda>(r, s). k r s) = Some (r, s') \<and> valid s' \<and> out s' = t"
    if s: "valid s" and r: "Option.bind (h (out s)) (\<lambda>(r, t). l r t) = Some (r, t)" and len: "length t \<le> cap" for s r t
  proof -
    from r obtain r1 t1 where h: "h (out s) = Some (r1, t1)" and l: "l r1 t1 = Some (r, t)"
      by (auto simp: bind_eq_Some_conv)
    from sim_prefix [OF k l] len have "length t1 \<le> cap" using prefix_length_le by fastforce
    with f s h obtain s1 where s1: "f s = Some (r1, s1)" "valid s1" "out s1 = t1" by (rule sim_run)
    from l have "l r1 (out s1) = Some (r, t)" by (simp add: s1(3))
    with k s1(2) obtain s' where "k r1 s1 = Some (r, s')" "valid s'" "out s' = t" using len by (rule sim_run)
    with s1(1) show ?thesis by simp
  qed
  ultimately show ?thesis by (simp add: sim_def)
qed

lemma sim_and_then:
  assumes "sim f h" and "sim k l"
  shows "sim (\<lambda>s. and_then (f s) k) (\<lambda>t. and_then (h t) l)"
  unfolding and_then_def by (intro sim_bind sim_if sim_const assms)

lemma sim_indent_loop: "sim (indent_loop dump n depth) (indent_loop append_text n depth)"
proof (induction depth)
  case 0
  then show ?case using sim_const [of 0] by simp
next
  case (Suc depth)
  from sim_and_then [OF sim_dump Suc] show ?case by simp
qed

lemma sim_dump_indent: "sim (dump_indent flags depth space dump) (dump_indent flags depth space append_text)"
  unfolding dump_indent_def by (intro sim_if sim_and_then sim_indent_loop sim_dump sim_const)

lemma sim_dump_chunks: "sim (dump_chunks ascii dump str) (dump_chunks ascii append_text str)"
proof (induction "length str" arbitrary: str rule: less_induct)
  case less
  show ?case
  proof (cases "scan_plain ascii [] str")
    case None
    then show ?thesis using sim_const [of "-1"] by (simp add: dump_chunks_invalid)
  next
    case (Some a)
    then obtain plain esc where a: "scan_plain ascii [] str = Some (plain, esc)" by (cases a) simp
    have 1: "sim (\<lambda>s. if plain \<noteq> [] then dump plain s else Some (0, s))
        (\<lambda>s. if plain \<noteq> [] then append_text plain s else Some (0, s))"
      by (intro sim_if sim_dump sim_const)
    have 2: "sim (\<lambda>s. case esc of None \<Rightarrow> dump [CHR 0x22] s
          | Some (codepoint, rest) \<Rightarrow> and_then (dump (escape_text codepoint) s) (\<lambda>s. dump_chunks ascii dump rest s))
        (\<lambda>s. case esc of None \<Rightarrow> append_text [CHR 0x22] s
          | Some (codepoint, rest) \<Rightarrow>
              and_then (append_text (escape_text codepoint) s) (\<lambda>s. dump_chunks ascii append_text rest s))"
    proof (cases esc)
      case (Some b)
      then obtain cp rest where b: "esc = Some (cp, rest)" by (cases b) simp
      with a have "length rest < length str" using scan_plain_shorter by blast
      from sim_and_then [OF sim_dump less [OF this]] b show ?thesis by simp
    qed (use sim_dump in simp)
    from sim_and_then [OF 1 2] show ?thesis by (simp add: dump_chunks_scanned [OF a])
  qed
qed

lemma sim_dump_string: "sim (dump_string str ascii dump) (dump_string str ascii append_text)"
  unfolding dump_string_def by (rule sim_and_then [OF sim_dump sim_dump_chunks])

lemma sim_dump_entries:
  "list_all2 sim_writer vs ws \<Longrightarrow>
   sim (dump_entries flags depth dump vs) (dump_entries flags depth append_text ws)"
proof (induction rule: list_all2_induct)
  case Nil
  then show ?case using sim_const [of 0] by simp
next
  case (Cons v vs w ws)
  have e: "vs = [] \<longleftrightarrow> ws = []" using Cons.hyps(2) by auto
  have "sim (\<lambda>s. if vs \<noteq> [] then and_then (dump '','' s) (dump_indent flags (depth + 1) True dump)
       else dump_indent flags depth False dump s)
     (\<lambda>s. if ws \<noteq> [] then and_then (append_text '','' s) (dump_indent flags (depth + 1) True append_text)
       else dump_indent flags depth False append_text s)"
    unfolding e by (intro sim_if sim_and_then sim_dump sim_dump_indent)
  from sim_and_then [OF _ sim_and_then [OF this Cons.IH], of "v (depth + 1)" "w (depth + 1)"] Cons.hyps(1)
  show ?case by (simp add: sim_writer_def)
qed

lemma sim_dump_members:
  "list_all2 (\<lambda>(k, v) (k', w). k = k' \<and> rel_option sim_writer v w) ms ns \<Longrightarrow>
   sim (dump_members flags depth dump ms) (dump_members flags depth append_text ns)"
proof (induction rule: list_all2_induct)
  case Nil
  then show ?case using sim_const [of 0] by simp
next
  case (Cons m ms n ns)
  obtain k v k' w where kv: "m = (k, v)" "n = (k', w)" by fastforce
  with Cons.hyps(1) have rel: "k' = k" "rel_option sim_writer v w" by auto
  have e: "ms = [] \<longleftrightarrow> ns = []" using Cons.hyps(2) by auto
  have tail: "sim (\<lambda>s. if ms \<noteq> [] then and_then (dump '','' s) (dump_indent flags (depth + 1) True dump)
       else dump_indent flags depth False dump s)
     (\<lambda>s. if ns \<noteq> [] then and_then (append_text '','' s) (dump_indent flags (depth + 1) True append_text)
       else dump_indent flags depth False append_text s)"
    unfolding e by (intro sim_if sim_and_then sim_dump sim_dump_indent)
  show ?case
  proof (cases v)
    case None
    with rel(2) kv show ?thesis using sim_none by simp
  next
    case (Some v')
    with rel(2) obtain w' where w': "w = Some w'" "sim_writer v' w'" by (auto simp: rel_option_iff split: option.splits)
    have "sim (v' (depth + 1)) (w' (depth + 1))" using w'(2) by (simp add: sim_writer_def)
    from sim_bind [OF sim_dump_string sim_and_then [OF sim_and_then [OF sim_dump this] sim_and_then [OF tail Cons.IH]]]
    show ?thesis using Some w'(1) rel(1) kv by simp
  qed
qed

lemma sim_dump_array:
  assumes "list_all2 sim_writer vs ws"
  shows "sim_writer (dump_array flags dump vs) (dump_array flags append_text ws)"
proof -
  have e: "vs = [] \<longleftrightarrow> ws = []" using assms by auto
  show ?thesis
    unfolding sim_writer_def dump_array_def e
    by (intro allI sim_if sim_and_then sim_dump sim_dump_indent sim_dump_entries assms)
qed

lemma sim_sorted_members:
  assumes "list_all2 (\<lambda>(k, v) (k', w). k = k' \<and> sim_writer v w) (table_items tv) (table_items tw)"
    and "tv = map_hashtable fv t" "tw = map_hashtable fw t"
  shows "rel_option (list_all2 (\<lambda>(k, v) (k', w). k = k' \<and> rel_option sim_writer v w))
    (sorted_members flags tv) (sorted_members flags tw)"
proof -
  have "\<forall>(k, v) \<in> set (table_items t). sim_writer (fv v) (fw v)"
    using assms by (simp add: list_all2_map1 list_all2_map2 list_all2_same case_prod_unfold)
  then have rel: "sim_writer (fv v) (fw v)" if "p \<in> set (ht_list t)" "v = pair_value p" for p v
    using that by (force simp: table_items_def)
  have "rel_option sim_writer (Option.bind (hashtable_get tv k) (\<lambda>v. v)) (Option.bind (hashtable_get tw k) (\<lambda>v. v))" for k
  proof (cases "hashtable_get t k")
    case (Some o')
    show ?thesis
    proof (cases o')
      case (Some v)
      with \<open>hashtable_get t k = Some o'\<close> have g: "hashtable_get t k = Some (Some v)" by simp
      from g obtain p where "p \<in> set (ht_list t)" "v = pair_value p" by (rule hashtable_get_in)
      with rel g show ?thesis by (simp add: assms(2,3) hashtable_get_map)
    qed (use Some in \<open>simp add: assms(2,3) hashtable_get_map\<close>)
  qed (simp add: assms(2,3) hashtable_get_map)
  moreover have "map (\<lambda>p. (pair_serial p, pair_key p)) (ht_list tv) = map (\<lambda>p. (pair_serial p, pair_key p)) (ht_list tw)"
    by (cases t) (simp add: assms(2,3) pair.map_sel)
  moreover have "ht_size tv = ht_size tw" by (simp add: assms(2,3))
  ultimately show ?thesis
    by (auto simp: sorted_members_def Let_def rel_option_iff list_all2_map1 list_all2_map2 list_all2_same
      split: bind_split)
qed

lemma sim_dump_object:
  assumes "list_all2 (\<lambda>(k, v) (k', w). k = k' \<and> sim_writer v w) (table_items tv) (table_items tw)"
    and t: "tv = map_hashtable fv t" "tw = map_hashtable fw t"
  shows "sim_writer (dump_object flags dump tv) (dump_object flags append_text tw)"
proof -
  have e: "hashtable_iter tv = None \<longleftrightarrow> hashtable_iter tw = None"
    by (cases t) (simp add: t hashtable_iter_def split: list.splits)
  have u: "sim (dump_members flags depth dump (map (\<lambda>(k, w). (k, Some w)) (table_items tv)))
      (dump_members flags depth append_text (map (\<lambda>(k, w). (k, Some w)) (table_items tw)))" for depth
    by (rule sim_dump_members) (use assms(1) in \<open>simp add: list_all2_map1 list_all2_map2 case_prod_unfold\<close>)
  have s: "sim (\<lambda>s. Option.bind (sorted_members flags tv) (\<lambda>ms. dump_members flags depth dump ms s))
      (\<lambda>s. Option.bind (sorted_members flags tw) (\<lambda>ms. dump_members flags depth append_text ms s))" for depth
    using sim_sorted_members [OF assms, of flags] sim_dump_members sim_none
    by (cases "sorted_members flags tv"; cases "sorted_members flags tw") simp_all
  show ?thesis
    unfolding sim_writer_def dump_object_def e
    by (intro allI sim_if sim_and_then sim_dump sim_dump_indent u s)
qed

lemma sim_do_dump: "sim_writer (do_dump json fmt flags dump) (do_dump json fmt flags append_text)"
proof (induction json)
  case (JInteger i)
  show ?case unfolding sim_writer_def do_dump.simps dump_integer_def Let_def
    by (intro allI sim_if sim_dump sim_const)
next
  case (JReal d)
  show ?case
    unfolding sim_writer_def do_dump.simps dump_real_def
    by (cases "jsonp_dtostr fmt 100 d") (auto intro!: sim_none sim_if sim_dump sim_const)
next
  case (JString s)
  show ?case by (simp add: sim_writer_def sim_dump_string)
next
  case (JArray n xs)
  show ?case unfolding do_dump.simps
    by (rule sim_dump_array) (use JArray in \<open>simp add: list_all2_map1 list_all2_map2 list_all2_same\<close>)
next
  case (JObject t ser)
  have "list_all2 (\<lambda>(k, v) (k', w). k = k' \<and> sim_writer v w)
      (map (\<lambda>(k, v). (k, do_dump v fmt flags dump)) (table_items t))
      (map (\<lambda>(k, v). (k, do_dump v fmt flags append_text)) (table_items t))"
    unfolding list_all2_map1 list_all2_map2 list_all2_same using JObject table_items_set by fastforce
  from sim_dump_object [of "map_hashtable (\<lambda>v. do_dump v fmt flags dump) t"
      "map_hashtable (\<lambda>v. do_dump v fmt flags append_text) t", OF _ refl refl] this
  show ?case by (simp add: hashtable.map_comp comp_def case_prod_unfold)
qed (simp_all add: sim_writer_def sim_dump)

end


section \<open>The string buffer as a sink\<close>

interpretation sb: text_sink dump_to_strbuffer "\<lambda>sb. sb_ok sb \<and> sb_tight sb" "\<lambda>sb. the (sb_value sb)" "2 ^ 61 - 1"
proof
  fix sb :: strbuffer and piece :: string
  assume sb: "sb_ok sb \<and> sb_tight sb" and len: "length (the (sb_value sb)) + length piece \<le> 2 ^ 61 - 1"
  from sb obtain v where v: "sb_value sb = Some v" by (auto simp: sb_ok_def)
  have "length piece < 2 ^ 64" "length v + length piece < 2 ^ 61" using len v by simp_all
  with strbuffer_append_bytes_ok [of sb v piece] sb v show "\<exists>sb'. dump_to_strbuffer piece sb = Some (0, sb') \<and>
      (sb_ok sb' \<and> sb_tight sb') \<and> the (sb_value sb') = the (sb_value sb) @ piece"
    by (auto simp: dump_to_strbuffer_def)
qed

text \<open>The text of a value, and what \<^verbatim>\<open>json_dumps\<close> makes of it.\<close>

definition json_text :: "number_format \<Rightarrow> json \<Rightarrow> 64 word \<Rightarrow> (int \<times> string) option" where
  "json_text fmt json flags = json_dump_callback fmt json append_text [] flags"

lemma json_dumps_text:
  assumes "json_text fmt json flags = Some (r, text)" "length text < 2 ^ 61"
  shows "json_dumps fmt json flags = Some (if r = 0 then Some (c_string text) else None)"
proof -
  have sim: "sb.sim (\<lambda>s. json_dump_callback fmt json dump_to_strbuffer s flags)
      (\<lambda>s. json_dump_callback fmt json append_text s flags)"
    unfolding json_dump_callback_def
    by (intro sb.sim_if sb.sim_const sb.sim_do_dump [unfolded sb.sim_writer_def, THEN spec])
  have init: "sb_ok strbuffer_init \<and> sb_tight strbuffer_init" "the (sb_value strbuffer_init) = []"
    by (simp_all add: strbuffer_init_ok) (simp add: strbuffer_init_def)
  from assms have "json_dump_callback fmt json append_text (the (sb_value strbuffer_init)) flags = Some (r, text)"
    "length text \<le> 2 ^ 61 - 1" by (simp_all add: init(2) json_text_def)
  with sim init(1) obtain sb' where "json_dump_callback fmt json dump_to_strbuffer strbuffer_init flags = Some (r, sb')"
    "sb_ok sb' \<and> sb_tight sb'" "the (sb_value sb') = text" by (rule sb.sim_run)
  then show ?thesis by (auto simp: json_dumps_def sb_ok_def)
qed

section \<open>Values that can be written\<close>

definition printable :: "char \<Rightarrow> bool" where
  "printable c \<longleftrightarrow> 0x20 \<le> uchar c"

definition utf8_text :: "string \<Rightarrow> bool" where
  "utf8_text s \<longleftrightarrow> utf8_check_bytes s \<and> is_cstr s"

abbreviation codes_ok :: "int list \<Rightarrow> bool" where
  "codes_ok cps \<equiv> \<forall>cp \<in> set cps. scalar cp \<and> cp \<noteq> 0"

lemma utf8_textE:
  assumes "utf8_text s"
  obtains cps where "codes_ok cps" "s = concat (map enc cps)"
proof -
  from assms obtain cps where cps: "\<forall>cp \<in> set cps. scalar cp" "s = concat (map enc cps)"
    unfolding utf8_text_def utf8_check_bytes_iff by blast
  have "0 \<notin> set cps"
  proof
    assume "0 \<in> set cps"
    then have "set (enc 0) \<subseteq> set s" using cps(2) by auto
    moreover have "enc 0 = [NUL]" by (simp add: enc_1) code_simp
    ultimately show False using assms by (auto simp: utf8_text_def is_cstr_def)
  qed
  with cps that show thesis by blast
qed

lemma enc_nonempty: "scalar cp \<Longrightarrow> enc cp \<noteq> []"
  by (erule enc_cases) auto

lemma scan_plain_codes:
  "codes_ok cps \<Longrightarrow>
   scan_plain ascii plain (concat (map enc cps)) =
     Some (plain @ concat (map enc (takeWhile (\<lambda>cp. \<not> must_escape ascii cp) cps)),
       case dropWhile (\<lambda>cp. \<not> must_escape ascii cp) cps of
         [] \<Rightarrow> None | cp # rest \<Rightarrow> Some (cp, concat (map enc rest)))"
proof (induction cps arbitrary: plain)
  case (Cons cp cps)
  then have cp: "scalar cp" "cp \<noteq> 0" by auto
  from utf8_iterate_enc [OF cp] enc_nonempty [OF cp(1)] Cons show ?case
    by (subst scan_plain.simps) simp
qed (simp add: scan_plain.simps)

definition escaped :: "bool \<Rightarrow> int \<Rightarrow> string" where
  "escaped ascii cp = (if must_escape ascii cp then escape_text cp else enc cp)"

lemma concat_map_escaped_plain:
  "\<forall>cp \<in> set cps. \<not> must_escape ascii cp \<Longrightarrow> concat (map (escaped ascii) cps) = concat (map enc cps)"
  by (induction cps) (simp_all add: escaped_def)

lemma dump_chunks_codes:
  "codes_ok cps \<Longrightarrow>
   dump_chunks ascii append_text (concat (map enc cps)) t =
     Some (0, t @ concat (map (escaped ascii) cps) @ [CHR 0x22])"
proof (induction "length cps" arbitrary: cps t rule: less_induct)
  case less
  let ?P = "\<lambda>cp. \<not> must_escape ascii cp"
  have split: "takeWhile ?P cps @ dropWhile ?P cps = cps" by simp
  have plain: "concat (map (escaped ascii) (takeWhile ?P cps)) = concat (map enc (takeWhile ?P cps))"
    by (rule concat_map_escaped_plain) (auto dest: set_takeWhileD)
  show ?case
  proof (cases "dropWhile ?P cps")
    case Nil
    with split have "takeWhile ?P cps = cps" by simp
    with plain have p: "concat (map (escaped ascii) cps) = concat (map enc cps)" by simp
    define x where "x = concat (map enc cps)"
    have "scan_plain ascii [] x = Some (x, None)"
      unfolding x_def
      by (simp only: scan_plain_codes [OF less.prems] Nil \<open>takeWhile ?P cps = cps\<close> list.case append_Nil)
    then show ?thesis
      unfolding p x_def [symmetric] by (simp add: dump_chunks_scanned and_then_def append_text_def)
  next
    case (Cons cp rest)
    then have cps: "cps = takeWhile ?P cps @ cp # rest" using split by simp
    have "length rest < length cps" by (subst cps) simp
    moreover have "set rest \<subseteq> set cps" by (metis Cons set_dropWhileD list.set_intros(2) subsetI)
    then have "codes_ok rest" using less.prems by blast
    ultimately have "length rest < length cps" "codes_ok rest" .
    note IH = less.hyps [OF this]
    have "must_escape ascii cp" using hd_dropWhile [of ?P cps] Cons by simp
    then have "concat (map (escaped ascii) cps) =
        concat (map enc (takeWhile ?P cps)) @ escape_text cp @ concat (map (escaped ascii) rest)"
      by (subst cps) (simp add: plain escaped_def)
    note p = this
    define x where "x = concat (map enc cps)"
    define y where "y = concat (map enc (takeWhile ?P cps))"
    have "scan_plain ascii [] x = Some (y, Some (cp, concat (map enc rest)))"
      unfolding x_def y_def by (simp only: scan_plain_codes [OF less.prems] Cons list.case append_Nil)
    then show ?thesis
      unfolding p x_def [symmetric] y_def [symmetric]
      by (simp add: dump_chunks_scanned IH and_then_def append_text_def)
  qed
qed

section \<open>The text of a value is printable\<close>

lemma printable_byte: "0x20 \<le> u \<Longrightarrow> u < 256 \<Longrightarrow> printable (byte u)"
  by (simp add: printable_def)

lemma printable_enc:
  assumes "scalar cp" "0x20 \<le> cp"
  shows "\<forall>c \<in> set (enc cp). printable c"
proof -
  have tail: "printable (byte (0x80 + v mod 64))" for v
    by (rule printable_byte) (use pos_mod_sign [of 64 v] pos_mod_bound [of 64 v] in linarith)+
  have lead: "printable (byte (0xC0 + v))" "printable (byte (0xE0 + v))" "printable (byte (0xF0 + v))"
    if "0 \<le> v" "v < 16" for v using that by (simp_all add: printable_byte)
  consider "cp < 0x80" | "0x80 \<le> cp" "cp < 0x800" | "0x800 \<le> cp" "cp < 0x10000"
    | "0x10000 \<le> cp" "cp \<le> 0x10FFFF" using assms(1) unfolding scalar_def by linarith
  then show ?thesis
  proof cases
    case 1
    with assms show ?thesis by (simp add: enc_1 printable_byte)
  next
    case 2
    then have "0 \<le> cp div 64" "cp div 64 < 32" using div_64_less [of cp 32] by simp_all
    then have "printable (byte (0xC0 + cp div 64))" by (simp add: printable_byte)
    with 2 tail show ?thesis by (simp add: enc_2)
  next
    case 3
    then have "0 \<le> cp div 64 div 64" "cp div 64 div 64 < 16"
      using div_64_less [of cp 1024] div_64_less [of "cp div 64" 16] by simp_all
    with 3 tail lead show ?thesis by (simp add: enc_3)
  next
    case 4
    then have "0 \<le> cp div 64 div 64 div 64" "cp div 64 div 64 div 64 < 16"
      using div_64_less [of cp 65536] div_64_less [of "cp div 64" 1024] div_64_less [of "cp div 64 div 64" 16]
      by simp_all
    with 4 tail lead show ?thesis by (simp add: enc_4)
  qed
qed

lemma printable_hex: "\<forall>c \<in> set (hex4 v). printable c"
proof -
  have "printable (hex_char (d mod 16))" for d :: int
  proof -
    have "0 \<le> d mod 16" "d mod 16 < 16" by simp_all
    then show ?thesis by (simp add: hex_char_def printable_byte)
  qed
  then show ?thesis by (simp add: hex4_def)
qed

lemma printable_literals:
  "printable (CHR 0x22)" "printable (CHR 0x5C)" "printable (CHR '' '')" "printable (CHR '','')"
  "printable (CHR '':'')" "printable (CHR ''['')" "printable (CHR '']'')" "printable (CHR ''{'')"
  "printable (CHR ''}'')" "printable (CHR ''u'')" "printable (CHR ''b'')" "printable (CHR ''f'')"
  "printable (CHR ''n'')" "printable (CHR ''r'')" "printable (CHR ''t'')" "printable (CHR ''l'')"
  "printable (CHR ''e'')" "printable (CHR ''a'')" "printable (CHR ''s'')" "printable (CHR ''-'')"
  by code_simp+

lemma printable_escaped: "scalar cp \<Longrightarrow> \<forall>c \<in> set (escaped ascii cp). printable c"
  using printable_enc [of cp] printable_hex
  by (simp add: escaped_def escape_text_def Let_def printable_literals must_escape_def ball_Un)

lemma escaped_length: "scalar cp \<Longrightarrow> length (escaped ascii cp) \<le> 12"
proof -
  assume "scalar cp"
  then have "length (enc cp) \<le> 12" by (rule enc_cases) auto
  then show ?thesis by (simp add: escaped_def escape_text_def hex4_def Let_def)
qed

text \<open>A writer that always succeeds, with printable text of a bounded length.\<close>

definition writes :: "nat \<Rightarrow> (string \<Rightarrow> (int \<times> string) option) \<Rightarrow> bool" where
  "writes n h \<longleftrightarrow> (\<forall>t. \<exists>u. h t = Some (0, t @ u) \<and> (\<forall>c \<in> set u. printable c) \<and> length u \<le> n)"

lemma writes_append: "\<forall>c \<in> set u. printable c \<Longrightarrow> length u \<le> n \<Longrightarrow> writes n (append_text u)"
  by (simp add: writes_def append_text_def)

lemma writes_none: "writes n (\<lambda>t. Some (0, t))"
  by (simp add: writes_def)

lemma writes_mono: "writes m h \<Longrightarrow> m \<le> n \<Longrightarrow> writes n h"
  unfolding writes_def by (meson order_trans)

lemma writes_if: "(b \<Longrightarrow> writes n f) \<Longrightarrow> (\<not> b \<Longrightarrow> writes n h) \<Longrightarrow> writes n (\<lambda>s. if b then f s else h s)"
  by (cases b) simp_all

lemma writes_bind:
  assumes "writes m f" "writes n h"
  shows "writes (m + n) (\<lambda>t. Option.bind (f t) (\<lambda>(r, t). if r \<noteq> 0 then k r t else h t))"
  unfolding writes_def
proof
  fix t
  from assms(1) obtain u where u: "f t = Some (0, t @ u)" "\<forall>c \<in> set u. printable c" "length u \<le> m"
    by (auto simp: writes_def)
  from assms(2) obtain v where "h (t @ u) = Some (0, (t @ u) @ v)" "\<forall>c \<in> set v. printable c" "length v \<le> n"
    unfolding writes_def by blast
  with u show "\<exists>u. Option.bind (f t) (\<lambda>(r, t). if r \<noteq> 0 then k r t else h t) = Some (0, t @ u) \<and>
      (\<forall>c \<in> set u. printable c) \<and> length u \<le> m + n"
    by (intro exI [of _ "u @ v"]) auto
qed

lemma writes_and_then: "writes m f \<Longrightarrow> writes n h \<Longrightarrow> writes (m + n) (\<lambda>t. and_then (f t) h)"
  unfolding and_then_def by (rule writes_bind)

lemma writes_any:
  assumes "writes m f" "writes n h"
  shows "writes (m + n) (\<lambda>t. Option.bind (f t) (\<lambda>(r, t). h t))"
  using writes_bind [OF assms, of "\<lambda>r. h"] by simp

definition string_weight :: "string \<Rightarrow> nat" where
  "string_weight s = 12 * length s + 2"

lemma codes_length: "codes_ok cps \<Longrightarrow> length cps \<le> length (concat (map enc cps))"
proof (induction cps)
  case (Cons cp cps)
  then have "enc cp \<noteq> []" by (simp add: enc_nonempty)
  then have "1 \<le> length (enc cp)" by (cases "enc cp") simp_all
  with Cons show ?case by simp
qed simp

lemma writes_string:
  assumes "utf8_text s"
  shows "writes (string_weight s) (dump_string s ascii append_text)"
proof -
  from assms obtain cps where cps: "codes_ok cps" "s = concat (map enc cps)" by (rule utf8_textE)
  have "codes_ok cps \<Longrightarrow> length (concat (map (escaped ascii) cps)) \<le> 12 * length cps"
    by (induction cps) (auto dest: escaped_length [of _ ascii])
  with cps codes_length [OF cps(1)] have l: "length (concat (map (escaped ascii) cps)) \<le> 12 * length s" by simp
  have p: "\<forall>c \<in> set (concat (map (escaped ascii) cps)). printable c"
    using printable_escaped cps(1) by auto
  have "writes (12 * length s + 1) (dump_chunks ascii append_text s)"
    unfolding writes_def cps(2) dump_chunks_codes [OF cps(1)]
    using l p printable_literals(1) unfolding cps(2) by auto
  then have "writes (1 + (12 * length s + 1)) (\<lambda>t. and_then (append_text [CHR 0x22] t) (\<lambda>s'. dump_chunks ascii append_text s s'))"
    by (intro writes_and_then writes_append) (simp_all add: printable_literals)
  then show ?thesis by (simp add: dump_string_def [abs_def] string_weight_def)
qed

lemma writes_indent: "JSON_INDENT flags = 0 \<Longrightarrow> writes 1 (dump_indent flags depth space append_text)"
  unfolding dump_indent_def by (auto simp: printable_literals intro!: writes_if writes_append writes_none)

definition is_int64 :: "int \<Rightarrow> bool" where
  "is_int64 i \<longleftrightarrow> - (2 ^ 63) \<le> i \<and> i < 2 ^ 63"

definition real_ok :: "number_format \<Rightarrow> double \<Rightarrow> bool" where
  "real_ok fmt d \<longleftrightarrow>
     (case jsonp_dtostr fmt 100 d of
        Some (n, buffer) \<Rightarrow> 0 \<le> n \<and> n \<le> 100 \<and> list_all printable (take (nat n) buffer) | None \<Rightarrow> False)"

primrec writable :: "number_format \<Rightarrow> json \<Rightarrow> bool" where
  "writable fmt JNull = True"
| "writable fmt JTrue = True"
| "writable fmt JFalse = True"
| "writable fmt (JInteger i) = is_int64 i"
| "writable fmt (JReal d) = real_ok fmt d"
| "writable fmt (JString s) = utf8_text s"
| "writable fmt (JArray n xs) = list_all id (map (writable fmt) xs)"
| "writable fmt (JObject t ser) =
     list_all (\<lambda>(k, w). utf8_text k \<and> w) (table_items (map_hashtable (writable fmt) t))"

lemma dec_digits_length: "n < 10 ^ k \<Longrightarrow> 0 < k \<Longrightarrow> length (dec_digits n) \<le> k"
proof (induction k arbitrary: n)
  case (Suc k)
  show ?case
  proof (cases "n < 10")
    case True
    then show ?thesis by (subst dec_digits.simps) simp
  next
    case False
    with Suc.prems have "0 < k" by (cases k) simp_all
    moreover have "n div 10 < 10 ^ k" using Suc.prems by (simp add: div_less_iff_less_mult mult.commute)
    ultimately show ?thesis using False Suc.IH [of "n div 10"] by (subst dec_digits.simps) simp
  qed
qed simp

lemma show_int64_length: "is_int64 i \<Longrightarrow> length (show_int i) < 100"
proof -
  assume "is_int64 i"
  then have "nat i < 10 ^ 19" "nat (- i) < 10 ^ 19" by (simp_all add: is_int64_def, arith+)
  from this [THEN dec_digits_length] show ?thesis by (simp add: show_int_def)
qed

lemma show_int_printable: "\<forall>c \<in> set (show_int i). printable c"
proof -
  have "printable c" if "is_digit 10 c" for c
    using that of_nat_of_char [of c, where 'a = int] by (simp add: is_digit_def digit_value_def printable_def)
  then show ?thesis using dec_digits_all printable_literals by (auto simp: show_int_def)
qed

lemma writes_entries:
  assumes "JSON_INDENT flags = 0"
  shows "list_all2 (\<lambda>w n. \<forall>depth. writes n (w depth)) ws ns \<Longrightarrow>
    writes (sum_list (map (\<lambda>n. n + 2) ns)) (dump_entries flags depth append_text ws)"
proof (induction rule: list_all2_induct)
  case (Cons w ws n ns)
  have "writes (n + ((1 + 1) + sum_list (map (\<lambda>n. n + 2) ns))) (\<lambda>s. and_then (w (depth + 1) s) (\<lambda>s. and_then
      (if ws \<noteq> [] then and_then (append_text '','' s) (dump_indent flags (depth + 1) True append_text)
       else dump_indent flags depth False append_text s) (dump_entries flags depth append_text ws)))"
    using Cons by (intro writes_and_then writes_if writes_append writes_indent assms
      writes_mono [OF writes_indent [OF assms], of "1 + 1"]) (simp_all add: printable_literals)
  then show ?case by (simp add: algebra_simps)
qed (simp add: writes_def)

lemma writes_members:
  assumes "JSON_INDENT flags = 0"
  shows "list_all2 (\<lambda>(k, w) (k', n). k = k' \<and> utf8_text k \<and> (\<exists>v. w = Some v \<and> (\<forall>depth. writes n (v depth)))) ms ns \<Longrightarrow>
    writes (sum_list (map (\<lambda>(k, n). string_weight k + n + 4) ns)) (dump_members flags depth append_text ms)"
proof (induction rule: list_all2_induct)
  case (Cons m ms kn ns)
  then obtain k v n where m: "m = (k, Some v)" "kn = (k, n)" "utf8_text k" "\<And>depth. writes n (v depth)"
    by (cases m; cases kn) auto
  have "writes (string_weight k + ((2 + n) + ((1 + 1) + sum_list (map (\<lambda>(k, n). string_weight k + n + 4) ns))))
    (\<lambda>s. Option.bind (dump_string k (flag flags JSON_ENSURE_ASCII) append_text s) (\<lambda>(r, s).
      and_then (and_then (append_text (if flag flags JSON_COMPACT then '':'' else '': '') s) (v (depth + 1))) (\<lambda>s.
        and_then (if ms \<noteq> [] then and_then (append_text '','' s) (dump_indent flags (depth + 1) True append_text)
          else dump_indent flags depth False append_text s) (dump_members flags depth append_text ms))))"
    using Cons m by (intro writes_any writes_string writes_and_then writes_if writes_append writes_indent assms
      writes_mono [OF writes_indent [OF assms], of "1 + 1"]) (simp_all add: printable_literals)
  moreover have "string_weight k + ((2 + n) + ((1 + 1) + sum_list (map (\<lambda>(k, n). string_weight k + n + 4) ns))) =
      sum_list (map (\<lambda>(k, n). string_weight k + n + 4) (kn # ns))" by (simp add: m(2))
  ultimately show ?case by (simp only: m(1) dump_members.simps Option.bind.bind_lunit)
qed (simp add: writes_def)

lemma set_qsort_by: "set (qsort_by cmp xs) = set xs"
proof -
  have i: "set (insert_by cmp x ys) = insert x (set ys)" for x and ys :: "'a list" by (induction ys) auto
  show ?thesis unfolding qsort_by_def by (induction xs) (simp_all add: i)
qed

lemma mset_qsort_by: "mset (qsort_by cmp xs) = mset xs"
proof -
  have i: "mset (insert_by cmp x ys) = add_mset x (mset ys)" for x and ys :: "'a list" by (induction ys) auto
  show ?thesis unfolding qsort_by_def by (induction xs) (simp_all add: i)
qed

lemma sum_list_mset: "mset xs = mset ys \<Longrightarrow> sum_list (map f xs) = sum_list (map (f :: 'a \<Rightarrow> nat) ys)"
  by (metis mset_map sum_mset_sum_list)

text \<open>A bound for the length of a value's text.\<close>

primrec json_weight :: "json \<Rightarrow> nat" where
  "json_weight JNull = 5"
| "json_weight JTrue = 5"
| "json_weight JFalse = 5"
| "json_weight (JInteger i) = 100"
| "json_weight (JReal d) = 100"
| "json_weight (JString s) = string_weight s"
| "json_weight (JArray n xs) = 3 + sum_list (map (\<lambda>n. n + 2) (map json_weight xs))"
| "json_weight (JObject t ser) =
     3 + sum_list (map (\<lambda>(k, n). string_weight k + n + 4) (table_items (map_hashtable json_weight t)))"

lemma writes_object:
  fixes t :: "'v hashtable"
  assumes flags: "JSON_INDENT flags = 0" and t: "ht_ok t" "w = map_hashtable f t"
    and v: "\<And>k v. (k, v) \<in> set (table_items t) \<Longrightarrow> utf8_text k \<and> (\<forall>depth. writes (n v) (f v depth))"
  shows "writes (3 + sum_list (map (\<lambda>(k, n). string_weight k + n + 4) (table_items (map_hashtable n t))))
    (dump_object flags append_text w depth)" (is "writes (3 + ?weight) _")
proof -
  have u: "writes ?weight (dump_members flags depth append_text (map (\<lambda>(k, w). (k, Some w)) (table_items w)))"
    by (rule writes_members [OF flags])
      (use v t(2) in \<open>auto simp: list_all2_map1 list_all2_map2 list_all2_same\<close>)
  have "\<exists>ms. sorted_members flags w = Some ms \<and> writes ?weight (dump_members flags depth append_text ms)"
  proof -
    define cmp_func where "cmp_func = (if flag flags JSON_SORT_KEYS then object_key_compare_keys else object_key_compare_serials)"
    define key where "key = (\<lambda>p :: 'v pair. (pair_serial p, pair_key p))"
    define ks where "ks = qsort_by cmp_func (map key (ht_list t))"
    have keys: "map (\<lambda>p. (pair_serial p, pair_key p)) (ht_list w) = map key (ht_list t)"
      by (simp add: t(2) ht_list_map pair.map_sel key_def)
    have "length (map key (ht_list t)) = ht_size w"
      using t by (simp add: ht_ok_def)
    then have s: "sorted_members flags w =
        Some (map (\<lambda>k. (snd k, Option.bind (hashtable_get w (snd k)) (\<lambda>v. v))) ks)"
      unfolding sorted_members_def Let_def keys ks_def cmp_func_def by simp
    let ?n = "\<lambda>k. n (the (ht_map t (snd k)))"
    have m: "ht_map t (pair_key p) = Some (pair_value p)" if "p \<in> set (ht_list t)" for p
      using that items_in_map [OF t(1), of "pair_key p" "pair_value p"] by (auto simp: table_items_def)
    have "utf8_text (snd k) \<and> (\<exists>v. Option.bind (hashtable_get w (snd k)) (\<lambda>v. v) = Some v \<and>
        (\<forall>depth. writes (?n k) (v depth)))"
      if "k \<in> set ks" for k
    proof -
      from that obtain p where p: "p \<in> set (ht_list t)" "snd k = pair_key p"
        by (auto simp: ks_def key_def mset_eq_setD [OF mset_qsort_by])
      then have "(snd k, pair_value p) \<in> set (table_items t)" by (auto simp: table_items_def)
      from v [OF this] p m [OF p(1)] show ?thesis
        by (simp add: t(2) hashtable_get_map hashtable_get_ok [OF t(1)])
    qed
    then have "writes (sum_list (map (\<lambda>(k, n). string_weight k + n + 4) (map (\<lambda>k. (snd k, ?n k)) ks)))
      (dump_members flags depth append_text
        (map (\<lambda>k. (snd k, Option.bind (hashtable_get w (snd k)) (\<lambda>v. v))) ks))"
      by (intro writes_members [OF flags]) (auto simp: list_all2_map1 list_all2_map2 list_all2_same)
    moreover have "sum_list (map (\<lambda>(k, n). string_weight k + n + 4) (map (\<lambda>k. (snd k, ?n k)) ks)) = ?weight"
    proof -
      have "sum_list (map (\<lambda>k. string_weight (snd k) + ?n k + 4) ks) =
          sum_list (map (\<lambda>k. string_weight (snd k) + ?n k + 4) (map key (ht_list t)))"
        unfolding ks_def by (rule sum_list_mset [OF mset_qsort_by])
      also have "\<dots> = sum_list (map (\<lambda>p. string_weight (pair_key p) + n (pair_value p) + 4) (ht_list t))"
        unfolding map_map by (rule arg_cong [of _ _ sum_list], rule map_cong) (simp_all add: key_def m)
      also have "\<dots> = ?weight" by (simp add: table_items_def comp_def case_prod_unfold ht_list_map pair.map_sel)
      finally show ?thesis by (simp add: comp_def)
    qed
    ultimately show ?thesis using s by auto
  qed
  then obtain ms where ms: "sorted_members flags w = Some ms" "writes ?weight (dump_members flags depth append_text ms)" by blast
  have "writes (1 + (1 + (?weight + 1))) (dump_object flags append_text w depth)"
    unfolding dump_object_def ms(1) Option.bind.bind_lunit
    by (intro writes_and_then writes_if writes_append writes_indent flags u ms(2)) (simp_all add: printable_literals)
  then show ?thesis by (rule writes_mono) simp
qed

lemma writes_do_dump:
  assumes "JSON_INDENT flags = 0"
  shows "json_ok json \<Longrightarrow> writable fmt json \<Longrightarrow> writes (json_weight json) (do_dump json fmt flags append_text depth)"
proof (induction json arbitrary: depth)
  case (JInteger i)
  then show ?case using show_int64_length [of i] writes_append [OF show_int_printable, of i 100]
    by (simp add: dump_integer_def [abs_def])
next
  case (JReal d)
  then obtain n b where "jsonp_dtostr fmt 100 d = Some (n, b)" "0 \<le> n" "n \<le> 100" "list_all printable (take (nat n) b)"
    by (auto simp: real_ok_def split: option.splits)
  then show ?case by (simp add: dump_real_def [abs_def] list_all_iff) (rule writes_append, auto)
next
  case (JString s)
  then show ?case by (simp add: writes_string)
next
  case (JArray n xs)
  then have "list_all2 (\<lambda>w n. \<forall>depth. writes n (w depth)) (map (\<lambda>w. w fmt flags append_text) (map do_dump xs))
      (map json_weight xs)"
    by (auto simp: list_all_iff list_all2_map1 list_all2_map2 list_all2_same)
  note w = writes_entries [OF assms this]
  let ?weight = "sum_list (map (\<lambda>n. n + 2) (map json_weight xs))"
  have "writes (1 + (1 + (?weight + 1))) (do_dump (JArray n xs) fmt flags append_text depth)"
    unfolding do_dump.simps dump_array_def
    by (intro writes_and_then writes_if writes_append writes_indent assms w) (simp_all add: printable_literals)
  then show ?case by (rule writes_mono) simp
next
  case (JObject t ser)
  from JObject.prems have t: "ht_ok t" by (simp add: json_ok_object_map)
  have "utf8_text k \<and> (\<forall>depth. writes (json_weight v) (do_dump v fmt flags append_text depth))"
    if "(k, v) \<in> set (table_items t)" for k v
    using that JObject.IH [OF table_items_set [OF that]] JObject.prems
    unfolding json_ok_members by (fastforce simp: list_all_iff)
  from writes_object [OF assms t refl, of json_weight "\<lambda>v. do_dump v fmt flags append_text", OF this]
  show ?case by (simp add: hashtable.map_comp comp_def)
qed (auto intro!: writes_append simp: printable_literals)

text \<open>
  A value that can be written has a text without control characters, and \<^verbatim>\<open>json_dumps\<close>
  returns that text.
\<close>

lemma json_dumps_ok:
  assumes "json_ok json" "writable fmt json" "JSON_INDENT flags = 0" "json_weight json < 2 ^ 61"
    and "json_is_object json \<or> json_typeof json = JSON_ARRAY"
  shows "\<exists>tx. json_text fmt json flags = Some (0, tx) \<and> json_dumps fmt json flags = Some (Some tx) \<and>
    (\<forall>c \<in> set tx. printable c) \<and> length tx \<le> json_weight json"
proof -
  from writes_do_dump [OF assms(3,1,2)] obtain tx
    where w: "do_dump json fmt flags append_text 0 [] = Some (0, [] @ tx)" "\<forall>c \<in> set tx. printable c"
      "length tx \<le> json_weight json"
    unfolding writes_def by blast
  with assms(5) have t: "json_text fmt json flags = Some (0, tx)"
    by (auto simp: json_text_def json_dump_callback_def json_is_object_def)
  have "NUL \<notin> set tx" using w(2) by (auto simp: printable_def)
  then have "c_string tx = tx" by (simp add: is_cstr_def)
  with json_dumps_text [OF t] t w(2,3) assms(4) show ?thesis by auto
qed

end
