(* ===== verification/Json_Facts.thy ===== *)
theory Json_Facts
  imports Json Jansson_Text
begin

text \<open>
  What the functions of \<^verbatim>\<open>src/json.c\<close> build: an event is an object that \<^verbatim>\<open>json_dumps\<close> can
  write, its fields are given by the list of entries that are set one after the other.
\<close>

section \<open>Setting one field\<close>

definition event_obj :: "number_format \<Rightarrow> json \<Rightarrow> bool" where
  "event_obj fmt j \<longleftrightarrow> json_is_object j \<and> json_ok j \<and> writable fmt j"

lemma event_objE:
  assumes "event_obj fmt j"
  obtains t s where "j = JObject t s" "ht_ok t"
  using assms by (cases j) (auto simp: event_obj_def json_is_object_def json_ok_object_map)

lemma writable_map:
  assumes "ht_ok t"
  shows "writable fmt (JObject t s) \<longleftrightarrow> (\<forall>k v. ht_map t k = Some v \<longrightarrow> utf8_text k \<and> writable fmt v)"
proof -
  have "writable fmt (JObject t s) \<longleftrightarrow> (\<forall>(k, v) \<in> set (table_items t). utf8_text k \<and> writable fmt v)"
    by (simp add: list_all_iff case_prod_unfold)
  also have "\<dots> \<longleftrightarrow> (\<forall>k v. ht_map t k = Some v \<longrightarrow> utf8_text k \<and> writable fmt v)"
    unfolding items_in_map [OF assms, symmetric] by auto
  finally show ?thesis .
qed

definition entry_weight :: "string \<Rightarrow> json \<Rightarrow> nat" where
  "entry_weight k v = string_weight k + json_weight v + 4"

lemma json_weight_map:
  assumes "ht_ok t"
  shows "json_weight (JObject t s) = 3 + (\<Sum>k \<in> dom (ht_map t). entry_weight k (the (ht_map t k)))"
proof -
  have d: "distinct (map fst (table_items t))" by (rule items_map [OF assms])
  then have "sum_list (map (\<lambda>(k, v). entry_weight k v) (table_items t)) =
      (\<Sum>(k, v) \<in> set (table_items t). entry_weight k v)"
    by (simp add: sum_list_distinct_conv_sum_set distinct_map)
  also have "\<dots> = (\<Sum>k \<in> fst ` set (table_items t). entry_weight k (the (ht_map t k)))"
    using d items_in_map [OF assms]
    by (subst sum.reindex) (auto simp: distinct_map intro!: sum.cong)
  also have "fst ` set (table_items t) = dom (ht_map t)"
    by (simp add: ht_map_items dom_map_of_conv_image_fst)
  finally show ?thesis by (simp add: entry_weight_def comp_def case_prod_unfold)
qed

lemma weight_upd:
  assumes "finite (dom m)"
  shows "(\<Sum>k \<in> dom (m(k0 \<mapsto> v)). entry_weight k (the ((m(k0 \<mapsto> v)) k))) \<le>
    (\<Sum>k \<in> dom m. entry_weight k (the (m k))) + entry_weight k0 v"
proof -
  have "(\<Sum>k \<in> dom (m(k0 \<mapsto> v)). entry_weight k (the ((m(k0 \<mapsto> v)) k))) =
      (\<Sum>k \<in> dom m - {k0}. entry_weight k (the (m k))) + entry_weight k0 v"
  proof -
    have "(\<Sum>k \<in> dom m - {k0}. entry_weight k (the ((m(k0 \<mapsto> v)) k))) =
        (\<Sum>k \<in> dom m - {k0}. entry_weight k (the (m k)))" by (rule sum.cong) auto
    then show ?thesis using assms by (simp add: sum.insert_remove del: fun_upd_apply) (simp add: add.commute)
  qed
  moreover have "(\<Sum>k \<in> dom m - {k0}. entry_weight k (the (m k))) \<le> (\<Sum>k \<in> dom m. entry_weight k (the (m k)))"
    using assms by (intro sum_mono2) auto
  ultimately show ?thesis by simp
qed

definition key_ok :: "string \<Rightarrow> bool" where
  "key_ok k \<longleftrightarrow> is_cstr k \<and> int (length k) \<le> INT_MAX"

lemma utf8_check_key: "int (length k) \<le> INT_MAX \<Longrightarrow> utf8_check_string k (-1) = Some (utf8_check_bytes k)"
  by (simp add: utf8_check_string_def Let_def is_int_def INT_MIN_def INT_MAX_def)

lemma event_obj_set:
  assumes j: "event_obj fmt j" and v: "json_ok v" "writable fmt v" and k: "utf8_text k" "int (length k) \<le> INT_MAX"
    and size: "json_object_size j < 1610612741"
  shows "\<exists>j'. json_object_set_new j (Some k) (Some v) = Some (0, j') \<and> event_obj fmt j' \<and>
    obj_map j' = (obj_map j)(k \<mapsto> v) \<and> json_object_size j' \<le> Suc (json_object_size j) \<and>
    json_weight j' \<le> json_weight j + entry_weight k v"
proof -
  from j obtain t s where t: "j = JObject t s" "ht_ok t" by (rule event_objE)
  then have ok: "obj_ok j" by (simp add: obj_ok_def)
  from object_set_ok [OF ok size, of k v] obtain j' where
    j': "json_object_set_new_nocheck j (Some k) (Some v) = Some (0, j')" "obj_ok j'"
      "obj_map j' = (obj_map j)(k \<mapsto> v)" by (elim exE conjE)
  from j'(2) obtain t' s' where t': "j' = JObject t' s'" "ht_ok t'" by (rule obj_cases)
  have m: "ht_map t' = (ht_map t)(k \<mapsto> v)" using j'(3) t(1) t'(1) by (simp add: obj_map_def)
  have "json_object_set_new j (Some k) (Some v) = Some (0, j')"
    using j'(1) k by (simp add: json_object_set_new_def utf8_check_key utf8_text_def)
  moreover have "json_ok j'"
    by (rule object_set_json_ok [OF _ j'(1)]) (use j v size in \<open>simp_all add: event_obj_def\<close>)
  moreover have "writable fmt j'"
    using j v(2) k(1) unfolding t(1) t'(1) event_obj_def writable_map [OF t(2)] writable_map [OF t'(2)] m by auto
  moreover have "json_object_size j' \<le> Suc (json_object_size j)" by (rule obj.put_count [OF ok j'(2,3)])
  moreover have "json_weight j' \<le> json_weight j + entry_weight k v"
    unfolding t(1) t'(1) json_weight_map [OF t(2)] json_weight_map [OF t'(2)] m
    using weight_upd [OF ht.finite_law [of t], of k v] by simp
  ultimately show ?thesis using j'(3) t'(1) by (auto simp: event_obj_def json_is_object_def)
qed

section \<open>Setting a list of fields\<close>

type_synonym entry = "string option \<times> json option"

fun set_all :: "json \<Rightarrow> entry list \<Rightarrow> json option" where
  "set_all j [] = Some j"
| "set_all j ((k, v) # es) = do { (r, j') \<leftarrow> json_object_set_new j k v; set_all j' es }"

text \<open>Only an entry with a value and a key in UTF-8 is set.\<close>

definition kept :: "entry list \<Rightarrow> (string \<times> json) list" where
  "kept es = concat (map (\<lambda>(k, v). case (k, v) of
     (Some k, Some v) \<Rightarrow> if utf8_check_bytes k then [(k, v)] else [] | _ \<Rightarrow> []) es)"

definition entry_ok :: "number_format \<Rightarrow> entry \<Rightarrow> bool" where
  "entry_ok fmt = (\<lambda>(k, v). pred_option key_ok k \<and> pred_option (\<lambda>v. json_ok v \<and> writable fmt v) v)"

definition entries_weight :: "entry list \<Rightarrow> nat" where
  "entries_weight es = sum_list (map (\<lambda>(k, v). entry_weight k v) (kept es))"

lemma kept_simps [simp]:
  "kept [] = []"
  "kept ((None, v) # es) = kept es"
  "kept ((k, None) # es) = kept es"
  "kept ((Some n, Some w) # es) = (if utf8_check_bytes n then (n, w) # kept es else kept es)"
  "kept (es @ fs) = kept es @ kept fs"
  by (simp_all add: kept_def split: option.splits)

lemma kept_length: "length (kept es) \<le> length es"
  by (induction es) (auto simp: kept_def split: option.splits)

lemma set_all_append: "set_all j (es @ fs) = Option.bind (set_all j es) (\<lambda>j'. set_all j' fs)"
  by (induction es arbitrary: j) (auto split: bind_split)

lemma set_all_ok:
  "event_obj fmt j \<Longrightarrow> \<forall>e \<in> set es. entry_ok fmt e \<Longrightarrow> json_object_size j + length es \<le> 1610612736 \<Longrightarrow>
   \<exists>j'. set_all j es = Some j' \<and> event_obj fmt j' \<and> obj_map j' = obj_map j ++ map_of (rev (kept es)) \<and>
     json_object_size j' \<le> json_object_size j + length es \<and>
     json_weight j' \<le> json_weight j + entries_weight es"
proof (induction es arbitrary: j)
  case (Cons e es)
  obtain k v where e: "e = (k, v)" by fastforce
  show ?case
  proof (cases "\<exists>k' v'. k = Some k' \<and> v = Some v' \<and> utf8_check_bytes k'")
    case True
    then obtain k' v' where kv: "k = Some k'" "v = Some v'" "utf8_check_bytes k'" by blast
    with Cons.prems(2) e have ok: "json_ok v'" "writable fmt v'" "utf8_text k'" "int (length k') \<le> INT_MAX"
      by (auto simp: entry_ok_def key_ok_def utf8_text_def)
    from Cons.prems(3) have "json_object_size j < 1610612741" by simp
    from event_obj_set [OF Cons.prems(1) ok this] obtain j1 where
      j1: "json_object_set_new j (Some k') (Some v') = Some (0, j1)" "event_obj fmt j1"
        "obj_map j1 = (obj_map j)(k' \<mapsto> v')" "json_object_size j1 \<le> Suc (json_object_size j)"
        "json_weight j1 \<le> json_weight j + entry_weight k' v'" by (elim exE conjE)
    have "json_object_size j1 + length es \<le> 1610612736" using j1(4) Cons.prems(3) by simp
    from Cons.IH [OF j1(2) _ this] Cons.prems(2) obtain j' where
      j': "set_all j1 es = Some j'" "event_obj fmt j'" "obj_map j' = obj_map j1 ++ map_of (rev (kept es))"
        "json_object_size j' \<le> json_object_size j1 + length es"
        "json_weight j' \<le> json_weight j1 + entries_weight es" by auto
    have "obj_map j1 = obj_map j ++ [k' \<mapsto> v']" by (simp add: j1(3))
    then have "obj_map j' = obj_map j ++ map_of (rev (kept (e # es)))"
      by (simp add: j'(3) e kv map_of_append)
    then show ?thesis using j1 j' e kv by (auto simp: entries_weight_def)
  next
    case False
    have "json_object_set_new j k v = Some (-1, j)"
      using False Cons.prems(2) e
      by (cases k; cases v)
        (auto simp: json_object_set_new_def json_object_set_new_nocheck_def entry_ok_def key_ok_def utf8_check_key
          split: bind_split)
    moreover have "kept (e # es) = kept es" using False e by (cases k; cases v) auto
    ultimately show ?thesis using Cons.IH [OF Cons.prems(1)] Cons.prems(2,3) e by (auto simp: entries_weight_def)
  qed
qed (simp add: entries_weight_def)


section \<open>The entries of an event\<close>

definition option_entries :: "options \<Rightarrow> (event_option \<Rightarrow> bool) option \<Rightarrow> (string \<times> event_option) list \<Rightarrow> entry list" where
  "option_entries g cmp opts =
     map (\<lambda>(name, opt). (Some name, if cmp = None \<or> the cmp opt then option_item g opt else None)) opts"

definition group_array :: "string option list \<Rightarrow> json" where
  "group_array groups = the (append_groups json_array groups)"

definition hostgroup_entries :: "options \<Rightarrow> host \<Rightarrow> entry list" where
  "hostgroup_entries g h =
     (if hostgroups g \<noteq> 0 then [(Some ''hostgroups'', Some (group_array (hostgroups_ptr h)))] else [])"

definition servicegroup_entries :: "options \<Rightarrow> service \<Rightarrow> entry list" where
  "servicegroup_entries g sv =
     (if servicegroups g \<noteq> 0 then [(Some ''servicegroups'', Some (group_array (servicegroups_ptr sv)))] else [])"

definition variable_entries :: "options \<Rightarrow> customvariables \<Rightarrow> entry list" where
  "variable_entries g cvars =
     (if custom_variables g \<noteq> 0 then map (\<lambda>(k, v). (k, json_string_nocheck v)) cvars else [])"

definition url_entries :: "options \<Rightarrow> string option \<Rightarrow> string option \<Rightarrow> entry list" where
  "url_entries g action_url notes_url =
     (if urls g \<noteq> 0
      then [(Some ''action_url'', json_string_nocheck action_url), (Some ''notes_url'', json_string_nocheck notes_url)]
      else [])"

definition service_entries :: "options \<Rightarrow> service_check_data \<Rightarrow> service \<Rightarrow> host \<Rightarrow> entry list" where
  "service_entries g c sv h =
     option_entries g None (service_check_options g c h) @ hostgroup_entries g h @ servicegroup_entries g sv @
     variable_entries g (service_custom_variables sv) @ url_entries g (service_action_url sv) (service_notes_url sv)"

definition host_entries :: "options \<Rightarrow> host_check_data \<Rightarrow> host \<Rightarrow> entry list" where
  "host_entries g c h =
     option_entries g None (host_check_options g c h) @ hostgroup_entries g h @
     variable_entries g (host_custom_variables h) @ url_entries g (host_action_url h) (host_notes_url h)"

text \<open>The names that the module uses are valid keys.\<close>

lemma ascii_key: "\<forall>c \<in> set k. 0 < uchar c \<and> uchar c < 0x80 \<Longrightarrow> utf8_text k"
proof (induction k)
  case (Cons c k)
  then have "utf8_check_first c = 1" "c \<noteq> NUL" by (auto simp: check_first_range)
  with Cons show ?case by (simp add: utf8_text_def)
qed (simp add: utf8_text_def)

definition name_ok :: "string \<Rightarrow> bool" where
  "name_ok k \<longleftrightarrow> list_all (\<lambda>c. 0 < uchar c \<and> uchar c < 0x80) k \<and> length k < 100"

lemma name_ok_key: "name_ok k \<Longrightarrow> utf8_text k \<and> key_ok k"
  using ascii_key [of k] by (auto simp: name_ok_def list_all_iff key_ok_def utf8_text_def INT_MAX_def)

lemma add_options_set_all:
  "\<forall>(name, opt) \<in> set opts. name_ok name \<Longrightarrow>
   n2a_add_options_to_event g opts j cmp = set_all j (option_entries g cmp opts)"
proof (induction opts arbitrary: j)
  case (Cons nopt opts)
  obtain name opt where n: "nopt = (name, opt)" by fastforce
  with Cons.prems have "name_ok name" by auto
  then have u: "utf8_check_string name (-1) = Some True"
    using name_ok_key [of name] by (simp add: utf8_check_key key_ok_def utf8_text_def)
  have "json_object_set_new j (Some name) None = Some (-1, j)"
    by (simp add: json_object_set_new_def json_object_set_new_nocheck_def u)
  with Cons show ?case by (simp add: n option_entries_def)
qed (simp add: option_entries_def)

lemma append_groups_ok:
  "0 < n \<Longrightarrow> length xs \<le> n \<Longrightarrow> \<exists>n'. append_groups (JArray n xs) gs =
     Some (JArray n' (xs @ concat (map (\<lambda>g. case g of None \<Rightarrow> [] | Some t \<Rightarrow> [JString t]) gs))) \<and>
     0 < n' \<and> length xs + length (concat (map (\<lambda>g. case g of None \<Rightarrow> [] | Some t \<Rightarrow> [JString t]) gs)) \<le> n'"
proof (induction gs arbitrary: n xs)
  case (Cons g gs)
  show ?case
  proof (cases g)
    case None
    with Cons show ?thesis by (simp add: json_string_nocheck_def json_array_append_new_def)
  next
    case (Some t)
    let ?n = "json_array_grow n (length xs) 1"
    have n: "0 < ?n" "length (xs @ [JString t]) \<le> ?n" using Cons.prems by (simp_all add: json_array_grow_def)
    from Cons.IH [OF n] Some n(2) show ?thesis
      by (simp add: json_string_nocheck_def json_array_append_new_def Let_def)
  qed
qed simp

lemma group_array_ok:
  "append_groups json_array gs = Some (group_array gs)"
  "json_ok (group_array gs)"
  "\<forall>g \<in> set gs. pred_option utf8_text g \<Longrightarrow> writable fmt (group_array gs)"
proof -
  from append_groups_ok [of 8 "[]" gs] obtain n where
    a: "append_groups json_array gs = Some (JArray n (concat (map (\<lambda>g. case g of None \<Rightarrow> [] | Some t \<Rightarrow> [JString t]) gs)))"
      "0 < n" "length (concat (map (\<lambda>g. case g of None \<Rightarrow> [] | Some t \<Rightarrow> [JString t]) gs)) \<le> n"
    by (auto simp: json_array_def)
  then show "append_groups json_array gs = Some (group_array gs)" by (simp add: group_array_def)
  show "json_ok (group_array gs)"
    using a by (auto simp: group_array_def list_all_iff split: option.splits)
  show "\<forall>g \<in> set gs. pred_option utf8_text g \<Longrightarrow> writable fmt (group_array gs)"
    using a by (auto simp: group_array_def list_all_iff split: option.splits)
qed

lemma hostgroups_set_all:
  "n2a_nebstruct_add_hostgroups g j h = set_all j (hostgroup_entries g h)"
  by (simp add: n2a_nebstruct_add_hostgroups_def hostgroup_entries_def group_array_ok)

lemma servicegroups_set_all:
  "n2a_nebstruct_add_servicegroups g j sv = set_all j (servicegroup_entries g sv)"
  by (simp add: n2a_nebstruct_add_servicegroups_def servicegroup_entries_def group_array_ok)

lemma variables_set_all:
  "n2a_nebstruct_add_custom_variables g j cvars = set_all j (variable_entries g cvars)"
proof -
  have "add_variables j cvars = set_all j (map (\<lambda>(k, v). (k, json_string_nocheck v)) cvars)"
    by (induction cvars arbitrary: j) (auto split: bind_split)
  then show ?thesis by (simp add: n2a_nebstruct_add_custom_variables_def variable_entries_def)
qed

lemma urls_set_all: "n2a_nebstruct_add_urls g j a b = set_all j (url_entries g a b)"
proof -
  have "name_ok ''action_url'' \<and> name_ok ''notes_url''" by code_simp
  then have "n2a_add_options_to_event g [(''action_url'', Json_string_nocheck a), (''notes_url'', Json_string_nocheck b)] j None =
      set_all j (option_entries g None [(''action_url'', Json_string_nocheck a), (''notes_url'', Json_string_nocheck b)])"
    by (intro add_options_set_all) simp
  then show ?thesis
    by (simp add: n2a_nebstruct_add_urls_def url_entries_def option_entries_def option_item_def)
qed

lemmas add_set_all = hostgroups_set_all servicegroups_set_all variables_set_all urls_set_all

lemma names_ok:
  "\<forall>(name, opt) \<in> set (service_check_options g c h). name_ok name"
  "\<forall>(name, opt) \<in> set (service_additionals c). name_ok name"
  "\<forall>(name, opt) \<in> set (host_check_options g c' h). name_ok name"
  "\<forall>(name, opt) \<in> set (host_additionals c'). name_ok name"
  "\<forall>(name, opt) \<in> set (acknowledgement_options g ca st rk). name_ok name"
  "\<forall>(name, opt) \<in> set (downtime_options g cd st'). name_ok name"
proof -
  have n: "list_all name_ok [''connector'', ''connector_name'', ''event_type'', ''source_type'', ''component'',
    ''resource'', ''address'', ''timestamp'', ''state'', ''state_type'', ''check_type'', ''current_attempt'',
    ''max_attempts'', ''execution_time'', ''latency'', ''command_name'', ''output'', ''long_output'', ''perf_data'',
    ''referer'', ''ref_rk'', ''author'', ''start'', ''end'', ''duration'', ''entry'', ''fixed'', ''downtime_id'']"
    by code_simp
  show "\<forall>(name, opt) \<in> set (service_check_options g c h). name_ok name"
    "\<forall>(name, opt) \<in> set (service_additionals c). name_ok name"
    "\<forall>(name, opt) \<in> set (host_check_options g c' h). name_ok name"
    "\<forall>(name, opt) \<in> set (host_additionals c'). name_ok name"
    "\<forall>(name, opt) \<in> set (acknowledgement_options g ca st rk). name_ok name"
    "\<forall>(name, opt) \<in> set (downtime_options g cd st'). name_ok name"
    using n by (simp_all add: service_check_options_def service_additionals_def host_check_options_def
      host_additionals_def acknowledgement_options_def downtime_options_def)
qed


section \<open>The value and the text of an event\<close>

definition entries_ok :: "number_format \<Rightarrow> entry list \<Rightarrow> bool" where
  "entries_ok fmt es \<longleftrightarrow> list_all (entry_ok fmt) es \<and> int (entries_weight es) + 3 \<le> INT_MAX \<and> length es \<le> 1610612736"

definition event_value :: "entry list \<Rightarrow> json" where
  "event_value es = the (set_all json_object es)"

definition event_text :: "number_format \<Rightarrow> entry list \<Rightarrow> string" where
  "event_text fmt es = snd (the (json_text fmt (event_value es) 0))"

lemma event_value_ok:
  assumes "entries_ok fmt es"
  shows "set_all json_object es = Some (event_value es)"
    and "event_obj fmt (event_value es)"
    and "obj_map (event_value es) = map_of (rev (kept es))"
    and "json_object_size (event_value es) \<le> length es"
    and "json_dumps fmt (event_value es) 0 = Some (Some (event_text fmt es))"
    and "\<forall>c \<in> set (event_text fmt es). printable c"
    and "int (length (event_text fmt es)) \<le> INT_MAX"
    and "json_weight (event_value es) \<le> entries_weight es + 3"
    and "length (event_text fmt es) \<le> entries_weight es + 3"
    and "json_text fmt (event_value es) 0 = Some (0, event_text fmt es)"
proof -
  have o: "event_obj fmt json_object" "json_object_size json_object = 0" "obj_map json_object = Map.empty"
    "json_weight json_object = 3"
  proof -
    have i: "ht_ok (hashtable_init :: json hashtable)" "ht_map (hashtable_init :: json hashtable) = Map.empty"
      using hashtable_init_ok by auto
    have "ht_size (hashtable_init :: json hashtable) = 0" by (simp add: hashtable_init_def)
    with i show "event_obj fmt json_object" "json_object_size json_object = 0" "obj_map json_object = Map.empty"
      "json_weight json_object = 3"
      by (simp_all add: event_obj_def json_is_object_def json_object_def json_ok_object_map obj_map_def
        writable_map [OF i(1)] json_weight_map [OF i(1)] json_object_size_def del: json_weight.simps writable.simps)
  qed
  from assms have e: "\<forall>e \<in> set es. entry_ok fmt e" "length es \<le> 1610612736"
    "int (entries_weight es) + 3 \<le> INT_MAX" by (auto simp: entries_ok_def list_all_iff)
  from set_all_ok [OF o(1) e(1)] o e(2) obtain j where j: "set_all json_object es = Some j" "event_obj fmt j"
    "obj_map j = map_of (rev (kept es))" "json_object_size j \<le> length es" "json_weight j \<le> 3 + entries_weight es"
    by auto
  then have v: "event_value es = j" by (simp add: event_value_def)
  show "set_all json_object es = Some (event_value es)" "event_obj fmt (event_value es)"
    "obj_map (event_value es) = map_of (rev (kept es))" "json_object_size (event_value es) \<le> length es"
    "json_weight (event_value es) \<le> entries_weight es + 3"
    using j v by simp_all
  have w: "json_weight j < 2 ^ 61" using j(5) e(3) by (simp add: INT_MAX_def)
  have "JSON_INDENT 0 = 0" by (simp add: JSON_INDENT_def)
  from json_dumps_ok [OF _ _ this w, of fmt] j(2) obtain tx where
    t: "json_text fmt j 0 = Some (0, tx)" "json_dumps fmt j 0 = Some (Some tx)" "\<forall>c \<in> set tx. printable c"
      "length tx \<le> json_weight j" by (auto simp: event_obj_def)
  then have "event_text fmt es = tx" by (simp add: event_text_def v)
  with t v j(5) e(3) show "json_dumps fmt (event_value es) 0 = Some (Some (event_text fmt es))"
    "\<forall>c \<in> set (event_text fmt es). printable c" "int (length (event_text fmt es)) \<le> INT_MAX"
    "length (event_text fmt es) \<le> entries_weight es + 3"
    "json_text fmt (event_value es) 0 = Some (0, event_text fmt es)" by simp_all
qed

lemma entries_weight_append [simp]: "entries_weight (es @ fs) = entries_weight es + entries_weight fs"
  by (simp add: entries_weight_def)

lemma entries_ok_append: "entries_ok fmt (es @ fs) \<Longrightarrow> entries_ok fmt es"
  by (simp add: entries_ok_def)

lemma entries_weight_cmp: "entries_weight (option_entries g cmp opts) \<le> entries_weight (option_entries g None opts)"
proof (induction opts)
  case (Cons nopt opts)
  obtain name opt where n: "nopt = (name, opt)" by fastforce
  with Cons show ?case
    by (cases "option_item g opt") (auto simp: option_entries_def entries_weight_def)
qed (simp add: option_entries_def)

lemma entries_ok_cmp:
  assumes "entries_ok fmt (es @ option_entries g None opts)"
  shows "entries_ok fmt (es @ option_entries g cmp opts)"
proof -
  have "list_all (entry_ok fmt) (option_entries g None opts) \<Longrightarrow> list_all (entry_ok fmt) (option_entries g cmp opts)"
    by (auto simp: list_all_iff option_entries_def entry_ok_def)
  with assms entries_weight_cmp [of g cmp opts] show ?thesis
    by (auto simp: entries_ok_def option_entries_def)
qed

lemma sdiv_abs_le: "0 \<le> a \<Longrightarrow> \<bar>a sdiv b\<bar> \<le> (a :: int)"
proof -
  assume a: "0 \<le> a"
  have "a div \<bar>b\<bar> \<le> a" using a by (cases "b = 0") (simp_all add: zdiv_mono2 [of _ 1, simplified] int_one_le_iff_zero_less)
  moreover have "0 \<le> a div \<bar>b\<bar>" using a by (cases "b = 0") (simp_all add: pos_imp_zdiv_nonneg_iff)
  ultimately show ?thesis using a by (auto simp: signed_divide_int_def sgn_if abs_mult)
qed

lemma text_xstrlen: "int (length t) \<le> INT_MAX \<Longrightarrow> xstrlen (Some t) = length t"
  by (simp add: xstrlen_def INT_MAX_def UINT_MAX_def)

lemma small_is_int: "int n \<le> INT_MAX \<Longrightarrow> is_int (int n)"
  by (simp add: is_int_def INT_MAX_def INT_MIN_def)

section \<open>Host checks\<close>

text \<open>
  The long fields of a host check: when the text without them is already too long, only those
  are added that are at least as long as what it exceeds the maximum by.
\<close>

definition host_filter :: "number_format \<Rightarrow> options \<Rightarrow> host_check_data \<Rightarrow> host \<Rightarrow> (event_option \<Rightarrow> bool) option" where
  "host_filter fmt g c h =
     (let n = length (event_text fmt (host_entries g c h)) in
      if int n > max_size g then Some (n2a_str_maxsize (word_of_nat n - word_of_int (max_size g))) else None)"

definition host_event :: "number_format \<Rightarrow> options \<Rightarrow> host_check_data \<Rightarrow> host \<Rightarrow> entry list" where
  "host_event fmt g c h =
     host_entries g c h @ option_entries g (host_filter fmt g c h) (host_additionals c)"

lemma host_check_json:
  assumes "hc_object_ptr c = Some h"
    and ok: "entries_ok fmt (host_entries g c h @ option_entries g None (host_additionals c))"
  shows "n2a_nebstruct_host_check_data_to_json fmt g c = Some (0, event_text fmt (host_event fmt g c h))"
proof -
  let ?es = "host_entries g c h"
  note b = event_value_ok [OF entries_ok_append [OF ok]]
  note f = event_value_ok [OF entries_ok_cmp [OF ok, of "host_filter fmt g c h"]]
  have s: "set_all (event_value ?es) (option_entries g (host_filter fmt g c h) (host_additionals c)) =
      Some (event_value (host_event fmt g c h))"
    using f(1) b(1) by (simp add: set_all_append host_event_def)
  have "Option.bind (n2a_add_options_to_event g (host_check_options g c h) json_object None) (\<lambda>j1.
      Option.bind (n2a_nebstruct_add_hostgroups g j1 h) (\<lambda>j2.
      Option.bind (n2a_nebstruct_add_custom_variables g j2 (host_custom_variables h)) (\<lambda>j3.
      Option.bind (n2a_nebstruct_add_urls g j3 (host_action_url h) (host_notes_url h)) k))) =
    Option.bind (set_all json_object ?es) k" for k :: "json \<Rightarrow> (int \<times> string) option"
    by (simp add: host_entries_def set_all_append add_set_all add_options_set_all [OF names_ok(3)])
  note k = this
  have x: "xstrlen (Some (event_text fmt ?es)) = length (event_text fmt ?es)" by (rule text_xstrlen [OF b(7)])
  have x': "xstrlen (Some (event_text fmt (host_event fmt g c h))) = length (event_text fmt (host_event fmt g c h))"
    using f(7) by (simp add: host_event_def text_xstrlen)
  have "n2a_nebstruct_host_check_data_to_json fmt g c = do {
     j5 \<leftarrow> n2a_add_options_to_event g (host_additionals c) (event_value ?es) (host_filter fmt g c h);
     json \<leftarrow> json_dumps fmt j5 0;
     buffer \<leftarrow> text_buffer json;
     Some (0, buffer)
   }"
    unfolding n2a_nebstruct_host_check_data_to_json_def assms(1) Option.bind.bind_lunit k b(1) b(5) Let_def x
      to_int_id [OF small_is_int [OF b(7)]] host_filter_def by simp
  then show ?thesis
    using f(5) x' by (simp add: add_options_set_all [OF names_ok(4)] s text_buffer_def flip: host_event_def)
qed

section \<open>Acknowledgements and downtimes\<close>

definition ack_event :: "options \<Rightarrow> acknowledgement_data \<Rightarrow> string option \<Rightarrow> string option \<Rightarrow> entry list" where
  "ack_event g c source_type ref_rk = option_entries g None (acknowledgement_options g c source_type ref_rk)"

definition downtime_event :: "options \<Rightarrow> downtime_data \<Rightarrow> entry list" where
  "downtime_event g c = option_entries g None (downtime_options g c
     (if downtime_type c = HOST_DOWNTIME then Some ''component''
      else if downtime_type c = SERVICE_DOWNTIME then Some ''resource'' else None))"

lemma text_buffer_event:
  "entries_ok fmt es \<Longrightarrow> text_buffer (Some (event_text fmt es)) = Some (event_text fmt es)"
  using text_xstrlen [OF event_value_ok(7)] by (simp add: text_buffer_def)

lemma downtime_json:
  assumes "entries_ok fmt (downtime_event g c)"
  shows "n2a_nebstruct_downtime_data_to_json fmt g c = Some (1, event_text fmt (downtime_event g c))"
  using event_value_ok(1,5) [OF assms] text_buffer_event [OF assms]
  by (simp add: n2a_nebstruct_downtime_data_to_json_def Let_def add_options_set_all [OF names_ok(6)]
    flip: downtime_event_def)

lemma ack_json:
  assumes "(if acknowledgement_type c = HOST_ACKNOWLEDGEMENT then do {
          rk \<leftarrow> n2a_str_join (Some ''.'') [Some (connector g), Some (eventsource_name g), Some ''check'',
                  Some ''component'', ack_host_name c];
          Some (Some ''component'', rk)
        }
        else if acknowledgement_type c = SERVICE_ACKNOWLEDGEMENT then do {
          rk \<leftarrow> n2a_str_join (Some ''.'') [Some (connector g), Some (eventsource_name g), Some ''check'',
                  Some ''resource'', ack_host_name c, ack_service_description c];
          Some (Some ''resource'', rk)
        }
        else Some (None, None)) = Some (source_type, ref_rk)"
    and ok: "entries_ok fmt (ack_event g c source_type ref_rk)"
  shows "n2a_nebstruct_acknowlegement_data_to_json fmt g c = Some (1, event_text fmt (ack_event g c source_type ref_rk))"
  unfolding n2a_nebstruct_acknowlegement_data_to_json_def assms(1) Option.bind.bind_lunit prod.case
    add_options_set_all [OF names_ok(5)] ack_event_def [symmetric] event_value_ok(1,5) [OF ok]
    text_buffer_event [OF ok] ..


section \<open>Service checks\<close>

definition service_full :: "options \<Rightarrow> service_check_data \<Rightarrow> service \<Rightarrow> host \<Rightarrow> entry list" where
  "service_full g c sv h = service_entries g c sv h @ option_entries g None (service_additionals c)"

definition rest_size :: "service_check_data \<Rightarrow> nat" where
  "rest_size c = xstrlen (sc_long_output c) + xstrlen (sc_output c) + xstrlen (sc_perf_data c)"

text \<open>The room that the text without the long fields leaves.\<close>

definition room_left :: "number_format \<Rightarrow> options \<Rightarrow> service_check_data \<Rightarrow> service \<Rightarrow> host \<Rightarrow> int" where
  "room_left fmt g c sv h = max_size g - int (length (event_text fmt (service_entries g c sv h)))"

lemma string_entry_weight:
  "name_ok k \<Longrightarrow> 12 * xstrlen t \<le> entries_weight [(Some k, json_string_nocheck t)]"
  using name_ok_key [of k]
  by (cases t) (auto simp: entries_weight_def entry_weight_def string_weight_def json_string_nocheck_def xstrlen_def
    utf8_text_def)

lemma rest_size_bound: "12 * rest_size c \<le> entries_weight (option_entries g None (service_additionals c))"
proof -
  let ?e = "\<lambda>k t. entries_weight [(Some k, json_string_nocheck t)]"
  have w: "entries_weight (e # es) = entries_weight [e] + entries_weight es" for e es
    using entries_weight_append [of "[e]" es] by simp
  have "entries_weight (option_entries g None (service_additionals c)) =
      ?e ''output'' (sc_output c) + (?e ''long_output'' (sc_long_output c) + ?e ''perf_data'' (sc_perf_data c))"
    unfolding service_additionals_def option_entries_def option_item_def
    by (simp add: w [of _ "_ # _"])
  moreover have "name_ok ''output''" "name_ok ''long_output''" "name_ok ''perf_data''"
    using names_ok(2) [of c] by (simp_all add: service_additionals_def)
  ultimately show ?thesis
    using string_entry_weight [of "''output''" "sc_output c"] string_entry_weight [of "''long_output''" "sc_long_output c"]
      string_entry_weight [of "''perf_data''" "sc_perf_data c"] by (simp add: rest_size_def)
qed

lemma service_check_json:
  assumes ptr: "sc_object_ptr c = Some sv" "host_ptr sv = Some h"
    and ok: "entries_ok fmt (service_full g c sv h)" and size: "0 \<le> max_size g" "max_size g \<le> INT_MAX"
  shows "n2a_nebstruct_service_check_data_to_json fmt g c =
    (if int (rest_size c) > room_left fmt g c sv h then
       (if room_left fmt g c sv h = 0 then None
        else Some (int (rest_size c) sdiv room_left fmt g c sv h + 1, event_value (service_entries g c sv h),
               length (event_text fmt (service_entries g c sv h))))
     else Some (1, event_value (service_full g c sv h), length (event_text fmt (service_full g c sv h))))"
proof -
  let ?es = "service_entries g c sv h" and ?left = "room_left fmt g c sv h"
  note b = event_value_ok [OF entries_ok_append [OF ok [unfolded service_full_def]]]
  note f = event_value_ok [OF ok]
  have s: "n2a_add_options_to_event g (service_additionals c) (event_value ?es) None = Some (event_value (service_full g c sv h))"
    using f(1) b(1) by (simp add: add_options_set_all [OF names_ok(2)] set_all_append service_full_def)
  have k: "Option.bind (n2a_add_options_to_event g (service_check_options g c h) json_object None) (\<lambda>j1.
      Option.bind (n2a_nebstruct_add_hostgroups g j1 h) (\<lambda>j2.
      Option.bind (n2a_nebstruct_add_servicegroups g j2 sv) (\<lambda>j3.
      Option.bind (n2a_nebstruct_add_custom_variables g j3 (service_custom_variables sv)) (\<lambda>j4.
      Option.bind (n2a_nebstruct_add_urls g j4 (service_action_url sv) (service_notes_url sv)) k)))) =
    Option.bind (set_all json_object ?es) k" for k :: "json \<Rightarrow> (int \<times> json \<times> nat) option"
    by (simp add: service_entries_def set_all_append add_set_all add_options_set_all [OF names_ok(1)])
  have x: "xstrlen (Some (event_text fmt ?es)) = length (event_text fmt ?es)" by (rule text_xstrlen [OF b(7)])
  have x': "xstrlen (Some (event_text fmt (service_full g c sv h))) = length (event_text fmt (service_full g c sv h))"
    by (rule text_xstrlen [OF f(7)])
  have sub: "int_sub (max_size g) (int (length (event_text fmt ?es))) = Some ?left"
    unfolding room_left_def using size b(7) by (intro int_sub_nonneg) simp_all
  have r: "12 * int (rest_size c) + 3 \<le> INT_MAX"
    using rest_size_bound [of c g] ok by (simp add: entries_ok_def service_full_def)
  then have ri: "to_int (int (rest_size c)) = int (rest_size c)" by (simp add: small_is_int)
  have div: "Option.bind (int_div (int (rest_size c)) ?left) (\<lambda>q. int_add q 1) =
      (if ?left = 0 then None else Some (int (rest_size c) sdiv ?left + 1))"
  proof -
    have "\<bar>int (rest_size c) sdiv ?left\<bar> \<le> int (rest_size c)" by (rule sdiv_abs_le) simp
    then have "is_int (int (rest_size c) sdiv ?left)" "is_int (int (rest_size c) sdiv ?left + 1)"
      using r by (auto simp: is_int_def INT_MAX_def INT_MIN_def)
    then show ?thesis by (simp add: int_div_def int_add_def int_result_def)
  qed
  have run: "n2a_nebstruct_service_check_data_to_json fmt g c =
     (if int (rest_size c) > ?left
      then Option.bind (Option.bind (int_div (int (rest_size c)) ?left) (\<lambda>q. int_add q 1))
             (\<lambda>nbmsg. Some (nbmsg, event_value ?es, length (event_text fmt ?es)))
      else Some (1, event_value (service_full g c sv h), length (event_text fmt (service_full g c sv h))))"
    unfolding n2a_nebstruct_service_check_data_to_json_def ptr Option.bind.bind_lunit k b(1) b(5) Let_def x
      to_int_id [OF small_is_int [OF b(7)]] sub rest_size_def [symmetric] ri s f(5) x' by simp
  show ?thesis unfolding run div by simp
qed

end
