(* ===== verification/Events_Facts.thy ===== *)
theory Events_Facts
  imports Events Json_Facts
begin

text \<open>
  What the handlers of \<^verbatim>\<open>src/events.c\<close> send, as runs of the connector: the routing key, the
  text of each message, and the stretches of a long field that is split.
\<close>

section \<open>Runs of the connector\<close>

lemma connector_run_append:
  "connector_run env g s2 bs s3 \<Longrightarrow> connector_run env g s1 as s2 \<Longrightarrow> connector_run env g s1 (as @ bs) s3"
proof (induction rule: connector_run.induct)
  case (run_step s bs s' b s'')
  then have "connector_run env g s1 ((as @ bs) @ [b]) s''" by (blast intro: connector_run.run_step)
  then show ?case by simp
qed simp

lemma connector_run_one:
  "n2a_send_event env g (Some k) (Some m) s = Some (n, s') \<Longrightarrow> connector_run env g s [Send k m] s'"
  using connector_run.run_step [OF connector_run.run_start connector_step.send] by fastforce

lemma send_runs:
  assumes "clock_ok env" "connector_ok g s xs"
  shows "\<exists>n s' ys. n2a_send_event env g (Some k) (Some m) s = Some (n, s') \<and> connector_ok g s' ys \<and>
    connector_run env g s [Send k m] s'"
proof -
  from send_event_ok [OF assms, of k m] obtain n s' ys where
    "n2a_send_event env g (Some k) (Some m) s = Some (n, s')" "connector_ok g s' ys" by blast
  with connector_run_one [OF this(1)] show ?thesis by blast
qed

section \<open>Routing keys\<close>

text \<open>The names up to the first NULL, joined by dots and cut to the maximal size.\<close>

definition routing_key :: "options \<Rightarrow> string option list \<Rightarrow> string" where
  "routing_key g names = take (nat (max_size g)) (foldl (join_onto ''.'') [] (args_before_null names))"

definition names_fit :: "string option list \<Rightarrow> bool" where
  "names_fit names \<longleftrightarrow> args_before_null names \<noteq> [] \<and>
     int (sum_list (map (\<lambda>p. 1 + length p) (args_before_null names))) \<le> INT_MAX"

lemma foldl_join_length:
  "length (foldl (join_onto d) r ps) \<le> length r + sum_list (map (\<lambda>p. length d + length p) ps)"
proof (induction ps arbitrary: r)
  case (Cons p ps)
  have "length (join_onto d r p) \<le> length r + (length d + length p)" by (simp add: join_onto_def)
  with Cons [of "join_onto d r p"] show ?case by simp
qed simp

lemma size_gt_int:
  assumes "0 \<le> m" "m \<le> INT_MAX" "int n \<le> INT_MAX"
  shows "size_gt n m \<longleftrightarrow> int n > m"
proof -
  from assms obtain k where k: "m = int k" by (metis nonneg_int_cases)
  have "n < 2 ^ 64" "k < 2 ^ 64" using assms k by (simp_all add: INT_MAX_def)
  then show ?thesis
    unfolding k size_gt_def by (simp add: word_less_nat_alt unat_of_nat_64)
qed

lemma key_sent:
  assumes "names_fit names" "0 \<le> max_size g" "max_size g \<le> INT_MAX"
  shows "\<exists>key0. n2a_str_join (Some ''.'') names = Some key0 \<and> truncate_key g key0 = Some (routing_key g names)"
proof -
  let ?ps = "args_before_null names" and ?k = "foldl (join_onto ''.'') [] (args_before_null names)"
  have fit: "?ps \<noteq> []" "int (sum_list (map (\<lambda>p. length ''.'' + length p) ?ps)) \<le> INT_MAX"
    using assms(1) by (simp_all add: names_fit_def)
  then have "sum_list (map (\<lambda>p. length ''.'' + length p) ?ps) \<le> UINT_MAX"
    by (simp add: INT_MAX_def UINT_MAX_def)
  from str_join_spec [OF refl this] fit(1) have j: "n2a_str_join (Some ''.'') names = Some (Some ?k)" by simp
  have "length ?k \<le> sum_list (map (\<lambda>p. length ''.'' + length p) ?ps)"
    using foldl_join_length [of "''.''" "[]" ?ps] by simp
  with fit(2) have l: "int (length ?k) \<le> INT_MAX" by linarith
  then have "xstrlen (Some ?k) = length ?k" by (rule text_xstrlen)
  then have "truncate_key g (Some ?k) = Some (routing_key g names)"
    using size_gt_int [OF assms(2,3) l] by (simp add: truncate_key_def routing_key_def)
  with j show ?thesis by blast
qed

lemma routing_key_length: "0 \<le> max_size g \<Longrightarrow> int (length (routing_key g names)) \<le> max_size g"
  by (simp add: routing_key_def)

definition host_names :: "options \<Rightarrow> string \<Rightarrow> string option \<Rightarrow> string option list" where
  "host_names g event_type host = [Some (connector g), Some (eventsource_name g), Some event_type, Some ''component'', host]"

definition service_names :: "options \<Rightarrow> string \<Rightarrow> string option \<Rightarrow> string option \<Rightarrow> string option list" where
  "service_names g event_type host svc =
     [Some (connector g), Some (eventsource_name g), Some event_type, Some ''resource'', host, svc]"

section \<open>One message\<close>

definition max_size_ok :: "options \<Rightarrow> bool" where
  "max_size_ok g \<longleftrightarrow> 0 \<le> max_size g \<and> max_size g \<le> INT_MAX"

lemma host_check_sends:
  assumes "clock_ok env" "connector_ok g s xs" "max_size_ok g"
    and "hc_type c = NEBTYPE_HOSTCHECK_PROCESSED" "hc_object_ptr c = Some h"
    and "entries_ok fmt (host_entries g c h @ option_entries g None (host_additionals c))"
    and "names_fit (host_names g ''check'' (hc_host_name c))"
  shows "\<exists>s' ys. n2a_event_host_check env fmt g c s = Some (0, s') \<and> connector_ok g s' ys \<and>
    connector_run env g s [Send (routing_key g (host_names g ''check'' (hc_host_name c)))
      (event_text fmt (host_event fmt g c h))] s'"
proof -
  from key_sent [OF assms(7)] assms(3) obtain key0 where
    k: "n2a_str_join (Some ''.'') (host_names g ''check'' (hc_host_name c)) = Some key0"
      "truncate_key g key0 = Some (routing_key g (host_names g ''check'' (hc_host_name c)))"
    by (auto simp: max_size_ok_def)
  from send_runs [OF assms(1,2)] obtain n s' ys where
    r: "n2a_send_event env g (Some (routing_key g (host_names g ''check'' (hc_host_name c))))
          (Some (event_text fmt (host_event fmt g c h))) s = Some (n, s')" "connector_ok g s' ys"
      "connector_run env g s [Send (routing_key g (host_names g ''check'' (hc_host_name c)))
         (event_text fmt (host_event fmt g c h))] s'" by blast
  have "n2a_event_host_check env fmt g c s = Some (0, s')"
    by (simp add: n2a_event_host_check_def assms(4) host_check_json [OF assms(5,6)] k r(1) flip: host_names_def)
  with r show ?thesis by blast
qed

lemma downtime_sends:
  assumes "clock_ok env" "connector_ok g s xs" "max_size_ok g"
    and "dt_type c = NEBTYPE_DOWNTIME_ADD"
    and names: "names = (if downtime_type c = HOST_DOWNTIME then host_names g ''downtime'' (dt_host_name c)
        else service_names g ''downtime'' (dt_host_name c) (dt_service_description c))"
    and "downtime_type c = HOST_DOWNTIME \<or> downtime_type c = SERVICE_DOWNTIME"
    and "entries_ok fmt (downtime_event g c)" and "names_fit names"
  shows "\<exists>s' ys. n2a_event_downtime env fmt g c s = Some (0, s') \<and> connector_ok g s' ys \<and>
    connector_run env g s [Send (routing_key g names) (event_text fmt (downtime_event g c))] s'"
proof -
  from key_sent [OF assms(8)] assms(3) obtain key0 where
    k: "n2a_str_join (Some ''.'') names = Some key0" "truncate_key g key0 = Some (routing_key g names)"
    by (auto simp: max_size_ok_def)
  then have key: "(if downtime_type c = HOST_DOWNTIME
        then n2a_str_join (Some ''.'') (host_names g ''downtime'' (dt_host_name c))
        else if downtime_type c = SERVICE_DOWNTIME
        then n2a_str_join (Some ''.'') (service_names g ''downtime'' (dt_host_name c) (dt_service_description c))
        else Some None) = Some key0"
    using names assms(6) by auto
  from send_runs [OF assms(1,2)] obtain n s' ys where
    r: "n2a_send_event env g (Some (routing_key g names)) (Some (event_text fmt (downtime_event g c))) s = Some (n, s')"
      "connector_ok g s' ys"
      "connector_run env g s [Send (routing_key g names) (event_text fmt (downtime_event g c))] s'" by blast
  have "n2a_event_downtime env fmt g c s = Some (0, s')"
    unfolding n2a_event_downtime_def host_names_def [symmetric] service_names_def [symmetric] key
    by (simp add: assms(4) k(2) downtime_json [OF assms(7)] r(1))
  with r show ?thesis by blast
qed

lemma acknowledgement_sends:
  assumes "clock_ok env" "connector_ok g s xs" "max_size_ok g"
    and "ack_type c = NEBTYPE_ACKNOWLEDGEMENT_ADD"
    and host: "is_host = (acknowledgement_type c = HOST_ACKNOWLEDGEMENT)"
    and "is_host \<or> acknowledgement_type c = SERVICE_ACKNOWLEDGEMENT"
    and names: "names = (\<lambda>event_type. if is_host then host_names g event_type (ack_host_name c)
        else service_names g event_type (ack_host_name c) (ack_service_description c))"
    and referer: "referer = foldl (join_onto ''.'') [] (args_before_null (names ''check''))"
    and es: "es = ack_event g c (Some (if is_host then ''component'' else ''resource'')) (Some referer)"
    and "entries_ok fmt es" and "names_fit (names ''ack'')" "names_fit (names ''check'')"
  shows "\<exists>s' ys. n2a_event_acknowledgement env fmt g c s = Some (0, s') \<and> connector_ok g s' ys \<and>
    connector_run env g s [Send (routing_key g (names ''ack'')) (event_text fmt es)] s'"
proof -
  from key_sent [OF assms(11)] assms(3) obtain key0 where
    k: "n2a_str_join (Some ''.'') (names ''ack'') = Some key0" "truncate_key g key0 = Some (routing_key g (names ''ack''))"
    by (auto simp: max_size_ok_def)
  then have key: "(if acknowledgement_type c = HOST_ACKNOWLEDGEMENT
        then n2a_str_join (Some ''.'') (host_names g ''ack'' (ack_host_name c))
        else if acknowledgement_type c = SERVICE_ACKNOWLEDGEMENT
        then n2a_str_join (Some ''.'') (service_names g ''ack'' (ack_host_name c) (ack_service_description c))
        else Some None) = Some key0"
    using names host assms(6) by auto
  have "n2a_str_join (Some ''.'') (names ''check'') = Some (Some referer)"
    using str_join_spec [of "names ''check''" _ "''.''", OF refl] assms(12) referer
    by (simp add: names_fit_def INT_MAX_def UINT_MAX_def)
  then have ref: "(if acknowledgement_type c = HOST_ACKNOWLEDGEMENT then do {
          k \<leftarrow> n2a_str_join (Some ''.'') [Some (connector g), Some (eventsource_name g), Some ''check'',
                  Some ''component'', ack_host_name c];
          Some (Some ''component'', k)
        }
        else if acknowledgement_type c = SERVICE_ACKNOWLEDGEMENT then do {
          k \<leftarrow> n2a_str_join (Some ''.'') [Some (connector g), Some (eventsource_name g), Some ''check'',
                  Some ''resource'', ack_host_name c, ack_service_description c];
          Some (Some ''resource'', k)
        }
        else Some (None, None)) = Some (Some (if is_host then ''component'' else ''resource''), Some referer)"
    using names host assms(6) by (auto simp: host_names_def service_names_def)
  from send_runs [OF assms(1,2)] obtain n s' ys where
    r: "n2a_send_event env g (Some (routing_key g (names ''ack''))) (Some (event_text fmt es)) s = Some (n, s')"
      "connector_ok g s' ys"
      "connector_run env g s [Send (routing_key g (names ''ack'')) (event_text fmt es)] s'" by blast
  have j: "n2a_nebstruct_acknowlegement_data_to_json fmt g c = Some (1, event_text fmt es)"
    unfolding es by (rule ack_json [OF ref assms(10) [unfolded es]])
  have "n2a_event_acknowledgement env fmt g c s = Some (0, s')"
    unfolding n2a_event_acknowledgement_def host_names_def [symmetric] service_names_def [symmetric] key
    by (simp add: assms(4) k(2) j r(1))
  with r show ?thesis by blast
qed


section \<open>Splitting a long field\<close>

definition ascii_text :: "string \<Rightarrow> bool" where
  "ascii_text m \<longleftrightarrow> list_all (\<lambda>c. 0 < uchar c \<and> uchar c < 0x80) m"

definition chunk :: "nat \<Rightarrow> string \<Rightarrow> nat \<Rightarrow> string" where
  "chunk left m i = take (left - 1) (drop (i * (left - 1)) m)"

definition map_weight :: "(string \<rightharpoonup> json) \<Rightarrow> nat" where
  "map_weight m = (\<Sum>k \<in> dom m. entry_weight k (the (m k)))"

lemma map_weight_upd: "finite (dom m) \<Longrightarrow> map_weight (m(k \<mapsto> v)) \<le> map_weight m + entry_weight k v"
  unfolding map_weight_def by (rule weight_upd)

lemma event_weight_map: "event_obj fmt j \<Longrightarrow> json_weight j = 3 + map_weight (obj_map j)"
  by (erule event_objE) (simp add: json_weight_map map_weight_def obj_map_def del: json_weight.simps)

lemma chunk_ascii: "ascii_text m \<Longrightarrow> utf8_text (chunk left m i)"
  by (rule ascii_key) (auto simp: ascii_text_def list_all_iff chunk_def dest!: in_set_takeD in_set_dropD)

lemma chunk_weight: "entry_weight k (JString (chunk left m i)) \<le> entry_weight k (JString m)"
  by (simp add: entry_weight_def string_weight_def chunk_def)

lemma event_obj_del:
  assumes "event_obj fmt j"
  shows "\<exists>r j'. json_object_del j k = Some (r, j') \<and> event_obj fmt j' \<and> obj_map j' = (obj_map j)(k := None) \<and>
    json_object_size j' \<le> json_object_size j"
proof -
  from assms obtain t s where t: "j = JObject t s" "ht_ok t" by (rule event_objE)
  then have ok: "obj_ok j" by (simp add: obj_ok_def)
  from obj.del_law [OF ok, of k] obtain r j' where
    d: "json_object_del j k = Some (r, j')" "obj_ok j'" "obj_map j' = (obj_map j)(k := None)" by (elim exE conjE)
  from d(2) obtain t' s' where t': "j' = JObject t' s'" "ht_ok t'" by (rule obj_cases)
  have "json_ok j'" using object_del_json_ok [OF _ d(1)] assms by (simp add: event_obj_def)
  moreover have "writable fmt j'"
    using assms d(3) unfolding t(1) t'(1) event_obj_def writable_map [OF t(2)] writable_map [OF t'(2)]
    by (auto simp: obj_map_def split: if_splits)
  moreover have "json_object_size j' \<le> json_object_size j"
    unfolding obj.count_law [OF ok] obj.count_law [OF d(2)] d(3)
    by (rule card_mono) (auto simp: obj.finite_law)
  ultimately show ?thesis using d(1,3) t'(1) by (auto simp: event_obj_def json_is_object_def)
qed

lemma update_json_ok:
  assumes j: "event_obj fmt j" "json_object_size j < 1610612741" and k: "name_ok field"
    and m: "ascii_text m" "int (length m) \<le> INT_MAX"
    and left: "0 < left" "int left \<le> INT_MAX" and i: "i * (left - 1) \<le> length m"
  shows "\<exists>j'. n2a_nebstruct_service_check_data_update_json j (Some m) field (int left) (int i) = Some j' \<and>
    event_obj fmt j' \<and> obj_map j' = (obj_map j)(field \<mapsto> JString (chunk left m i)) \<and>
    json_object_size j' \<le> Suc (json_object_size j)"
proof -
  have n: "int_sub (int left) 1 = Some (int (left - 1))"
    using left by (simp add: INT_MAX_def of_nat_diff)
  have "int i * int (left - 1) \<le> INT_MAX" using i m(2) by (metis of_nat_mult of_nat_le_iff order_trans)
  moreover have "0 \<le> int i * int (left - 1)" by simp
  ultimately have "is_int (int i * int (left - 1))" unfolding is_int_def INT_MIN_def by linarith
  then have o: "int_result (int i * int (left - 1)) = Some (int (i * (left - 1)))"
    by (simp add: int_result_def)
  from event_obj_del [OF j(1), of field] obtain r j1 where
    d: "json_object_del j field = Some (r, j1)" "event_obj fmt j1" "obj_map j1 = (obj_map j)(field := None)"
      "json_object_size j1 \<le> json_object_size j" by (elim exE conjE)
  have "json_object_size j1 < 1610612741" using d(4) j(2) by simp
  moreover have "utf8_text field" "int (length field) \<le> INT_MAX" using name_ok_key [OF k] by (simp_all add: key_ok_def)
  moreover have "json_ok (JString (chunk left m i))" "writable fmt (JString (chunk left m i))"
    using chunk_ascii [OF m(1)] by simp_all
  ultimately obtain j2 where s: "json_object_set_new j1 (Some field) (Some (JString (chunk left m i))) = Some (0, j2)"
    "event_obj fmt j2" "obj_map j2 = (obj_map j1)(field \<mapsto> JString (chunk left m i))"
    "json_object_size j2 \<le> Suc (json_object_size j1)"
    using event_obj_set [OF d(2), of "JString (chunk left m i)" field] by auto
  have "n2a_nebstruct_service_check_data_update_json j (Some m) field (int left) (int i) = Some j2"
    unfolding n2a_nebstruct_service_check_data_update_json_def n Option.bind.bind_lunit o Let_def nat_int
      chunk_def [symmetric] d(1) prod.case
    using left(1) i s(1) by (simp add: json_string_nocheck_def)
  with s d show ?thesis by auto
qed

text \<open>A message that is the text of an event with the given fields.\<close>

definition text_of :: "number_format \<Rightarrow> (string \<rightharpoonup> json) \<Rightarrow> string \<Rightarrow> bool" where
  "text_of fmt m t \<longleftrightarrow> (\<exists>j. event_obj fmt j \<and> obj_map j = m \<and> json_text fmt j 0 = Some (0, t))"

lemma event_text_of: "entries_ok fmt es \<Longrightarrow> text_of fmt (map_of (rev (kept es))) (event_text fmt es)"
  unfolding text_of_def using event_value_ok(2,3,10) by blast

lemma event_dumps:
  assumes "event_obj fmt j" "int (map_weight (obj_map j)) + 3 \<le> INT_MAX"
  shows "\<exists>tx. json_dumps fmt j 0 = Some (Some tx) \<and> text_buffer (Some tx) = Some tx \<and> text_of fmt (obj_map j) tx"
proof -
  have w: "json_weight j < 2 ^ 61" "int (json_weight j) \<le> INT_MAX"
    using assms(2) event_weight_map [OF assms(1)] by (simp_all add: INT_MAX_def)
  have "JSON_INDENT 0 = 0" by (simp add: JSON_INDENT_def)
  from json_dumps_ok [OF _ _ this w(1), of fmt] assms(1) obtain tx where
    t: "json_text fmt j 0 = Some (0, tx)" "json_dumps fmt j 0 = Some (Some tx)" "length tx \<le> json_weight j"
    by (auto simp: event_obj_def)
  then have "int (length tx) \<le> INT_MAX" using w(2) by linarith
  then have "text_buffer (Some tx) = Some tx" using text_xstrlen by (simp add: text_buffer_def)
  with t assms(1) show ?thesis by (auto simp: text_of_def)
qed


lemma split_loop_ok:
  assumes env: "clock_ok env" and k: "name_ok field" and m: "ascii_text body" "int (length body) \<le> INT_MAX"
    and left: "0 < left" "int left \<le> INT_MAX"
    and w: "int (map_weight flds + entry_weight field (JString body)) + 3 \<le> INT_MAX" "finite (dom flds)"
  shows "connector_ok g s xs \<Longrightarrow> event_obj fmt j \<Longrightarrow> obj_map j = flds \<or> (\<exists>v. obj_map j = flds(field \<mapsto> v)) \<Longrightarrow>
    card (dom flds) < 1610612740 \<Longrightarrow> (i + n) * (left - 1) \<le> length body + (left - 1) \<Longrightarrow>
    \<exists>j' s' ys texts. split_loop env fmt g (Some key) (Some body) field (int left) (int (i + n)) (int i) (j, s) = Some (j', s') \<and>
      connector_ok g s' ys \<and> connector_run env g s (map (Send key) texts) s' \<and> event_obj fmt j' \<and>
      (n > 0 \<longrightarrow> obj_map j' = flds(field \<mapsto> JString (chunk left body (i + n - 1)))) \<and>
      list_all2 (\<lambda>i t. text_of fmt (flds(field \<mapsto> JString (chunk left body i))) t) [i..<i + n] texts"
proof (induction n arbitrary: i j s xs)
  case 0
  then show ?case by (intro exI [of _ j] exI [of _ s] exI [of _ xs] exI [of _ "[]"])
      (simp add: split_loop.simps connector_run.run_start)
next
  case (Suc n)
  have size: "json_object_size j < 1610612741"
  proof -
    have "obj_ok j" using Suc.prems(2) by (auto simp: obj_ok_def elim: event_objE)
    then have "json_object_size j = card (dom (obj_map j))" by (rule obj.count_law)
    also have "\<dots> \<le> Suc (card (dom flds))"
    proof -
      have "card (dom (flds(field \<mapsto> v))) \<le> Suc (card (dom flds))" for v
        using w(2) by (simp add: card_insert_if del: fun_upd_apply)
      then show ?thesis using Suc.prems(3) by (auto simp del: fun_upd_apply)
    qed
    finally show ?thesis using Suc.prems(4) by simp
  qed
  have i: "i * (left - 1) \<le> length body"
  proof -
    have "(i + 1) * (left - 1) \<le> (i + Suc n) * (left - 1)" by (rule mult_le_mono1) simp
    then have "i * (left - 1) + (left - 1) \<le> (i + Suc n) * (left - 1)" by (simp only: add_mult_distrib mult_1)
    with Suc.prems(5) show ?thesis by linarith
  qed
  from update_json_ok [OF Suc.prems(2) size k m left i] obtain j1 where
    j1: "n2a_nebstruct_service_check_data_update_json j (Some body) field (int left) (int i) = Some j1"
      "event_obj fmt j1" "obj_map j1 = (obj_map j)(field \<mapsto> JString (chunk left body i))" by (elim exE conjE)
  then have m1: "obj_map j1 = flds(field \<mapsto> JString (chunk left body i))" using Suc.prems(3) by auto
  have "map_weight (obj_map j1) \<le> map_weight flds + entry_weight field (JString body)"
    unfolding m1 using map_weight_upd [OF w(2), of field] chunk_weight [of field left body i] by (meson add_left_mono order_trans)
  with w(1) have "int (map_weight (obj_map j1)) + 3 \<le> INT_MAX" by linarith
  from event_dumps [OF j1(2) this] obtain tx where
    t: "json_dumps fmt j1 0 = Some (Some tx)" "text_buffer (Some tx) = Some tx" "text_of fmt (obj_map j1) tx" by (elim exE conjE)
  from send_runs [OF env Suc.prems(1), of key tx] obtain r s1 ys1 where
    s1: "n2a_send_event env g (Some key) (Some tx) s = Some (r, s1)" "connector_ok g s1 ys1"
      "connector_run env g s [Send key tx] s1" by (elim exE conjE)
  have step: "split_step env fmt g (Some key) (Some body) field (int left) (int i) (j, s) = Some (j1, s1)"
    by (simp add: split_step_def j1(1) t(1,2) s1(1))
  have "(Suc i + n) * (left - 1) \<le> length body + (left - 1)" using Suc.prems(5) by simp
  note le = this
  have d: "obj_map j1 = flds \<or> (\<exists>v. obj_map j1 = flds(field \<mapsto> v))" using m1 by blast
  from Suc.IH [OF s1(2) j1(2) d Suc.prems(4) le] obtain j' s' ys texts where
    l: "split_loop env fmt g (Some key) (Some body) field (int left) (int (Suc i + n)) (int (Suc i)) (j1, s1) = Some (j', s')"
      "connector_ok g s' ys" "connector_run env g s1 (map (Send key) texts) s'" "event_obj fmt j'"
      "n > 0 \<longrightarrow> obj_map j' = flds(field \<mapsto> JString (chunk left body (Suc i + n - 1)))"
      "list_all2 (\<lambda>i t. text_of fmt (flds(field \<mapsto> JString (chunk left body i))) t) [Suc i..<Suc i + n] texts" by (elim exE conjE)
  have "split_loop env fmt g (Some key) (Some body) field (int left) (int (i + Suc n)) (int i) (j, s) = Some (j', s')"
    by (subst split_loop.simps) (use step l(1) in \<open>simp add: add.commute\<close>)
  moreover have "connector_run env g s (map (Send key) (tx # texts)) s'"
    using connector_run_append [OF l(3) s1(3)] by simp
  moreover have "obj_map j' = flds(field \<mapsto> JString (chunk left body (i + Suc n - 1)))"
  proof (cases "n = 0")
    case True
    with l(1) have "j' = j1" by (simp add: split_loop.simps)
    with m1 True show ?thesis by simp
  qed (use l(5) in simp)
  moreover have u: "[i..<i + Suc n] = i # [Suc i..<Suc i + n]" by (simp add: upt_rec)
  have "list_all2 (\<lambda>i t. text_of fmt (flds(field \<mapsto> JString (chunk left body i))) t) [i..<i + Suc n] (tx # texts)"
    unfolding u list_all2_Cons using t(3) [unfolded m1] l(6) by blast
  ultimately show ?case using l(2,4) by blast
qed


lemma split_count_nat:
  assumes "int (length body) \<le> INT_MAX - 1" "0 < left" "int left \<le> INT_MAX"
  shows "split_count (Some body) (int left) = Some (int (length body div left + 1))"
proof -
  have l: "int (length body) \<le> INT_MAX" using assms(1) by simp
  have d: "int (length body) sdiv int left = int (length body div left)"
    using assms(2) by (simp add: sdiv_nonneg zdiv_int)
  have "length body div left \<le> length body" by (rule div_le_dividend)
  with assms(1) have "int (length body div left) \<le> INT_MAX - 1" by linarith
  then have "is_int (int (length body div left))" "is_int (int (length body div left) + 1)"
    unfolding is_int_def INT_MIN_def by linarith+
  then show ?thesis
    using assms(2) by (simp add: split_count_def text_xstrlen [OF l] to_int_id [OF small_is_int [OF l]] int_div_def
      d int_result_def int_add_def add.commute)
qed

lemma split_message_ok:
  assumes env: "clock_ok env" and k: "name_ok field" and m: "ascii_text body" "int (length body) \<le> INT_MAX - 1"
    and left: "0 < left" "int left \<le> INT_MAX"
    and w: "int (map_weight flds + entry_weight field (JString body)) + 3 \<le> INT_MAX" "finite (dom flds)"
    and s: "connector_ok g s xs" "event_obj fmt j" "obj_map j = flds" "card (dom flds) < 1610612740"
    and n: "n = length body div left + 1"
  shows "\<exists>j' s' ys texts. split_message env fmt g (Some key) (Some body) field (int left) (j, s) = Some (j', s') \<and>
      connector_ok g s' ys \<and> connector_run env g s (map (Send key) texts) s' \<and> event_obj fmt j' \<and>
      obj_map j' = flds(field \<mapsto> JString (chunk left body (n - 1))) \<and>
      list_all2 (\<lambda>i t. text_of fmt (flds(field \<mapsto> JString (chunk left body i))) t) [0..<n] texts"
proof -
  have "(length body div left) * (left - 1) \<le> length body"
    by (metis diff_le_self div_times_less_eq_dividend mult_le_mono2 order_trans)
  then have le: "(0 + n) * (left - 1) \<le> length body + (left - 1)" by (simp add: n)
  have m': "int (length body) \<le> INT_MAX" using m(2) by simp
  from split_loop_ok [OF env k m(1) m' left w s(1,2) disjI1 [OF s(3)] s(4) le, of key] n
  show ?thesis
    by (simp add: split_message_def split_count_nat [OF m(2) left])
qed

text \<open>All stretches together are the beginning of the field.\<close>

lemma concat_chunks: "concat (map (chunk left m) [0..<n]) = take (n * (left - 1)) m"
proof (induction n)
  case (Suc n)
  have "take (n * (left - 1)) m @ take (left - 1) (drop (n * (left - 1)) m) = take (n * (left - 1) + (left - 1)) m"
    by (rule take_add [symmetric])
  with Suc show ?case by (simp add: chunk_def add.commute)
qed simp

lemma split_complete:
  "0 < left \<Longrightarrow> concat (map (chunk left m) [0..<length m div left + 1]) = m \<longleftrightarrow>
     length m div left < left - length m mod left"
proof -
  assume l: "0 < left"
  let ?q = "length m div left" and ?r = "length m mod left"
  have e: "length m = ?q * left + ?r" by simp
  have "take k m = m \<longleftrightarrow> length m \<le> k" for k by (metis nat_le_linear take_all_iff)
  then have "concat (map (chunk left m) [0..<?q + 1]) = m \<longleftrightarrow> length m \<le> (?q + 1) * (left - 1)"
    by (simp only: concat_chunks)
  also have "\<dots> \<longleftrightarrow> ?q * left + ?r \<le> (?q + 1) * (left - 1)" using e by simp
  also have "\<dots> \<longleftrightarrow> ?q < left - ?r"
  proof -
    obtain d where d: "left = Suc d" using l by (cases left) simp_all
    have "?r \<le> d" using l d by (metis less_Suc_eq_le mod_less_divisor)
    then show ?thesis by (auto simp: d algebra_simps)
  qed
  finally show ?thesis .
qed

section \<open>Service checks\<close>

lemma service_check_single:
  assumes env: "clock_ok env" "connector_ok g s xs" "max_size_ok g"
    and c: "sc_type c = NEBTYPE_SERVICECHECK_PROCESSED"
    and names: "names_fit (service_names g ''check'' (sc_host_name c) (sc_service_description c))"
    and es: "entries_ok fmt es"
      "n2a_nebstruct_service_check_data_to_json fmt g c = Some (1, event_value es, length (event_text fmt es))"
  shows "\<exists>s' ys. n2a_event_service_check env fmt g c s = Some (0, s') \<and> connector_ok g s' ys \<and>
    connector_run env g s
      [Send (routing_key g (service_names g ''check'' (sc_host_name c) (sc_service_description c)))
        (event_text fmt es)] s'"
proof -
  let ?names = "service_names g ''check'' (sc_host_name c) (sc_service_description c)"
  from key_sent [OF names] env(3) obtain key0 where
    k: "n2a_str_join (Some ''.'') ?names = Some key0" "truncate_key g key0 = Some (routing_key g ?names)"
    by (auto simp: max_size_ok_def)
  from send_runs [OF env(1,2)] obtain n s' ys where
    r: "n2a_send_event env g (Some (routing_key g ?names)) (Some (event_text fmt es)) s = Some (n, s')"
      "connector_ok g s' ys" "connector_run env g s [Send (routing_key g ?names) (event_text fmt es)] s'"
    by blast
  have "n2a_event_service_check env fmt g c s = Some (0, s')"
    unfolding n2a_event_service_check_def service_names_def [symmetric] es(2) k(1)
    by (simp add: c k(2) Let_def event_value_ok(5) [OF es(1)] r(1))
  with r(2,3) show ?thesis by blast
qed

lemma service_check_fits:
  assumes env: "clock_ok env" "connector_ok g s xs" "max_size_ok g"
    and c: "sc_type c = NEBTYPE_SERVICECHECK_PROCESSED" "sc_object_ptr c = Some sv" "host_ptr sv = Some h"
    and es: "entries_ok fmt (service_full g c sv h)"
    and names: "names_fit (service_names g ''check'' (sc_host_name c) (sc_service_description c))"
    and fits: "int (rest_size c) \<le> room_left fmt g c sv h"
  shows "\<exists>s' ys. n2a_event_service_check env fmt g c s = Some (0, s') \<and> connector_ok g s' ys \<and>
    connector_run env g s
      [Send (routing_key g (service_names g ''check'' (sc_host_name c) (sc_service_description c)))
        (event_text fmt (service_full g c sv h))] s'"
  by (rule service_check_single [OF env c(1) names es])
    (use service_check_json [OF c(2,3) es] env(3) fits in \<open>simp add: max_size_ok_def\<close>)

text \<open>The text without the long fields is longer than the maximum, by more than they have.\<close>

lemma service_check_dropped:
  assumes env: "clock_ok env" "connector_ok g s xs" "max_size_ok g"
    and c: "sc_type c = NEBTYPE_SERVICECHECK_PROCESSED" "sc_object_ptr c = Some sv" "host_ptr sv = Some h"
    and es: "entries_ok fmt (service_full g c sv h)"
    and names: "names_fit (service_names g ''check'' (sc_host_name c) (sc_service_description c))"
    and over: "int (rest_size c) < - room_left fmt g c sv h"
  shows "\<exists>s' ys. n2a_event_service_check env fmt g c s = Some (0, s') \<and> connector_ok g s' ys \<and>
    connector_run env g s
      [Send (routing_key g (service_names g ''check'' (sc_host_name c) (sc_service_description c)))
        (event_text fmt (service_entries g c sv h))] s'"
proof (rule service_check_single [OF env c(1) names])
  show "entries_ok fmt (service_entries g c sv h)" using es by (simp add: service_full_def entries_ok_append)
  have "int (rest_size c) sdiv room_left fmt g c sv h = 0"
    using over by (simp add: signed_divide_int_def)
  then show "n2a_nebstruct_service_check_data_to_json fmt g c =
      Some (1, event_value (service_entries g c sv h), length (event_text fmt (service_entries g c sv h)))"
    using service_check_json [OF c(2,3) es] env(3) over by (simp add: max_size_ok_def)
qed

lemma service_check_no_room:
  assumes "sc_type c = NEBTYPE_SERVICECHECK_PROCESSED" "sc_object_ptr c = Some sv" "host_ptr sv = Some h"
    "max_size_ok g" "entries_ok fmt (service_full g c sv h)"
    "room_left fmt g c sv h = 0" "0 < rest_size c"
  shows "n2a_event_service_check env fmt g c s = None"
  using service_check_json [OF assms(2,3,5)] assms
  by (simp add: n2a_event_service_check_def max_size_ok_def)


text \<open>The messages of a split field, in the object that the earlier fields have left.\<close>

definition split_texts ::
  "number_format \<Rightarrow> (string \<rightharpoonup> json) \<Rightarrow> string \<Rightarrow> string \<Rightarrow> nat \<Rightarrow> string list \<Rightarrow> bool" where
  "split_texts fmt m field body left texts \<longleftrightarrow>
     list_all2 (\<lambda>i t. text_of fmt (m(field \<mapsto> JString (chunk left body i))) t) [0..<length body div left + 1] texts"

definition after_split :: "(string \<rightharpoonup> json) \<Rightarrow> string \<Rightarrow> string \<Rightarrow> nat \<Rightarrow> string \<rightharpoonup> json" where
  "after_split m field body left = m(field \<mapsto> JString (chunk left body (length body div left)))"

lemma after_split_map:
  assumes fin: "finite (dom m)"
  shows "map_weight (after_split m field body left) \<le> map_weight m + entry_weight field (JString body)"
    "finite (dom (after_split m field body left))"
    "card (dom (after_split m field body left)) \<le> Suc (card (dom m))"
proof -
  show "map_weight (after_split m field body left) \<le> map_weight m + entry_weight field (JString body)"
    unfolding after_split_def
    by (rule order_trans [OF map_weight_upd [OF fin] add_left_mono [OF chunk_weight]])
  show "finite (dom (after_split m field body left))"
    "card (dom (after_split m field body left)) \<le> Suc (card (dom m))"
    using fin by (simp_all add: after_split_def card_insert_if)
qed

lemma service_check_split:
  assumes env: "clock_ok env" "connector_ok g s xs" "max_size_ok g"
    and c: "sc_type c = NEBTYPE_SERVICECHECK_PROCESSED" "sc_object_ptr c = Some sv" "host_ptr sv = Some h"
    and es: "entries_ok fmt (service_full g c sv h)"
    and names: "names_fit (service_names g ''check'' (sc_host_name c) (sc_service_description c))"
    and room: "room_left fmt g c sv h = int left" "0 < left" "left < rest_size c"
    and long: "sc_long_output c = Some lo" "sc_output c = Some ot" "sc_perf_data c = Some pf"
      "ascii_text lo" "ascii_text ot" "ascii_text pf"
    and m0: "m0 = map_of (rev (kept (service_entries g c sv h)))"
    and m1: "m1 = after_split m0 ''long_output'' lo left"
    and m2: "m2 = after_split m1 ''output'' ot left"
  shows "\<exists>s' ys ts1 ts2 ts3. n2a_event_service_check env fmt g c s = Some (0, s') \<and> connector_ok g s' ys \<and>
    connector_run env g s
      (map (Send (routing_key g (service_names g ''check'' (sc_host_name c) (sc_service_description c))))
        (ts1 @ ts2 @ ts3)) s' \<and>
    split_texts fmt m0 ''long_output'' lo left ts1 \<and> split_texts fmt m1 ''output'' ot left ts2 \<and>
    split_texts fmt m2 ''perf_data'' pf left ts3"
proof -
  let ?names = "service_names g ''check'' (sc_host_name c) (sc_service_description c)"
  let ?key = "routing_key g ?names" and ?base = "service_entries g c sv h"
  have nm: "name_ok ''output''" "name_ok ''long_output''" "name_ok ''perf_data''"
    using names_ok(2) [of c] by (simp_all add: service_additionals_def)
  then have un: "utf8_check_bytes ''output''" "utf8_check_bytes ''long_output''" "utf8_check_bytes ''perf_data''"
    using name_ok_key [of "''output''"] name_ok_key [of "''long_output''"] name_ok_key [of "''perf_data''"]
    unfolding utf8_text_def by blast+
  have w3: "entries_weight (option_entries g None (service_additionals c)) =
      entry_weight ''output'' (JString ot) + entry_weight ''long_output'' (JString lo) + entry_weight ''perf_data'' (JString pf)"
    using un long(1-3)
    by (simp add: service_additionals_def option_entries_def option_item_def json_string_nocheck_def entries_weight_def)
  have okb: "entries_ok fmt ?base" using es by (simp add: service_full_def entries_ok_append)
  note b = event_value_ok [OF okb]
  have mv: "obj_map (event_value ?base) = m0" by (simp add: b(3) m0)
  have fin0: "finite (dom m0)" by (simp add: m0 finite_dom_map_of)
  have wt: "int (map_weight m0 + entry_weight ''long_output'' (JString lo) + entry_weight ''output'' (JString ot) +
      entry_weight ''perf_data'' (JString pf)) + 3 \<le> INT_MAX"
    using event_weight_map [OF b(2)] b(8) es w3 by (simp add: mv entries_ok_def service_full_def)
  have card0: "card (dom m0) < 1610612735"
  proof -
    have "obj_ok (event_value ?base)" using b(2) by (auto simp: obj_ok_def elim: event_objE)
    then have "card (dom m0) \<le> length ?base" using obj.count_law b(4) mv by metis
    then show ?thesis using es by (simp add: entries_ok_def service_full_def option_entries_def service_additionals_def)
  qed
  have len: "int (length lo) \<le> INT_MAX - 1" "int (length ot) \<le> INT_MAX - 1" "int (length pf) \<le> INT_MAX - 1"
    using wt by (simp_all add: entry_weight_def string_weight_def)
  have rest: "rest_size c = length lo + length ot + length pf"
    using len by (simp add: rest_size_def long text_xstrlen)
  have r12: "12 * int (rest_size c) + 3 \<le> INT_MAX"
    using wt by (simp add: rest entry_weight_def string_weight_def)
  then have leftI: "int left \<le> INT_MAX" using room(3) by linarith
  note f1 = after_split_map [OF fin0, of "''long_output''" lo left, folded m1]
  note f2 = after_split_map [OF f1(2), of "''output''" ot left, folded m2]
  have W: "int (map_weight m0 + entry_weight ''long_output'' (JString lo)) + 3 \<le> INT_MAX"
    "int (map_weight m1 + entry_weight ''output'' (JString ot)) + 3 \<le> INT_MAX"
    "int (map_weight m2 + entry_weight ''perf_data'' (JString pf)) + 3 \<le> INT_MAX"
    using wt f1(1) f2(1) by linarith+
  have C: "card (dom m0) < 1610612740" "card (dom m1) < 1610612740" "card (dom m2) < 1610612740"
    using card0 f1(3) f2(3) by linarith+
  from split_message_ok [OF env(1) nm(2) long(4) len(1) room(2) leftI W(1) fin0 env(2) b(2) mv C(1) refl, of ?key]
  obtain j1 s1 ys1 ts1 where 1:
    "split_message env fmt g (Some ?key) (Some lo) ''long_output'' (int left) (event_value ?base, s) = Some (j1, s1)"
    "connector_ok g s1 ys1" "connector_run env g s (map (Send ?key) ts1) s1" "event_obj fmt j1"
    "obj_map j1 = m1" "split_texts fmt m0 ''long_output'' lo left ts1"
    by (auto simp: m1 after_split_def split_texts_def simp del: fun_upd_apply)
  from split_message_ok [OF env(1) nm(1) long(5) len(2) room(2) leftI W(2) f1(2) 1(2,4,5) C(2) refl, of ?key]
  obtain j2 s2 ys2 ts2 where 2:
    "split_message env fmt g (Some ?key) (Some ot) ''output'' (int left) (j1, s1) = Some (j2, s2)"
    "connector_ok g s2 ys2" "connector_run env g s1 (map (Send ?key) ts2) s2" "event_obj fmt j2"
    "obj_map j2 = m2" "split_texts fmt m1 ''output'' ot left ts2"
    by (auto simp: m2 after_split_def split_texts_def simp del: fun_upd_apply)
  from split_message_ok [OF env(1) nm(3) long(6) len(3) room(2) leftI W(3) f2(2) 2(2,4,5) C(3) refl, of ?key]
  obtain j3 s3 ys3 ts3 where 3:
    "split_message env fmt g (Some ?key) (Some pf) ''perf_data'' (int left) (j2, s2) = Some (j3, s3)"
    "connector_ok g s3 ys3" "connector_run env g s2 (map (Send ?key) ts3) s3"
    "split_texts fmt m2 ''perf_data'' pf left ts3"
    by (auto simp: split_texts_def simp del: fun_upd_apply)
  from key_sent [OF names] env(3) obtain key0 where
    k: "n2a_str_join (Some ''.'') ?names = Some key0" "truncate_key g key0 = Some ?key"
    by (auto simp: max_size_ok_def)
  have "1 \<le> rest_size c div left" using room(2,3) by (simp add: Suc_leI div_greater_zero_iff)
  then have nb: "n2a_nebstruct_service_check_data_to_json fmt g c =
      Some (int (rest_size c div left) + 1, event_value ?base, length (event_text fmt ?base))"
    and nb1: "int (rest_size c div left) + 1 \<noteq> 1"
    using service_check_json [OF c(2,3) es] env(3) room
    by (auto simp: max_size_ok_def sdiv_nonneg simp flip: zdiv_int)
  have sub: "int_sub (max_size g) (to_int (int (length (event_text fmt ?base)))) = Some (int left)"
    using room(1) b(7) env(3)
    by (simp add: to_int_id [OF small_is_int [OF b(7)]] max_size_ok_def room_left_def)
  have dv: "length lo div left \<le> length lo" "length ot div left \<le> length ot" "length pf div left \<le> length pf"
    by (rule div_le_dividend)+
  have sum: "int (length lo div left + 1) + int (length ot div left + 1) \<le> INT_MAX"
    "int (length lo div left + 1) + int (length ot div left + 1) + int (length pf div left + 1) \<le> INT_MAX"
    using dv r12 room(2,3) rest by linarith+
  have n123: "int_add (int (length lo div left + 1)) (int (length ot div left + 1)) =
      Some (int (length lo div left + 1) + int (length ot div left + 1))"
    "int_add (int (length lo div left + 1) + int (length ot div left + 1)) (int (length pf div left + 1)) =
      Some (int (length lo div left + 1) + int (length ot div left + 1) + int (length pf div left + 1))"
    using sum by (simp_all add: int_add_def int_result_def is_int_def INT_MIN_def)
  have "n2a_event_service_check env fmt g c s = Some (0, s3)"
    unfolding n2a_event_service_check_def service_names_def [symmetric] nb k(1) long(1-3) sub
      split_count_nat [OF len(1) room(2) leftI] split_count_nat [OF len(2) room(2) leftI]
      split_count_nat [OF len(3) room(2) leftI] Option.bind.bind_lunit prod.case Let_def k(2) n123 1(1) 2(1) 3(1)
    using c(1) nb1 sub by (simp add: split_count_nat len room(2) leftI n123 1(1) 2(1) 3(1))
  moreover have "connector_run env g s (map (Send ?key) (ts1 @ ts2 @ ts3)) s3"
    using connector_run_append [OF connector_run_append [OF 3(3) 2(3)] 1(3)] by simp
  ultimately show ?thesis using 1(6) 2(6) 3(2,4) by blast
qed

end
