(* ===== verification/Module_Run.thy ===== *)
theory Module_Run
  imports Module Events_Facts
begin

text \<open>
  The module under Nagios: events of the broker reach the handlers that start-up registered
  (\<^verbatim>\<open>src/broker.c\<close>), a handler builds its messages (\<^verbatim>\<open>src/events.c\<close>, \<^verbatim>\<open>src/json.c\<close>) and hands them
  to the connector (\<^verbatim>\<open>src/neb2amqp.c\<close>), which delivers or queues them (\<^verbatim>\<open>src/fifo.c\<close>).
\<close>

section \<open>Dispatching an event\<close>

datatype nagios_data =
    Service_check_data service_check_data
  | Host_check_data host_check_data
  | Acknowledgement_data acknowledgement_data
  | Downtime_data downtime_data

definition callback_type_of :: "nagios_data \<Rightarrow> callback_type" where
  "callback_type_of d = (case d of
     Service_check_data c \<Rightarrow> NEBCALLBACK_SERVICE_CHECK_DATA
   | Host_check_data c \<Rightarrow> NEBCALLBACK_HOST_CHECK_DATA
   | Acknowledgement_data c \<Rightarrow> NEBCALLBACK_ACKNOWLEDGEMENT_DATA
   | Downtime_data c \<Rightarrow> NEBCALLBACK_DOWNTIME_DATA)"

text \<open>A handler casts the data to its own structure; called with another one, it is undefined.\<close>

definition run_handler :: "env \<Rightarrow> number_format \<Rightarrow> options \<Rightarrow> nagios_data \<Rightarrow> handler \<Rightarrow> n2a \<Rightarrow> n2a option" where
  "run_handler env fmt g d h s = map_option snd (case (h, d) of
     (N2a_event_service_check, Service_check_data c) \<Rightarrow> n2a_event_service_check env fmt g c s
   | (N2a_event_host_check, Host_check_data c) \<Rightarrow> n2a_event_host_check env fmt g c s
   | (N2a_event_acknowledgement, Acknowledgement_data c) \<Rightarrow> n2a_event_acknowledgement env fmt g c s
   | (N2a_event_downtime, Downtime_data c) \<Rightarrow> n2a_event_downtime env fmt g c s
   | _ \<Rightarrow> None)"

text \<open>
  Nagios may call a handler with the data of the type that it is registered for, at any time and
  in any order. \<open>ds\<close> is the data of the calls so far.
\<close>

inductive nagios_run :: "env \<Rightarrow> number_format \<Rightarrow> neb_module \<Rightarrow> nagios_data list \<Rightarrow> neb_module \<Rightarrow> bool"
  for env fmt where
  nagios_start: "nagios_run env fmt m [] m"
| nagios_call: "nagios_run env fmt m ds m' \<Longrightarrow> (callback_type_of d, h) \<in> registered (broker_calls m') \<Longrightarrow>
    run_handler env fmt (g_options m') d h (connector_state m') = Some s' \<Longrightarrow>
    nagios_run env fmt m (ds @ [d]) (m'\<lparr>connector_state := s'\<rparr>)"

section \<open>What an event sends\<close>

text \<open>The messages of an event, as pairs of a routing key and a text.\<close>

definition service_key :: "options \<Rightarrow> string \<Rightarrow> string option \<Rightarrow> string option \<Rightarrow> string" where
  "service_key g event_type host svc = routing_key g (service_names g event_type host svc)"

definition host_key :: "options \<Rightarrow> string \<Rightarrow> string option \<Rightarrow> string" where
  "host_key g event_type host = routing_key g (host_names g event_type host)"

definition event_message :: "number_format \<Rightarrow> string \<Rightarrow> entry list \<Rightarrow> (string \<times> string) list \<Rightarrow> bool" where
  "event_message fmt key es ms \<longleftrightarrow> (\<exists>t. ms = [(key, t)] \<and> text_of fmt (map_of (rev (kept es))) t)"

definition service_messages ::
  "number_format \<Rightarrow> options \<Rightarrow> service_check_data \<Rightarrow> service \<Rightarrow> host \<Rightarrow> (string \<times> string) list \<Rightarrow> bool" where
  "service_messages fmt g c sv h ms \<longleftrightarrow>
     (let key = service_key g ''check'' (sc_host_name c) (sc_service_description c);
          left = room_left fmt g c sv h;
          m0 = map_of (rev (kept (service_entries g c sv h)));
          m1 = after_split m0 ''long_output'' (the (sc_long_output c)) (nat left);
          m2 = after_split m1 ''output'' (the (sc_output c)) (nat left)
      in if int (rest_size c) \<le> left then event_message fmt key (service_full g c sv h) ms
         else if left < 0 then event_message fmt key (service_entries g c sv h) ms
         else (\<exists>ts1 ts2 ts3. ms = map (\<lambda>t. (key, t)) (ts1 @ ts2 @ ts3) \<and>
             split_texts fmt m0 ''long_output'' (the (sc_long_output c)) (nat left) ts1 \<and>
             split_texts fmt m1 ''output'' (the (sc_output c)) (nat left) ts2 \<and>
             split_texts fmt m2 ''perf_data'' (the (sc_perf_data c)) (nat left) ts3))"

definition ack_entries :: "options \<Rightarrow> acknowledgement_data \<Rightarrow> entry list" where
  "ack_entries g c =
    (let is_host = (acknowledgement_type c = HOST_ACKNOWLEDGEMENT);
         names = (if is_host then host_names g ''check'' (ack_host_name c)
                  else service_names g ''check'' (ack_host_name c) (ack_service_description c))
     in ack_event g c (Some (if is_host then ''component'' else ''resource''))
          (Some (foldl (join_onto ''.'') [] (args_before_null names))))"

fun event_sends :: "number_format \<Rightarrow> options \<Rightarrow> nagios_data \<Rightarrow> (string \<times> string) list \<Rightarrow> bool" where
  "event_sends fmt g (Service_check_data c) ms =
     (if sc_type c = NEBTYPE_SERVICECHECK_PROCESSED
      then (\<exists>sv h. sc_object_ptr c = Some sv \<and> host_ptr sv = Some h \<and> service_messages fmt g c sv h ms)
      else ms = [])"
| "event_sends fmt g (Host_check_data c) ms =
     (if hc_type c = NEBTYPE_HOSTCHECK_PROCESSED
      then (\<exists>h. hc_object_ptr c = Some h \<and>
              event_message fmt (host_key g ''check'' (hc_host_name c)) (host_event fmt g c h) ms)
      else ms = [])"
| "event_sends fmt g (Acknowledgement_data c) ms =
     (if ack_type c = NEBTYPE_ACKNOWLEDGEMENT_ADD
      then event_message fmt
             (if acknowledgement_type c = HOST_ACKNOWLEDGEMENT then host_key g ''ack'' (ack_host_name c)
              else service_key g ''ack'' (ack_host_name c) (ack_service_description c)) (ack_entries g c) ms
      else ms = [])"
| "event_sends fmt g (Downtime_data c) ms =
     (if dt_type c = NEBTYPE_DOWNTIME_ADD
      then event_message fmt
             (if downtime_type c = HOST_DOWNTIME then host_key g ''downtime'' (dt_host_name c)
              else service_key g ''downtime'' (dt_host_name c) (dt_service_description c)) (downtime_event g c) ms
      else ms = [])"

text \<open>
  The events that the module takes: present pointers, UTF-8 texts that are not too long, ASCII
  long fields where they have to be split, and a room for the long fields that is not one of
  the two sizes that break the splitting (0, or negative by no more than their length).
\<close>

definition service_data_ok :: "number_format \<Rightarrow> options \<Rightarrow> service_check_data \<Rightarrow> bool" where
  "service_data_ok fmt g c \<longleftrightarrow> (\<exists>sv h. sc_object_ptr c = Some sv \<and> host_ptr sv = Some h \<and>
     entries_ok fmt (service_full g c sv h) \<and>
     names_fit (service_names g ''check'' (sc_host_name c) (sc_service_description c)) \<and>
     (let left = room_left fmt g c sv h in
        int (rest_size c) \<le> left \<or> int (rest_size c) < - left \<or>
        0 < left \<and> (\<exists>lo ot pf. sc_long_output c = Some lo \<and> sc_output c = Some ot \<and> sc_perf_data c = Some pf \<and>
                     ascii_text lo \<and> ascii_text ot \<and> ascii_text pf)))"

fun data_ok :: "number_format \<Rightarrow> options \<Rightarrow> nagios_data \<Rightarrow> bool" where
  "data_ok fmt g (Service_check_data c) \<longleftrightarrow> sc_type c = NEBTYPE_SERVICECHECK_PROCESSED \<longrightarrow> service_data_ok fmt g c"
| "data_ok fmt g (Host_check_data c) \<longleftrightarrow> hc_type c = NEBTYPE_HOSTCHECK_PROCESSED \<longrightarrow>
     (\<exists>h. hc_object_ptr c = Some h \<and>
        entries_ok fmt (host_entries g c h @ option_entries g None (host_additionals c)) \<and>
        names_fit (host_names g ''check'' (hc_host_name c)))"
| "data_ok fmt g (Acknowledgement_data c) \<longleftrightarrow> ack_type c = NEBTYPE_ACKNOWLEDGEMENT_ADD \<longrightarrow>
     entries_ok fmt (ack_entries g c) \<and>
     (if acknowledgement_type c = HOST_ACKNOWLEDGEMENT
      then names_fit (host_names g ''ack'' (ack_host_name c)) \<and> names_fit (host_names g ''check'' (ack_host_name c))
      else acknowledgement_type c = SERVICE_ACKNOWLEDGEMENT \<and>
        names_fit (service_names g ''ack'' (ack_host_name c) (ack_service_description c)) \<and>
        names_fit (service_names g ''check'' (ack_host_name c) (ack_service_description c)))"
| "data_ok fmt g (Downtime_data c) \<longleftrightarrow> dt_type c = NEBTYPE_DOWNTIME_ADD \<longrightarrow>
     entries_ok fmt (downtime_event g c) \<and>
     (if downtime_type c = HOST_DOWNTIME then names_fit (host_names g ''downtime'' (dt_host_name c))
      else downtime_type c = SERVICE_DOWNTIME \<and>
        names_fit (service_names g ''downtime'' (dt_host_name c) (dt_service_description c)))"

section \<open>One call\<close>

definition sends :: "(string \<times> string) list \<Rightarrow> action list" where
  "sends ms = map (\<lambda>(k, t). Send k t) ms"

lemma sends_simps [simp]:
  "sends [] = []" "sends ((k, t) # ms) = Send k t # sends ms" "sends (ms @ ns) = sends ms @ sends ns"
  "sends (map (\<lambda>t. (k, t)) ts) = map (Send k) ts"
  by (simp_all add: sends_def)

lemma submitted_sends [simp]: "submitted (sends ms) = ms"
  by (induction ms) (auto simp: submitted_def submitted_by_def)

text \<open>What one call does: it is defined, keeps the connector and sends the event's messages.\<close>

definition handled :: "env \<Rightarrow> number_format \<Rightarrow> options \<Rightarrow> nagios_data \<Rightarrow> n2a \<Rightarrow> (int \<times> n2a) option \<Rightarrow> bool" where
  "handled env fmt g d s r \<longleftrightarrow> (\<exists>s' ys ms. r = Some (0, s') \<and> connector_ok g s' ys \<and> event_sends fmt g d ms \<and>
     connector_run env g s (sends ms) s')"

lemma handledI:
  "r = Some (0, s') \<Longrightarrow> connector_ok g s' ys \<Longrightarrow> event_sends fmt g d ms \<Longrightarrow> connector_run env g s (sends ms) s' \<Longrightarrow>
   handled env fmt g d s r"
  by (auto simp: handled_def)

lemma handled_one:
  assumes "\<exists>s' ys. r = Some (0, s') \<and> connector_ok g s' ys \<and> connector_run env g s [Send k t] s'"
    and "event_sends fmt g d [(k, t)]"
  shows "handled env fmt g d s r"
proof -
  from assms(1) obtain s' ys where "r = Some (0, s')" "connector_ok g s' ys" "connector_run env g s [Send k t] s'"
    by blast
  with assms(2) show ?thesis by (intro handledI [where ms = "[(k, t)]"]) simp_all
qed

lemma handledD:
  "handled env fmt g d s r \<Longrightarrow> \<exists>s' ys ms. map_option snd r = Some s' \<and> connector_ok g s' ys \<and>
    event_sends fmt g d ms \<and> connector_run env g s (sends ms) s'"
  unfolding handled_def by (elim exE conjE) (intro exI conjI, auto)

lemma event_messageI: "entries_ok fmt es \<Longrightarrow> event_message fmt key es [(key, event_text fmt es)]"
  using event_text_of by (auto simp: event_message_def)

lemma service_check_handled:
  assumes "clock_ok env" "connector_ok g s xs" "max_size_ok g" "data_ok fmt g (Service_check_data c)"
  shows "handled env fmt g (Service_check_data c) s (n2a_event_service_check env fmt g c s)"
proof (cases "sc_type c = NEBTYPE_SERVICECHECK_PROCESSED")
  case False
  with assms(2) show ?thesis
    by (intro handledI [where ms = "[]"]) (simp_all add: n2a_event_service_check_def, rule connector_run.run_start)
next
  case True
  let ?names = "service_names g ''check'' (sc_host_name c) (sc_service_description c)"
  from True assms(4) obtain sv h where
    p: "sc_object_ptr c = Some sv" "host_ptr sv = Some h" and es: "entries_ok fmt (service_full g c sv h)" and n: "names_fit ?names"
    and room: "int (rest_size c) \<le> room_left fmt g c sv h \<or> int (rest_size c) < - room_left fmt g c sv h \<or>
      0 < room_left fmt g c sv h \<and> (\<exists>lo ot pf. sc_long_output c = Some lo \<and> sc_output c = Some ot \<and>
        sc_perf_data c = Some pf \<and> ascii_text lo \<and> ascii_text ot \<and> ascii_text pf)"
    by (auto simp: service_data_ok_def Let_def)
  note a = assms(1-3) True p es n
  have b: "entries_ok fmt (service_entries g c sv h)" using es by (simp add: service_full_def entries_ok_append)
  have sends: "event_sends fmt g (Service_check_data c) ms" if "service_messages fmt g c sv h ms" for ms
    using that True p by simp
  consider (fits) "int (rest_size c) \<le> room_left fmt g c sv h"
    | (dropped) "int (rest_size c) < - room_left fmt g c sv h" "\<not> int (rest_size c) \<le> room_left fmt g c sv h"
    | (split) left lo ot pf where "room_left fmt g c sv h = int left" "0 < left" "left < rest_size c" "sc_long_output c = Some lo"
        "sc_output c = Some ot" "sc_perf_data c = Some pf" "ascii_text lo" "ascii_text ot" "ascii_text pf"
    using room by (smt (verit) nat_0_le of_nat_0_less_iff of_nat_less_iff)
  then show ?thesis
  proof cases
    case fits
    then show ?thesis
      by (intro handled_one [OF service_check_fits [OF a fits]] sends)
        (simp add: service_messages_def Let_def service_key_def event_messageI [OF es])
  next
    case dropped
    then have "room_left fmt g c sv h < 0" by linarith
    with dropped(2) show ?thesis
      by (intro handled_one [OF service_check_dropped [OF a dropped(1)]] sends)
        (simp add: service_messages_def Let_def service_key_def event_messageI [OF b])
  next
    case split
    from service_check_split [OF a split refl refl refl] obtain s' ys ts1 ts2 ts3 where
      r: "n2a_event_service_check env fmt g c s = Some (0, s')" "connector_ok g s' ys"
        "connector_run env g s (map (Send (routing_key g ?names)) (ts1 @ ts2 @ ts3)) s'"
      and t: "split_texts fmt (map_of (rev (kept (service_entries g c sv h)))) ''long_output'' lo left ts1"
        "split_texts fmt (after_split (map_of (rev (kept (service_entries g c sv h)))) ''long_output'' lo left) ''output'' ot left ts2"
        "split_texts fmt (after_split (after_split (map_of (rev (kept (service_entries g c sv h)))) ''long_output'' lo left)
           ''output'' ot left) ''perf_data'' pf left ts3"
      by (elim exE conjE)
    let ?ms = "map (\<lambda>t. (routing_key g ?names, t)) (ts1 @ ts2 @ ts3)"
    have "service_messages fmt g c sv h ?ms"
      using split(1-6) t unfolding service_messages_def service_key_def Let_def by auto
    then have "event_sends fmt g (Service_check_data c) ?ms" by (rule sends)
    moreover have "connector_run env g s (sends ?ms) s'" using r(3) by (simp del: map_append)
    ultimately show ?thesis using r(1,2) by (intro handledI)
  qed
qed

lemma host_check_handled:
  assumes "clock_ok env" "connector_ok g s xs" "max_size_ok g" "data_ok fmt g (Host_check_data c)"
  shows "handled env fmt g (Host_check_data c) s (n2a_event_host_check env fmt g c s)"
proof (cases "hc_type c = NEBTYPE_HOSTCHECK_PROCESSED")
  case False
  with assms(2) show ?thesis
    by (intro handledI [where ms = "[]"]) (simp_all add: n2a_event_host_check_def, rule connector_run.run_start)
next
  case True
  with assms(4) obtain h where h: "hc_object_ptr c = Some h"
      "entries_ok fmt (host_entries g c h @ option_entries g None (host_additionals c))"
      "names_fit (host_names g ''check'' (hc_host_name c))" by auto
  have "entries_ok fmt (host_event fmt g c h)" unfolding host_event_def by (rule entries_ok_cmp [OF h(2)])
  from event_messageI [OF this] show ?thesis
    by (intro handled_one [OF host_check_sends [OF assms(1-3) True h]]) (simp add: True h(1) host_key_def)
qed

lemma acknowledgement_handled:
  assumes "clock_ok env" "connector_ok g s xs" "max_size_ok g" "data_ok fmt g (Acknowledgement_data c)"
  shows "handled env fmt g (Acknowledgement_data c) s (n2a_event_acknowledgement env fmt g c s)"
proof (cases "ack_type c = NEBTYPE_ACKNOWLEDGEMENT_ADD")
  case False
  with assms(2) show ?thesis
    by (intro handledI [where ms = "[]"]) (simp_all add: n2a_event_acknowledgement_def, rule connector_run.run_start)
next
  case True
  let ?host = "acknowledgement_type c = HOST_ACKNOWLEDGEMENT"
  define names where "names = (\<lambda>event_type. if ?host then host_names g event_type (ack_host_name c)
        else service_names g event_type (ack_host_name c) (ack_service_description c))"
  from True assms(4) have d: "?host \<or> acknowledgement_type c = SERVICE_ACKNOWLEDGEMENT"
      "entries_ok fmt (ack_entries g c)" "names_fit (names ''ack'')" "names_fit (names ''check'')"
    by (auto simp: names_def split: if_splits)
  have e: "ack_entries g c = ack_event g c (Some (if ?host then ''component'' else ''resource''))
      (Some (foldl (join_onto ''.'') [] (args_before_null (names ''check''))))"
    by (simp add: ack_entries_def names_def)
  have k: "routing_key g (names ''ack'') = (if ?host then host_key g ''ack'' (ack_host_name c)
      else service_key g ''ack'' (ack_host_name c) (ack_service_description c))"
    by (simp add: names_def host_key_def service_key_def)
  show ?thesis
    by (rule handled_one [OF acknowledgement_sends [OF assms(1-3) True refl d(1) names_def refl e d(2-4)]])
      (simp add: True k event_messageI [OF d(2)])
qed

lemma downtime_handled:
  assumes "clock_ok env" "connector_ok g s xs" "max_size_ok g" "data_ok fmt g (Downtime_data c)"
  shows "handled env fmt g (Downtime_data c) s (n2a_event_downtime env fmt g c s)"
proof (cases "dt_type c = NEBTYPE_DOWNTIME_ADD")
  case False
  with assms(2) show ?thesis
    by (intro handledI [where ms = "[]"]) (simp_all add: n2a_event_downtime_def, rule connector_run.run_start)
next
  case True
  let ?host = "downtime_type c = HOST_DOWNTIME"
  define names where "names = (if ?host then host_names g ''downtime'' (dt_host_name c)
        else service_names g ''downtime'' (dt_host_name c) (dt_service_description c))"
  from True assms(4) have d: "?host \<or> downtime_type c = SERVICE_DOWNTIME" "entries_ok fmt (downtime_event g c)"
      "names_fit names" by (auto simp: names_def split: if_splits)
  have k: "routing_key g names = (if ?host then host_key g ''downtime'' (dt_host_name c)
      else service_key g ''downtime'' (dt_host_name c) (dt_service_description c))"
    by (simp add: names_def host_key_def service_key_def)
  show ?thesis
    by (rule handled_one [OF downtime_sends [OF assms(1-3) True names_def d]])
      (simp add: True k event_messageI [OF d(2)])
qed

section \<open>A sequence of calls\<close>

text \<open>Every registered handler takes the data of its type.\<close>

lemma registered_handled:
  assumes "clock_ok env" "connector_ok g s xs" "max_size_ok g" "data_ok fmt g d"
    and "(callback_type_of d, h) \<in> registered (n2a_register_callbacks g)"
  shows "\<exists>s' ys ms. run_handler env fmt g d h s = Some s' \<and> connector_ok g s' ys \<and> event_sends fmt g d ms \<and>
    connector_run env g s (sends ms) s'"
proof (cases d)
  case (Service_check_data c)
  with assms(5) have "h = N2a_event_service_check"
    by (auto simp: registered_def n2a_register_callbacks_def callback_type_of_def split: if_splits)
  with handledD [OF service_check_handled [OF assms(1-3), of fmt c]] assms(4) Service_check_data show ?thesis
    by (simp add: run_handler_def del: event_sends.simps)
next
  case (Host_check_data c)
  with assms(5) have "h = N2a_event_host_check"
    by (auto simp: registered_def n2a_register_callbacks_def callback_type_of_def split: if_splits)
  with handledD [OF host_check_handled [OF assms(1-3), of fmt c]] assms(4) Host_check_data show ?thesis
    by (simp add: run_handler_def del: event_sends.simps)
next
  case (Acknowledgement_data c)
  with assms(5) have "h = N2a_event_acknowledgement"
    by (auto simp: registered_def n2a_register_callbacks_def callback_type_of_def split: if_splits)
  with handledD [OF acknowledgement_handled [OF assms(1-3), of fmt c]] assms(4) Acknowledgement_data show ?thesis
    by (simp add: run_handler_def del: event_sends.simps)
next
  case (Downtime_data c)
  with assms(5) have "h = N2a_event_downtime"
    by (auto simp: registered_def n2a_register_callbacks_def callback_type_of_def split: if_splits)
  with handledD [OF downtime_handled [OF assms(1-3), of fmt c]] assms(4) Downtime_data show ?thesis
    by (simp add: run_handler_def del: event_sends.simps)
qed

lemma nagios_run_sends:
  assumes "nagios_run env fmt m ds m'" "clock_ok env" "max_size_ok (g_options m)"
    "connector_ok (g_options m) (connector_state m) xs" "broker_calls m = n2a_register_callbacks (g_options m)"
    "\<forall>d \<in> set ds. data_ok fmt (g_options m) d"
  shows "\<exists>mss ys. list_all2 (event_sends fmt (g_options m)) ds mss \<and>
    connector_run env (g_options m) (connector_state m) (sends (concat mss)) (connector_state m') \<and>
    connector_ok (g_options m) (connector_state m') ys \<and>
    m' = m\<lparr>connector_state := connector_state m'\<rparr>"
  using assms
proof (induction rule: nagios_run.induct)
  case (nagios_start m)
  then show ?case by (intro exI [of _ "[]"] exI [of _ xs]) (auto intro: connector_run.run_start)
next
  case (nagios_call m ds m' d h s')
  then obtain mss ys where i: "list_all2 (event_sends fmt (g_options m)) ds mss"
    "connector_run env (g_options m) (connector_state m) (sends (concat mss)) (connector_state m')"
    "connector_ok (g_options m) (connector_state m') ys" "m' = m\<lparr>connector_state := connector_state m'\<rparr>" by auto
  have g: "g_options m' = g_options m" "broker_calls m' = n2a_register_callbacks (g_options m)"
    using nagios_call.prems(4) by (subst i(4), simp)+
  have "data_ok fmt (g_options m) d" using nagios_call.prems(5) by simp
  have "(callback_type_of d, h) \<in> registered (n2a_register_callbacks (g_options m))"
    using nagios_call.hyps(2) by (simp add: g)
  from registered_handled [OF nagios_call.prems(1) i(3) nagios_call.prems(2) \<open>data_ok fmt (g_options m) d\<close> this]
  obtain s1 ys' ms where h: "run_handler env fmt (g_options m) d h (connector_state m') = Some s1"
    "connector_ok (g_options m) s1 ys'" "event_sends fmt (g_options m) d ms"
    "connector_run env (g_options m) (connector_state m') (sends ms) s1" by (elim exE conjE)
  have "s1 = s'" using h(1) nagios_call.hyps(3) by (simp add: g)
  moreover have "list_all2 (event_sends fmt (g_options m)) (ds @ [d]) (mss @ [ms])"
    using i(1) h(3) by (simp add: list_all2_appendI)
  moreover have "connector_run env (g_options m) (connector_state m) (sends (concat (mss @ [ms]))) s1"
    using connector_run_append [OF h(4) i(2)] by simp
  moreover have "m'\<lparr>connector_state := s'\<rparr> = m\<lparr>connector_state := s'\<rparr>" by (subst i(4), simp)
  ultimately show ?case using h(2) by (intro exI [of _ "mss @ [ms]"] exI [of _ ys']) simp
qed

end
