(* ===== verification/Amqp_Properties.thy ===== *)
theory Amqp_Properties
  imports Amqp_Run
begin

text \<open>
  What \<^verbatim>\<open>src/neb2amqp.c\<close> promises to the rest of the module, with concrete runs: the state
  right after start-up with an empty queue, and one with a queued event.
\<close>

section \<open>Concrete networks and states\<close>

text \<open>A network that works, and one on which nothing does; the clock stands at 1000.\<close>

definition up_env :: env where
  "up_env = \<lparr>clock = (\<lambda>_. 1000), ret_int = (\<lambda>_. 0), ret_rpc = (\<lambda>_. Response_normal)\<rparr>"

definition down_env :: env where
  "down_env = \<lparr>clock = (\<lambda>_. 1000), ret_int = (\<lambda>_. -1), ret_rpc = (\<lambda>_. Response_none)\<rparr>"

definition some_fs :: fs where
  "some_fs = \<lparr>disk = None, may_update = True, may_create = True, may_unlink = True\<rparr>"

definition some_fifo :: "32 word \<Rightarrow> fifo" where
  "some_fifo mx = \<lparr>fifo_first = None, fifo_last = None, fifo_size = 0, fifo_max_size = mx,
     file_path = ''q'', pFile = None, file_lock = False, dirty = True, full = False\<rparr>"

definition idle_state :: n2a where
  "idle_state = \<lparr>mem = empty_heap, files = some_fs, pFifo = Some (some_fifo 10), amqp_errors = False,
     amqp_last_connect = 0, fifo_last_sync = 0, fifo_last_flush = 0, amqp_connected = False,
     blackout = False, conn = None, tick = 0, wire = []\<rparr>"

definition one_fifo :: fifo where
  "one_fifo = (some_fifo 10)\<lparr>fifo_first := Some 0, fifo_last := Some 0, fifo_size := 1\<rparr>"

definition one_heap :: heap where
  "one_heap = \<lparr>cells = [0 \<mapsto> fresh_node ''k'' ''m''], brk = 1\<rparr>"

definition one_state :: n2a where
  "one_state = idle_state\<lparr>mem := one_heap, pFifo := Some one_fifo\<rparr>"

lemma envs_ok [simp]: "clock_ok up_env" "clock_ok down_env" "net_up up_env"
  by (simp_all add: clock_ok_def net_up_def up_env_def down_env_def time_ok_def INT_MAX_def)

lemma one_queue: "queue_rep (one_heap, one_fifo) [(''k'', ''m'')]"
  by (auto simp: queue_rep_def fifo_rep_def one_heap_def one_fifo_def heap_ok_def intro!: exI [of _ "[0]"])

lemma some_fifo_simps [simp]:
  "fifo_max_size (some_fifo mx) = mx" "\<not> file_lock (some_fifo mx)" "dirty (some_fifo mx)"
  "fifo_max_size one_fifo = 10" "\<not> file_lock one_fifo" "dirty one_fifo"
  by (simp_all add: some_fifo_def one_fifo_def)

lemma empty_queue: "queue_rep (empty_heap, some_fifo mx) []"
  by (auto simp: queue_rep_def some_fifo_def heap_ok_def empty_heap_def intro!: exI [of _ "[]"])

lemma idle_ok: "is_int (cache_size g) \<Longrightarrow> connector_ok g idle_state []"
  by (simp add: connector_ok_def ready_def link_ok_def times_ok_def queued_def capacity_def idle_state_def
      empty_queue proto_ok_def stage_ok_def)

lemma one_ok: "is_int (cache_size g) \<Longrightarrow> connector_ok g one_state [(''k'', ''m'')]"
  by (simp add: connector_ok_def ready_def link_ok_def times_ok_def queued_def capacity_def one_state_def
      idle_state_def one_queue proto_ok_def stage_ok_def)

lemma default_cache_size [simp]: "is_int (cache_size default_options)"
  by (simp add: default_options_def is_int_def INT_MAX_def INT_MIN_def)

section \<open>Delivery\<close>

text \<open>
  C2: Handing an event to \<^verbatim>\<open>n2a_send_event\<close> always has a defined result, whatever the network
  answers. What is delivered and what is queued afterwards is, in this order, what was queued
  and then the new event; at most one event is lost, it is the oldest one that was not
  delivered, and that happens only when the queue is full.
\<close>

theorem send_event_in_order:
  assumes "clock_ok env" and "connector_ok g s xs"
  shows "\<exists>n s' ds zs lost. n2a_send_event env g (Some k) (Some m) s = Some (n, s') \<and>
     connector_ok g s' zs \<and> delivered s' = delivered s @ ds \<and> ds @ lost @ zs = xs @ [(k, m)] \<and>
     length lost \<le> 1 \<and> (lost \<noteq> [] \<longrightarrow> length zs = capacity s)"
proof -
  from send_event_ok [OF assms, of k m] obtain n s' ds zs lost where
    "n2a_send_event env g (Some k) (Some m) s = Some (n, s')" "connector_ok g s' zs"
    "delivered s' = delivered s @ ds" "ds @ lost @ zs = xs @ [(k, m)]" "length lost \<le> 1"
    "lost \<noteq> [] \<longrightarrow> length zs = capacity s" by blast
  then show ?thesis by blast
qed

theorem send_event_in_order_witness:
  "\<exists>n s' ds zs lost. n2a_send_event down_env default_options (Some ''a'') (Some ''b'') one_state = Some (n, s') \<and>
     connector_ok default_options s' zs \<and> delivered s' = delivered one_state @ ds \<and>
     ds @ lost @ zs = [(''k'', ''m''), (''a'', ''b'')] \<and>
     length lost \<le> 1 \<and> (lost \<noteq> [] \<longrightarrow> length zs = capacity one_state)"
  using send_event_in_order [OF envs_ok(2) one_ok [OF default_cache_size], of "''a''" "''b''"] by simp

text \<open>
  C14: Over a whole run of events and blackout switches the delivered events followed by the
  queued ones are a subsequence of the events submitted, so none is sent twice or out of
  order; as long as the queue is large enough for all of them, none is lost either.
\<close>

theorem run_delivers_in_order:
  assumes "connector_run env g s as s'" and "clock_ok env" and "connector_ok g s xs"
  shows "\<exists>ds ys. connector_ok g s' ys \<and> delivered s' = delivered s @ ds \<and>
     subseq (ds @ ys) (xs @ submitted as) \<and>
     (length (xs @ submitted as) \<le> capacity s \<longrightarrow> ds @ ys = xs @ submitted as)"
  using connector_run_invariant [OF assms] by blast

lemma some_run:
  "\<exists>s'. connector_run up_env default_options idle_state [Send ''k'' ''m'', Toggle] s'"
proof -
  obtain s1 where s1: "connector_step up_env default_options idle_state (Send ''k'' ''m'') s1"
    using connector_step_total [OF envs_ok(1) idle_ok [OF default_cache_size]] by blast
  then have r1: "connector_run up_env default_options idle_state [Send ''k'' ''m''] s1"
    using run_step [OF run_start] by fastforce
  then obtain ys where "connector_ok default_options s1 ys"
    using connector_run_invariant [OF r1 envs_ok(1) idle_ok [OF default_cache_size]] by blast
  then obtain s2 where "connector_step up_env default_options s1 Toggle s2"
    using connector_step_total [OF envs_ok(1)] by blast
  with run_step [OF r1] show ?thesis by auto
qed

theorem run_delivers_in_order_witness:
  "\<exists>s' ds ys. connector_run up_env default_options idle_state [Send ''k'' ''m'', Toggle] s' \<and>
     delivered s' = delivered idle_state @ ds \<and> subseq (ds @ ys) [(''k'', ''m'')]"
proof -
  obtain s' where r: "connector_run up_env default_options idle_state [Send ''k'' ''m'', Toggle] s'"
    using some_run by blast
  have "submitted [Send ''k'' ''m'', Toggle] = [(''k'', ''m'')]" by (simp add: submitted_def submitted_by_def)
  with r run_delivers_in_order [OF r envs_ok(1) idle_ok [OF default_cache_size]] show ?thesis by auto
qed

text \<open>
  C28: The value \<^verbatim>\<open>n2a_send_event\<close> returns: 0 says that the whole queue and then the event
  itself have been accepted by the bus; with any other value the event is the last of the
  queue.
\<close>

theorem send_event_result:
  assumes "clock_ok env" and "connector_ok g s xs"
  shows "\<exists>n s' zs. n2a_send_event env g (Some k) (Some m) s = Some (n, s') \<and> queued s' zs \<and>
     (n = 0 \<longrightarrow> zs = [] \<and> delivered s' = delivered s @ xs @ [(k, m)]) \<and>
     (n \<noteq> 0 \<longrightarrow> zs \<noteq> [] \<and> last zs = (k, m))"
proof -
  from assms have r: "ready s" and q: "queued s xs" and i: "is_int (cache_size g)"
    by (simp_all add: connector_ok_def)
  from flush_count_defined [OF i] obtain c where c: "flush_count g = Some c" by blast
  have pl: "push_list mx zs x \<noteq> [] \<and> last (push_list mx zs x) = x" for mx zs and x :: "string \<times> string"
    by (simp add: push_list_def)
  have fits: "queued s' us \<Longrightarrow> us \<noteq> [] \<Longrightarrow> to_int (int (length us)) \<noteq> 0" for s' us
  proof -
    assume "queued s' us" and ne: "us \<noteq> []"
    then have "length us \<le> unat (fifo_max_size (the (pFifo s')))" by (auto simp: queued_def capacity_def)
    moreover have "unat (fifo_max_size f) < 4294967296" for f using unsigned_less [of "fifo_max_size f"] by simp
    note this [of "the (pFifo s')"]
    ultimately have "int (length us) < 4294967296" by linarith
    moreover have "0 < int (length us)" using ne by simp
    ultimately show "to_int (int (length us)) \<noteq> 0" by (rule to_int_nonzero [rotated])
  qed
  from send_event_spec [OF assms(1) r q c, of k m] obtain n s' ys zs where
    "n2a_send_event env g (Some k) (Some m) s = Some (n, s')"
    "(n = 0 \<and> zs = [] \<and> delivered s' = delivered s @ xs @ [(k, m)] \<and> queued s' []) \<or>
      (n = -1 \<and> zs = [] \<and> delivered s' = delivered s @ xs \<and> queued s' [(k, m)] \<and> \<not> amqp_connected s') \<or>
      (n = to_int (int (length (push_list (capacity s) zs (k, m)))) \<and>
       delivered s' = delivered s @ ys \<and> queued s' (push_list (capacity s) zs (k, m)) \<and>
       (zs \<noteq> [] \<or> \<not> amqp_connected s'))" by blast
  with pl fits show ?thesis
    by (elim disjE) (fastforce, fastforce, metis)
qed

theorem send_event_result_witness:
  "\<exists>n s' zs. n2a_send_event up_env default_options (Some ''a'') (Some ''b'') idle_state = Some (n, s') \<and>
     queued s' zs \<and> (n = 0 \<longrightarrow> zs = [] \<and> delivered s' = [(''a'', ''b'')]) \<and>
     (n \<noteq> 0 \<longrightarrow> zs \<noteq> [] \<and> last zs = (''a'', ''b''))"
  using send_event_result [OF envs_ok(1) idle_ok [OF default_cache_size], of "''a''" "''b''"]
  by (simp add: idle_state_def)

section \<open>The connection\<close>

text \<open>
  C15: The calls to the AMQP library, recorded with their results, follow its protocol over
  every run and whatever the library answers: a connection is created, its socket opened, the
  login made, the channel opened and (if configured) the exchange declared, in this order,
  each only after the one before it succeeded. The calls before a publication always end with
  such a handshake in which every call succeeded, followed by accepted publications only.
  After a failed publication only the three closing calls follow. A connection is closed at
  most once, by the three calls in the right order; one whose handshake failed is closed
  before the next attempt, or never, when a blackout has made the program forget it.
\<close>

theorem run_follows_protocol:
  assumes "connector_run env g s as s'" and "proto_ok g s"
  shows "(\<exists>ph. protocol (exchange_type g \<noteq> None) (wire s') = Some ph \<and>
     (amqp_connected s' \<longrightarrow> (\<exists>c st. conn s' = Some c \<and> ph = Some (c, st) \<and>
        publishable (exchange_type g \<noteq> None) st \<and> \<not> amqp_errors s'))) \<and>
     (\<forall>cs r m x ds. wire s' = cs @ Call_publish r m x # ds \<longrightarrow>
        (\<exists>k. session (exchange_type g \<noteq> None) k cs))"
proof -
  have "proto_ok g s'" using assms
  proof (induction rule: connector_run.induct)
    case (run_step s as s' a s'')
    then show ?case
      by (auto simp: step_simps intro: protocol_link.send_event_keeps protocol_link.toggle_keeps)
  qed
  moreover from this have "\<exists>k. session (exchange_type g \<noteq> None) k cs"
    if "wire s' = cs @ Call_publish r m x # ds" for cs r m x ds
    using that protocol_publish_session by (fastforce simp: proto_ok_def)
  ultimately show ?thesis by (auto elim: proto_ok_cases)
qed

theorem run_follows_protocol_witness:
  "\<exists>s' ph. connector_run up_env default_options idle_state [Send ''k'' ''m'', Toggle] s' \<and>
     protocol False (wire s') = Some ph \<and>
     (\<forall>cs r m x ds. wire s' = cs @ Call_publish r m x # ds \<longrightarrow> (\<exists>k. session False k cs))"
proof -
  obtain s' where r: "connector_run up_env default_options idle_state [Send ''k'' ''m'', Toggle] s'"
    using some_run by blast
  have "proto_ok default_options idle_state"
    using idle_ok [OF default_cache_size] by (simp add: connector_ok_def)
  with r run_follows_protocol [OF r] show ?thesis by (auto simp: default_options_def)
qed

text \<open>
  C29: An event causes at most one connection attempt, and causes one only outside a blackout,
  while not connected, and when the last attempt is at least \<^verbatim>\<open>amqp_wait_time\<close> seconds old
  (or there was none).
\<close>

theorem reconnect_rate:
  assumes "clock_ok env" and "connector_ok g s xs"
    and "n2a_send_event env g (Some k) (Some m) s = Some (n, s')"
  shows "attempts (wire s') \<le> Suc (attempts (wire s)) \<and>
     (attempts (wire s') \<noteq> attempts (wire s) \<longrightarrow> attempt_due env g s)"
  using send_event_attempts [OF assms] by (auto simp: attempt_due_def)

theorem reconnect_rate_witness:
  "\<exists>n s'. n2a_send_event up_env default_options (Some ''k'') (Some ''m'') idle_state = Some (n, s') \<and>
     attempts (wire s') \<le> 1"
proof -
  obtain n s' where r: "n2a_send_event up_env default_options (Some ''k'') (Some ''m'') idle_state = Some (n, s')"
    using send_event_ok [OF envs_ok(1) idle_ok [OF default_cache_size]] by blast
  with reconnect_rate [OF envs_ok(1) idle_ok [OF default_cache_size] r] show ?thesis
    by (auto simp: idle_state_def)
qed

text \<open>
  C16: Recovery. When an attempt to connect is due and the network works again, the next event
  reconnects and sends the oldest \<open>c\<close> queued events in order, where \<open>c\<close> is the flush count
  of the options; if that was the whole queue, the event itself is delivered too.
\<close>

theorem send_event_recovers:
  assumes "clock_ok env" and "net_up env" and "connector_ok g s xs" and "attempt_due env g s"
    and "flush_count g = Some c" and "\<forall>n. flush_interval g \<le> clock env n"
  shows "\<exists>n s'. n2a_send_event env g (Some k) (Some m) s = Some (n, s') \<and> amqp_connected s' \<and>
     delivered s' = delivered s @ (if length xs \<le> nat c then xs @ [(k, m)] else take (nat c) xs) \<and>
     queued s' (if length xs \<le> nat c then [] else push_list (capacity s) (drop (nat c) xs) (k, m))"
proof -
  from assms(3) have "ready s" by (simp add: connector_ok_def)
  from check_recovers [OF assms(1,2) this assms(4)] obtain s1
    where s1: "n2a_amqp_check env g s = Some (True, s1)" "ready s1" "quiet s s1" "amqp_connected s1"
      "fifo_last_flush s1 = 0" by blast
  have "flush_due env g s1" using s1(4,5) assms(6) by (simp add: flush_due_def)
  from send_event_progress [OF assms(1-3,5) s1(1-4) this, of k m] show ?thesis
    unfolding connector_ok_def by blast
qed

theorem send_event_recovers_witness:
  "\<exists>n s'. n2a_send_event up_env default_options (Some ''a'') (Some ''b'') one_state = Some (n, s') \<and>
     amqp_connected s' \<and> delivered s' = [(''k'', ''m''), (''a'', ''b'')] \<and> queued s' []"
proof -
  have "attempt_due up_env default_options one_state"
    by (simp add: attempt_due_def one_state_def idle_state_def)
  moreover have "flush_count default_options = Some 1000"
    by (simp add: flush_count_def default_options_def int_div_def int_result_def is_int_def INT_MIN_def
        INT_MAX_def signed_divide_int_def)
  moreover have "\<forall>n. flush_interval default_options \<le> clock up_env n"
    by (simp add: default_options_def up_env_def)
  ultimately show ?thesis
    using send_event_recovers [OF envs_ok(1,3) one_ok [OF default_cache_size], of 1000 "''a''" "''b''"]
    by (simp add: one_state_def idle_state_def)
qed

text \<open>
  C30: During a blackout an event causes no call to the AMQP library at all; it is added to
  the queue, from which only a full queue drops its oldest event.
\<close>

theorem blackout_is_silent:
  assumes "clock_ok env" and "connector_ok g s xs" and "blackout s"
  shows "\<exists>n s'. n2a_send_event env g (Some k) (Some m) s = Some (n, s') \<and> wire s' = wire s \<and>
     blackout s' \<and> queued s' (push_list (capacity s) xs (k, m))"
  using send_event_blackout [OF assms, of k m] unfolding connector_ok_def by blast

theorem blackout_is_silent_witness:
  "\<exists>n s'. n2a_send_event up_env default_options (Some ''k'') (Some ''m'') (idle_state\<lparr>blackout := True\<rparr>) = Some (n, s') \<and>
     wire s' = [] \<and> blackout s' \<and> queued s' [(''k'', ''m'')]"
proof -
  have "connector_ok default_options (idle_state\<lparr>blackout := True\<rparr>) []"
    using idle_ok [OF default_cache_size]
    by (simp add: connector_ok_def ready_def link_ok_def times_ok_def queued_def capacity_def idle_state_def
        proto_ok_def stage_ok_def)
  from blackout_is_silent [OF envs_ok(1) this, of "''k''" "''m''"] show ?thesis
    by (simp add: push_list_def capacity_def idle_state_def some_fifo_def)
qed

text \<open>
  C31: A blackout switch is always defined, keeps the queue and what was delivered, flips the
  flag it returns, and leaves no connection when it starts a blackout.
\<close>

theorem toggle_blackout_effect:
  assumes "connector_ok g s xs"
  shows "\<exists>b s'. n2a_toggle_blackout env s = Some (b, s') \<and> b = (\<not> blackout s) \<and> blackout s' = b \<and>
     connector_ok g s' xs \<and> delivered s' = delivered s \<and> (b \<longrightarrow> \<not> amqp_connected s' \<and> conn s' = None)"
  using toggle_ok [OF assms, of env] by blast

theorem toggle_blackout_effect_witness:
  "\<exists>b s'. n2a_toggle_blackout up_env one_state = Some (b, s') \<and> b \<and> blackout s' \<and>
     connector_ok default_options s' [(''k'', ''m'')] \<and> conn s' = None"
  using toggle_blackout_effect [OF one_ok [OF default_cache_size], of up_env]
  by (auto simp: one_state_def idle_state_def)

text \<open>
  C32: Starvation. With the default \<^verbatim>\<open>flush\<close> option and a \<^verbatim>\<open>cache_size\<close> below 5 the flush
  count is rounded down to 0, so as soon as one event is queued nothing is delivered any
  more, whatever the network does and however many events follow.
\<close>

theorem small_cache_starves:
  assumes "connector_run env g s as s'" and "clock_ok env" and "connector_ok g s xs" and "xs \<noteq> []"
    and "flush g = -1" and "0 < cache_size g" and "cache_size g < 5"
  shows "delivered s' = delivered s"
proof -
  have "flush_count g = Some 0"
    using assms(5-7) by (simp add: flush_count_def int_div_def int_result_def is_int_def INT_MIN_def
        INT_MAX_def sdiv_nonneg)
  from connector_run_starves [OF assms(1-3) this _ assms(4)] show ?thesis by auto
qed

theorem small_cache_starves_witness:
  "\<exists>s'. connector_run up_env (default_options\<lparr>cache_size := 4\<rparr>) one_state [Toggle] s' \<and> delivered s' = []"
proof -
  let ?g = "default_options\<lparr>cache_size := 4\<rparr>"
  have ok: "connector_ok ?g one_state [(''k'', ''m'')]"
    by (rule one_ok) (simp add: is_int_def INT_MIN_def INT_MAX_def)
  obtain s' where "connector_step up_env ?g one_state Toggle s'"
    using connector_step_total [OF envs_ok(1) ok] by blast
  then have r: "connector_run up_env ?g one_state [Toggle] s'"
    using run_step [OF run_start] by fastforce
  with small_cache_starves [OF r envs_ok(1) ok] show ?thesis
    by (auto simp: default_options_def one_state_def idle_state_def)
qed

end
