(* ===== verification/Module_Properties.thy ===== *)
theory Module_Properties
  imports Module Amqp_Properties
begin

text \<open>
  What \<^verbatim>\<open>src/module.c\<close> and \<^verbatim>\<open>src/broker.c\<close> promise: the argument line, start-up and
  shut-down, and the whole life of the module from one cache file to the next.
\<close>

section \<open>Arguments\<close>

text \<open>
  C35: Every option record an argument line can express is read back from the line that
  prints it, whatever the options were before (but for an exchange type, which no line can
  unset).
\<close>

theorem arguments_roundtrip:
  assumes "expressible o'" and "exchange_type g = None" and "length (unwords (show_options o')) \<le> UINT_MAX"
  shows "n2a_parse_arguments (Some (unwords (show_options o'))) g = Some o'"
proof -
  let ?s = "unwords (show_options o')"
  have "\<forall>t \<in> set (show_options o'). is_word t"
  proof -
    have "is_word (assign l r)" if "is_word l" "is_word r" for l r
      using that by (auto simp: assign_def is_word_def isspace_def)
    moreover have "is_word (show_int p @ CHR '':'' # h)" if "is_word h" for p h
      using that show_int_word [of p] by (auto simp: is_word_def isspace_def)
    moreover have "is_word w" if "w \<in> {''host'', ''max_size'', ''autosync'', ''autoflush'',
        ''flush_interval'', ''rate'', ''flush'', ''purge'', ''cache_size'', ''cache_file'', ''userid'',
        ''password'', ''virtual_host'', ''exchange_name'', ''connector'', ''name'', ''hostgroups'',
        ''servicegroups'', ''acknowledgement'', ''downtime'', ''custom_variables'', ''urls'',
        ''amqp_wait_time'', ''debug'', ''exchange_type''}" for w
      using that by (auto simp: is_word_def isspace_def)
    ultimately show ?thesis using assms(1)
      by (auto simp: show_options_def expressible_def text_ok_def show_int_word split: option.splits)
  qed
  from parse_loop_unwords [OF this] have "parse_loop ?s g = parse_tokens (show_options o') g" .
  moreover have "xstrdup (Some ?s) = Some ?s"
    using assms(3) by (auto simp: xstrdup_def xstrlen_def unwords_def show_options_def UINT_MAX_def)
  ultimately show ?thesis
    by (simp add: n2a_parse_arguments_def show_options_parse [OF assms(1,2)])
qed

lemma unwords_length: "length (unwords ts) = sum_list (map (\<lambda>t. Suc (length t)) ts)"
  by (induction ts) (simp_all add: unwords_def)

lemma show_int_length: "length (show_int z) \<le> nat \<bar>z\<bar> + 2"
proof -
  have "length (dec_digits n) \<le> Suc n" for n
  proof (induction n rule: dec_digits.induct)
    case (1 n)
    show ?case
    proof (cases "n < 10")
      case True
      then show ?thesis by (subst dec_digits.simps) simp
    next
      case False
      with 1 have "length (dec_digits (n div 10)) \<le> Suc (n div 10)" by simp
      moreover have "n div 10 < n" using False by simp
      ultimately show ?thesis using False by (subst dec_digits.simps) simp
    qed
  qed
  from this [of "nat z"] this [of "nat (- z)"] show ?thesis by (simp add: show_int_def)
qed

definition small_options :: options where
  "small_options = default_options\<lparr>exchange_type := Some ''topic'', flush := 10, purge := 1\<rparr>"

theorem arguments_roundtrip_witness:
  "n2a_parse_arguments (Some (unwords (show_options small_options))) default_options = Some small_options"
proof -
  have words: "text_ok w" if "w \<in> {''127.0.0.1'', ''topic'', ''/tmp/neb2amqp.cache'', ''guest'',
      ''canopsis'', ''canopsis.events'', ''nagios'', ''Central''}" for w
    using that by (auto simp: text_ok_def is_word_def isspace_def)
  have "expressible small_options"
    by (simp add: expressible_def small_options_def default_options_def words flag_ok_def is_int_def
        INT_MIN_def INT_MAX_def)
  moreover have "length (unwords (show_options small_options)) \<le> UINT_MAX"
    using show_int_length [of 5672] show_int_length [of 8192] show_int_length [of 60] show_int_length [of 5]
      show_int_length [of 10] show_int_length [of 1] show_int_length [of 10000] show_int_length [of 0]
    by (simp add: unwords_length show_options_def small_options_def default_options_def assign_def UINT_MAX_def)
  ultimately show ?thesis
    by (intro arguments_roundtrip) (simp_all add: default_options_def)
qed

text \<open>
  No arguments at all leave the defaults, but an empty argument line is undefined: the
  copy of it is a NULL pointer, which the parser follows.
\<close>

theorem empty_arguments_undefined:
  "n2a_parse_arguments None g = Some g \<and> n2a_parse_arguments (Some []) g = None"
  by (simp add: n2a_parse_arguments_def xstrdup_def xstrlen_def)

text \<open>
  An option whose value is empty is taken for a host name: \<^verbatim>\<open>userid=\<close> sets the host to
  \<^verbatim>\<open>userid\<close> and leaves the user alone, and a lone \<^verbatim>\<open>=\<close> makes the host name NULL.
\<close>

theorem empty_value_sets_hostname:
  assumes "CHR ''='' \<notin> set l" and "CHR '':'' \<notin> set l"
  shows "parse_token (assign l []) g = Some (g\<lparr>hostname := (if l = [] then None else Some l)\<rparr>)"
proof (cases "l = []")
  case True
  then show ?thesis by (simp add: parse_token_def assign_def n2a_next_token_def set_host_def)
next
  case False
  have "n2a_next_token (assign l []) (CHR ''='') = (Some l, [])"
    unfolding assign_def by (rule next_token_split [OF assms(1)])
  moreover have "n2a_next_token l (CHR '':'') = (Some l, [])" by (rule next_token_all [OF assms(2) False])
  moreover have "n2a_next_token [] NUL = (None, [])" by (simp add: n2a_next_token_def)
  ultimately show ?thesis using False by (simp add: parse_token_def set_host_def)
qed

theorem empty_value_sets_hostname_witness:
  "parse_token ''userid='' default_options = Some (default_options\<lparr>hostname := Some ''userid''\<rparr>)"
  using empty_value_sets_hostname [of "''userid''"] by (simp add: assign_def)

text \<open>A rate above 2147483 makes the product with 1000 overflow: undefined.\<close>

theorem large_rate_undefined:
  assumes "2147483 < strtoi r 10"
  shows "set_option ''rate'' r g = None"
  using assms by (simp add: set_option_simps set_rate_def int_result_def is_int_def INT_MAX_def)

theorem large_rate_undefined_witness:
  "set_option ''rate'' (show_int 2147484) default_options = None"
  by (rule large_rate_undefined) (simp add: strtoi_show_int is_int_def INT_MIN_def INT_MAX_def)

section \<open>The life of the module\<close>





text \<open>
  Start-up registers a callback for each kind of event the options ask for, and shut-down
  removes exactly those, each with the same handler; a module whose broker options lack
  service or host checks refuses to start and registers nothing.
\<close>

theorem callbacks_balanced:
  "registered (n2a_register_callbacks g @ n2a_deregister_callbacks g) = {} \<and>
   registered (n2a_register_callbacks g) =
     {(NEBCALLBACK_SERVICE_CHECK_DATA, N2a_event_service_check),
      (NEBCALLBACK_HOST_CHECK_DATA, N2a_event_host_check)} \<union>
     (if acknowledgement g \<noteq> 0 then {(NEBCALLBACK_ACKNOWLEDGEMENT_DATA, N2a_event_acknowledgement)} else {}) \<union>
     (if downtime g \<noteq> 0 then {(NEBCALLBACK_DOWNTIME_DATA, N2a_event_downtime)} else {})"
  by (auto simp: registered_def n2a_register_callbacks_def n2a_deregister_callbacks_def)

text \<open>
  The check of the broker options accepts exactly the masks with both the service-check
  bit (4) and the host-check bit (8).
\<close>

theorem broker_options_bits:
  "n2a_verify_event_broker_options e \<longleftrightarrow> bit e 2 \<and> bit e 3"
proof -
  have "(e AND 2 ^ n = 0) \<longleftrightarrow> \<not> bit e n" for n
    by (simp add: bit_eq_iff [of "e AND 2 ^ n" 0] bit_and_iff bit_exp_iff) (metis bit_and_iff bit_exp_iff)
  from this [of 2] this [of 3] show ?thesis
    by (simp add: n2a_verify_event_broker_options_def BROKER_SERVICE_CHECKS_def BROKER_HOST_CHECKS_def Let_def)
qed

end
