(* ===== verification/Jansson_Dump_Total.thy ===== *)
theory Jansson_Dump_Total
  imports Jansson_Text
begin

text \<open>
  The encoder of \<^verbatim>\<open>src/lib/jansson-2.3.1/src/dump.c\<close> ends, on every well-formed value and for
  every flag, when its callback does: no assertion fails and no list of members runs out.
\<close>

definition returns :: "('s \<Rightarrow> (int \<times> 's) option) \<Rightarrow> bool" where
  "returns f \<longleftrightarrow> (\<forall>s. \<exists>r s'. f s = Some (r, s'))"

lemma returns_const: "returns (\<lambda>s. Some (r, s))"
  by (simp add: returns_def)

lemma returns_if: "(b \<Longrightarrow> returns f) \<Longrightarrow> (\<not> b \<Longrightarrow> returns h) \<Longrightarrow> returns (\<lambda>s. if b then f s else h s)"
  by (cases b) simp_all

lemma returns_ext: "(\<And>s. f s = h s) \<Longrightarrow> returns h \<Longrightarrow> returns f"
  by (simp add: returns_def)

lemma returns_bind:
  assumes "returns f" "returns h"
  shows "returns (\<lambda>s. Option.bind (f s) (\<lambda>(r, s'). h s'))"
  unfolding returns_def
proof
  fix s
  from assms(1) obtain r s' where "f s = Some (r, s')" unfolding returns_def by blast
  with assms(2) show "\<exists>r s'. Option.bind (f s) (\<lambda>(r, s'). h s') = Some (r, s')" by (simp add: returns_def)
qed

lemma returns_and_then:
  assumes "returns f" "returns h"
  shows "returns (\<lambda>s. and_then (f s) h)"
  unfolding returns_def
proof
  fix s
  from assms(1) obtain r s' where "f s = Some (r, s')" unfolding returns_def by blast
  with assms(2) show "\<exists>r s'. and_then (f s) h = Some (r, s')" by (simp add: returns_def and_then_def)
qed

locale total_callback =
  fixes dump :: "'s callback"
  assumes dump_returns: "returns (dump buffer)"
begin

lemma indent_loop_returns: "returns (indent_loop dump n depth)"
proof (induction depth)
  case 0
  show ?case by (simp add: returns_def)
next
  case (Suc depth)
  then show ?case by (intro returns_ext [OF indent_loop.simps(2)] returns_and_then dump_returns)
qed

lemma dump_indent_returns: "returns (dump_indent flags depth space dump)"
  unfolding dump_indent_def
  by (intro returns_if returns_and_then returns_const dump_returns indent_loop_returns)

lemma dump_chunks_returns: "returns (dump_chunks ascii dump str)"
proof (induction str rule: length_induct)
  case (1 str)
  show ?case
  proof (cases "scan_plain ascii [] str")
    case None
    then show ?thesis by (simp add: dump_chunks_invalid returns_const)
  next
    case (Some st)
    obtain plain escape where st: "st = (plain, escape)" by fastforce
    have "returns (\<lambda>s. case escape of None \<Rightarrow> dump [CHR 0x22] s
        | Some (cp, rest) \<Rightarrow> and_then (dump (escape_text cp) s) (dump_chunks ascii dump rest))"
    proof (cases escape)
      case (Some e)
      obtain cp rest where e: "e = (cp, rest)" by fastforce
      have "length rest < length str"
        using scan_plain_shorter \<open>scan_plain ascii [] str = Some st\<close> st Some e by blast
      with 1 show ?thesis by (simp add: Some e returns_and_then dump_returns)
    qed (simp add: dump_returns)
    then show ?thesis
      by (subst dump_chunks.simps [abs_def], unfold Some st)
        (simp only: option.case prod.case, intro returns_and_then returns_if dump_returns returns_const)
  qed
qed

lemma dump_string_returns: "returns (dump_string str ascii dump)"
  unfolding dump_string_def by (intro returns_and_then dump_returns dump_chunks_returns)

lemma separator_returns:
  "returns (\<lambda>s. if b then and_then (dump '','' s) (dump_indent flags (depth + 1) True dump)
     else dump_indent flags depth False dump s)"
  by (intro returns_if returns_and_then dump_returns dump_indent_returns)

lemma dump_entries_returns:
  "(\<And>w depth. w \<in> set ws \<Longrightarrow> returns (w depth)) \<Longrightarrow> returns (dump_entries flags depth dump ws)"
proof (induction ws)
  case (Cons w ws)
  then show ?case
    by (intro returns_ext [OF dump_entries.simps(2)] returns_and_then separator_returns) simp_all
qed (simp add: returns_def)

lemma dump_members_returns:
  "\<forall>(k, w) \<in> set ms. \<exists>w'. w = Some w' \<and> (\<forall>depth. returns (w' depth)) \<Longrightarrow>
   returns (dump_members flags depth dump ms)"
proof (induction ms)
  case (Cons m ms)
  obtain k w where m: "m = (k, w)" by fastforce
  from Cons.prems obtain w' where w: "w = Some w'" "\<And>depth. returns (w' depth)" unfolding m by auto
  from Cons have d: "returns (dump_members flags depth dump ms)" by simp
  show ?case unfolding m w(1)
    by (intro returns_ext [OF dump_members.simps(2)], unfold Option.bind.bind_lunit)
      (intro returns_bind [OF dump_string_returns] returns_and_then separator_returns dump_returns w(2) d)
qed (simp add: returns_def)

lemma dump_array_returns:
  "(\<And>w depth. w \<in> set ws \<Longrightarrow> returns (w depth)) \<Longrightarrow> returns (dump_array flags dump ws depth)"
  unfolding dump_array_def
  by (intro returns_and_then returns_if dump_returns dump_indent_returns dump_entries_returns) auto

lemma sorted_members_ok:
  assumes t: "ht_ok t" "\<And>k v depth. (k, v) \<in> set (table_items t) \<Longrightarrow> returns (f v depth)"
  shows "\<exists>ms. sorted_members flags (map_hashtable f t) = Some ms \<and>
    (\<forall>(k, w) \<in> set ms. \<exists>w'. w = Some w' \<and> (\<forall>depth. returns (w' depth)))"
proof -
  let ?t = "map_hashtable f t"
  let ?keys = "map (\<lambda>p. (pair_serial p, pair_key p)) (ht_list ?t)"
  have len: "length ?keys = ht_size ?t"
    using items_size [OF t(1)] by (simp add: ht_list_map table_items_def)
  have "\<exists>w. Option.bind (hashtable_get ?t (snd k)) (\<lambda>v. v) = Some w \<and> (\<forall>depth. returns (w depth))"
    if "k \<in> set ?keys" for k
  proof -
    from that obtain p where p: "p \<in> set (ht_list t)" "snd k = pair_key p"
      by (auto simp: ht_list_map pair.map_sel)
    then have "(pair_key p, pair_value p) \<in> set (table_items t)" by (force simp: table_items_def)
    with ht.get_law [OF t(1), of "pair_key p"] items_in_map [OF t(1)] t(2) p(2) show ?thesis
      by (auto simp: hashtable_get_map)
  qed
  with len show ?thesis
    unfolding sorted_members_def by (auto simp: Let_def set_qsort_by)
qed

lemma dump_object_returns:
  assumes t: "ht_ok t" "\<And>k v depth. (k, v) \<in> set (table_items t) \<Longrightarrow> returns (f v depth)"
  shows "returns (dump_object flags dump (map_hashtable f t) depth)"
proof -
  obtain ms where
    ms: "sorted_members flags (map_hashtable f t) = Some ms"
      "\<forall>(k, w) \<in> set ms. \<exists>w'. w = Some w' \<and> (\<forall>depth. returns (w' depth))"
    using sorted_members_ok [OF t(1), of f flags] t(2) by blast
  have s: "returns (dump_members flags depth dump ms)" using ms(2) by (rule dump_members_returns)
  have u: "returns (dump_members flags depth dump (map (\<lambda>(k, w). (k, Some w)) (table_items (map_hashtable f t))))"
    using t(2) by (intro dump_members_returns) auto
  show ?thesis
    unfolding dump_object_def ms(1) Option.bind.bind_lunit
    by (intro returns_and_then returns_if dump_returns dump_indent_returns s u)
qed

lemma do_dump_returns:
  assumes fmt: "\<And>d. jsonp_dtostr fmt 100 d \<noteq> None"
  shows "json_ok json \<Longrightarrow> returns (do_dump json fmt flags dump depth)"
proof (induction json arbitrary: depth)
  case (JInteger i)
  show ?case unfolding do_dump.simps dump_integer_def [abs_def] Let_def
    by (intro returns_if returns_const dump_returns)
next
  case (JReal d)
  obtain n buffer where "jsonp_dtostr fmt 100 d = Some (n, buffer)" using fmt [of d] by auto
  then show ?case
    by (simp add: dump_real_def [abs_def]) (intro returns_if returns_const dump_returns)
next
  case (JString s)
  show ?case by (simp add: dump_string_returns)
next
  case (JArray n xs)
  then show ?case unfolding do_dump.simps json_ok_members
    by (intro dump_array_returns) auto
next
  case (JObject t ser)
  from JObject.prems have t: "ht_ok t" by (simp add: json_ok_object_map)
  have "returns (do_dump v fmt flags dump depth)" if "(k, v) \<in> set (table_items t)" for k v depth
    using JObject.IH [OF table_items_set [OF that]] JObject.prems that unfolding json_ok_members by blast
  from dump_object_returns [OF t, of "\<lambda>v. do_dump v fmt flags dump", OF this]
  show ?case by (simp add: hashtable.map_comp comp_def)
qed (simp_all add: dump_returns)

end


text \<open>The text of a value always exists, and \<^verbatim>\<open>json_dumps\<close> returns it or NULL.\<close>

interpretation tx: total_callback append_text
  by unfold_locales (simp add: returns_def append_text_def)

lemma json_dumps_returns:
  assumes "\<And>d. jsonp_dtostr fmt 100 d \<noteq> None" "json_ok json"
  shows "\<exists>r t. json_text fmt json flags = Some (r, t) \<and>
    (length t < 2 ^ 61 \<longrightarrow> json_dumps fmt json flags = Some (if r = 0 then Some (c_string t) else None))"
proof -
  have "\<exists>r t. json_text fmt json flags = Some (r, t)"
    using tx.do_dump_returns [OF assms(1,2), of flags 0] by (simp add: json_text_def json_dump_callback_def returns_def)
  then show ?thesis using json_dumps_text by blast
qed

end
