(* ===== verification/Jansson_Properties.thy ===== *)
theory Jansson_Properties
  imports Jansson_Dump_Total Json_Facts
begin

text \<open>
  What \<^verbatim>\<open>src/lib/jansson-2.3.1\<close> promises to the code that builds the JSON events, with
  concrete values.
\<close>

section \<open>Values\<close>

text \<open>
  C11: An object is a finite map. Whatever sequence of additions, replacements and removals
  made an object out of the empty one, through the buckets, the list of pairs and the growth
  of the table, a lookup finds what the last change of its key left, and the size is the number
  of keys. The bound is the largest number of buckets that the table can have.
\<close>

theorem object_refines_map:
  assumes "length ops \<le> 1610612741"
  shows "\<exists>j. object_run json_object ops = Some j \<and>
    json_object_size j = card (dom (map_after Map.empty ops)) \<and>
    (\<forall>k. json_object_get j k = Some (map_after Map.empty ops k))"
proof -
  have "json_object_size json_object + length ops \<le> 1610612741" by (simp add: assms empty_object(2))
  from obj.run_ok [OF empty_object(1) this] obtain j where
    "obj.run json_object ops = Some j" "obj_ok j" "obj_map j = map_after Map.empty ops"
    by (auto simp: empty_object(3))
  then show ?thesis by (auto simp: object_run_eq obj.count_law obj.get_law)
qed

theorem object_refines_map_witness:
  "\<exists>j. object_run json_object [Put ''a'' JTrue, Put ''b'' JNull, Put ''a'' JFalse, Del ''b''] = Some j \<and>
     json_object_size j = 1 \<and> json_object_get j ''a'' = Some (Some JFalse) \<and> json_object_get j ''b'' = Some None"
  using object_refines_map [of "[Put ''a'' JTrue, Put ''b'' JNull, Put ''a'' JFalse, Del ''b'']"] by auto

text \<open>
  C27: Every value reached from a well-formed one by calls that set, add, insert, remove or clear
  is well-formed: its tables satisfy the invariant of the hash table, its arrays have room for
  their entries, and so do all its members.
\<close>

theorem values_stay_well_formed:
  assumes "json_update\<^sup>*\<^sup>* j j'" and "json_ok j"
  shows "json_ok j'"
  using assms by (induction rule: rtranclp_induct) (auto intro: json_update_ok)

theorem values_stay_well_formed_witness:
  "\<exists>n j. json_update\<^sup>*\<^sup>* json_array (JArray n [j]) \<and> json_ok (JArray n [j]) \<and> obj_map j = [''a'' \<mapsto> JTrue]"
proof -
  from object_set_ok [OF empty_object(1), of "''a''" JTrue] obtain j where
    j: "json_object_set_new_nocheck json_object (Some ''a'') (Some JTrue) = Some (0, j)" "obj_map j = [''a'' \<mapsto> JTrue]"
    by (auto simp: empty_object(2,3))
  have o: "json_ok json_object" using event_value_ok(2) [of undefined "[]"]
    by (simp add: entries_ok_def entries_weight_def event_value_def event_obj_def INT_MAX_def)
  have "json_update json_object j" by (rule object_set [OF j(1)]) (simp_all add: empty_object(2))
  then have ok: "json_ok j" using o by (rule json_update_ok)
  have "json_array_append_new json_array (Some j) = Some (0, JArray 8 [j])"
    by (simp add: json_array_def json_array_append_new_def json_array_grow_def)
  then have "json_update json_array (JArray 8 [j])" by (rule array_append) (simp add: ok)
  then have r: "json_update\<^sup>*\<^sup>* json_array (JArray 8 [j])" ..
  have "json_ok json_array" by (simp add: json_array_def)
  from values_stay_well_formed [OF r this] r j(2) show ?thesis by blast
qed

text \<open>
  C40: Removing an entry closes the gap, an index past the end is refused, and when the array is
  full the shift reads one pointer past the end of the table: the result is undefined.
\<close>

theorem array_remove_full_undefined:
  assumes "json_ok (JArray n xs)"
  shows "json_array_remove (JArray n xs) i =
    (if i \<ge> length xs then Some (-1, JArray n xs)
     else if length xs = n then None
     else Some (0, JArray n (take i xs @ drop (i + 1) xs)))"
  by (rule json_array_remove_ok [OF assms])

theorem array_remove_full_undefined_witness:
  "json_array_remove (JArray 2 [JTrue, JNull]) 0 = None \<and>
   json_array_remove (JArray 3 [JTrue, JNull]) 0 = Some (0, JArray 3 [JNull])"
  using array_remove_full_undefined [of 2 "[JTrue, JNull]" 0] array_remove_full_undefined [of 3 "[JTrue, JNull]" 0]
  by simp

section \<open>UTF-8\<close>

text \<open>Iterating over the encoding of a code point, whatever follows it, gives the code point back.\<close>

theorem utf8_encode_iterate:
  assumes "scalar cp" and "cp \<noteq> 0"
  shows "utf8_iterate (snd (utf8_encode cp) @ rest) = Some (rest, Some cp)"
  by (rule utf8_iterate_enc [OF assms])

theorem utf8_encode_iterate_witness:
  "utf8_iterate (snd (utf8_encode 0x20AC) @ ''x'') = Some (''x'', Some 0x20AC)"
  by (rule utf8_encode_iterate) (simp_all add: scalar_def)

text \<open>
  C38: The check of a key or a string accepts exactly the concatenations of the encodings of
  Unicode scalar values: no surrogate, no overlong form, nothing above 0x10FFFF, no stray byte.
\<close>

theorem utf8_check_exact:
  "utf8_check_bytes s \<longleftrightarrow> (\<exists>cps. (\<forall>cp \<in> set cps. 0 \<le> cp \<and> cp \<le> 0x10FFFF \<and> \<not> (0xD800 \<le> cp \<and> cp \<le> 0xDFFF)) \<and>
     s = concat (map (\<lambda>cp. snd (utf8_encode cp)) cps))"
  using utf8_check_bytes_iff [of s] by (simp add: scalar_def)

theorem utf8_check_exact_witness: "utf8_check_bytes (CHR 0xC3 # CHR 0xA9 # ''t'')"
  unfolding utf8_check_exact by (rule exI [of _ "[0xE9, 0x74]"]) (simp add: utf8_encode_def, code_simp)

section \<open>The string buffer\<close>

text \<open>
  C39: Appending bytes either appends them and keeps the terminator inside the allocation, or
  returns -1 and changes nothing. It never writes past the buffer, whatever the sizes, and a
  buffer grown only by appending takes anything up to 2 to the power 61.
\<close>

theorem strbuffer_append_bounds:
  assumes "sb_ok sb" and "sb_value sb = Some v" and "length bytes < 2 ^ 64"
  shows "\<exists>r sb'. strbuffer_append_bytes sb bytes (word_of_nat (length bytes)) = Some (r, sb') \<and> sb_ok sb' \<and>
    (if r = 0 then sb_value sb' = Some (v @ bytes) else r = -1 \<and> sb' = sb) \<and>
    (sb_tight sb \<and> length v + length bytes < 2 ^ 61 \<longrightarrow> r = 0 \<and> sb_tight sb')"
  by (rule strbuffer_append_bytes_ok [OF assms])

theorem strbuffer_append_bounds_witness:
  "\<exists>sb'. strbuffer_append_bytes strbuffer_init ''a text of twenty-six bytes'' 26 = Some (0, sb') \<and>
     sb_value sb' = Some ''a text of twenty-six bytes'' \<and> sb_ok sb'"
  using strbuffer_append_bounds [of strbuffer_init "[]" "''a text of twenty-six bytes''"]
    strbuffer_init_ok by (auto simp: strbuffer_init_def)

section \<open>The encoder\<close>

text \<open>
  C26: For every well-formed value, every flag and every way the C library prints a real number,
  the encoder ends: no assertion fails and nothing is read out of bounds. \<^verbatim>\<open>json_dumps\<close>
  returns the text, or NULL when a string in it is not UTF-8 or the value is neither object nor array.
\<close>

theorem json_dumps_ends:
  assumes "\<And>d. jsonp_dtostr fmt 100 d \<noteq> None" and "json_ok json"
  shows "\<exists>r t. json_text fmt json flags = Some (r, t) \<and>
    (length t < 2 ^ 61 \<longrightarrow> json_dumps fmt json flags = Some (if r = 0 then Some (c_string t) else None))"
  by (rule json_dumps_returns [OF assms])

text \<open>
  C25: With flags that ask for no indentation (\<^verbatim>\<open>JSON_INDENT\<close> of the flags is 0), a well-formed object or
  array, with UTF-8 strings and 64-bit integers, has a text without control characters, not
  longer than the weight of the value (12 bytes for each byte of a string, 100 for a number), and
  \<^verbatim>\<open>json_dumps\<close> returns this text. With an indentation the text has newlines.
\<close>

theorem json_dumps_prints:
  assumes "json_ok json" "writable fmt json" "JSON_INDENT flags = 0" "json_weight json < 2 ^ 61"
    and "json_is_object json \<or> json_typeof json = JSON_ARRAY"
  shows "\<exists>t. json_text fmt json flags = Some (0, t) \<and> json_dumps fmt json flags = Some (Some t) \<and>
    (\<forall>c \<in> set t. 0x20 \<le> (of_char c :: int)) \<and> length t \<le> json_weight json"
  using json_dumps_ok [OF assms] by (auto simp: printable_def)

definition plain_format :: number_format where
  "plain_format = \<lparr>format_g17 = (\<lambda>d. ''0.5''), decimal_point = CHR ''.''\<rparr>"

lemma plain_format_prints: "jsonp_dtostr plain_format 100 d = Some (3, ''0.5'')"
  by (simp add: jsonp_dtostr_def plain_format_def from_locale_def trim_exponent_def)

theorem json_dumps_ends_witness:
  "\<exists>r t. json_text plain_format (JArray 2 [JReal 0]) 0 = Some (r, t) \<and>
     (length t < 2 ^ 61 \<longrightarrow> json_dumps plain_format (JArray 2 [JReal 0]) 0 =
        Some (if r = 0 then Some (c_string t) else None))"
  by (rule json_dumps_ends) (simp_all add: plain_format_prints)

theorem json_dumps_prints_witness:
  "\<exists>t. json_text plain_format (JArray 2 [JTrue, JInteger 7]) 0 = Some (0, t) \<and>
     json_dumps plain_format (JArray 2 [JTrue, JInteger 7]) 0 = Some (Some t) \<and> length t \<le> 112"
  using json_dumps_prints [of "JArray 2 [JTrue, JInteger 7]" plain_format 0]
  by (auto simp: is_int64_def JSON_INDENT_def)

end
