(* ===== verification/Events_Properties.thy ===== *)
theory Events_Properties
  imports Events_Facts Jansson_Properties Amqp_Properties
begin

text \<open>
  What the handlers of \<^verbatim>\<open>src/events.c\<close> send for an event of Nagios, with \<^verbatim>\<open>src/json.c\<close> making
  the message: which routing key, which fields, in how many messages. The sending itself is the
  connector's, so its guarantees on order and loss apply to these messages.
\<close>

section \<open>Concrete events\<close>

definition some_host :: host where
  "some_host = \<lparr>address = Some ''10.0.0.1'', hostgroups_ptr = [], host_custom_variables = [],
     host_action_url = None, host_notes_url = None\<rparr>"

definition some_service :: service where
  "some_service = \<lparr>host_ptr = Some some_host, servicegroups_ptr = [], service_custom_variables = [],
     service_action_url = None, service_notes_url = None\<rparr>"

definition some_check :: service_check_data where
  "some_check = \<lparr>sc_type = 701, sc_timestamp = 1000, sc_host_name = Some ''web'',
     sc_service_description = Some ''disk'', sc_check_type = 0, sc_current_attempt = 1, sc_max_attempts = 3,
     sc_state_type = 1, sc_state = 0, sc_command_name = Some ''df'', sc_execution_time = 0, sc_latency = 0,
     sc_output = Some ''DISK OK'', sc_long_output = Some ''half full'', sc_perf_data = Some ''d=50'',
     sc_object_ptr = Some some_service\<rparr>"

definition some_host_check :: host_check_data where
  "some_host_check = \<lparr>hc_type = 801, hc_timestamp = 1000, hc_host_name = Some ''web'', hc_check_type = 0,
     hc_current_attempt = 1, hc_max_attempts = 3, hc_state_type = 1, hc_state = 0, hc_command_name = Some ''df'',
     hc_execution_time = 0, hc_latency = 0, hc_output = Some ''DISK OK'', hc_long_output = Some ''half full'',
     hc_perf_data = Some ''d=50'', hc_object_ptr = Some some_host\<rparr>"

definition some_ack :: acknowledgement_data where
  "some_ack = \<lparr>ack_type = 1700, ack_timestamp = 1000, acknowledgement_type = 1, ack_host_name = Some ''web'',
     ack_service_description = Some ''disk'', ack_state = 2, ack_author_name = Some ''admin'',
     ack_comment_data = Some ''DISK OK''\<rparr>"

definition some_downtime :: downtime_data where
  "some_downtime = \<lparr>dt_type = 1100, dt_timestamp = 1000, downtime_type = 2, dt_host_name = Some ''web'',
     dt_service_description = None, dt_entry_time = 1000, dt_author_name = Some ''admin'',
     dt_comment_data = Some ''DISK OK'', dt_start_time = 1000, dt_end_time = 2000, dt_fixed = 1,
     dt_duration = 1000, dt_downtime_id = 1\<rparr>"

lemma some_strings:
  "name_ok ''10.0.0.1''" "name_ok ''web''" "name_ok ''disk''" "name_ok ''df''" "name_ok ''DISK OK''"
  "name_ok ''half full''" "name_ok ''d=50''" "name_ok ''admin''" "name_ok ''nagios''" "name_ok ''Central''"
  "name_ok ''check''" "name_ok ''resource''" "name_ok ''component''" "name_ok ''ack''" "name_ok ''downtime''"
  "name_ok ''nagios.Central.check.resource.web.disk''"
  by code_simp+

lemma some_values:
  "json_ok (JString t)" "name_ok t \<Longrightarrow> writable fmt (JString t)" "is_int64 i \<Longrightarrow> writable fmt (JInteger i)"
  "writable plain_format (JReal d)"
  using name_ok_key by (simp_all add: real_ok_def plain_format_prints printable_def)

definition plain_option :: "event_option \<Rightarrow> bool" where
  "plain_option opt = (case opt of Json_string_nocheck s \<Rightarrow> pred_option name_ok s
     | N2a_string_to_truncated_json s \<Rightarrow> pred_option name_ok s | _ \<Rightarrow> True)"

lemma plain_item:
  assumes "plain_option opt" "option_item g opt = Some v"
  shows "json_ok v \<and> writable plain_format v \<and> json_weight v \<le> 1190"
proof -
  have n: "name_ok []" by code_simp
  have s: "json_ok (JString t) \<and> writable plain_format (JString t) \<and> json_weight (JString t) \<le> 1190" if "name_ok t" for t
    using that some_values(2) [OF that, of plain_format] by (simp add: string_weight_def name_ok_def)
  show ?thesis
  proof (cases opt)
    case (Json_integer i)
    have "is_int64 (to_int i)" using is_int_to_int [of i] by (auto simp: is_int64_def is_int_def INT_MIN_def INT_MAX_def)
    with assms Json_integer show ?thesis by (auto simp: option_item_def json_integer_def)
  qed (use assms s [OF n] s some_values(4) in \<open>auto simp: option_item_def plain_option_def json_string_nocheck_def
      n2a_string_to_truncated_json_def json_real_def n2a_bool_to_json_def split: if_splits\<close>)
qed

lemma plain_entries:
  "\<forall>(name, opt) \<in> set opts. name_ok name \<Longrightarrow> list_all (\<lambda>(name, opt). plain_option opt) opts \<Longrightarrow>
   list_all (entry_ok plain_format) (option_entries g cmp opts) \<and>
   entries_weight (option_entries g cmp opts) \<le> 2400 * length opts"
proof (induction opts)
  case (Cons nopt opts)
  obtain name opt where n: "nopt = (name, opt)" by fastforce
  with Cons.prems have k: "name_ok name" "plain_option opt" by auto
  then have "utf8_text name" "key_ok name" "string_weight name \<le> 1190"
    using name_ok_key by (auto simp: name_ok_def string_weight_def)
  with plain_item [OF k(2), of g] Cons n show ?case
    by (cases "option_item g opt") (auto simp: option_entries_def entry_ok_def entries_weight_def entry_weight_def)
qed (simp add: option_entries_def entries_weight_def)

lemma plain_event:
  assumes "\<forall>(name, opt) \<in> set opts. name_ok name" "list_all (\<lambda>(name, opt). plain_option opt) opts" "length opts \<le> 20"
  shows "entries_ok plain_format (option_entries g cmp opts)"
  using plain_entries [OF assms(1,2), of g cmp] assms(3)
  by (auto simp: entries_ok_def INT_MAX_def option_entries_def)

definition sized_options :: "int \<Rightarrow> options" where
  "sized_options mx = default_options\<lparr>max_size := mx\<rparr>"

lemma some_service_entries:
  "service_entries (sized_options mx) some_check some_service some_host =
     option_entries default_options None (service_check_options default_options some_check some_host)"
  by (simp add: sized_options_def service_entries_def option_entries_def service_check_options_def option_item_def
    default_options_def hostgroup_entries_def servicegroup_entries_def variable_entries_def url_entries_def)

lemma some_service_full:
  "service_full (sized_options mx) some_check some_service some_host =
     option_entries default_options None (service_check_options default_options some_check some_host @ service_additionals some_check)"
  by (simp add: service_full_def some_service_entries)
    (simp add: option_entries_def service_additionals_def option_item_def)

lemma some_full_ok: "entries_ok plain_format (service_full (sized_options mx) some_check some_service some_host)"
  unfolding some_service_full using names_ok(1,2)
  by (intro plain_event)
    (auto simp: some_strings service_check_options_def service_additionals_def plain_option_def some_check_def
      some_host_def default_options_def)

text \<open>The room that the options leave for the long fields is set by the length of the rest.\<close>

definition some_size :: int where
  "some_size = int (length (event_text plain_format (service_entries (sized_options 0) some_check some_service some_host)))"

lemma some_room: "room_left plain_format (sized_options mx) some_check some_service some_host = mx - some_size"
  by (simp add: room_left_def some_size_def some_service_entries) (simp add: sized_options_def)

lemma some_size: "0 \<le> some_size" "some_size \<le> 90000"
proof -
  have "entries_ok plain_format (service_entries (sized_options 0) some_check some_service some_host)"
    using some_full_ok [of 0] by (simp add: service_full_def entries_ok_append)
  from event_value_ok(9) [OF this] have "some_size \<le>
      int (entries_weight (service_full (sized_options 0) some_check some_service some_host)) + 3"
    by (simp add: some_size_def service_full_def)
  moreover have "entries_weight (service_full (sized_options 0) some_check some_service some_host) \<le> 2400 * 19"
    unfolding some_service_full
    by (rule order_trans [OF conjunct2 [OF plain_entries]])
      (use names_ok(1,2) in \<open>auto simp: some_strings service_check_options_def service_additionals_def plain_option_def
        some_check_def some_host_def default_options_def\<close>)
  ultimately show "0 \<le> some_size" "some_size \<le> 90000" by (simp_all add: some_size_def)
qed

lemma sized_ok:
  "connector_ok (sized_options mx) idle_state []"
  "0 \<le> mx \<Longrightarrow> mx \<le> INT_MAX \<Longrightarrow> max_size_ok (sized_options mx)"
  by (simp_all add: idle_ok sized_options_def max_size_ok_def)

lemma default_max_size: "max_size_ok default_options"
  by (simp add: max_size_ok_def default_options_def INT_MAX_def)

lemma empty_event: "event_obj fmt json_object"
  using event_value_ok(2) [of fmt "[]"] by (simp add: entries_ok_def entries_weight_def event_value_def INT_MAX_def)

lemma some_names:
  "service_names (sized_options mx) t h v = service_names default_options t h v"
  "host_names (sized_options mx) t h = host_names default_options t h"
  by (simp_all add: service_names_def host_names_def sized_options_def)

lemma some_names_fit:
  "names_fit (service_names default_options ''check'' (Some ''web'') (Some ''disk''))"
  "names_fit (service_names default_options ''ack'' (Some ''web'') (Some ''disk''))"
  "names_fit (host_names default_options ''check'' (Some ''web''))"
  "names_fit (host_names default_options ''downtime'' (Some ''web''))"
  by (simp_all add: names_fit_def service_names_def host_names_def default_options_def INT_MAX_def)

lemma some_check_simps [simp]:
  "sc_type some_check = NEBTYPE_SERVICECHECK_PROCESSED" "sc_object_ptr some_check = Some some_service"
  "host_ptr some_service = Some some_host" "sc_host_name some_check = Some ''web''"
  "sc_service_description some_check = Some ''disk''" "rest_size some_check = 20"
  "sc_long_output some_check = Some ''half full''" "sc_output some_check = Some ''DISK OK''"
  "sc_perf_data some_check = Some ''d=50''"
  by (simp_all add: some_check_def some_service_def NEBTYPE_SERVICECHECK_PROCESSED_def rest_size_def xstrlen_def
    UINT_MAX_def)

lemma some_key:
  "routing_key (sized_options 100000) (service_names default_options ''check'' (Some ''web'') (Some ''disk'')) =
     ''nagios.Central.check.resource.web.disk''"
  by (simp add: routing_key_def service_names_def default_options_def join_onto_def sized_options_def)

lemma some_host_check_ok:
  "entries_ok plain_format (host_entries default_options some_host_check some_host @
     option_entries default_options None (host_additionals some_host_check))"
proof -
  have es: "host_entries default_options some_host_check some_host @
      option_entries default_options None (host_additionals some_host_check) =
    option_entries default_options None (host_check_options default_options some_host_check some_host @
      host_additionals some_host_check)"
    by (simp add: host_entries_def hostgroup_entries_def variable_entries_def url_entries_def default_options_def)
      (simp add: option_entries_def)
  show ?thesis
    unfolding es using names_ok(3,4)
    by (intro plain_event)
      (auto simp: some_strings host_check_options_def host_additionals_def plain_option_def some_host_check_def
        some_host_def default_options_def)
qed

section \<open>Service checks\<close>

text \<open>
  C12: When the long fields fit in what the rest of the message leaves of \<^verbatim>\<open>max_size\<close>, the result
  of a service check is sent as one message. Its key is connector, source, \<open>check\<close>, \<open>resource\<close>,
  host and service joined by dots and cut at the maximal size; its text is the JSON of the object
  with all the fields, the groups, variables and URLs as configured, and the three long fields.
\<close>

theorem service_check_one_message:
  assumes "clock_ok env" "connector_ok g s xs" "max_size_ok g"
    and "sc_type c = NEBTYPE_SERVICECHECK_PROCESSED" "sc_object_ptr c = Some sv" "host_ptr sv = Some h"
    and "entries_ok fmt (service_full g c sv h)"
    and "names_fit (service_names g ''check'' (sc_host_name c) (sc_service_description c))"
    and "int (rest_size c) \<le> room_left fmt g c sv h"
  shows "\<exists>s' ys t. n2a_event_service_check env fmt g c s = Some (0, s') \<and> connector_ok g s' ys \<and>
    connector_run env g s [Send (routing_key g (service_names g ''check'' (sc_host_name c) (sc_service_description c))) t] s' \<and>
    text_of fmt (map_of (rev (kept (service_full g c sv h)))) t"
  using service_check_fits [OF assms] event_text_of [OF assms(7)] by blast

theorem service_check_one_message_witness:
  "\<exists>s' ys t. n2a_event_service_check up_env plain_format (sized_options 100000) some_check idle_state = Some (0, s') \<and>
     connector_ok (sized_options 100000) s' ys \<and>
     connector_run up_env (sized_options 100000) idle_state [Send ''nagios.Central.check.resource.web.disk'' t] s' \<and>
     text_of plain_format (map_of (rev (kept (service_full (sized_options 100000) some_check some_service some_host)))) t"
  using service_check_one_message [OF envs_ok(1) sized_ok(1) sized_ok(2) some_check_simps(1-3) some_full_ok, of 100000]
    some_names_fit(1) some_size
  by (simp add: some_names some_key some_room INT_MAX_def)

text \<open>
  C5: When the long fields of a service check do not fit, but the room for them is positive, and
  all three are present and ASCII, they are sent in turn, each in pieces of one byte less than
  the room, one message for each piece, in order. The message of
  a piece holds all the other fields; the messages of \<^verbatim>\<open>output\<close> also repeat the last piece of
  \<^verbatim>\<open>long_output\<close>, and those of \<^verbatim>\<open>perf_data\<close> the last pieces of both. The other fields are UTF-8, and
  the pointers to the service and its host present. (A room of 0 or less is the subject of
  \<open>service_check_no_room_left\<close>; a field that is not ASCII may be cut inside a character.)
\<close>

theorem service_check_split_messages:
  assumes "clock_ok env" "connector_ok g s xs" "max_size_ok g"
    and "sc_type c = NEBTYPE_SERVICECHECK_PROCESSED" "sc_object_ptr c = Some sv" "host_ptr sv = Some h"
    and "entries_ok fmt (service_full g c sv h)"
    and "names_fit (service_names g ''check'' (sc_host_name c) (sc_service_description c))"
    and "room_left fmt g c sv h = int left" "0 < left" "left < rest_size c"
    and "sc_long_output c = Some lo" "sc_output c = Some ot" "sc_perf_data c = Some pf"
      "ascii_text lo" "ascii_text ot" "ascii_text pf"
    and "m0 = map_of (rev (kept (service_entries g c sv h)))"
    and "m1 = after_split m0 ''long_output'' lo left"
    and "m2 = after_split m1 ''output'' ot left"
  shows "\<exists>s' ys ts1 ts2 ts3. n2a_event_service_check env fmt g c s = Some (0, s') \<and> connector_ok g s' ys \<and>
    connector_run env g s
      (map (Send (routing_key g (service_names g ''check'' (sc_host_name c) (sc_service_description c))))
        (ts1 @ ts2 @ ts3)) s' \<and>
    split_texts fmt m0 ''long_output'' lo left ts1 \<and> split_texts fmt m1 ''output'' ot left ts2 \<and>
    split_texts fmt m2 ''perf_data'' pf left ts3"
  by (rule service_check_split [OF assms])

theorem service_check_split_messages_witness:
  "\<exists>s' ys t1 t2 t3 t4 t5. n2a_event_service_check up_env plain_format (sized_options (some_size + 6)) some_check idle_state = Some (0, s') \<and>
    connector_ok (sized_options (some_size + 6)) s' ys \<and>
    connector_run up_env (sized_options (some_size + 6)) idle_state
      (map (Send (routing_key (sized_options (some_size + 6)) (service_names default_options ''check'' (Some ''web'') (Some ''disk''))))
        [t1, t2, t3, t4, t5]) s'"
proof -
  let ?g = "sized_options (some_size + 6)"
  have mx: "0 \<le> some_size + 6" "some_size + 6 \<le> INT_MAX" using some_size by (simp_all add: INT_MAX_def)
  have f: "names_fit (service_names ?g ''check'' (sc_host_name some_check) (sc_service_description some_check))"
    using some_names_fit(1) by (simp add: some_names)
  have r: "room_left plain_format ?g some_check some_service some_host = int 6" "(6 :: nat) < rest_size some_check"
    by (simp_all add: some_room)
  have a: "ascii_text ''half full''" "ascii_text ''DISK OK''" "ascii_text ''d=50''"
    using some_strings by (simp_all add: ascii_text_def name_ok_def)
  have l: "split_texts fmt m k ''half full'' 6 ts \<Longrightarrow> \<exists>t u. ts = [t, u]"
    "split_texts fmt m k ''DISK OK'' 6 ts \<Longrightarrow> \<exists>t u. ts = [t, u]"
    "split_texts fmt m k ''d=50'' 6 ts \<Longrightarrow> \<exists>t. ts = [t]" for fmt m k ts
    by (auto simp: split_texts_def list_all2_Cons1)
  define m0 where "m0 = map_of (rev (kept (service_entries ?g some_check some_service some_host)))"
  define m1 where "m1 = after_split m0 ''long_output'' ''half full'' 6"
  define m2 where "m2 = after_split m1 ''output'' ''DISK OK'' 6"
  have "(0 :: nat) < 6" by simp
  from service_check_split_messages [OF envs_ok(1) sized_ok(1) sized_ok(2) [OF mx] some_check_simps(1-3)
    some_full_ok f r(1) this r(2) some_check_simps(7-9) a m0_def m1_def m2_def]
  obtain s' ys ts1 ts2 ts3 where
    e: "n2a_event_service_check up_env plain_format ?g some_check idle_state = Some (0, s')" "connector_ok ?g s' ys"
    "connector_run up_env ?g idle_state (map (Send (routing_key ?g (service_names default_options ''check''
         (Some ''web'') (Some ''disk'')))) (ts1 @ ts2 @ ts3)) s'"
    and t: "split_texts plain_format m0 ''long_output'' ''half full'' 6 ts1"
      "split_texts plain_format m1 ''output'' ''DISK OK'' 6 ts2" "split_texts plain_format m2 ''perf_data'' ''d=50'' 6 ts3"
    unfolding some_names some_check_simps by (elim exE conjE)
  moreover obtain t1 t2 t3 t4 t5 where "ts1 = [t1, t2]" "ts2 = [t3, t4]" "ts3 = [t5]"
    using l(1) [OF t(1)] l(2) [OF t(2)] l(3) [OF t(3)] by (elim exE)
  ultimately show ?thesis using e by (intro exI conjI) (assumption, assumption, simp)
qed

text \<open>
  C20: The loop over one long field ends after \<open>length div left + 1\<close> messages, whatever the network
  answers, and leaves the object with the last piece in the field.
\<close>

theorem split_message_ends:
  assumes "clock_ok env" "name_ok field" "ascii_text body" "int (length body) \<le> INT_MAX - 1"
    and "0 < left" "int left \<le> INT_MAX"
    and "int (map_weight flds + entry_weight field (JString body)) + 3 \<le> INT_MAX" "finite (dom flds)"
    and "connector_ok g s xs" "event_obj fmt j" "obj_map j = flds" "card (dom flds) < 1610612740"
    and "n = length body div left + 1"
  shows "\<exists>j' s' ys texts. split_message env fmt g (Some key) (Some body) field (int left) (j, s) = Some (j', s') \<and>
      connector_ok g s' ys \<and> connector_run env g s (map (Send key) texts) s' \<and> length texts = n \<and>
      obj_map j' = flds(field \<mapsto> JString (chunk left body (n - 1)))"
proof -
  from split_message_ok [OF assms, of key] obtain j' s' ys texts where
    "split_message env fmt g (Some key) (Some body) field (int left) (j, s) = Some (j', s')"
    "connector_ok g s' ys" "connector_run env g s (map (Send key) texts) s'"
    "obj_map j' = flds(field \<mapsto> JString (chunk left body (n - 1)))"
    "list_all2 (\<lambda>i t. text_of fmt (flds(field \<mapsto> JString (chunk left body i))) t) [0..<n] texts"
    by (elim exE conjE)
  then show ?thesis using list_all2_lengthD by (intro exI conjI) (assumption | fastforce)+
qed

theorem split_message_ends_witness:
  "\<exists>j' s' ys texts. split_message down_env plain_format default_options (Some ''k'') (Some ''DISK OK'') ''output'' 6
       (json_object, idle_state) = Some (j', s') \<and>
     connector_ok default_options s' ys \<and>
     connector_run down_env default_options idle_state (map (Send ''k'') texts) s' \<and> length texts = 2 \<and>
     obj_map j' = [''output'' \<mapsto> JString ''OK'']"
proof -
  have k: "name_ok ''output''" by code_simp
  have a: "ascii_text ''DISK OK''" using some_strings(5) by (simp add: ascii_text_def name_ok_def)
  have w: "int (map_weight Map.empty + entry_weight ''output'' (JString ''DISK OK'')) + 3 \<le> INT_MAX"
    by (simp add: map_weight_def entry_weight_def string_weight_def INT_MAX_def)
  from split_message_ends [OF envs_ok(2) k a _ _ _ w _ idle_ok [OF default_cache_size] empty_event empty_object(3)
      _ refl, where left = 6 and key = "''k''" and fmt = plain_format]
  show ?thesis by (simp add: INT_MAX_def chunk_def numeral_2_eq_2)
qed

text \<open>
  C19: The pieces that the loop writes into a field, put together, are the beginning of the text;
  they are the whole text exactly when \<open>length div left < left - length mod left\<close>. Otherwise its last
  bytes are in no message: the number of pieces is computed for pieces of \<open>left\<close> bytes, but each
  holds one byte less.
\<close>

theorem split_pieces_complete:
  assumes "event_obj fmt j" "json_object_size j < 1610612741" "name_ok field" "ascii_text m"
    and "int (length m) \<le> INT_MAX - 1" "0 < left" "int left \<le> INT_MAX" and "n = length m div left + 1"
  shows "split_count (Some m) (int left) = Some (int n) \<and>
    (\<forall>i < n. \<exists>j'. n2a_nebstruct_service_check_data_update_json j (Some m) field (int left) (int i) = Some j' \<and>
       json_object_get j' field = Some (Some (JString (chunk left m i)))) \<and>
    concat (map (chunk left m) [0..<n]) = take (n * (left - 1)) m \<and>
    (concat (map (chunk left m) [0..<n]) = m \<longleftrightarrow> length m div left < left - length m mod left)"
proof (intro conjI allI impI)
  fix i assume "i < n"
  then have "i \<le> length m div left" by (simp add: assms(8))
  then have "i * left \<le> length m" using assms(6) by (simp add: less_eq_div_iff_mult_less_eq)
  moreover have "i * (left - 1) \<le> i * left" by simp
  ultimately have "i * (left - 1) \<le> length m" by (rule order_trans [rotated])
  from update_json_ok [OF assms(1-4) _ assms(6,7) this] assms(5) obtain j' where
    j': "n2a_nebstruct_service_check_data_update_json j (Some m) field (int left) (int i) = Some j'"
      "event_obj fmt j'" "obj_map j' = (obj_map j)(field \<mapsto> JString (chunk left m i))" by auto
  have "obj_ok j'" using j'(2) by (auto simp: obj_ok_def elim: event_objE)
  with j'(1,3) show "\<exists>j'. n2a_nebstruct_service_check_data_update_json j (Some m) field (int left) (int i) = Some j' \<and>
      json_object_get j' field = Some (Some (JString (chunk left m i)))"
    by (simp add: obj.get_law)
next
  show "split_count (Some m) (int left) = Some (int n)" unfolding assms(8) by (rule split_count_nat [OF assms(5-7)])
  show "concat (map (chunk left m) [0..<n]) = take (n * (left - 1)) m" by (rule concat_chunks)
  show "concat (map (chunk left m) [0..<n]) = m \<longleftrightarrow> length m div left < left - length m mod left"
    unfolding assms(8) by (rule split_complete [OF assms(6)])
qed

theorem split_pieces_complete_witness:
  "split_count (Some ''half full'') 3 = Some 4 \<and>
   concat (map (chunk 3 ''half full'') [0..<4]) = ''half ful''"
proof -
  have k: "name_ok ''output''" by code_simp
  have a: "ascii_text ''half full''" using some_strings(6) by (simp add: ascii_text_def name_ok_def)
  have "json_object_size json_object < 1610612741" by (simp add: empty_object(2))
  from split_pieces_complete [OF empty_event [of plain_format] this k a, of 3 4]
  show ?thesis by (simp add: INT_MAX_def)
qed



section \<open>Host checks, acknowledgements and downtimes\<close>

text \<open>
  C17: The result of a host check is sent as one message with the key of its host. When the text
  without the long fields is longer than \<^verbatim>\<open>max_size\<close>, only those long fields are added that are
  at least as long as what it exceeds the maximum by; otherwise all three are.
\<close>

theorem host_check_one_message:
  assumes "clock_ok env" "connector_ok g s xs" "max_size_ok g"
    and "hc_type c = NEBTYPE_HOSTCHECK_PROCESSED" "hc_object_ptr c = Some h"
    and "entries_ok fmt (host_entries g c h @ option_entries g None (host_additionals c))"
    and "names_fit (host_names g ''check'' (hc_host_name c))"
    and "over = int (length (event_text fmt (host_entries g c h))) - max_size g"
    and "added = (if over > 0 then Some (n2a_str_maxsize (word_of_int over)) else None)"
  shows "\<exists>s' ys t. n2a_event_host_check env fmt g c s = Some (0, s') \<and> connector_ok g s' ys \<and>
    connector_run env g s [Send (routing_key g (host_names g ''check'' (hc_host_name c))) t] s' \<and>
    text_of fmt (map_of (rev (kept (host_entries g c h @ option_entries g added (host_additionals c))))) t"
proof -
  have e: "host_event fmt g c h = host_entries g c h @ option_entries g added (host_additionals c)"
    unfolding host_event_def host_filter_def Let_def assms(8,9) by simp
  show ?thesis
    using host_check_sends [OF assms(1-7)] event_text_of [OF entries_ok_cmp [OF assms(6)], of added] unfolding e by blast
qed

theorem host_check_one_message_witness:
  "\<exists>s' ys t added. n2a_event_host_check up_env plain_format default_options some_host_check idle_state = Some (0, s') \<and>
     connector_ok default_options s' ys \<and>
     connector_run up_env default_options idle_state [Send ''nagios.Central.check.component.web'' t] s' \<and>
     text_of plain_format (map_of (rev (kept (host_entries default_options some_host_check some_host @
       option_entries default_options added (host_additionals some_host_check))))) t"
proof -
  have h: "hc_type some_host_check = NEBTYPE_HOSTCHECK_PROCESSED" "hc_object_ptr some_host_check = Some some_host"
    "hc_host_name some_host_check = Some ''web''"
    by (simp_all add: some_host_check_def NEBTYPE_HOSTCHECK_PROCESSED_def)
  have f: "names_fit (host_names default_options ''check'' (hc_host_name some_host_check))"
    using some_names_fit(3) by (simp add: h)
  have k: "routing_key default_options (host_names default_options ''check'' (Some ''web'')) =
      ''nagios.Central.check.component.web''"
    by (simp add: routing_key_def host_names_def default_options_def join_onto_def)
  from host_check_one_message [OF envs_ok(1) idle_ok [OF default_cache_size] default_max_size h(1,2) some_host_check_ok f refl refl]
  show ?thesis unfolding h(3) k by blast
qed

text \<open>
  C18: Setting an acknowledgement of a host or a service sends one message, whose key names the
  object and whose fields \<^verbatim>\<open>referer\<close> and \<^verbatim>\<open>ref_rk\<close> are the key that a check of it is sent with,
  before it is cut.
\<close>

theorem acknowledgement_one_message:
  assumes "clock_ok env" "connector_ok g s xs" "max_size_ok g"
    and "ack_type c = NEBTYPE_ACKNOWLEDGEMENT_ADD"
    and "is_host = (acknowledgement_type c = HOST_ACKNOWLEDGEMENT)"
    and "is_host \<or> acknowledgement_type c = SERVICE_ACKNOWLEDGEMENT"
    and "names = (\<lambda>event_type. if is_host then host_names g event_type (ack_host_name c)
        else service_names g event_type (ack_host_name c) (ack_service_description c))"
    and "referer = foldl (join_onto ''.'') [] (args_before_null (names ''check''))"
    and "es = ack_event g c (Some (if is_host then ''component'' else ''resource'')) (Some referer)"
    and "entries_ok fmt es" and "names_fit (names ''ack'')" "names_fit (names ''check'')"
  shows "\<exists>s' ys t. n2a_event_acknowledgement env fmt g c s = Some (0, s') \<and> connector_ok g s' ys \<and>
    connector_run env g s [Send (routing_key g (names ''ack'')) t] s' \<and> text_of fmt (map_of (rev (kept es))) t"
  using acknowledgement_sends [OF assms] event_text_of [OF assms(10)] by blast

theorem acknowledgement_one_message_witness:
  "\<exists>s' ys t. n2a_event_acknowledgement up_env plain_format default_options some_ack idle_state = Some (0, s') \<and>
     connector_ok default_options s' ys \<and>
     connector_run up_env default_options idle_state [Send ''nagios.Central.ack.resource.web.disk'' t] s' \<and>
     text_of plain_format (map_of (rev (kept (ack_event default_options some_ack (Some ''resource'')
       (Some ''nagios.Central.check.resource.web.disk''))))) t"
proof -
  let ?names = "\<lambda>event_type. if False then host_names default_options event_type (ack_host_name some_ack)
        else service_names default_options event_type (ack_host_name some_ack) (ack_service_description some_ack)"
  let ?es = "ack_event default_options some_ack (Some ''resource'') (Some ''nagios.Central.check.resource.web.disk'')"
  have h: "ack_type some_ack = NEBTYPE_ACKNOWLEDGEMENT_ADD" "False = (acknowledgement_type some_ack = HOST_ACKNOWLEDGEMENT)"
    "False \<or> acknowledgement_type some_ack = SERVICE_ACKNOWLEDGEMENT"
    by (simp_all add: some_ack_def NEBTYPE_ACKNOWLEDGEMENT_ADD_def HOST_ACKNOWLEDGEMENT_def SERVICE_ACKNOWLEDGEMENT_def)
  have ok: "entries_ok plain_format ?es"
    unfolding ack_event_def using names_ok(5)
    by (intro plain_event)
      (auto simp: some_strings acknowledgement_options_def plain_option_def some_ack_def default_options_def)
  have r: "''nagios.Central.check.resource.web.disk'' = foldl (join_onto ''.'') [] (args_before_null (?names ''check''))"
    by (simp add: service_names_def default_options_def join_onto_def some_ack_def)
  have e: "?es = ack_event default_options some_ack (Some (if False then ''component'' else ''resource''))
      (Some ''nagios.Central.check.resource.web.disk'')" by simp
  have f: "names_fit (?names ''ack'')" "names_fit (?names ''check'')"
    using some_names_fit(1,2) by (simp_all add: some_ack_def)
  have k: "routing_key default_options (?names ''ack'') = ''nagios.Central.ack.resource.web.disk''"
    by (simp add: routing_key_def service_names_def default_options_def join_onto_def some_ack_def)
  from acknowledgement_one_message [OF envs_ok(1) idle_ok [OF default_cache_size] default_max_size h refl r e ok f]
  show ?thesis unfolding k .
qed

lemma some_downtime_ok:
  "dt_type some_downtime = NEBTYPE_DOWNTIME_ADD"
  "downtime_type some_downtime = HOST_DOWNTIME \<or> downtime_type some_downtime = SERVICE_DOWNTIME"
  "host_names default_options ''downtime'' (Some ''web'') = (if downtime_type some_downtime = HOST_DOWNTIME
     then host_names default_options ''downtime'' (dt_host_name some_downtime)
     else service_names default_options ''downtime'' (dt_host_name some_downtime) (dt_service_description some_downtime))"
  "entries_ok plain_format (downtime_event default_options some_downtime)"
  "routing_key default_options (host_names default_options ''downtime'' (Some ''web'')) = ''nagios.Central.downtime.component.web''"
proof -
  show "entries_ok plain_format (downtime_event default_options some_downtime)"
    unfolding downtime_event_def using names_ok(6)
    by (intro plain_event)
      (auto simp: some_strings downtime_options_def plain_option_def some_downtime_def default_options_def
        HOST_DOWNTIME_def)
  show "routing_key default_options (host_names default_options ''downtime'' (Some ''web'')) = ''nagios.Central.downtime.component.web''"
    by (simp add: routing_key_def host_names_def default_options_def join_onto_def)
qed (simp_all add: some_downtime_def NEBTYPE_DOWNTIME_ADD_def HOST_DOWNTIME_def)

text \<open>Adding a downtime of a host or a service sends one message with its key and its fields.\<close>

theorem downtime_one_message:
  assumes "clock_ok env" "connector_ok g s xs" "max_size_ok g"
    and "dt_type c = NEBTYPE_DOWNTIME_ADD"
    and "names = (if downtime_type c = HOST_DOWNTIME then host_names g ''downtime'' (dt_host_name c)
        else service_names g ''downtime'' (dt_host_name c) (dt_service_description c))"
    and "downtime_type c = HOST_DOWNTIME \<or> downtime_type c = SERVICE_DOWNTIME"
    and "entries_ok fmt (downtime_event g c)" and "names_fit names"
  shows "\<exists>s' ys t. n2a_event_downtime env fmt g c s = Some (0, s') \<and> connector_ok g s' ys \<and>
    connector_run env g s [Send (routing_key g names) t] s' \<and>
    text_of fmt (map_of (rev (kept (downtime_event g c)))) t"
  using downtime_sends [OF assms] event_text_of [OF assms(7)] by blast

theorem downtime_one_message_witness:
  "\<exists>s' ys t. n2a_event_downtime up_env plain_format default_options some_downtime idle_state = Some (0, s') \<and>
     connector_ok default_options s' ys \<and>
     connector_run up_env default_options idle_state [Send ''nagios.Central.downtime.component.web'' t] s' \<and>
     text_of plain_format (map_of (rev (kept (downtime_event default_options some_downtime)))) t"
  using downtime_one_message [OF envs_ok(1) idle_ok [OF default_cache_size] default_max_size some_downtime_ok(1,3,2,4)
    some_names_fit(4)]
  unfolding some_downtime_ok(5) .

end
