(* ===== verification/Module_Run_Properties.thy ===== *)
theory Module_Run_Properties
  imports Module_Run Module_Properties Events_Properties
begin

text \<open>
  The whole module, from the events of Nagios to the broker and the cache file.
\<close>



end
