(* ===== verification/Jansson_Load.thy ===== *)
theory Jansson_Load
  imports Jansson_Value Xutils
begin

text \<open>
  Reading a value from text: \<^verbatim>\<open>load.c\<close> and \<^verbatim>\<open>jsonp_strtod\<close> of \<^verbatim>\<open>strconv.c\<close> in
  \<^verbatim>\<open>src/lib/jansson-2.3.1/src\<close>. The lexer reads bytes through a callback over a state of its
  own. A character is an \<open>int\<close> as in C: a \<^verbatim>\<open>char\<close> is signed, and -1 and -2 stand for the end
  of the input and for an error. The line, column and position of the stream are left out:
  they only go into the error record, which is left out too. The saved text is the string of
  its bytes (what \<^verbatim>\<open>strbuffer.c\<close> promises), and a failed assertion is \<open>None\<close>.
\<close>

section \<open>The stream of bytes\<close>

type_synonym 'd get_func = "'d \<Rightarrow> (int \<times> 'd) option"

definition EOF :: int where "EOF = -1"
definition STREAM_STATE_OK :: int where "STREAM_STATE_OK = 0"
definition STREAM_STATE_EOF :: int where "STREAM_STATE_EOF = -1"
definition STREAM_STATE_ERROR :: int where "STREAM_STATE_ERROR = -2"

lemmas stream_states = EOF_def STREAM_STATE_OK_def STREAM_STATE_EOF_def STREAM_STATE_ERROR_def

text \<open>The value of a \<^verbatim>\<open>char\<close>.\<close>

definition schar :: "char \<Rightarrow> int" where
  "schar c = (if uchar c < 0x80 then uchar c else uchar c - 256)"

record 'd stream =
  stream_data :: 'd
  stream_buffer :: string
  buffer_pos :: nat
  stream_state :: int

definition stream_init :: "'d \<Rightarrow> 'd stream" where
  "stream_init d = \<lparr>stream_data = d, stream_buffer = [NUL], buffer_pos = 0, stream_state = STREAM_STATE_OK\<rparr>"

fun get_bytes :: "'d get_func \<Rightarrow> nat \<Rightarrow> 'd \<Rightarrow> (string \<times> 'd) option" where
  "get_bytes get 0 d = Some ([], d)"
| "get_bytes get (Suc n) d = do {
     (c, d) \<leftarrow> get d;
     (bs, d) \<leftarrow> get_bytes get n d;
     Some (byte c # bs, d)
   }"

text \<open>Reading the next character of the input, which may be several bytes, into the buffer.\<close>

definition stream_fill :: "'d get_func \<Rightarrow> 'd stream \<Rightarrow> 'd stream option" where
  "stream_fill get s = do {
     (c, d) \<leftarrow> get (stream_data s);
     if c = EOF then Some (s\<lparr>stream_data := d, stream_state := STREAM_STATE_EOF\<rparr>)
     else if 0x80 \<le> c \<and> c \<le> 0xFF then do {
       let count = utf8_check_first (byte c);
       if count = 0
       then Some (s\<lparr>stream_data := d, stream_buffer := (stream_buffer s)[0 := byte c], buffer_pos := 0,
                    stream_state := STREAM_STATE_ERROR\<rparr>)
       else do {
         defined (count \<ge> 2);
         (bs, d) \<leftarrow> get_bytes get (nat (count - 1)) d;
         if utf8_check_full (byte c # bs) count = None
         then Some (s\<lparr>stream_data := d, stream_buffer := byte c # bs @ drop (nat count) (stream_buffer s),
                      buffer_pos := 0, stream_state := STREAM_STATE_ERROR\<rparr>)
         else Some (s\<lparr>stream_data := d, stream_buffer := byte c # bs @ [NUL], buffer_pos := 0\<rparr>)
       }
     }
     else Some (s\<lparr>stream_data := d, stream_buffer := [byte c, NUL], buffer_pos := 0\<rparr>)
   }"

definition stream_get :: "'d get_func \<Rightarrow> 'd stream \<Rightarrow> (int \<times> 'd stream) option" where
  "stream_get get s =
    (if stream_state s \<noteq> STREAM_STATE_OK then Some (stream_state s, s)
     else do {
       defined (buffer_pos s < length (stream_buffer s));
       s \<leftarrow> (if stream_buffer s ! buffer_pos s = NUL then stream_fill get s else Some s);
       if stream_state s \<noteq> STREAM_STATE_OK then Some (stream_state s, s)
       else do {
         defined (buffer_pos s < length (stream_buffer s));
         Some (schar (stream_buffer s ! buffer_pos s), s\<lparr>buffer_pos := buffer_pos s + 1\<rparr>)
       }
     })"

definition stream_unget :: "'d stream \<Rightarrow> int \<Rightarrow> 'd stream option" where
  "stream_unget s c =
    (if c = STREAM_STATE_EOF \<or> c = STREAM_STATE_ERROR then Some s
     else do {
       defined (buffer_pos s > 0);
       let pos = buffer_pos s - 1;
       defined (pos < length (stream_buffer s) \<and> schar (stream_buffer s ! pos) = c);
       Some (s\<lparr>buffer_pos := pos\<rparr>)
     })"

section \<open>The lexer\<close>

text \<open>A token with the value of the union that belongs to it; a stolen string is \<open>None\<close>.\<close>

datatype token =
    TOKEN_INVALID
  | TOKEN_EOF
  | TOKEN_CHAR char
  | TOKEN_STRING "string option"
  | TOKEN_INTEGER int
  | TOKEN_REAL double
  | TOKEN_TRUE
  | TOKEN_FALSE
  | TOKEN_NULL

record 'd lex =
  lex_stream :: "'d stream"
  saved_text :: string
  lex_token :: token

definition lex_init :: "'d \<Rightarrow> 'd lex" where
  "lex_init d = \<lparr>lex_stream = stream_init d, saved_text = [], lex_token = TOKEN_INVALID\<rparr>"

definition lex_get :: "'d get_func \<Rightarrow> 'd lex \<Rightarrow> (int \<times> 'd lex) option" where
  "lex_get get l = do { (c, s) \<leftarrow> stream_get get (lex_stream l); Some (c, l\<lparr>lex_stream := s\<rparr>) }"

definition lex_save :: "'d lex \<Rightarrow> int \<Rightarrow> 'd lex" where
  "lex_save l c = l\<lparr>saved_text := saved_text l @ [byte c]\<rparr>"

definition lex_get_save :: "'d get_func \<Rightarrow> 'd lex \<Rightarrow> (int \<times> 'd lex) option" where
  "lex_get_save get l = do {
     (c, l) \<leftarrow> lex_get get l;
     Some (c, if c \<noteq> STREAM_STATE_EOF \<and> c \<noteq> STREAM_STATE_ERROR then lex_save l c else l)
   }"

definition lex_unget :: "'d lex \<Rightarrow> int \<Rightarrow> 'd lex option" where
  "lex_unget l c = do { s \<leftarrow> stream_unget (lex_stream l) c; Some (l\<lparr>lex_stream := s\<rparr>) }"

definition lex_unget_unsave :: "'d lex \<Rightarrow> int \<Rightarrow> 'd lex option" where
  "lex_unget_unsave l c =
    (if c \<noteq> STREAM_STATE_EOF \<and> c \<noteq> STREAM_STATE_ERROR then do {
       l \<leftarrow> lex_unget l c;
       let d = (if saved_text l = [] then NUL else last (saved_text l));
       defined (c = schar d);
       Some (l\<lparr>saved_text := butlast (saved_text l)\<rparr>)
     }
     else Some l)"

definition lex_save_cached :: "'d lex \<Rightarrow> 'd lex option" where
  "lex_save_cached l = do {
     let s = lex_stream l;
     let rest = drop (buffer_pos s) (stream_buffer s);
     defined (NUL \<in> set rest);
     let cached = takeWhile (\<lambda>c. c \<noteq> NUL) rest;
     Some (l\<lparr>lex_stream := s\<lparr>buffer_pos := buffer_pos s + length cached\<rparr>, saved_text := saved_text l @ cached\<rparr>)
   }"

definition l_isupper :: "int \<Rightarrow> bool" where "l_isupper c \<longleftrightarrow> schar (CHR ''A'') \<le> c \<and> c \<le> schar (CHR ''Z'')"
definition l_islower :: "int \<Rightarrow> bool" where "l_islower c \<longleftrightarrow> schar (CHR ''a'') \<le> c \<and> c \<le> schar (CHR ''z'')"
definition l_isalpha :: "int \<Rightarrow> bool" where "l_isalpha c \<longleftrightarrow> l_isupper c \<or> l_islower c"
definition l_isdigit :: "int \<Rightarrow> bool" where "l_isdigit c \<longleftrightarrow> schar (CHR ''0'') \<le> c \<and> c \<le> schar (CHR ''9'')"

text \<open>The macro as it stands, with \<open>\<or>\<close> between the bounds of the letters: it is always true.\<close>

definition l_isxdigit :: "int \<Rightarrow> bool" where
  "l_isxdigit c \<longleftrightarrow> l_isdigit c \<or> schar (CHR ''A'') \<le> c \<or> c \<le> schar (CHR ''F'') \<or>
     schar (CHR ''a'') \<le> c \<or> c \<le> schar (CHR ''f'')"

section \<open>Strings\<close>

text \<open>The digits after \<^verbatim>\<open>u\<close>; the terminating NUL is none.\<close>

definition escape_digit :: "char \<Rightarrow> int option" where
  "escape_digit d =
    (let c = schar d in
     if l_isdigit c then Some (c - schar (CHR ''0''))
     else if l_islower c then Some (c - schar (CHR ''a'') + 10)
     else if l_isupper c then Some (c - schar (CHR ''A'') + 10)
     else None)"

fun escape_digits :: "nat \<Rightarrow> string \<Rightarrow> int \<Rightarrow> int option" where
  "escape_digits 0 cs value = Some value"
| "escape_digits (Suc n) [] value = None"
| "escape_digits (Suc n) (c # cs) value = do {
     d \<leftarrow> escape_digit c;
     escape_digits n cs (push_bit 4 value + d)
   }"

definition decode_unicode_escape :: "string \<Rightarrow> int option" where
  "decode_unicode_escape str = do {
     defined (str \<noteq> [] \<and> hd str = CHR ''u'');
     escape_digits 4 (tl str) 0
   }"

text \<open>The scan for the closing quote: whether it was found.\<close>

fun four_digits :: "'d get_func \<Rightarrow> nat \<Rightarrow> int \<Rightarrow> 'd lex \<Rightarrow> (bool \<times> int \<times> 'd lex) option" where
  "four_digits get 0 c l = Some (True, c, l)"
| "four_digits get (Suc i) c l =
    (if \<not> l_isxdigit c then Some (False, c, l)
     else do { (c, l) \<leftarrow> lex_get_save get l; four_digits get i c l })"

partial_function (option) string_loop :: "'d get_func \<Rightarrow> int \<Rightarrow> 'd lex \<Rightarrow> (bool \<times> 'd lex) option" where
  "string_loop get c l =
    (if c = schar (CHR 0x22) then Some (True, l)
     else if c = STREAM_STATE_ERROR \<or> c = STREAM_STATE_EOF then Some (False, l)
     else if 0 \<le> c \<and> c \<le> 0x1F then do { l \<leftarrow> lex_unget_unsave l c; Some (False, l) }
     else if c = schar (CHR 0x5C) then do {
       (c, l) \<leftarrow> lex_get_save get l;
       if c = schar (CHR ''u'') then do {
         (c, l) \<leftarrow> lex_get_save get l;
         (ok, c, l) \<leftarrow> four_digits get 4 c l;
         if ok then string_loop get c l else Some (False, l)
       }
       else if c \<in> schar ` set [CHR 0x22, CHR 0x5C, CHR ''/'', CHR ''b'', CHR ''f'', CHR ''n'', CHR ''r'', CHR ''t'']
       then do { (c, l) \<leftarrow> lex_get_save get l; string_loop get c l }
       else Some (False, l)
     }
     else do { (c, l) \<leftarrow> lex_get_save get l; string_loop get c l })"

declare string_loop.simps [code]

definition simple_escape :: "char \<Rightarrow> char option" where
  "simple_escape c =
    (if c \<in> set [CHR 0x22, CHR 0x5C, CHR ''/''] then Some c
     else if c = CHR ''b'' then Some (CHR 0x08)
     else if c = CHR ''f'' then Some (CHR 0x0C)
     else if c = CHR ''n'' then Some (CHR 0x0A)
     else if c = CHR ''r'' then Some (CHR 0x0D)
     else if c = CHR ''t'' then Some (CHR 0x09)
     else None)"

text \<open>
  Copying the text to the value, up to the closing quote. \<open>Some None\<close>: an invalid escape.
  The text is followed by a NUL: reading on from its end is undefined.
\<close>

function unescape :: "string \<Rightarrow> string \<Rightarrow> string option option" where
  "unescape t p =
    (case p of
       [] \<Rightarrow> None
     | c # cs \<Rightarrow>
         (if c = CHR 0x22 then Some (Some t)
          else if c = CHR 0x5C then
            (case cs of
               [] \<Rightarrow> None
             | d # ds \<Rightarrow>
                 (if d = CHR ''u'' then do {
                    value \<leftarrow> decode_unicode_escape cs;
                    let p1 = drop 5 cs;
                    if 0xD800 \<le> value \<and> value \<le> 0xDBFF then
                      (if take 2 p1 = [CHR 0x5C, CHR ''u''] then do {
                         value2 \<leftarrow> decode_unicode_escape (drop 1 p1);
                         if 0xDC00 \<le> value2 \<and> value2 \<le> 0xDFFF then do {
                           let (r, buffer) = utf8_encode (push_bit 10 (value - 0xD800) + (value2 - 0xDC00) + 0x10000);
                           defined (r = 0);
                           unescape (t @ buffer) (drop 6 p1)
                         }
                         else Some None
                       }
                       else Some None)
                    else if 0xDC00 \<le> value \<and> value \<le> 0xDFFF then Some None
                    else if value = 0 then Some None
                    else do {
                      let (r, buffer) = utf8_encode value;
                      defined (r = 0);
                      unescape (t @ buffer) p1
                    }
                  }
                  else do { e \<leftarrow> simple_escape d; unescape (t @ [e]) ds }))
          else unescape (t @ [c]) cs))"
  by pat_completeness auto
termination
  by (relation "measure (\<lambda>(t, p). length p)") auto

declare unescape.simps [simp del]

text \<open>The value has room for as many bytes as the saved text, and a NUL.\<close>

definition lex_scan_string :: "'d get_func \<Rightarrow> 'd lex \<Rightarrow> 'd lex option" where
  "lex_scan_string get l = do {
     (c, l) \<leftarrow> lex_get_save get (l\<lparr>lex_token := TOKEN_INVALID\<rparr>);
     (found, l) \<leftarrow> string_loop get c l;
     if \<not> found then Some l
     else do {
       t \<leftarrow> unescape [] (drop 1 (saved_text l));
       case t of
         None \<Rightarrow> Some l
       | Some string \<Rightarrow> do {
           defined (length string \<le> length (saved_text l));
           Some (l\<lparr>lex_token := TOKEN_STRING (Some (c_string string))\<rparr>)
         }
     }
   }"

section \<open>Numbers\<close>

text \<open>
  \<^verbatim>\<open>strtoll\<close> in base 10: the value, clamped to \<^verbatim>\<open>long long\<close>; whether it was out of range;
  and how many bytes were read. The C library's \<^verbatim>\<open>strtod\<close> and the decimal point of the
  locale are a parameter, with the same results.
\<close>

definition strtoll :: "string \<Rightarrow> int \<times> bool \<times> nat" where
  "strtoll s =
     (let t = n2a_lstrip s;
          neg = (t \<noteq> [] \<and> hd t = CHR ''-'');
          u = (if t \<noteq> [] \<and> (hd t = CHR ''-'' \<or> hd t = CHR ''+'') then tl t else t);
          ds = takeWhile (is_digit 10) u;
          v = (if neg then - digits_value 10 ds else digits_value 10 ds)
      in (max LONG_MIN (min LONG_MAX v), v < LONG_MIN \<or> LONG_MAX < v,
          if ds = [] then 0 else length s - length (dropWhile (is_digit 10) u)))"

record number_reader =
  strtod :: "string \<Rightarrow> double \<times> bool \<times> nat"
  reader_point :: char

definition to_locale :: "char \<Rightarrow> string \<Rightarrow> string" where
  "to_locale point buffer =
    (if point = CHR ''.'' then buffer
     else (case dropWhile (\<lambda>c. c \<noteq> CHR ''.'') buffer of
             [] \<Rightarrow> buffer
           | c # cs \<Rightarrow> takeWhile (\<lambda>c. c \<noteq> CHR ''.'') buffer @ point # cs))"

text \<open>The number, or \<open>None\<close> on overflow.\<close>

definition jsonp_strtod :: "number_reader \<Rightarrow> string \<Rightarrow> double option option" where
  "jsonp_strtod rd saved =
    (let (value, erange, n) = strtod rd (to_locale (reader_point rd) (c_string saved)) in do {
       defined (n = length saved);
       Some (if erange \<and> push_bit 1 value \<noteq> 0 then None else Some value)
     })"

partial_function (option) digits_loop :: "'d get_func \<Rightarrow> int \<Rightarrow> 'd lex \<Rightarrow> (int \<times> 'd lex) option" where
  "digits_loop get c l =
    (if l_isdigit c then do { (c, l) \<leftarrow> lex_get_save get l; digits_loop get c l } else Some (c, l))"

declare digits_loop.simps [code]

text \<open>The sign and the integer part, the fraction and the exponent: whether they are well-formed.\<close>

definition scan_integer_part :: "'d get_func \<Rightarrow> int \<Rightarrow> 'd lex \<Rightarrow> (bool \<times> int \<times> 'd lex) option" where
  "scan_integer_part get c l = do {
     (c, l) \<leftarrow> (if c = schar (CHR ''-'') then lex_get_save get l else Some (c, l));
     if c = schar (CHR ''0'') then do {
       (c, l) \<leftarrow> lex_get_save get l;
       if l_isdigit c then do { l \<leftarrow> lex_unget_unsave l c; Some (False, c, l) } else Some (True, c, l)
     }
     else if l_isdigit c then do {
       (c, l) \<leftarrow> lex_get_save get l;
       (c, l) \<leftarrow> digits_loop get c l;
       Some (True, c, l)
     }
     else do { l \<leftarrow> lex_unget_unsave l c; Some (False, c, l) }
   }"

definition scan_fraction :: "'d get_func \<Rightarrow> int \<Rightarrow> 'd lex \<Rightarrow> (bool \<times> int \<times> 'd lex) option" where
  "scan_fraction get c l =
    (if c = schar (CHR ''.'') then do {
       (c, l) \<leftarrow> lex_get get l;
       if \<not> l_isdigit c then do { l \<leftarrow> lex_unget l c; Some (False, c, l) }
       else do {
         (c, l) \<leftarrow> lex_get_save get (lex_save l c);
         (c, l) \<leftarrow> digits_loop get c l;
         Some (True, c, l)
       }
     }
     else Some (True, c, l))"

definition scan_exponent :: "'d get_func \<Rightarrow> int \<Rightarrow> 'd lex \<Rightarrow> (bool \<times> int \<times> 'd lex) option" where
  "scan_exponent get c l =
    (if c = schar (CHR ''E'') \<or> c = schar (CHR ''e'') then do {
       (c, l) \<leftarrow> lex_get_save get l;
       (c, l) \<leftarrow> (if c = schar (CHR ''+'') \<or> c = schar (CHR ''-'') then lex_get_save get l else Some (c, l));
       if \<not> l_isdigit c then do { l \<leftarrow> lex_unget_unsave l c; Some (False, c, l) }
       else do {
         (c, l) \<leftarrow> lex_get_save get l;
         (c, l) \<leftarrow> digits_loop get c l;
         Some (True, c, l)
       }
     }
     else Some (True, c, l))"

definition lex_scan_number :: "number_reader \<Rightarrow> 'd get_func \<Rightarrow> int \<Rightarrow> 'd lex \<Rightarrow> (int \<times> 'd lex) option" where
  "lex_scan_number rd get c l = do {
     (ok, c, l) \<leftarrow> scan_integer_part get c (l\<lparr>lex_token := TOKEN_INVALID\<rparr>);
     if \<not> ok then Some (-1, l)
     else if c \<notin> schar ` set [CHR ''.'', CHR ''E'', CHR ''e''] then do {
       l \<leftarrow> lex_unget_unsave l c;
       let (value, erange, n) = strtoll (c_string (saved_text l));
       if erange then Some (-1, l)
       else do {
         defined (n = length (saved_text l));
         Some (0, l\<lparr>lex_token := TOKEN_INTEGER value\<rparr>)
       }
     }
     else do {
       (ok, c, l) \<leftarrow> scan_fraction get c l;
       if \<not> ok then Some (-1, l)
       else do {
         (ok, c, l) \<leftarrow> scan_exponent get c l;
         if \<not> ok then Some (-1, l)
         else do {
           l \<leftarrow> lex_unget_unsave l c;
           value \<leftarrow> jsonp_strtod rd (saved_text l);
           Some (case value of None \<Rightarrow> (-1, l) | Some d \<Rightarrow> (0, l\<lparr>lex_token := TOKEN_REAL d\<rparr>))
         }
       }
     }
   }"

section \<open>Tokens\<close>

partial_function (option) skip_space :: "'d get_func \<Rightarrow> int \<Rightarrow> 'd lex \<Rightarrow> (int \<times> 'd lex) option" where
  "skip_space get c l =
    (if c \<in> schar ` set [CHR '' '', CHR 0x09, CHR 0x0A, CHR 0x0D]
     then do { (c, l) \<leftarrow> lex_get get l; skip_space get c l } else Some (c, l))"

declare skip_space.simps [code]

partial_function (option) alpha_loop :: "'d get_func \<Rightarrow> int \<Rightarrow> 'd lex \<Rightarrow> (int \<times> 'd lex) option" where
  "alpha_loop get c l =
    (if l_isalpha c then do { (c, l) \<leftarrow> lex_get_save get l; alpha_loop get c l } else Some (c, l))"

declare alpha_loop.simps [code]

definition identifier_token :: "string \<Rightarrow> token" where
  "identifier_token saved =
    (if saved = ''true'' then TOKEN_TRUE else if saved = ''false'' then TOKEN_FALSE
     else if saved = ''null'' then TOKEN_NULL else TOKEN_INVALID)"

definition lex_scan :: "number_reader \<Rightarrow> 'd get_func \<Rightarrow> 'd lex \<Rightarrow> 'd lex option" where
  "lex_scan rd get l = do {
     (c, l) \<leftarrow> lex_get get (l\<lparr>saved_text := []\<rparr>);
     (c, l) \<leftarrow> skip_space get c l;
     if c = STREAM_STATE_EOF then Some (l\<lparr>lex_token := TOKEN_EOF\<rparr>)
     else if c = STREAM_STATE_ERROR then Some (l\<lparr>lex_token := TOKEN_INVALID\<rparr>)
     else do {
       let l = lex_save l c;
       if c \<in> schar ` set [CHR ''{'', CHR ''}'', CHR ''['', CHR '']'', CHR '':'', CHR '','']
       then Some (l\<lparr>lex_token := TOKEN_CHAR (byte c)\<rparr>)
       else if c = schar (CHR 0x22) then lex_scan_string get l
       else if l_isdigit c \<or> c = schar (CHR ''-'') then do { (r, l) \<leftarrow> lex_scan_number rd get c l; Some l }
       else if l_isalpha c then do {
         (c, l) \<leftarrow> lex_get_save get l;
         (c, l) \<leftarrow> alpha_loop get c l;
         l \<leftarrow> lex_unget_unsave l c;
         Some (l\<lparr>lex_token := identifier_token (c_string (saved_text l))\<rparr>)
       }
       else do { l \<leftarrow> lex_save_cached l; Some (l\<lparr>lex_token := TOKEN_INVALID\<rparr>) }
     }
   }"

definition lex_steal_string :: "'d lex \<Rightarrow> string option \<times> 'd lex" where
  "lex_steal_string l =
    (case lex_token l of TOKEN_STRING s \<Rightarrow> (s, l\<lparr>lex_token := TOKEN_STRING None\<rparr>) | _ \<Rightarrow> (None, l))"

section \<open>The parser\<close>

definition JSON_REJECT_DUPLICATES :: "64 word" where "JSON_REJECT_DUPLICATES = 0x1"
definition JSON_DISABLE_EOF_CHECK :: "64 word" where "JSON_DISABLE_EOF_CHECK = 0x2"
definition JSON_DECODE_ANY :: "64 word" where "JSON_DECODE_ANY = 0x4"

text \<open>
  A result of \<open>None\<close> inside the pair is NULL. The first argument bounds the calls and loop
  iterations that are under way at the same time.
\<close>

fun parse_value :: "nat \<Rightarrow> number_reader \<Rightarrow> 'd get_func \<Rightarrow> 64 word \<Rightarrow> 'd lex \<Rightarrow> (json option \<times> 'd lex) option"
  and object_loop :: "nat \<Rightarrow> number_reader \<Rightarrow> 'd get_func \<Rightarrow> 64 word \<Rightarrow> json \<Rightarrow> 'd lex \<Rightarrow> (json option \<times> 'd lex) option"
  and array_loop :: "nat \<Rightarrow> number_reader \<Rightarrow> 'd get_func \<Rightarrow> 64 word \<Rightarrow> json \<Rightarrow> 'd lex \<Rightarrow> (json option \<times> 'd lex) option"
  where
  "parse_value 0 rd get flags l = None"
| "parse_value (Suc n) rd get flags l =
    (case lex_token l of
       TOKEN_STRING s \<Rightarrow> Some (json_string_nocheck s, l)
     | TOKEN_INTEGER i \<Rightarrow> Some (Some (json_integer i), l)
     | TOKEN_REAL d \<Rightarrow> Some (Some (json_real d), l)
     | TOKEN_TRUE \<Rightarrow> Some (Some JTrue, l)
     | TOKEN_FALSE \<Rightarrow> Some (Some JFalse, l)
     | TOKEN_NULL \<Rightarrow> Some (Some JNull, l)
     | TOKEN_CHAR c \<Rightarrow>
         (if c = CHR ''{'' then do {
            l \<leftarrow> lex_scan rd get l;
            if lex_token l = TOKEN_CHAR (CHR ''}'') then Some (Some json_object, l)
            else object_loop n rd get flags json_object l
          }
          else if c = CHR ''['' then do {
            l \<leftarrow> lex_scan rd get l;
            if lex_token l = TOKEN_CHAR (CHR '']'') then Some (Some json_array, l)
            else array_loop n rd get flags json_array l
          }
          else Some (None, l))
     | _ \<Rightarrow> Some (None, l))"
| "object_loop 0 rd get flags json l = None"
| "object_loop (Suc n) rd get flags json l =
    (case lex_steal_string l of
       (None, l) \<Rightarrow> Some (None, l)
     | (Some key, l) \<Rightarrow> do {
         old \<leftarrow> (if flags AND JSON_REJECT_DUPLICATES \<noteq> 0 then json_object_get json key else Some None);
         if old \<noteq> None then Some (None, l)
         else do {
           l \<leftarrow> lex_scan rd get l;
           if lex_token l \<noteq> TOKEN_CHAR (CHR '':'') then Some (None, l)
           else do {
             l \<leftarrow> lex_scan rd get l;
             (value, l) \<leftarrow> parse_value n rd get flags l;
             if value = None then Some (None, l)
             else do {
               (r, json) \<leftarrow> json_object_set_nocheck json (Some key) value;
               if r \<noteq> 0 then Some (None, l)
               else do {
                 l \<leftarrow> lex_scan rd get l;
                 if lex_token l = TOKEN_CHAR (CHR '','') then do {
                   l \<leftarrow> lex_scan rd get l;
                   object_loop n rd get flags json l
                 }
                 else Some (if lex_token l = TOKEN_CHAR (CHR ''}'') then Some json else None, l)
               }
             }
           }
         }
       })"
| "array_loop 0 rd get flags json l = None"
| "array_loop (Suc n) rd get flags json l =
    (if lex_token l = TOKEN_EOF then Some (None, l)
     else do {
       (elem, l) \<leftarrow> parse_value n rd get flags l;
       if elem = None then Some (None, l)
       else do {
         (r, json) \<leftarrow> json_array_append_new json elem;
         if r \<noteq> 0 then Some (None, l)
         else do {
           l \<leftarrow> lex_scan rd get l;
           if lex_token l = TOKEN_CHAR (CHR '','') then do {
             l \<leftarrow> lex_scan rd get l;
             array_loop n rd get flags json l
           }
           else Some (if lex_token l = TOKEN_CHAR (CHR '']'') then Some json else None, l)
         }
       }
     })"

definition parse_json :: "nat \<Rightarrow> number_reader \<Rightarrow> 'd get_func \<Rightarrow> 64 word \<Rightarrow> 'd lex \<Rightarrow> (json option \<times> 'd lex) option" where
  "parse_json n rd get flags l = do {
     l \<leftarrow> lex_scan rd get l;
     if flags AND JSON_DECODE_ANY = 0 \<and> lex_token l \<notin> TOKEN_CHAR ` set [CHR ''['', CHR ''{'']
     then Some (None, l)
     else do {
       (result, l) \<leftarrow> parse_value n rd get flags l;
       if result = None then Some (None, l)
       else if flags AND JSON_DISABLE_EOF_CHECK = 0 then do {
         l \<leftarrow> lex_scan rd get l;
         Some (if lex_token l \<noteq> TOKEN_EOF then None else result, l)
       }
       else Some (result, l)
     }
   }"

section \<open>The sources\<close>

text \<open>
  A C string with an \<open>int\<close> position, a buffer with its size, and a file by the bytes that
  \<^verbatim>\<open>fgetc\<close> has still to return.
\<close>

record string_data =
  string_text :: string
  string_pos :: int

definition string_get :: "string_data get_func" where
  "string_get st =
    (let c = (if nat (string_pos st) < length (string_text st) then string_text st ! nat (string_pos st) else NUL) in
     if c = NUL then Some (EOF, st)
     else do { pos \<leftarrow> int_add (string_pos st) 1; Some (uchar c, st\<lparr>string_pos := pos\<rparr>) })"

record buffer_data =
  buffer_text :: string
  buffer_len :: nat
  buffer_at :: nat

definition buffer_get :: "buffer_data get_func" where
  "buffer_get st =
    (if buffer_at st \<ge> buffer_len st then Some (EOF, st)
     else do {
       defined (buffer_at st < length (buffer_text st));
       Some (uchar (buffer_text st ! buffer_at st), st\<lparr>buffer_at := buffer_at st + 1\<rparr>)
     })"

definition file_get :: "string get_func" where
  "file_get st = Some (case st of [] \<Rightarrow> (EOF, []) | b # bs \<Rightarrow> (uchar b, bs))"

text \<open>
  Between two calls or iterations that are under way a byte is read, so twice the number of
  bytes bounds them.
\<close>

definition parse_fuel :: "nat \<Rightarrow> nat" where
  "parse_fuel bytes = 2 * bytes + 2"

definition json_loads :: "number_reader \<Rightarrow> string option \<Rightarrow> 64 word \<Rightarrow> json option option" where
  "json_loads rd str flags =
    (case str of
       None \<Rightarrow> Some None
     | Some s \<Rightarrow>
         map_option fst (parse_json (parse_fuel (length s)) rd string_get flags
           (lex_init \<lparr>string_text = s, string_pos = 0\<rparr>)))"

definition json_loadb :: "number_reader \<Rightarrow> string option \<Rightarrow> nat \<Rightarrow> 64 word \<Rightarrow> json option option" where
  "json_loadb rd buffer buflen flags =
    (case buffer of
       None \<Rightarrow> Some None
     | Some b \<Rightarrow>
         map_option fst (parse_json (parse_fuel buflen) rd buffer_get flags
           (lex_init \<lparr>buffer_text = b, buffer_len = buflen, buffer_at = 0\<rparr>)))"

definition json_loadf :: "number_reader \<Rightarrow> string option \<Rightarrow> 64 word \<Rightarrow> json option option" where
  "json_loadf rd input flags =
    (case input of
       None \<Rightarrow> Some None
     | Some b \<Rightarrow> map_option fst (parse_json (parse_fuel (length b)) rd file_get flags (lex_init b)))"

text \<open>\<open>fs\<close> gives the content of the files that can be opened.\<close>

definition json_load_file :: "number_reader \<Rightarrow> (string \<rightharpoonup> string) \<Rightarrow> string option \<Rightarrow> 64 word \<Rightarrow> json option option" where
  "json_load_file rd fs path flags =
    (case path of
       None \<Rightarrow> Some None
     | Some p \<Rightarrow> (case fs p of None \<Rightarrow> Some None | Some b \<Rightarrow> json_loadf rd (Some b) flags))"

end
