(* ===== verification/Jansson_Load_Stream.thy ===== *)
theory Jansson_Load_Stream
  imports Jansson_Load
begin

text \<open>
  The stream of the decoder as a list of bytes. A source hands out its bytes one after the
  other (the interface \<open>byte_source\<close>); the stream over it hands out those that come before
  the first byte that is not UTF-8, and then the end or the error for ever. A byte that was
  just read can be put back.
\<close>

section \<open>Characters\<close>

lemma schar_inj [simp]: "schar a = schar b \<longleftrightarrow> a = b"
proof -
  have "schar a = schar b \<longleftrightarrow> uchar a = uchar b"
    using uchar_range [of a] uchar_range [of b] by (auto simp: schar_def)
  then show ?thesis by simp
qed

lemma schar_image [simp]: "schar a \<in> schar ` A \<longleftrightarrow> a \<in> A"
  by (auto simp: image_iff)

lemma byte_schar [simp]: "byte (schar c) = c"
proof -
  have "(uchar c - 256) mod 256 = uchar c" using uchar_range [of c] by simp
  then have "byte (uchar c - 256) = byte (uchar c)" using char_of_mod_256 [of "uchar c - 256"] by simp
  then show ?thesis unfolding schar_def by (simp only: char_of_char split: if_split) simp
qed

text \<open>The bytes of UTF-8 are not taken for the end or an error.\<close>

definition text_byte :: "char \<Rightarrow> bool" where
  "text_byte c \<longleftrightarrow> uchar c \<le> 0xF4"

lemma text_byte_state: "text_byte c \<Longrightarrow> schar c \<noteq> STREAM_STATE_EOF \<and> schar c \<noteq> STREAM_STATE_ERROR"
  using uchar_range [of c] by (simp add: text_byte_def schar_def stream_states)

lemma state_schar: "text_byte c \<Longrightarrow> e \<in> {STREAM_STATE_EOF, STREAM_STATE_ERROR} \<Longrightarrow> schar c \<noteq> e \<and> e \<noteq> schar c"
  using text_byte_state [of c] by auto

section \<open>The readable bytes\<close>

function readable :: "string \<Rightarrow> string \<times> int" where
  "readable [] = ([], STREAM_STATE_EOF)"
| "readable (b # bs) =
    (let n = utf8_check_first b in
     if n = 0 \<or> n > 1 \<and> utf8_check_full (b # bs) n = None then ([], STREAM_STATE_ERROR)
     else (let (xs, e) = readable (drop (nat n) (b # bs)) in (take (nat n) (b # bs) @ xs, e)))"
  by pat_completeness auto
termination
proof (relation "measure length")
  fix b bs n
  assume n: "n = utf8_check_first b" "\<not> (n = 0 \<or> n > 1 \<and> utf8_check_full (b # bs) n = None)"
  then have "0 < n" using check_first_range(5) [of b] by auto
  then show "(drop (nat n) (b # bs), b # bs) \<in> measure length" by simp
qed simp

declare readable.simps(2) [simp del]

lemma readable_end: "snd (readable p) \<in> {STREAM_STATE_EOF, STREAM_STATE_ERROR}"
  by (induction p rule: readable.induct) (simp_all add: readable.simps(2) Let_def case_prod_unfold)

lemma check_cont_pad: "k \<le> m \<Longrightarrow> check_cont (take k (bs @ replicate m (byte EOF))) k v = check_cont bs k v"
proof (induction k arbitrary: bs v)
  case (Suc k)
  have e: "uchar (byte EOF) = 255" by (simp add: EOF_def)
  show ?case
  proof (cases bs)
    case Nil
    with Suc.prems e show ?thesis by (cases m) simp_all
  next
    case (Cons a list)
    with Suc.IH [of list] Suc.prems show ?thesis by (simp del: take_append)
  qed
qed simp

lemma check_full_pad:
  assumes "n = utf8_check_first b" "n > 1"
  shows "utf8_check_full (b # take (nat (n - 1)) (bs @ replicate (nat (n - 1)) (byte EOF))) n = utf8_check_full (b # bs) n"
proof -
  have "n = 2 \<or> n = 3 \<or> n = 4" using assms check_first_range(5) [of b] by auto
  moreover have "nat (2 - 1) = 1" "nat (3 - 1) = 2" "nat (4 - 1) = 3" by simp_all
  ultimately show ?thesis by (elim disjE) (simp_all only: utf8_check_full.simps check_cont_pad order_refl, simp_all)
qed

lemma check_full_bytes:
  assumes "n = utf8_check_first b" "n > 1" "utf8_check_full (b # bs) n = Some v"
  shows "nat (n - 1) \<le> length bs" "\<forall>c \<in> set (take (nat n) (b # bs)). text_byte c"
proof -
  from check_full_enc [OF assms(1) [symmetric] assms(2,3)] have e: "scalar v" "0x80 \<le> v"
    "b # bs = enc v @ drop (nat n) (b # bs)" by simp_all
  from e(1) show "nat (n - 1) \<le> length bs"
  proof (cases rule: enc_cases)
    case (2 m)
    then have "utf8_check_first b = m" using e(3) by (cases "enc v") auto
    with 2 e(3) assms(1) have "length (enc v) = nat n" by simp
    moreover have "length (enc v) \<le> length (b # bs)" by (subst e(3)) simp
    ultimately show ?thesis using assms(2) by simp
  qed (use e in simp)
  then have t: "take (nat n) (b # bs) = enc v" 
    using e(3) assms(2) by (metis append_eq_conv_conj append_take_drop_id append_same_eq)
  have lead: "uchar b \<le> 0xF4" using assms(1,2) check_first_range [of b] by auto
  have "\<forall>c \<in> set (tl (enc v)). uchar c \<le> 0xBF"
  proof -
    have c: "uchar (byte (0x80 + w mod 64)) \<le> 0xBF" for w :: int
      using pos_mod_sign [of 64 w] pos_mod_bound [of 64 w] by simp
    consider "v < 0x800" | "0x800 \<le> v" "v < 0x10000" | "0x10000 \<le> v" by linarith
    then show ?thesis using e(1,2) c by cases (simp_all add: enc_2 enc_3 enc_4 scalar_def)
  qed
  then show "\<forall>c \<in> set (take (nat n) (b # bs)). text_byte c"
    using lead assms(2) t by (cases "enc v"; cases "nat n") (auto simp: text_byte_def)
qed

lemma readable_bytes: "\<forall>c \<in> set (fst (readable p)). text_byte c"
proof (induction p rule: readable.induct)
  case (2 b bs)
  let ?n = "utf8_check_first b"
  show ?case
  proof (cases "?n = 0 \<or> ?n > 1 \<and> utf8_check_full (b # bs) ?n = None")
    case False
    have "\<forall>c \<in> set (take (nat ?n) (b # bs)). text_byte c"
    proof (cases "?n > 1")
      case True
      with False obtain v where "utf8_check_full (b # bs) ?n = Some v" by auto
      from check_full_bytes(2) [OF refl True this] show ?thesis .
    next
      case n: False
      then have one: "?n = 1" using False check_first_range(5) [of b] by auto
      then have "take (nat ?n) (b # bs) = [b]" by simp
      with one show ?thesis by (simp add: check_first_range text_byte_def)
    qed
    with 2 [OF refl False] False show ?thesis by (auto simp: readable.simps(2) Let_def case_prod_unfold)
  qed (simp add: readable.simps(2) Let_def)
qed simp

lemma readable_length: "length (fst (readable p)) \<le> length p"
proof (induction p rule: readable.induct)
  case (2 b bs)
  let ?n = "utf8_check_first b"
  show ?case
  proof (cases "?n = 0 \<or> ?n > 1 \<and> utf8_check_full (b # bs) ?n = None")
    case False
    with 2 [OF refl False] show ?thesis by (simp add: readable.simps(2) Let_def case_prod_unfold)
  qed (simp add: readable.simps(2) Let_def)
qed simp

lemma readable_prefix: "\<exists>ys. p = fst (readable p) @ ys"
proof (induction p rule: readable.induct)
  case (2 b bs)
  let ?n = "utf8_check_first b"
  show ?case
  proof (cases "?n = 0 \<or> ?n > 1 \<and> utf8_check_full (b # bs) ?n = None")
    case False
    from 2 [OF refl False] obtain ys where ys: "drop (nat ?n) (b # bs) = fst (readable (drop (nat ?n) (b # bs))) @ ys" by blast
    have "b # bs = take (nat ?n) (b # bs) @ drop (nat ?n) (b # bs)" by simp
    also have "\<dots> = fst (readable (b # bs)) @ ys"
      using False by (subst ys) (simp add: readable.simps(2) Let_def case_prod_unfold)
    finally show ?thesis by blast
  qed (simp add: readable.simps(2) Let_def)
qed simp

lemma readable_subset: "c \<in> set (fst (readable p)) \<Longrightarrow> c \<in> set p"
proof -
  assume c: "c \<in> set (fst (readable p))"
  from readable_prefix [of p] obtain ys where "p = fst (readable p) @ ys" by blast
  then have "set p = set (fst (readable p)) \<union> set ys" by (metis set_append)
  with c show ?thesis by blast
qed

text \<open>UTF-8 is readable as a whole.\<close>

lemma readable_utf8: "utf8_check_bytes p \<Longrightarrow> readable p = (p, STREAM_STATE_EOF)"
proof (induction p rule: readable.induct)
  case (2 b bs)
  let ?n = "utf8_check_first b"
  from 2(2) have ok: "\<not> (?n = 0 \<or> ?n > 1 \<and> utf8_check_full (b # bs) ?n = None)" by (auto simp: Let_def split: if_splits)
  moreover from 2(2) have "utf8_check_bytes (drop (nat ?n) (b # bs))"
    using check_first_range(5) [of b] by (auto simp: Let_def split: if_splits)
  ultimately show ?case using 2(1) [OF refl ok] by (simp add: readable.simps(2) Let_def del: drop_Cons' take_Cons')
qed simp

section \<open>The interface of a source\<close>

locale byte_source =
  fixes get :: "'d get_func" and source_ok :: "'d \<Rightarrow> bool" and pending :: "'d \<Rightarrow> string"
  assumes get_end: "source_ok d \<Longrightarrow> pending d = [] \<Longrightarrow>
      \<exists>d'. get d = Some (EOF, d') \<and> source_ok d' \<and> pending d' = []"
    and get_next: "source_ok d \<Longrightarrow> pending d = b # bs \<Longrightarrow>
      \<exists>d'. get d = Some (uchar b, d') \<and> source_ok d' \<and> pending d' = bs"
    and no_nul: "source_ok d \<Longrightarrow> NUL \<notin> set (pending d)"
begin

lemma get_bytes_ok:
  assumes "source_ok d"
  shows "\<exists>d'. get_bytes get n d = Some (take n (pending d @ replicate n (byte EOF)), d') \<and> source_ok d' \<and>
    pending d' = drop n (pending d)"
  using assms
proof (induction n arbitrary: d)
  case (Suc n)
  show ?case
  proof (cases "pending d")
    case Nil
    from get_end [OF Suc.prems Nil] obtain d1 where d1: "get d = Some (EOF, d1)" "source_ok d1" "pending d1 = []" by blast
    from Suc.IH [OF d1(2)] d1 Nil show ?thesis by auto
  next
    case (Cons b bs)
    from get_next [OF Suc.prems Cons] obtain d1 where d1: "get d = Some (uchar b, d1)" "source_ok d1" "pending d1 = bs" by blast
    have "take n (bs @ replicate (Suc n) (byte EOF)) = take n (bs @ replicate n (byte EOF))"
      by (simp add: min_def Suc_diff_le del: replicate_Suc)
    with Suc.IH [OF d1(2)] d1 Cons show ?thesis by (auto simp del: take_append replicate_Suc)
  qed
qed simp

text \<open>The bytes that the stream has still to return, and how it ends.\<close>

definition sees :: "'d stream \<Rightarrow> string \<Rightarrow> int \<Rightarrow> bool" where
  "sees s xs e \<longleftrightarrow> source_ok (stream_data s) \<and> e \<in> {STREAM_STATE_EOF, STREAM_STATE_ERROR} \<and>
     (stream_state s = STREAM_STATE_OK \<and>
        (\<exists>ys. drop (buffer_pos s) (stream_buffer s) = ys @ [NUL] \<and> NUL \<notin> set ys \<and> (\<forall>c \<in> set ys. text_byte c) \<and>
              xs = ys @ fst (readable (pending (stream_data s))) \<and> e = snd (readable (pending (stream_data s)))) \<or>
      stream_state s = e \<and> xs = [])"

definition can_unget :: "'d stream \<Rightarrow> char \<Rightarrow> bool" where
  "can_unget s x \<longleftrightarrow> stream_state s = STREAM_STATE_OK \<and> 0 < buffer_pos s \<and> buffer_pos s \<le> length (stream_buffer s) \<and>
     stream_buffer s ! (buffer_pos s - 1) = x \<and> x \<noteq> NUL \<and> text_byte x"

lemma sees_end: "sees s xs e \<Longrightarrow> e = STREAM_STATE_EOF \<or> e = STREAM_STATE_ERROR"
  by (auto simp: sees_def)

lemma sees_bytes: "sees s xs e \<Longrightarrow> x \<in> set xs \<Longrightarrow> text_byte x \<and> x \<noteq> NUL"
  using readable_bytes no_nul [of "stream_data s"] by (auto simp: sees_def dest: readable_subset)

lemma stream_init_sees:
  "source_ok d \<Longrightarrow> sees (stream_init d) (fst (readable (pending d))) (snd (readable (pending d)))"
  using readable_end by (auto simp: sees_def stream_init_def)

lemma stream_fill_ok:
  assumes "source_ok (stream_data s)" "stream_state s = STREAM_STATE_OK"
  defines "r \<equiv> readable (pending (stream_data s))"
  shows "\<exists>s'. stream_fill get s = Some s' \<and> source_ok (stream_data s') \<and>
    (fst r = [] \<and> stream_state s' = snd r \<or>
     stream_state s' = STREAM_STATE_OK \<and> buffer_pos s' = 0 \<and>
       (\<exists>y ys. stream_buffer s' = y # ys @ [NUL] \<and> fst r = y # ys @ fst (readable (pending (stream_data s'))) \<and>
               snd r = snd (readable (pending (stream_data s')))))"
proof (cases "pending (stream_data s)")
  case Nil
  from get_end [OF assms(1) Nil] Nil show ?thesis
    by (auto simp: stream_fill_def r_def)
next
  case (Cons b bs)
  from get_next [OF assms(1) Cons] obtain d where d: "get (stream_data s) = Some (uchar b, d)" "source_ok d"
    "pending d = bs" by blast
  have b: "uchar b \<noteq> EOF" "uchar b \<le> 255" using uchar_range [of b] by (simp_all add: EOF_def)
  let ?n = "utf8_check_first b"
  consider (bad) "?n = 0" | (one) "?n = 1" | (more) "?n > 1" using check_first_range(5) [of b] by auto
  then show ?thesis
  proof cases
    case bad
    then have "0x80 \<le> uchar b" by (auto simp: utf8_check_first_def Let_def split: if_splits)
    with bad d b show ?thesis by (simp add: stream_fill_def r_def Cons readable.simps(2))
  next
    case one
    then have "uchar b < 0x80" by (simp add: check_first_range)
    with one d b show ?thesis by (auto simp: stream_fill_def r_def Cons readable.simps(2) Let_def case_prod_unfold assms(2))
  next
    case more
    then have r: "0x80 \<le> uchar b" "2 \<le> ?n" by (auto simp: utf8_check_first_def Let_def split: if_splits)
    from get_bytes_ok [OF d(2), of "nat (?n - 1)"] obtain d' where
      d': "get_bytes get (nat (?n - 1)) d = Some (take (nat (?n - 1)) (bs @ replicate (nat (?n - 1)) (byte EOF)), d')"
        "source_ok d'" "pending d' = drop (nat (?n - 1)) bs" unfolding d(3) by blast
    define cs where "cs = take (nat (?n - 1)) (bs @ replicate (nat (?n - 1)) (byte EOF))"
    note d' = d' [folded cs_def]
    have full: "utf8_check_full (b # cs) ?n = utf8_check_full (b # bs) ?n"
      unfolding cs_def by (rule check_full_pad) (use more in simp_all)
    show ?thesis
    proof (cases "utf8_check_full (b # bs) ?n")
      case None
      with full more r d d' b show ?thesis
        by (simp add: stream_fill_def r_def Cons readable.simps(2) Let_def del: utf8_check_full.simps)
    next
      case (Some v)
      have n: "nat ?n = Suc (nat (?n - 1))" using more by simp
      from check_full_bytes(1) [OF refl more Some] have cs: "cs = take (nat (?n - 1)) bs" by (simp add: cs_def)
      have "readable (b # bs) = (b # cs @ fst (readable (pending d')), snd (readable (pending d')))"
        using Some more unfolding readable.simps(2) Let_def n d'(3) cs
        by (simp add: case_prod_unfold del: utf8_check_full.simps)
      with Some full more r d d' b show ?thesis
        by (auto simp: stream_fill_def r_def Cons Let_def assms(2) simp del: utf8_check_full.simps)
    qed
  qed
qed

lemma stream_get_end:
  assumes "sees s [] e"
  shows "\<exists>s'. stream_get get s = Some (e, s') \<and> sees s' [] e"
proof (cases "stream_state s = STREAM_STATE_OK")
  case False
  with assms show ?thesis by (auto simp: stream_get_def sees_def)
next
  case True
  from assms have e: "e \<noteq> STREAM_STATE_OK" by (auto simp: sees_def stream_states)
  with True assms have s: "source_ok (stream_data s)" "drop (buffer_pos s) (stream_buffer s) = [NUL]"
    "fst (readable (pending (stream_data s))) = []" "snd (readable (pending (stream_data s))) = e"
    by (auto simp: sees_def)
  from s(2) have pos: "buffer_pos s < length (stream_buffer s)" "stream_buffer s ! buffer_pos s = NUL"
    by (metis drop_all linorder_not_le list.distinct(1), metis nth_via_drop)
  from stream_fill_ok [OF s(1) True] s(3,4) obtain s' where
    "stream_fill get s = Some s'" "source_ok (stream_data s')" "stream_state s' = e" by auto
  with True e pos assms show ?thesis by (auto simp: stream_get_def sees_def)
qed

lemma stream_get_next:
  assumes "sees s (x # xs) e"
  shows "\<exists>s'. stream_get get s = Some (schar x, s') \<and> sees s' xs e \<and> can_unget s' x"
proof -
  let ?r = "readable (pending (stream_data s))"
  from assms obtain ys where s: "source_ok (stream_data s)" "stream_state s = STREAM_STATE_OK"
    "drop (buffer_pos s) (stream_buffer s) = ys @ [NUL]" "NUL \<notin> set ys" "\<forall>c \<in> set ys. text_byte c"
    "x # xs = ys @ fst ?r" "e = snd ?r" "e \<in> {STREAM_STATE_EOF, STREAM_STATE_ERROR}" by (auto simp: sees_def)
  have x: "text_byte x" "x \<noteq> NUL" using sees_bytes [OF assms, of x] by simp_all
  have pos: "buffer_pos s < length (stream_buffer s)" using s(3) by (metis append_is_Nil_conv drop_all linorder_not_le list.distinct(1))
  show ?thesis
  proof (cases ys)
    case Nil
    with s(3) have nul: "stream_buffer s ! buffer_pos s = NUL" by (simp add: nth_via_drop)
    from stream_fill_ok [OF s(1,2)] s(6) Nil obtain s' y zs where f: "stream_fill get s = Some s'"
      "source_ok (stream_data s')" "stream_state s' = STREAM_STATE_OK" "buffer_pos s' = 0" "stream_buffer s' = y # zs @ [NUL]"
      "fst ?r = y # zs @ fst (readable (pending (stream_data s')))" "snd ?r = snd (readable (pending (stream_data s')))" by auto
    have b: "text_byte c \<and> c \<noteq> NUL" if "c \<in> set zs" for c
      using sees_bytes [OF assms, of c] that s(6) Nil f(6) by auto
    from s(6) Nil f(6) have "y = x" "xs = zs @ fst (readable (pending (stream_data s')))" by auto
    then show ?thesis
      using s f b x pos nul by (auto simp: stream_get_def sees_def can_unget_def)
  next
    case (Cons y zs)
    with s(3) have nth: "stream_buffer s ! buffer_pos s = y" by (simp add: nth_via_drop)
    have "drop (buffer_pos s + 1) (stream_buffer s) = zs @ [NUL]"
      using s(3) Cons by (metis add.commute append_Cons drop_drop drop_Suc_Cons drop0 One_nat_def)
    with s pos nth Cons x show ?thesis by (auto simp: stream_get_def sees_def can_unget_def)
  qed
qed

lemma stream_unget_ok:
  assumes "sees s xs e" "can_unget s x"
  shows "\<exists>s'. stream_unget s (schar x) = Some s' \<and> sees s' (x # xs) e"
proof -
  from assms have x: "text_byte x" "x \<noteq> NUL" "0 < buffer_pos s" "buffer_pos s - 1 < length (stream_buffer s)"
    "stream_buffer s ! (buffer_pos s - 1) = x" "stream_state s = STREAM_STATE_OK" by (auto simp: can_unget_def)
  moreover have "e \<noteq> STREAM_STATE_OK" using sees_end [OF assms(1)] by (auto simp: stream_states)
  ultimately obtain ys where ys: "drop (buffer_pos s) (stream_buffer s) = ys @ [NUL]" "NUL \<notin> set ys" "\<forall>c \<in> set ys. text_byte c"
    "xs = ys @ fst (readable (pending (stream_data s)))" "e = snd (readable (pending (stream_data s)))"
    using assms(1) by (auto simp: sees_def)
  have "drop (buffer_pos s - 1) (stream_buffer s) = x # drop (buffer_pos s) (stream_buffer s)"
    using x by (metis Cons_nth_drop_Suc Suc_diff_1)
  with x ys assms(1) text_byte_state [OF x(1)] show ?thesis
    by (auto simp: stream_unget_def sees_def)
qed

end

text \<open>The sources of the library are such sources.\<close>

interpretation string_src: byte_source string_get
  "\<lambda>st. is_cstr (string_text st) \<and> 0 \<le> string_pos st \<and> int (length (string_text st)) \<le> INT_MAX"
  "\<lambda>st. drop (nat (string_pos st)) (string_text st)"
proof
  fix st :: string_data and b bs
  assume ok: "is_cstr (string_text st) \<and> 0 \<le> string_pos st \<and> int (length (string_text st)) \<le> INT_MAX"
  let ?p = "drop (nat (string_pos st)) (string_text st)"
  from ok show "NUL \<notin> set ?p" using set_drop_subset [of "nat (string_pos st)" "string_text st"] by (auto simp: is_cstr_def)
  show "\<exists>st'. string_get st = Some (EOF, st') \<and> (is_cstr (string_text st') \<and> 0 \<le> string_pos st' \<and>
      int (length (string_text st')) \<le> INT_MAX) \<and> drop (nat (string_pos st')) (string_text st') = []" if "?p = []"
    using ok that by (auto simp: string_get_def)
  show "\<exists>st'. string_get st = Some (uchar b, st') \<and> (is_cstr (string_text st') \<and> 0 \<le> string_pos st' \<and>
      int (length (string_text st')) \<le> INT_MAX) \<and> drop (nat (string_pos st')) (string_text st') = bs" if p: "?p = b # bs"
  proof -
    from p have n: "nat (string_pos st) < length (string_text st)" by (metis drop_all linorder_not_le list.distinct(1))
    moreover from p have "string_text st ! nat (string_pos st) = b" by (rule nth_via_drop)
    moreover from this n ok have "b \<noteq> NUL" by (auto simp: is_cstr_def dest: nth_mem)
    moreover have "drop (Suc (nat (string_pos st))) (string_text st) = bs"
      using p by (metis drop_Suc tl_drop list.sel(3))
    moreover have "nat (string_pos st + 1) = Suc (nat (string_pos st))" using ok by linarith
    moreover have "int_add (string_pos st) 1 = Some (string_pos st + 1)"
      using n ok by (simp add: int_add_def int_result_def is_int_def INT_MIN_def) linarith
    ultimately show ?thesis using ok by (simp add: string_get_def)
  qed
qed

interpretation buffer_src: byte_source buffer_get
  "\<lambda>st. NUL \<notin> set (take (buffer_len st) (buffer_text st)) \<and> buffer_len st \<le> length (buffer_text st)"
  "\<lambda>st. drop (buffer_at st) (take (buffer_len st) (buffer_text st))"
proof
  fix st :: buffer_data and b bs
  assume ok: "NUL \<notin> set (take (buffer_len st) (buffer_text st)) \<and> buffer_len st \<le> length (buffer_text st)"
  let ?t = "take (buffer_len st) (buffer_text st)"
  let ?p = "drop (buffer_at st) ?t"
  from ok show "NUL \<notin> set ?p" using set_drop_subset [of "buffer_at st" ?t] by auto
  show "\<exists>st'. buffer_get st = Some (EOF, st') \<and> (NUL \<notin> set (take (buffer_len st') (buffer_text st')) \<and>
      buffer_len st' \<le> length (buffer_text st')) \<and> drop (buffer_at st') (take (buffer_len st') (buffer_text st')) = []"
    if "?p = []" using ok that by (auto simp: buffer_get_def)
  show "\<exists>st'. buffer_get st = Some (uchar b, st') \<and> (NUL \<notin> set (take (buffer_len st') (buffer_text st')) \<and>
      buffer_len st' \<le> length (buffer_text st')) \<and> drop (buffer_at st') (take (buffer_len st') (buffer_text st')) = bs"
    if p: "?p = b # bs"
  proof -
    from p have n: "buffer_at st < length ?t" by (metis drop_all linorder_not_le list.distinct(1))
    moreover from p have "?t ! buffer_at st = b" by (rule nth_via_drop)
    moreover have "drop (Suc (buffer_at st)) ?t = bs" using p by (metis drop_Suc tl_drop list.sel(3))
    ultimately show ?thesis using ok by (simp add: buffer_get_def)
  qed
qed

interpretation file_src: byte_source file_get "\<lambda>st. NUL \<notin> set st" "\<lambda>st. st"
  by unfold_locales (auto simp: file_get_def)

end
