(* ===== verification/Jansson_Load_Scan.thy ===== *)
theory Jansson_Load_Scan
  imports Jansson_Load_Stream Jansson_Text
begin

text \<open>
  The tokens of a text, defined on the list of its bytes, and the proof that the lexer of
  \<^verbatim>\<open>load.c\<close> finds exactly these, whatever source it reads from.
\<close>

section \<open>The tokens of a list of bytes\<close>

abbreviation digit_byte :: "char \<Rightarrow> bool" where "digit_byte x \<equiv> l_isdigit (schar x)"
abbreviation alpha_byte :: "char \<Rightarrow> bool" where "alpha_byte x \<equiv> l_isalpha (schar x)"
abbreviation space_byte :: "char \<Rightarrow> bool" where "space_byte x \<equiv> x \<in> set [CHR '' '', CHR 0x09, CHR 0x0A, CHR 0x0D]"

text \<open>The text of a string up to its closing quote, and what follows the quote.\<close>

fun string_end :: "string \<Rightarrow> (string \<times> string) option" where
  "string_end [] = None"
| "string_end (c # cs) =
    (if c = CHR 0x22 then Some ([], cs)
     else if uchar c \<le> 0x1F then None
     else if c = CHR 0x5C then
       (case cs of
          [] \<Rightarrow> None
        | d # ds \<Rightarrow>
            (if d = CHR ''u'' then map_option (\<lambda>(body, rest). (c # d # take 4 ds @ body, rest)) (string_end (drop 4 ds))
             else if d \<in> set [CHR 0x22, CHR 0x5C, CHR ''/'', CHR ''b'', CHR ''f'', CHR ''n'', CHR ''r'', CHR ''t'']
             then map_option (\<lambda>(body, rest). (c # d # body, rest)) (string_end ds)
             else None))
     else map_option (\<lambda>(body, rest). (c # body, rest)) (string_end cs))"

lemma string_end_SomeE:
  assumes "string_end xs = Some (body, rest)"
  obtains (quote) "xs = CHR 0x22 # rest" "body = []"
  | (plain) c cs b where "xs = c # cs" "c \<noteq> CHR 0x22" "\<not> uchar c \<le> 0x1F" "c \<noteq> CHR 0x5C"
      "string_end cs = Some (b, rest)" "body = c # b"
  | (simple) d ds b where "xs = CHR 0x5C # d # ds" "d \<noteq> CHR ''u''"
      "d \<in> set [CHR 0x22, CHR 0x5C, CHR ''/'', CHR ''b'', CHR ''f'', CHR ''n'', CHR ''r'', CHR ''t'']"
      "string_end ds = Some (b, rest)" "body = CHR 0x5C # d # b"
  | (unicode) ds b where "xs = CHR 0x5C # CHR ''u'' # ds" "string_end (drop 4 ds) = Some (b, rest)"
      "body = CHR 0x5C # CHR ''u'' # take 4 ds @ b"
proof (cases xs)
  case (Cons c cs)
  show thesis
  proof (cases "c = CHR 0x22")
    case True
    with assms Cons quote show thesis by simp
  next
    case False
    with assms Cons have "\<not> uchar c \<le> 0x1F" by (simp split: if_splits)
    note c = False this
    show thesis
    proof (cases "c = CHR 0x5C")
      case False
      with assms Cons c plain show thesis by auto
    next
      case esc: True
      with assms Cons obtain d ds where ds: "cs = d # ds" by (cases cs) simp_all
      show thesis
      proof (cases "d = CHR ''u''")
        case True
        with assms Cons esc ds unicode show thesis by auto
      next
        case False
        with assms Cons esc ds simple show thesis by (auto split: if_splits)
      qed
    qed
  qed
qed (use assms in simp)

lemma string_end_split: "string_end xs = Some (body, rest) \<Longrightarrow> xs = body @ CHR 0x22 # rest"
proof (induction "length xs" arbitrary: xs body rule: less_induct)
  case less
  from less.prems show ?case
  proof (cases rule: string_end_SomeE)
    case (plain c cs b)
    with less.hyps [of cs b] show ?thesis by simp
  next
    case (simple d ds b)
    with less.hyps [of ds b] show ?thesis by simp
  next
    case (unicode ds b)
    then have "drop 4 ds = b @ CHR 0x22 # rest" using less.hyps [of "drop 4 ds" b] by simp
    with unicode show ?thesis by (metis append_Cons append_assoc append_take_drop_id)
  qed simp
qed

definition scan_string :: "string \<Rightarrow> (token \<times> string) option" where
  "scan_string xs =
    (case string_end xs of
       None \<Rightarrow> Some (TOKEN_INVALID, [])
     | Some (body, rest) \<Rightarrow>
         map_option (case_option (TOKEN_INVALID, []) (\<lambda>t. (TOKEN_STRING (Some t), rest))) (unescape [] (body @ [CHR 0x22])))"

text \<open>The parts of a number and what follows, if they are well-formed.\<close>

definition digits_part :: "string \<Rightarrow> (string \<times> string) option" where
  "digits_part xs =
    (if takeWhile digit_byte xs = [] then None else Some (takeWhile digit_byte xs, dropWhile digit_byte xs))"

definition integer_digits :: "string \<Rightarrow> (string \<times> string) option" where
  "integer_digits xs =
    (if take 1 xs = ''0'' then (if takeWhile digit_byte (tl xs) = [] then Some (''0'', tl xs) else None)
     else digits_part xs)"

definition after :: "string \<Rightarrow> (string \<times> string) option \<Rightarrow> (string \<times> string) option" where
  "after pre z = map_option (\<lambda>(p, rest). (pre @ p, rest)) z"

definition integer_part :: "string \<Rightarrow> (string \<times> string) option" where
  "integer_part xs =
    (let sg = (if take 1 xs \<in> (\<lambda>y. [y]) ` {CHR ''-''} then take 1 xs else [])
     in after sg (integer_digits (drop (length sg) xs)))"

definition fraction_part :: "string \<Rightarrow> (string \<times> string) option" where
  "fraction_part xs = (if take 1 xs = ''.'' then after ''.'' (digits_part (tl xs)) else Some ([], xs))"

definition exponent_part :: "string \<Rightarrow> (string \<times> string) option" where
  "exponent_part xs =
    (if take 1 xs = ''E'' \<or> take 1 xs = ''e''
     then (let ys = tl xs;
               sg = (if take 1 ys \<in> (\<lambda>y. [y]) ` {CHR ''+'', CHR ''-''} then take 1 ys else [])
           in after (take 1 xs @ sg) (digits_part (drop (length sg) ys)))
     else Some ([], xs))"

definition integer_token :: "string \<Rightarrow> string \<Rightarrow> (token \<times> string) option" where
  "integer_token tx rest =
    (let (value, erange, n) = strtoll tx in
     if erange then Some (TOKEN_INVALID, [])
     else if n = length tx then Some (TOKEN_INTEGER value, rest) else None)"

definition real_token :: "number_reader \<Rightarrow> string \<Rightarrow> string \<Rightarrow> (token \<times> string) option" where
  "real_token rd tx rest =
     map_option (case_option (TOKEN_INVALID, []) (\<lambda>d. (TOKEN_REAL d, rest))) (jsonp_strtod rd tx)"

definition scan_number :: "number_reader \<Rightarrow> string \<Rightarrow> (token \<times> string) option" where
  "scan_number rd xs =
    (case integer_part xs of
       None \<Rightarrow> Some (TOKEN_INVALID, [])
     | Some (it, r1) \<Rightarrow>
         (if take 1 r1 \<notin> {''.'', ''E'', ''e''} then integer_token it r1
          else (case fraction_part r1 of
             None \<Rightarrow> Some (TOKEN_INVALID, [])
           | Some (ft, r2) \<Rightarrow>
               (case exponent_part r2 of
                  None \<Rightarrow> Some (TOKEN_INVALID, [])
                | Some (et, r3) \<Rightarrow> real_token rd (it @ ft @ et) r3))))"

definition scan_token :: "number_reader \<Rightarrow> int \<Rightarrow> string \<Rightarrow> (token \<times> string) option" where
  "scan_token rd e xs =
    (case dropWhile space_byte xs of
       [] \<Rightarrow> Some (if e = STREAM_STATE_EOF then TOKEN_EOF else TOKEN_INVALID, [])
     | c # cs \<Rightarrow>
         (if c \<in> set [CHR ''{'', CHR ''}'', CHR ''['', CHR '']'', CHR '':'', CHR '',''] then Some (TOKEN_CHAR c, cs)
          else if c = CHR 0x22 then scan_string cs
          else if digit_byte c \<or> c = CHR ''-'' then scan_number rd (c # cs)
          else if alpha_byte c
          then Some (identifier_token (takeWhile alpha_byte (c # cs)), dropWhile alpha_byte (c # cs))
          else Some (TOKEN_INVALID, [])))"

section \<open>The value of a string\<close>

lemma escape_digit_range: "escape_digit c = Some d \<Longrightarrow> 0 \<le> d \<and> d \<le> 35"
  by (auto simp: escape_digit_def l_isdigit_def l_islower_def l_isupper_def schar_def Let_def split: if_splits)

lemma escape_digits_Suc:
  "escape_digits (Suc n) cs v = Some w \<longleftrightarrow>
   (\<exists>c cs' d. cs = c # cs' \<and> escape_digit c = Some d \<and> escape_digits n cs' (push_bit 4 v + d) = Some w)"
  by (cases cs) (auto simp: bind_eq_Some_conv)

lemma decode_range:
  assumes "decode_unicode_escape cs = Some v"
  shows "0 \<le> v \<and> v \<le> 152915 \<and> 5 \<le> length cs"
proof -
  have "(4 :: nat) = Suc (Suc (Suc (Suc 0)))" by simp
  with assms obtain a b c d e rest x y z w where "cs = a # b # c # d # e # rest" "escape_digit b = Some x"
    "escape_digit c = Some y" "escape_digit d = Some z" "escape_digit e = Some w"
    "v = push_bit 4 (push_bit 4 (push_bit 4 (push_bit 4 0 + x) + y) + z) + w"
    by (cases cs) (auto simp: decode_unicode_escape_def escape_digits_Suc bind_eq_Some_conv simp del: escape_digits.simps(2,3))
  with escape_digit_range [of b] escape_digit_range [of c] escape_digit_range [of d] escape_digit_range [of e]
  show ?thesis by (simp add: push_bit_eq_mult)
qed

text \<open>What the copying loop makes of a backslash: the bytes written and what is left to read.\<close>

definition escape_step :: "string \<Rightarrow> (string \<times> string) option option" where
  "escape_step cs =
    (case cs of
       [] \<Rightarrow> None
     | d # ds \<Rightarrow>
         (if d = CHR ''u'' then do {
            value \<leftarrow> decode_unicode_escape cs;
            let rest = drop 5 cs;
            if 0xD800 \<le> value \<and> value \<le> 0xDBFF then
              (if take 2 rest = [CHR 0x5C, CHR ''u''] then do {
                 value2 \<leftarrow> decode_unicode_escape (drop 1 rest);
                 Some (if 0xDC00 \<le> value2 \<and> value2 \<le> 0xDFFF
                       then Some (enc (push_bit 10 (value - 0xD800) + (value2 - 0xDC00) + 0x10000), drop 6 rest)
                       else None)
               }
               else Some None)
            else Some (if 0xDC00 \<le> value \<and> value \<le> 0xDFFF \<or> value = 0 then None else Some (enc value, rest))
          }
          else do { e \<leftarrow> simple_escape d; Some (Some ([e], ds)) }))"

lemma pair_code:
  fixes a b :: int
  assumes "0xD800 \<le> a" "a \<le> 0xDBFF" "0xDC00 \<le> b" "b \<le> 0xDFFF"
  defines "w \<equiv> push_bit 10 (a - 0xD800) + (b - 0xDC00) + 0x10000"
  shows "0x10000 \<le> w" "w \<le> 0x10FFFF" "scalar w"
  using assms(1-4) by (simp_all add: w_def push_bit_eq_mult scalar_def)

lemma utf8_encode_ok: "0 \<le> w \<Longrightarrow> w \<le> 0x10FFFF \<Longrightarrow> fst (utf8_encode w) = 0"
  by (simp add: utf8_encode_def)

lemma unescape_simps:
  "unescape t [] = None"
  "unescape t (CHR 0x22 # cs) = Some (Some t)"
  "c \<noteq> CHR 0x22 \<Longrightarrow> c \<noteq> CHR 0x5C \<Longrightarrow> unescape t (c # cs) = unescape (t @ [c]) cs"
  by (subst unescape.simps, simp)+

lemma unescape_escape:
  "unescape t (CHR 0x5C # cs) =
    (case escape_step cs of
       None \<Rightarrow> None | Some None \<Rightarrow> Some None | Some (Some (bs, rest)) \<Rightarrow> unescape (t @ bs) rest)"
proof (cases cs)
  case (Cons d ds)
  show ?thesis
  proof (cases "d = CHR ''u''")
    case True
    show ?thesis
    proof (cases "decode_unicode_escape cs")
      case (Some v)
      note r = decode_range [OF Some]
      show ?thesis
      proof (cases "0xD800 \<le> v \<and> v \<le> 0xDBFF")
        case sur: True
        show ?thesis
        proof (cases "take 2 (drop 5 cs) = [CHR 0x5C, CHR ''u'']")
          case two: True
          show ?thesis
          proof (cases "decode_unicode_escape (drop 1 (drop 5 cs))")
            case (Some v2)
            note w = pair_code [of v v2]
            note f = sur two Some True Cons \<open>decode_unicode_escape cs = Some v\<close>
            show ?thesis
            proof (cases "0xDC00 \<le> v2 \<and> v2 \<le> 0xDFFF")
              case True
              with w sur have "fst (utf8_encode (push_bit 10 (v - 0xD800) + (v2 - 0xDC00) + 0x10000)) = 0"
                by (intro utf8_encode_ok) auto
              with f True show ?thesis
                by (subst unescape.simps) (simp add: escape_step_def Let_def case_prod_unfold del: drop_drop)
            qed (use f in \<open>subst unescape.simps, auto simp: escape_step_def Let_def simp del: drop_drop\<close>)
          qed (use True Cons Some sur two in \<open>subst unescape.simps, simp add: escape_step_def Let_def del: drop_drop\<close>)
        qed (use True Cons Some sur in \<open>subst unescape.simps, simp add: escape_step_def Let_def\<close>)
      next
        case False
        then show ?thesis
          using utf8_encode_ok [of v] r True Cons Some
            by (subst unescape.simps) (auto simp: escape_step_def Let_def case_prod_unfold)
      qed
    qed (use True Cons in \<open>subst unescape.simps, simp add: escape_step_def\<close>)
  next
    case False
    with Cons show ?thesis by (subst unescape.simps) (cases "simple_escape d", simp_all add: escape_step_def)
  qed
qed (subst unescape.simps, simp add: escape_step_def)

lemma enc_length: "scalar cp \<Longrightarrow> length (enc cp) \<le> 4 \<and> (cp < 0x80 \<longrightarrow> length (enc cp) = 1)"
  by (simp add: scalar_def utf8_encode_def)

lemma enc_no_nul:
  assumes "scalar cp" "cp \<noteq> 0"
  shows "NUL \<notin> set (enc cp)"
proof (cases "cp < 0x20")
  case True
  then have "uchar (byte cp) = cp" "0 \<le> cp" "cp < 0x80" using assms by (simp_all add: scalar_def)
  moreover have "uchar NUL = 0" by simp
  ultimately have "byte cp \<noteq> NUL" using assms(2) by metis
  with \<open>0 \<le> cp\<close> \<open>cp < 0x80\<close> show ?thesis by (simp add: enc_1)
next
  case False
  then have "\<forall>c \<in> set (enc cp). uchar c \<ge> 0x20" using printable_enc [OF assms(1)] by (simp add: printable_def)
  then show ?thesis by auto
qed

lemma escape_step_SomeD:
  assumes "escape_step cs = Some (Some (bs, rest))"
  shows "\<exists>n cp. rest = drop n cs \<and> 0 < n \<and> n \<le> length cs \<and> length bs \<le> n \<and> bs = enc cp \<and> scalar cp \<and> cp \<noteq> 0"
proof -
  from assms obtain d ds where cs: "cs = d # ds" by (cases cs) (simp_all add: escape_step_def)
  show ?thesis
  proof (cases "d = CHR ''u''")
    case False
    with assms cs obtain e where e: "simple_escape d = Some e" "bs = [e]" "rest = ds"
      by (auto simp: escape_step_def bind_eq_Some_conv)
    then have "uchar e < 0x80" "uchar e \<noteq> 0" by (auto simp: simple_escape_def split: if_splits)
    moreover from this have "bs = enc (uchar e)" "scalar (uchar e)"
      using e(2) uchar_range [of e] by (simp_all add: enc_1 scalar_def)
    ultimately show ?thesis using e cs enc_length [of "uchar e"]
      by (intro exI [of _ "Suc 0"], intro exI [of _ "uchar e"]) simp
  next
    case True
    with assms cs obtain v where v: "decode_unicode_escape cs = Some v"
      by (auto simp: escape_step_def bind_eq_Some_conv)
    note r = decode_range [OF v]
    show ?thesis
    proof (cases "0xD800 \<le> v \<and> v \<le> 0xDBFF")
      case False
      with assms cs True v r have "bs = enc v" "rest = drop 5 cs" "scalar v" "v \<noteq> 0"
        by (auto simp: escape_step_def Let_def scalar_def split: if_splits)
      with r enc_length [of v] show ?thesis by (intro exI [of _ 5] exI [of _ v]) auto
    next
      case sur: True
      with assms cs True v obtain v2 where v2: "decode_unicode_escape (drop 1 (drop 5 cs)) = Some v2"
        "0xDC00 \<le> v2" "v2 \<le> 0xDFFF" "bs = enc (push_bit 10 (v - 0xD800) + (v2 - 0xDC00) + 0x10000)"
        "rest = drop 6 (drop 5 cs)"
        by (auto simp: escape_step_def Let_def bind_eq_Some_conv simp del: drop_drop split: if_splits)
      define w where "w = push_bit 10 (v - 0xD800) + (v2 - 0xDC00) + 0x10000"
      have "scalar w" "0x10000 \<le> w" unfolding w_def using pair_code sur v2(2,3) by auto
      moreover have "11 \<le> length cs" using decode_range [OF v2(1)] by simp linarith
      ultimately show ?thesis using v2(4,5) enc_length [of w]
        by (intro exI [of _ 11] exI [of _ w]) (simp add: w_def [symmetric])
    qed
  qed
qed

text \<open>The value is no longer than its source, and has no NUL.\<close>

lemma unescape_SomeD:
  "unescape t p = Some (Some u) \<Longrightarrow>
   length u \<le> length t + length p \<and> (NUL \<notin> set t \<longrightarrow> NUL \<notin> set p \<longrightarrow> NUL \<notin> set u)"
proof (induction "length p" arbitrary: t p rule: less_induct)
  case less
  show ?case
  proof (cases p)
    case (Cons c cs)
    consider (quote) "c = CHR 0x22" | (plain) "c \<noteq> CHR 0x22" "c \<noteq> CHR 0x5C" | (esc) "c = CHR 0x5C" by blast
    then show ?thesis
    proof cases
      case plain
      with less(1) [of cs "t @ [c]"] less(2) Cons show ?thesis by (auto simp: unescape_simps)
    next
      case esc
      with less(2) Cons obtain bs rest where s: "escape_step cs = Some (Some (bs, rest))" "unescape (t @ bs) rest = Some (Some u)"
        by (auto simp: unescape_escape split: option.splits)
      from escape_step_SomeD [OF s(1)] obtain n cp where n: "rest = drop n cs" "0 < n" "n \<le> length cs" "length bs \<le> n"
        "bs = enc cp" "scalar cp" "cp \<noteq> 0" by blast
      have "length rest < length p" using n Cons by simp
      from less(1) [OF this s(2)] n enc_no_nul [OF n(6,7)] Cons set_drop_subset [of n cs] show ?thesis by auto
    qed (use less(2) Cons in \<open>simp add: unescape_simps\<close>)
  qed (use less(2) in \<open>simp add: unescape_simps\<close>)
qed

text \<open>The parts of a number are those of the input.\<close>

lemma after_split: "after pre z = Some (p, rest) \<longleftrightarrow> (\<exists>q. z = Some (q, rest) \<and> p = pre @ q)"
  by (auto simp: after_def)

lemma digits_part_split: "digits_part xs = Some (p, rest) \<Longrightarrow> xs = p @ rest"
  by (auto simp: digits_part_def split: if_splits)

lemma integer_digits_split: "integer_digits xs = Some (p, rest) \<Longrightarrow> xs = p @ rest"
  by (cases xs) (auto simp: integer_digits_def digits_part_def split: if_splits)

lemma integer_part_split: "integer_part xs = Some (p, rest) \<Longrightarrow> xs = p @ rest"
  by (cases xs) (auto simp: integer_part_def Let_def after_split dest!: integer_digits_split split: if_splits)

lemma fraction_part_split: "fraction_part xs = Some (p, rest) \<Longrightarrow> xs = p @ rest"
  by (cases xs) (auto simp: fraction_part_def after_split dest!: digits_part_split split: if_splits)

lemma exponent_part_split: "exponent_part xs = Some (p, rest) \<Longrightarrow> xs = p @ rest"
proof -
  assume e: "exponent_part xs = Some (p, rest)"
  show ?thesis
  proof (cases "take 1 xs = ''E'' \<or> take 1 xs = ''e''")
    case True
    define sg where "sg = (if take 1 (tl xs) \<in> (\<lambda>y. [y]) ` {CHR ''+'', CHR ''-''} then take 1 (tl xs) else [])"
    from e True obtain q where q: "digits_part (drop (length sg) (tl xs)) = Some (q, rest)" "p = take 1 xs @ sg @ q"
      by (auto simp: exponent_part_def Let_def after_split sg_def)
    have "sg @ drop (length sg) (tl xs) = tl xs" by (cases "tl xs") (auto simp: sg_def)
    with digits_part_split [OF q(1)] q(2) have "p @ rest = take 1 xs @ tl xs" by simp
    then show ?thesis using True by (cases xs) auto
  qed (use e in \<open>auto simp: exponent_part_def\<close>)
qed

section \<open>Reading and putting back\<close>

abbreviation lex_at :: "token \<Rightarrow> 'd stream \<Rightarrow> string \<Rightarrow> 'd lex" where
  "lex_at k s t \<equiv> \<lparr>lex_stream = s, saved_text = t, lex_token = k\<rparr>"

lemma no_digit_state:
  "e = STREAM_STATE_EOF \<or> e = STREAM_STATE_ERROR \<Longrightarrow> \<not> l_isdigit e \<and> \<not> l_isalpha e"
  by (auto simp: stream_states l_isdigit_def l_isalpha_def l_isupper_def l_islower_def schar_def)

lemma l_isxdigit_always [simp]: "l_isxdigit c"
  by (simp add: l_isxdigit_def schar_def) linarith

lemma state_not_schar:
  "e = STREAM_STATE_EOF \<or> e = STREAM_STATE_ERROR \<Longrightarrow> text_byte x \<Longrightarrow> e \<noteq> schar x"
  using state_schar [of x e] by auto

lemma map_option_bind_snd: "Option.bind m (\<lambda>(r, l). Some l) = map_option snd m"
  by (cases m) auto

context byte_source begin

text \<open>The character \<open>c\<close> has just been read; \<open>zs\<close> is what was ahead before it.\<close>

definition cur :: "'d stream \<Rightarrow> string \<Rightarrow> int \<Rightarrow> int \<Rightarrow> bool" where
  "cur s zs e c \<longleftrightarrow>
    (case zs of [] \<Rightarrow> c = e \<and> sees s [] e | x # xs \<Rightarrow> c = schar x \<and> sees s xs e \<and> can_unget s x)"

lemma cur_Nil [simp]: "cur s [] e c \<longleftrightarrow> c = e \<and> sees s [] e"
  and cur_Cons [simp]: "cur s (x # xs) e c \<longleftrightarrow> c = schar x \<and> sees s xs e \<and> can_unget s x"
  by (simp_all add: cur_def)

lemma cur_end: "cur s zs e c \<Longrightarrow> e = STREAM_STATE_EOF \<or> e = STREAM_STATE_ERROR"
  by (cases zs) (auto dest: sees_end)

lemma cur_byte: "cur s (x # xs) e c \<Longrightarrow> text_byte x \<and> x \<noteq> NUL"
  by (simp add: can_unget_def)

lemma cur_schar:
  assumes "cur s zs e c" "text_byte y"
  shows "c = schar y \<longleftrightarrow> take 1 zs = [y]"
  using assms(1) state_not_schar [OF cur_end [OF assms(1)] assms(2)] by (cases zs) auto

lemma cur_pred:
  assumes "cur s zs e c" "\<not> P e"
  shows "P c \<longleftrightarrow> zs \<noteq> [] \<and> P (schar (hd zs))"
  using assms by (cases zs) auto

lemma lex_get_ok:
  assumes "sees s zs e"
  shows "\<exists>c s'. lex_get get (lex_at k s t) = Some (c, lex_at k s' t) \<and> cur s' zs e c"
proof (cases zs)
  case Nil
  with stream_get_end [of s e] assms show ?thesis by (auto simp: lex_get_def)
next
  case (Cons x xs)
  with stream_get_next [of s x xs e] assms show ?thesis by (auto simp: lex_get_def)
qed

lemma lex_get_save_ok:
  assumes "sees s zs e"
  shows "\<exists>c s'. lex_get_save get (lex_at k s t) = Some (c, lex_at k s' (t @ take 1 zs)) \<and> cur s' zs e c"
proof -
  from lex_get_ok [OF assms, where k = k and t = t] obtain c s' where g: "lex_get get (lex_at k s t) = Some (c, lex_at k s' t)"
    "cur s' zs e c" by blast
  then show ?thesis
    using cur_end [OF g(2)] cur_byte [of s' _ _ e c] text_byte_state
    by (cases zs) (auto simp: lex_get_save_def lex_save_def)
qed

lemma lex_unget_ok:
  assumes "cur s zs e c"
  shows "\<exists>s'. lex_unget (lex_at k s t) c = Some (lex_at k s' t) \<and> sees s' zs e"
proof (cases zs)
  case Nil
  with assms cur_end [OF assms] show ?thesis by (auto simp: lex_unget_def stream_unget_def)
next
  case (Cons x xs)
  with stream_unget_ok [of s xs e x] assms show ?thesis by (auto simp: lex_unget_def)
qed

lemma lex_unget_unsave_ok:
  assumes "cur s zs e c"
  shows "\<exists>s'. lex_unget_unsave (lex_at k s (t @ take 1 zs)) c = Some (lex_at k s' t) \<and> sees s' zs e"
proof (cases zs)
  case Nil
  with assms cur_end [OF assms] show ?thesis by (auto simp: lex_unget_unsave_def)
next
  case (Cons x xs)
  from lex_unget_ok [OF assms, where k = k and t = "t @ take 1 zs"] obtain s' where
    "lex_unget (lex_at k s (t @ take 1 zs)) c = Some (lex_at k s' (t @ take 1 zs))" "sees s' zs e" by blast
  with Cons assms text_byte_state [of x] show ?thesis
    by (auto simp: lex_unget_unsave_def can_unget_def)
qed

section \<open>The loops\<close>

lemma digits_loop_ok:
  "cur s zs e c \<Longrightarrow> \<exists>c' s'. digits_loop get c (lex_at k s (t @ take 1 zs)) =
     Some (c', lex_at k s' (t @ takeWhile digit_byte zs @ take 1 (dropWhile digit_byte zs))) \<and>
     cur s' (dropWhile digit_byte zs) e c'"
proof (induction zs arbitrary: s c t)
  case Nil
  then show ?case using no_digit_state [OF cur_end [OF Nil]] by (subst digits_loop.simps) simp
next
  case (Cons x xs)
  show ?case
  proof (cases "digit_byte x")
    case True
    from Cons.prems have "sees s xs e" "c = schar x" by simp_all
    from lex_get_save_ok [OF this(1), where k = k and t = "t @ [x]"] obtain c1 s1 where
      g: "lex_get_save get (lex_at k s (t @ [x])) = Some (c1, lex_at k s1 ((t @ [x]) @ take 1 xs))" "cur s1 xs e c1" by blast
    from Cons.IH [OF g(2), where t = "t @ [x]"] g(1) True \<open>c = schar x\<close> show ?thesis
      by (subst digits_loop.simps) simp
  qed (use Cons in \<open>subst digits_loop.simps, simp\<close>)
qed

lemma alpha_loop_ok:
  "cur s zs e c \<Longrightarrow> \<exists>c' s'. alpha_loop get c (lex_at k s (t @ take 1 zs)) =
     Some (c', lex_at k s' (t @ takeWhile alpha_byte zs @ take 1 (dropWhile alpha_byte zs))) \<and>
     cur s' (dropWhile alpha_byte zs) e c'"
proof (induction zs arbitrary: s c t)
  case Nil
  then show ?case using no_digit_state [OF cur_end [OF Nil]] by (subst alpha_loop.simps) simp
next
  case (Cons x xs)
  show ?case
  proof (cases "alpha_byte x")
    case True
    from Cons.prems have "sees s xs e" "c = schar x" by simp_all
    from lex_get_save_ok [OF this(1), where k = k and t = "t @ [x]"] obtain c1 s1 where
      g: "lex_get_save get (lex_at k s (t @ [x])) = Some (c1, lex_at k s1 ((t @ [x]) @ take 1 xs))" "cur s1 xs e c1" by blast
    from Cons.IH [OF g(2), where t = "t @ [x]"] g(1) True \<open>c = schar x\<close> show ?thesis
      by (subst alpha_loop.simps) simp
  qed (use Cons in \<open>subst alpha_loop.simps, simp\<close>)
qed

lemma skip_space_ok:
  "cur s zs e c \<Longrightarrow> \<exists>c' s'. skip_space get c (lex_at k s t) = Some (c', lex_at k s' t) \<and>
     cur s' (dropWhile space_byte zs) e c'"
proof (induction zs arbitrary: s c)
  case Nil
  have "e \<notin> schar ` set [CHR '' '', CHR 0x09, CHR 0x0A, CHR 0x0D]"
    using cur_end [OF Nil] by (auto simp: stream_states schar_def)
  with Nil show ?case by (subst skip_space.simps) simp
next
  case (Cons x xs)
  show ?case
  proof (cases "space_byte x")
    case True
    from Cons.prems have "sees s xs e" "c = schar x" by simp_all
    from lex_get_ok [OF this(1), where k = k and t = t] obtain c1 s1 where
      g: "lex_get get (lex_at k s t) = Some (c1, lex_at k s1 t)" "cur s1 xs e c1" by blast
    from Cons.IH [OF g(2)] g(1) True \<open>c = schar x\<close> show ?thesis
      by (subst skip_space.simps) (simp del: set_simps)
  qed (use Cons in \<open>subst skip_space.simps, simp del: set_simps\<close>)
qed

lemma four_digits_ok:
  "cur s zs e c \<Longrightarrow> \<exists>c' s'. four_digits get n c (lex_at k s (t @ take 1 zs)) =
     Some (True, c', lex_at k s' (t @ take n zs @ take 1 (drop n zs))) \<and> cur s' (drop n zs) e c'"
proof (induction n arbitrary: s zs c t)
  case (Suc n)
  show ?case
  proof (cases zs)
    case Nil
    with Suc.prems have "sees s [] e" by simp
    from lex_get_save_ok [OF this, where k = k and t = t] obtain s1 where
      "lex_get_save get (lex_at k s t) = Some (e, lex_at k s1 t)" "cur s1 [] e e" by auto
    with Suc.IH [of s1 "[]" e t] Nil show ?thesis by simp
  next
    case (Cons x xs)
    with Suc.prems have "sees s xs e" by simp
    from lex_get_save_ok [OF this, where k = k and t = "t @ [x]"] obtain c1 s1 where
      "lex_get_save get (lex_at k s (t @ [x])) = Some (c1, lex_at k s1 ((t @ [x]) @ take 1 xs))" "cur s1 xs e c1" by blast
    with Suc.IH [of s1 xs c1 "t @ [x]"] Cons show ?thesis by simp
  qed
qed simp

section \<open>Strings\<close>

definition string_result :: "token \<Rightarrow> int \<Rightarrow> string \<Rightarrow> (string \<times> string) option \<Rightarrow> (bool \<times> 'd lex) option \<Rightarrow> bool" where
  "string_result k e t z r \<longleftrightarrow>
    (case z of
       None \<Rightarrow> \<exists>s' t'. r = Some (False, lex_at k s' t')
     | Some (body, rest) \<Rightarrow> \<exists>s'. r = Some (True, lex_at k s' (t @ body @ [CHR 0x22])) \<and> sees s' rest e)"

lemma string_result_prefix:
  "string_result k e (t @ pre) z r \<Longrightarrow>
   string_result k e t (map_option (\<lambda>(body, rest). (pre @ body, rest)) z) r"
  by (auto simp: string_result_def split: option.splits)

lemma string_loop_ok:
  "cur s zs e c \<Longrightarrow> string_result k e t (string_end zs) (string_loop get c (lex_at k s (t @ take 1 zs)))"
proof (induction zs arbitrary: s c t rule: string_end.induct)
  case 1
  then have "c = e" by simp
  moreover have "e \<noteq> schar (CHR 0x22)" using cur_end [OF 1] by (auto simp: stream_states schar_def)
  ultimately show ?case using cur_end [OF 1] by (subst string_loop.simps) (auto simp: string_result_def)
next
  case (2 x xs)
  from "2.prems" have c: "c = schar x" "sees s xs e" "can_unget s x" by simp_all
  have x: "text_byte x" using c(3) by (simp add: can_unget_def)
  note st = text_byte_state [OF x]
  have ctl: "0 \<le> c \<and> c \<le> 0x1F \<longleftrightarrow> uchar x \<le> 0x1F" using uchar_range [of x] by (auto simp: c(1) schar_def)
  consider (quote) "x = CHR 0x22" | (ctl) "x \<noteq> CHR 0x22" "uchar x \<le> 0x1F"
    | (esc) "x \<noteq> CHR 0x22" "\<not> uchar x \<le> 0x1F" "x = CHR 0x5C"
    | (plain) "x \<noteq> CHR 0x22" "\<not> uchar x \<le> 0x1F" "x \<noteq> CHR 0x5C" by blast
  then show ?case
  proof cases
    case quote
    then show ?thesis using c by (subst string_loop.simps) (simp add: string_result_def)
  next
    case ctl
    from lex_unget_unsave_ok [OF "2.prems", where k = k and t = t] ctl st show ?thesis
      by (subst string_loop.simps) (auto simp: string_result_def c(1) \<open>(0 \<le> c \<and> c \<le> 0x1F) = _\<close> [unfolded c(1)])
  next
    case plain
    from lex_get_save_ok [OF c(2), where k = k and t = "t @ [x]"] obtain c1 s1 where
      g: "lex_get_save get (lex_at k s (t @ [x])) = Some (c1, lex_at k s1 ((t @ [x]) @ take 1 xs))" "cur s1 xs e c1" by blast
    from plain have "string_loop get c (lex_at k s (t @ take 1 (x # xs))) =
        string_loop get c1 (lex_at k s1 ((t @ [x]) @ take 1 xs))"
      using st g(1) ctl by (subst string_loop.simps) (auto simp: c(1))
    with string_result_prefix [where t = t and pre = "[x]", OF "2.IH"(3) [OF plain(1-3) g(2)]] plain show ?thesis by simp
  next
    case esc
    from lex_get_save_ok [OF c(2), where k = k and t = "t @ [x]"] obtain c1 s1 where
      g: "lex_get_save get (lex_at k s (t @ [x])) = Some (c1, lex_at k s1 ((t @ [x]) @ take 1 xs))" "cur s1 xs e c1" by blast
    have u: "string_loop get c (lex_at k s (t @ take 1 (x # xs))) =
        (if c1 = schar (CHR ''u'') then do {
           (c, l) \<leftarrow> lex_get_save get (lex_at k s1 ((t @ [x]) @ take 1 xs));
           (ok, c, l) \<leftarrow> four_digits get 4 c l;
           if ok then string_loop get c l else Some (False, l)
         }
         else if c1 \<in> schar ` set [CHR 0x22, CHR 0x5C, CHR ''/'', CHR ''b'', CHR ''f'', CHR ''n'', CHR ''r'', CHR ''t'']
         then do { (c, l) \<leftarrow> lex_get_save get (lex_at k s1 ((t @ [x]) @ take 1 xs)); string_loop get c l }
         else Some (False, lex_at k s1 ((t @ [x]) @ take 1 xs)))"
    proof -
      have "\<not> (0 \<le> c \<and> c \<le> 0x1F)" using ctl esc(2) by blast
      then have "(0 \<le> c \<and> c \<le> 0x1F) = False" by blast
      then show ?thesis
        using esc st g(1) by (subst string_loop.simps) (simp only: c(1) schar_inj if_False if_True take_Suc_Cons, simp del: set_simps)
    qed
    show ?thesis
    proof (cases xs)
      case Nil
      then have "c1 \<notin> schar ` set [CHR 0x22, CHR 0x5C, CHR ''/'', CHR ''b'', CHR ''f'', CHR ''n'', CHR ''r'', CHR ''t'', CHR ''u'']"
        using g(2) cur_end [OF g(2)] by (auto simp: stream_states schar_def)
      with u esc Nil show ?thesis by (auto simp: string_result_def)
    next
      case (Cons d ds)
      with g(2) have d: "c1 = schar d" "sees s1 ds e" by simp_all
      from lex_get_save_ok [OF d(2), where k = k and t = "t @ [x, d]"] obtain c2 s2 where
        g2: "lex_get_save get (lex_at k s1 (t @ [x, d])) = Some (c2, lex_at k s2 ((t @ [x, d]) @ take 1 ds))" "cur s2 ds e c2" by blast
      consider (hex) "d = CHR ''u''" | (simple) "d \<noteq> CHR ''u''" "d \<in> set [CHR 0x22, CHR 0x5C, CHR ''/'', CHR ''b'', CHR ''f'', CHR ''n'', CHR ''r'', CHR ''t'']"
        | (bad) "d \<noteq> CHR ''u''" "d \<notin> set [CHR 0x22, CHR 0x5C, CHR ''/'', CHR ''b'', CHR ''f'', CHR ''n'', CHR ''r'', CHR ''t'']" by blast
      then show ?thesis
      proof cases
        case hex
        from four_digits_ok [OF g2(2), where k = k and t = "t @ [x, d]" and n = 4] obtain c3 s3 where
          f: "four_digits get 4 c2 (lex_at k s2 ((t @ [x, d]) @ take 1 ds)) =
              Some (True, c3, lex_at k s3 (((t @ [x, d]) @ take 4 ds) @ take 1 (drop 4 ds)))" "cur s3 (drop 4 ds) e c3" by auto
        have "string_loop get c (lex_at k s (t @ take 1 (x # xs))) =
            string_loop get c3 (lex_at k s3 ((t @ x # d # take 4 ds) @ take 1 (drop 4 ds)))"
          using u Cons d(1) hex g2(1) f(1) by simp
        with string_result_prefix [where t = t and pre = "x # d # take 4 ds", OF "2.IH"(1) [OF esc Cons hex f(2)]] hex esc Cons show ?thesis by simp
      next
        case simple
        have "string_loop get c (lex_at k s (t @ take 1 (x # xs))) =
            string_loop get c2 (lex_at k s2 ((t @ [x, d]) @ take 1 ds))"
          using u Cons d(1) simple g2(1) by (simp del: set_simps)
        with string_result_prefix [where t = t and pre = "[x, d]", OF "2.IH"(2) [OF esc Cons simple g2(2)]] simple esc Cons show ?thesis by simp
      next
        case bad
        with u Cons d(1) esc show ?thesis by (auto simp: string_result_def)
      qed
    qed
  qed
qed


text \<open>The token of a step of the lexer, and where it leaves the stream.\<close>

definition scans :: "int \<Rightarrow> (token \<times> string) option \<Rightarrow> 'd lex option \<Rightarrow> bool" where
  "scans e z r \<longleftrightarrow>
    (case z of
       None \<Rightarrow> r = None
     | Some (k, rest) \<Rightarrow> \<exists>l'. r = Some l' \<and> lex_token l' = k \<and> (k \<noteq> TOKEN_INVALID \<longrightarrow> sees (lex_stream l') rest e))"

lemma lex_scan_string_ok:
  assumes "sees s xs e"
  shows "scans e (scan_string xs) (lex_scan_string get (lex_at k s [CHR 0x22]))"
proof -
  from lex_get_save_ok [OF assms, where k = TOKEN_INVALID and t = "[CHR 0x22]"] obtain c s1 where
    g: "lex_get_save get (lex_at TOKEN_INVALID s [CHR 0x22]) =
        Some (c, lex_at TOKEN_INVALID s1 ([CHR 0x22] @ take 1 xs))" "cur s1 xs e c" by blast
  note r = string_loop_ok [OF g(2), of TOKEN_INVALID "[CHR 0x22]"]
  show ?thesis
  proof (cases "string_end xs")
    case None
    with r g(1) show ?thesis by (auto simp: string_result_def scans_def scan_string_def lex_scan_string_def)
  next
    case (Some br)
    obtain body rest where br: "br = (body, rest)" by fastforce
    with r Some obtain s2 where s2: "string_loop get c (lex_at TOKEN_INVALID s1 ([CHR 0x22] @ take 1 xs)) =
        Some (True, lex_at TOKEN_INVALID s2 ([CHR 0x22] @ body @ [CHR 0x22]))" "sees s2 rest e"
      by (auto simp: string_result_def)
    have nul: "NUL \<notin> set body"
      using string_end_split [OF Some [unfolded br]] sees_bytes [OF assms] by auto
    show ?thesis
      using g(1) s2 unescape_SomeD [of "[]" "body @ [CHR 0x22]"] nul Some br
      by (cases "unescape [] (body @ [CHR 0x22])")
        (auto simp: scans_def scan_string_def lex_scan_string_def is_cstr_def split: option.splits)
  qed
qed

section \<open>Numbers\<close>

definition part_result :: "token \<Rightarrow> int \<Rightarrow> string \<Rightarrow> (string \<times> string) option \<Rightarrow> (bool \<times> int \<times> 'd lex) option \<Rightarrow> bool" where
  "part_result k e t z r \<longleftrightarrow>
    (case z of
       None \<Rightarrow> \<exists>c' s' t'. r = Some (False, c', lex_at k s' t')
     | Some (p, rest) \<Rightarrow> \<exists>c' s'. r = Some (True, c', lex_at k s' (t @ p @ take 1 rest)) \<and> cur s' rest e c')"

lemma scan_digits_ok:
  assumes "cur s zs e c"
  shows "part_result k e t (digits_part zs)
     (if l_isdigit c then do {
        (c, l) \<leftarrow> lex_get_save get (lex_at k s (t @ take 1 zs));
        (c, l) \<leftarrow> digits_loop get c l;
        Some (True, c, l)
      }
      else do { l \<leftarrow> lex_unget_unsave (lex_at k s (t @ take 1 zs)) c; Some (False, c, l) })"
proof (cases "zs \<noteq> [] \<and> digit_byte (hd zs)")
  case True
  then obtain x xs where zs: "zs = x # xs" "digit_byte x" by (cases zs) auto
  with assms have c: "c = schar x" "sees s xs e" by simp_all
  from lex_get_save_ok [OF c(2), where k = k and t = "t @ [x]"] obtain c1 s1 where
    g: "lex_get_save get (lex_at k s (t @ [x])) = Some (c1, lex_at k s1 ((t @ [x]) @ take 1 xs))" "cur s1 xs e c1" by blast
  from digits_loop_ok [OF g(2), where k = k and t = "t @ [x]"] g(1) zs c(1) show ?thesis
    by (auto simp: part_result_def digits_part_def)
next
  case False
  then have "\<not> l_isdigit c" using assms no_digit_state [OF cur_end [OF assms]] by (cases zs) auto
  moreover have "takeWhile digit_byte zs = []" using False by (cases zs) auto
  ultimately show ?thesis
    using lex_unget_unsave_ok [OF assms, where k = k and t = t] by (auto simp: part_result_def digits_part_def)
qed

lemma text_literals:
  "text_byte (CHR ''-'')" "text_byte (CHR ''+'')" "text_byte (CHR ''0'')" "text_byte (CHR ''.'')" "text_byte (CHR ''e'')"
  "text_byte (CHR ''E'')"
  by (simp_all add: text_byte_def)

lemma part_result_prefix:
  "part_result k e (t @ pre) z r \<Longrightarrow> part_result k e t (after pre z) r"
  by (auto simp: part_result_def after_def split: option.splits)

text \<open>A character that is read when it is one of \<open>C\<close>.\<close>

lemma optional_ok:
  assumes "cur s zs e c" "\<forall>y \<in> C. text_byte y"
  defines "pre \<equiv> (if take 1 zs \<in> (\<lambda>y. [y]) ` C then take 1 zs else [])"
  shows "\<exists>c' s'. (if c \<in> schar ` C then lex_get_save get (lex_at k s (t @ take 1 zs)) else Some (c, lex_at k s (t @ take 1 zs))) =
      Some (c', lex_at k s' ((t @ pre) @ take 1 (drop (length pre) zs))) \<and> cur s' (drop (length pre) zs) e c'"
proof -
  have "c \<in> schar ` C \<longleftrightarrow> take 1 zs \<in> (\<lambda>y. [y]) ` C"
    using cur_schar [OF assms(1)] assms(2) by (auto simp: image_iff)
  moreover have "\<exists>c' s'. lex_get_save get (lex_at k s (t @ take 1 zs)) =
      Some (c', lex_at k s' ((t @ take 1 zs) @ take 1 (drop 1 zs))) \<and> cur s' (drop 1 zs) e c'" if "zs \<noteq> []"
    using that lex_get_save_ok [where k = k and t = "t @ take 1 zs" and s = s and zs = "drop 1 zs" and e = e] assms(1)
    by (cases zs) auto
  ultimately show ?thesis using assms(1) by (cases zs) (auto simp: pre_def)
qed

lemma integer_digits_ok:
  assumes "cur s zs e c"
  shows "part_result k e t (integer_digits zs)
     (if c = schar (CHR ''0'') then do {
        (c, l) \<leftarrow> lex_get_save get (lex_at k s (t @ take 1 zs));
        if l_isdigit c then do { l \<leftarrow> lex_unget_unsave l c; Some (False, c, l) } else Some (True, c, l)
      }
      else if l_isdigit c then do {
        (c, l) \<leftarrow> lex_get_save get (lex_at k s (t @ take 1 zs));
        (c, l) \<leftarrow> digits_loop get c l;
        Some (True, c, l)
      }
      else do { l \<leftarrow> lex_unget_unsave (lex_at k s (t @ take 1 zs)) c; Some (False, c, l) })"
proof (cases "take 1 zs = ''0''")
  case False
  then have "c \<noteq> schar (CHR ''0'')" using cur_schar [OF assms text_literals(3)] by simp
  with False scan_digits_ok [OF assms, where k = k and t = t] show ?thesis by (simp add: integer_digits_def)
next
  case True
  then obtain xs where zs: "zs = CHR ''0'' # xs" by (cases zs) auto
  with assms have c: "c = schar (CHR ''0'')" "sees s xs e" by simp_all
  from lex_get_save_ok [OF c(2), where k = k and t = "t @ ''0''"] obtain c1 s1 where
    g: "lex_get_save get (lex_at k s (t @ ''0'')) = Some (c1, lex_at k s1 ((t @ ''0'') @ take 1 xs))" "cur s1 xs e c1" by blast
  show ?thesis
  proof (cases "l_isdigit c1")
    case True
    then have "takeWhile digit_byte xs \<noteq> []" using cur_pred [OF g(2)] no_digit_state [OF cur_end [OF g(2)]] by (cases xs) auto
    with lex_unget_unsave_ok [OF g(2), where k = k and t = "t @ ''0''"] g(1) c(1) zs True show ?thesis
      by (auto simp: part_result_def integer_digits_def)
  next
    case False
    then have "takeWhile digit_byte xs = []" using g(2) by (cases xs) auto
    with g c(1) zs False show ?thesis by (auto simp: part_result_def integer_digits_def)
  qed
qed

lemma scan_integer_part_ok:
  assumes "cur s zs e c"
  shows "part_result k e t (integer_part zs) (scan_integer_part get c (lex_at k s (t @ take 1 zs)))"
proof -
  let ?sg = "if take 1 zs \<in> (\<lambda>y. [y]) ` {CHR ''-''} then take 1 zs else []"
  have "\<forall>y \<in> {CHR ''-''}. text_byte y" using text_literals by simp
  from optional_ok [OF assms this, where k = k and t = t] obtain c1 s1 where
    g: "(if c \<in> schar ` {CHR ''-''} then lex_get_save get (lex_at k s (t @ take 1 zs)) else Some (c, lex_at k s (t @ take 1 zs))) =
      Some (c1, lex_at k s1 ((t @ ?sg) @ take 1 (drop (length ?sg) zs)))" "cur s1 (drop (length ?sg) zs) e c1" by blast
  from g(1) have g1: "(if c = schar (CHR ''-'') then lex_get_save get (lex_at k s (t @ take 1 zs)) else Some (c, lex_at k s (t @ take 1 zs))) =
      Some (c1, lex_at k s1 ((t @ ?sg) @ take 1 (drop (length ?sg) zs)))" by simp
  show ?thesis
    unfolding scan_integer_part_def g1 Option.bind.bind_lunit prod.case integer_part_def Let_def
    by (rule part_result_prefix, rule integer_digits_ok [OF g(2)])
qed

lemma scan_fraction_ok:
  assumes "cur s zs e c"
  shows "part_result k e t (fraction_part zs) (scan_fraction get c (lex_at k s (t @ take 1 zs)))"
proof (cases "take 1 zs = ''.''")
  case False
  then have "c \<noteq> schar (CHR ''.'')" using cur_schar [OF assms text_literals(4)] by simp
  with False assms show ?thesis by (auto simp: part_result_def fraction_part_def scan_fraction_def)
next
  case True
  then obtain xs where zs: "zs = CHR ''.'' # xs" by (cases zs) auto
  with assms have c: "c = schar (CHR ''.'')" "sees s xs e" by simp_all
  from lex_get_ok [OF c(2), where k = k and t = "t @ ''.''"] obtain c1 s1 where
    g: "lex_get get (lex_at k s (t @ ''.'')) = Some (c1, lex_at k s1 (t @ ''.''))" "cur s1 xs e c1" by blast
  show ?thesis
  proof (cases "l_isdigit c1")
    case False
    then have "takeWhile digit_byte xs = []" using g(2) by (cases xs) auto
    with lex_unget_ok [OF g(2), where k = k and t = "t @ ''.''"] g(1) c(1) zs False show ?thesis
      by (auto simp: part_result_def fraction_part_def scan_fraction_def after_def digits_part_def)
  next
    case True
    then obtain y ys where xs: "xs = y # ys" using g(2) no_digit_state [OF cur_end [OF g(2)]] by (cases xs) auto
    have sv: "lex_save (lex_at k s1 (t @ ''.'')) c1 = lex_at k s1 ((t @ ''.'') @ take 1 xs)"
      using g(2) xs by (simp add: lex_save_def)
    have "scan_fraction get c (lex_at k s (t @ take 1 zs)) =
       (if l_isdigit c1 then do {
          (c, l) \<leftarrow> lex_get_save get (lex_at k s1 ((t @ ''.'') @ take 1 xs));
          (c, l) \<leftarrow> digits_loop get c l;
          Some (True, c, l)
        }
        else do { l \<leftarrow> lex_unget_unsave (lex_at k s1 ((t @ ''.'') @ take 1 xs)) c1; Some (False, c1, l) })"
      using True g(1) c(1) zs unfolding scan_fraction_def sv [symmetric] by simp
    with part_result_prefix [OF scan_digits_ok [OF g(2), where k = k and t = "t @ ''.''"]] zs show ?thesis
      by (simp add: fraction_part_def)
  qed
qed

lemma scan_exponent_ok:
  assumes "cur s zs e c"
  shows "part_result k e t (exponent_part zs) (scan_exponent get c (lex_at k s (t @ take 1 zs)))"
proof (cases "take 1 zs = ''E'' \<or> take 1 zs = ''e''")
  case False
  then have "c \<noteq> schar (CHR ''E'')" "c \<noteq> schar (CHR ''e'')" using cur_schar [OF assms] text_literals by simp_all
  with False assms show ?thesis by (auto simp: part_result_def exponent_part_def scan_exponent_def)
next
  case True
  then obtain x xs where zs: "zs = x # xs" "x = CHR ''E'' \<or> x = CHR ''e''" by (cases zs) auto
  with assms have c: "c = schar (CHR ''E'') \<or> c = schar (CHR ''e'')" "sees s xs e" by auto
  from lex_get_save_ok [OF c(2), where k = k and t = "t @ [x]"] obtain c1 s1 where
    g: "lex_get_save get (lex_at k s (t @ [x])) = Some (c1, lex_at k s1 ((t @ [x]) @ take 1 xs))" "cur s1 xs e c1" by blast
  let ?sg = "if take 1 xs \<in> (\<lambda>y. [y]) ` {CHR ''+'', CHR ''-''} then take 1 xs else []"
  have "\<forall>y \<in> {CHR ''+'', CHR ''-''}. text_byte y" using text_literals by simp
  from optional_ok [OF g(2) this, where k = k and t = "t @ [x]"] obtain c2 s2 where
    o: "(if c1 \<in> schar ` {CHR ''+'', CHR ''-''} then lex_get_save get (lex_at k s1 ((t @ [x]) @ take 1 xs))
         else Some (c1, lex_at k s1 ((t @ [x]) @ take 1 xs))) =
      Some (c2, lex_at k s2 (((t @ [x]) @ ?sg) @ take 1 (drop (length ?sg) xs)))" "cur s2 (drop (length ?sg) xs) e c2" by blast
  from o(1) have o1: "(if c1 = schar (CHR ''+'') \<or> c1 = schar (CHR ''-'') then lex_get_save get (lex_at k s1 ((t @ [x]) @ take 1 xs))
         else Some (c1, lex_at k s1 ((t @ [x]) @ take 1 xs))) =
      Some (c2, lex_at k s2 (((t @ [x]) @ ?sg) @ take 1 (drop (length ?sg) xs)))" by simp
  have e1: "scan_exponent get c (lex_at k s (t @ take 1 zs)) =
      (if l_isdigit c2 then do {
         (c, l) \<leftarrow> lex_get_save get (lex_at k s2 (((t @ [x]) @ ?sg) @ take 1 (drop (length ?sg) xs)));
         (c, l) \<leftarrow> digits_loop get c l;
         Some (True, c, l)
       }
       else do { l \<leftarrow> lex_unget_unsave (lex_at k s2 (((t @ [x]) @ ?sg) @ take 1 (drop (length ?sg) xs))) c2; Some (False, c2, l) })"
  proof -
    have "t @ take 1 zs = t @ [x]" using zs(1) by simp
    then show ?thesis
      unfolding scan_exponent_def by (simp only: c(1) if_True g(1) Option.bind.bind_lunit prod.case o1 if_not_P if_P not_not cong: if_cong) simp
  qed
  have "part_result k e t (after [x] (after ?sg (digits_part (drop (length ?sg) xs)))) (scan_exponent get c (lex_at k s (t @ take 1 zs)))"
    unfolding e1 by (rule part_result_prefix, rule part_result_prefix, rule scan_digits_ok [OF o(2)])
  moreover have "after [x] (after ?sg (digits_part (drop (length ?sg) xs))) = exponent_part zs"
    using True zs(1) by (simp add: exponent_part_def after_def option.map_comp comp_def case_prod_unfold)
  ultimately show ?thesis by simp
qed

lemma lex_scan_number_ok:
  assumes "cur s zs e c"
  shows "scans e (scan_number rd zs) (map_option snd (lex_scan_number rd get c (lex_at k s (take 1 zs))))"
proof -
  let ?k = TOKEN_INVALID
  have nul: "NUL \<notin> set zs" using assms sees_bytes [of s _ e] by (cases zs) (auto simp: can_unget_def)
  from scan_integer_part_ok [OF assms, where k = ?k and t = "[]"]
  have ip: "part_result ?k e [] (integer_part zs) (scan_integer_part get c (lex_at ?k s (take 1 zs)))" by simp
  show ?thesis
  proof (cases "integer_part zs")
    case None
    with ip show ?thesis by (auto simp: part_result_def scans_def scan_number_def lex_scan_number_def)
  next
    case (Some ir)
    obtain it r1 where ir: "ir = (it, r1)" by fastforce
    with ip Some obtain c1 s1 where i: "scan_integer_part get c (lex_at ?k s (take 1 zs)) =
        Some (True, c1, lex_at ?k s1 (it @ take 1 r1))" "cur s1 r1 e c1" by (auto simp: part_result_def)
    note iz = integer_part_split [OF Some [unfolded ir]]
    have dot: "c1 \<in> schar ` set [CHR ''.'', CHR ''E'', CHR ''e''] \<longleftrightarrow> take 1 r1 \<in> {''.'', ''E'', ''e''}"
      using cur_schar [OF i(2)] text_literals by auto
    have num: "lex_scan_number rd get c (lex_at k s (take 1 zs)) =
        (if c1 \<notin> schar ` set [CHR ''.'', CHR ''E'', CHR ''e''] then do {
           l \<leftarrow> lex_unget_unsave (lex_at ?k s1 (it @ take 1 r1)) c1;
           let (value, erange, n) = strtoll (c_string (saved_text l));
           if erange then Some (-1, l)
           else do { defined (n = length (saved_text l)); Some (0, l\<lparr>lex_token := TOKEN_INTEGER value\<rparr>) }
         }
         else do {
           (ok, c, l) \<leftarrow> scan_fraction get c1 (lex_at ?k s1 (it @ take 1 r1));
           if \<not> ok then Some (-1, l)
           else do {
             (ok, c, l) \<leftarrow> scan_exponent get c l;
             if \<not> ok then Some (-1, l)
             else do {
               l \<leftarrow> lex_unget_unsave l c;
               value \<leftarrow> jsonp_strtod rd (saved_text l);
               Some (case value of None \<Rightarrow> (-1, l) | Some d \<Rightarrow> (0, l\<lparr>lex_token := TOKEN_REAL d\<rparr>))
             }
           }
         })"
      using i(1) by (simp add: lex_scan_number_def)
    show ?thesis
    proof (cases "take 1 r1 \<in> {''.'', ''E'', ''e''}")
      case False
      from lex_unget_unsave_ok [OF i(2), where k = ?k and t = it] obtain s2 where
        u: "lex_unget_unsave (lex_at ?k s1 (it @ take 1 r1)) c1 = Some (lex_at ?k s2 it)" "sees s2 r1 e" by blast
      have "c_string it = it" using nul iz by (simp add: is_cstr_def)
      with num dot u False Some ir show ?thesis
        by (cases "strtoll it") (auto simp: scans_def scan_number_def integer_token_def defined_def)
    next
      case True
      note fp = scan_fraction_ok [OF i(2), where k = ?k and t = it]
      show ?thesis
      proof (cases "fraction_part r1")
        case None
        with num dot True fp Some ir show ?thesis by (auto simp: part_result_def scans_def scan_number_def)
      next
        case fr: (Some fr)
        obtain ft r2 where ft: "fr = (ft, r2)" by fastforce
        with fp fr obtain c2 s2 where f: "scan_fraction get c1 (lex_at ?k s1 (it @ take 1 r1)) =
            Some (True, c2, lex_at ?k s2 ((it @ ft) @ take 1 r2))" "cur s2 r2 e c2" by (auto simp: part_result_def)
        note ep = scan_exponent_ok [OF f(2), where k = ?k and t = "it @ ft"]
        show ?thesis
        proof (cases "exponent_part r2")
          case None
          with num dot True f ep fr ft Some ir show ?thesis by (auto simp: part_result_def scans_def scan_number_def)
        next
          case er: (Some er)
          obtain et r3 where et: "er = (et, r3)" by fastforce
          with ep er obtain c3 s3 where x: "scan_exponent get c2 (lex_at ?k s2 ((it @ ft) @ take 1 r2)) =
              Some (True, c3, lex_at ?k s3 ((it @ ft @ et) @ take 1 r3))" "cur s3 r3 e c3" by (auto simp: part_result_def)
          from lex_unget_unsave_ok [OF x(2), where k = ?k and t = "it @ ft @ et"] obtain s4 where
            u: "lex_unget_unsave (lex_at ?k s3 ((it @ ft @ et) @ take 1 r3)) c3 = Some (lex_at ?k s4 (it @ ft @ et))"
              "sees s4 r3 e" by blast
          have nd: "(c1 \<notin> schar ` set [CHR ''.'', CHR ''E'', CHR ''e'']) = False" using dot True by blast
          from num [unfolded nd if_False] f(1) x(1) u(1)
          have "lex_scan_number rd get c (lex_at k s (take 1 zs)) = do {
              value \<leftarrow> jsonp_strtod rd (it @ ft @ et);
              Some (case value of None \<Rightarrow> (-1, lex_at ?k s4 (it @ ft @ et))
                | Some d \<Rightarrow> (0, lex_at (TOKEN_REAL d) s4 (it @ ft @ et))) }" by (simp cong: option.case_cong)
          with u(2) True fr ft er et Some ir show ?thesis
            by (cases "jsonp_strtod rd (it @ ft @ et)")
              (auto simp: scans_def scan_number_def real_token_def split: option.splits)
        qed
      qed
    qed
  qed
qed

section \<open>The next token\<close>

lemma scan_string_token:
  "scan_token rd e (CHR 0x22 # cs) = scan_string cs"
  by (simp add: scan_token_def)

lemma lex_scan_ok:
  assumes "sees (lex_stream l) xs e"
  shows "scans e (scan_token rd e xs) (lex_scan rd get l)"
proof -
  define k where "k = lex_token l"
  obtain s where s: "lex_stream l = s" by blast
  have l: "l\<lparr>saved_text := []\<rparr> = lex_at k s []" by (cases l) (use s in \<open>simp add: k_def\<close>)
  from lex_get_ok [OF assms, where k = k and t = "[]"] obtain c0 s0 where
    g: "lex_get get (lex_at k s []) = Some (c0, lex_at k s0 [])" "cur s0 xs e c0" unfolding s by blast
  from skip_space_ok [OF g(2), where k = k and t = "[]"] obtain c s1 where
    p: "skip_space get c0 (lex_at k s0 []) = Some (c, lex_at k s1 [])" "cur s1 (dropWhile space_byte xs) e c" by blast
  note fin = cur_end [OF p(2)]
  show ?thesis
  proof (cases "dropWhile space_byte xs")
    case Nil
    with p fin g l show ?thesis
      by (auto simp: scans_def scan_token_def lex_scan_def stream_states simp del: set_simps dropWhile_eq_Nil_conv)
  next
    case (Cons x cs)
    with p(2) have c: "c = schar x" "sees s1 cs e" "can_unget s1 x" by simp_all
    then have st: "schar x \<noteq> STREAM_STATE_EOF" "schar x \<noteq> STREAM_STATE_ERROR" "text_byte x"
      using text_byte_state [of x] by (auto simp: can_unget_def)
    have r: "lex_scan rd get l =
        (if x \<in> set [CHR ''{'', CHR ''}'', CHR ''['', CHR '']'', CHR '':'', CHR '','']
         then Some (lex_at (TOKEN_CHAR x) s1 [x])
         else if x = CHR 0x22 then lex_scan_string get (lex_at k s1 [x])
         else if digit_byte x \<or> x = CHR ''-''
         then map_option snd (lex_scan_number rd get (schar x) (lex_at k s1 (take 1 (x # cs))))
         else if alpha_byte x then do {
           (c, l) \<leftarrow> lex_get_save get (lex_at k s1 [x]);
           (c, l) \<leftarrow> alpha_loop get c l;
           l \<leftarrow> lex_unget_unsave l c;
           Some (l\<lparr>lex_token := identifier_token (c_string (saved_text l))\<rparr>)
         }
         else do { l \<leftarrow> lex_save_cached (lex_at k s1 [x]); Some (l\<lparr>lex_token := TOKEN_INVALID\<rparr>) })"
      using g(1) p(1) st unfolding lex_scan_def l
      by (simp add: c(1) lex_save_def Let_def map_option_bind_snd del: set_simps)
    consider (punct) "x \<in> set [CHR ''{'', CHR ''}'', CHR ''['', CHR '']'', CHR '':'', CHR '','']"
      | (quote) "x = CHR 0x22"
      | (num) "x \<notin> set [CHR ''{'', CHR ''}'', CHR ''['', CHR '']'', CHR '':'', CHR '','']" "x \<noteq> CHR 0x22"
          "digit_byte x \<or> x = CHR ''-''"
      | (alpha) "x \<notin> set [CHR ''{'', CHR ''}'', CHR ''['', CHR '']'', CHR '':'', CHR '','']" "x \<noteq> CHR 0x22"
          "\<not> (digit_byte x \<or> x = CHR ''-'')" "alpha_byte x"
      | (bad) "x \<notin> set [CHR ''{'', CHR ''}'', CHR ''['', CHR '']'', CHR '':'', CHR '','']" "x \<noteq> CHR 0x22"
          "\<not> (digit_byte x \<or> x = CHR ''-'')" "\<not> alpha_byte x" by blast
    then show ?thesis
    proof cases
      case punct
      with r c Cons show ?thesis by (simp add: scans_def scan_token_def del: set_simps)
    next
      case quote
      with r Cons lex_scan_string_ok [OF c(2), of k] show ?thesis by (simp add: scan_token_def)
    next
      case num
      then have "lex_scan rd get l = map_option snd (lex_scan_number rd get (schar x) (lex_at k s1 (take 1 (x # cs))))"
        using r by (simp del: set_simps)
      moreover have "cur s1 (x # cs) e (schar x)" using c by simp
      note lex_scan_number_ok [OF this, of rd k]
      moreover have "scan_token rd e xs = scan_number rd (x # cs)"
        using num Cons by (simp add: scan_token_def del: set_simps)
      ultimately show ?thesis by simp
    next
      case alpha
      from lex_get_save_ok [OF c(2), where k = k and t = "[x]"] obtain c2 s2 where
        a: "lex_get_save get (lex_at k s1 [x]) = Some (c2, lex_at k s2 ([x] @ take 1 cs))" "cur s2 cs e c2" by blast
      from alpha_loop_ok [OF a(2), where k = k and t = "[x]"] obtain c3 s3 where
        b: "alpha_loop get c2 (lex_at k s2 ([x] @ take 1 cs)) = Some (c3, lex_at k s3
              (([x] @ takeWhile alpha_byte cs) @ take 1 (dropWhile alpha_byte cs)))"
           "cur s3 (dropWhile alpha_byte cs) e c3" by auto
      from lex_unget_unsave_ok [OF b(2), where k = k and t = "[x] @ takeWhile alpha_byte cs"] obtain s4 where
        u: "lex_unget_unsave (lex_at k s3 (([x] @ takeWhile alpha_byte cs) @ take 1 (dropWhile alpha_byte cs))) c3 =
             Some (lex_at k s4 ([x] @ takeWhile alpha_byte cs))" "sees s4 (dropWhile alpha_byte cs) e" by blast
      have "NUL \<notin> set ([x] @ takeWhile alpha_byte cs)"
        using c(3) sees_bytes [OF c(2)] by (auto simp: can_unget_def dest: set_takeWhileD)
      then have "c_string ([x] @ takeWhile alpha_byte cs) = [x] @ takeWhile alpha_byte cs" by (simp add: is_cstr_def)
      then have "lex_scan rd get l = Some (lex_at (identifier_token (x # takeWhile alpha_byte cs)) s4 (x # takeWhile alpha_byte cs))"
        using r alpha a(1) b(1) u(1) by (simp del: set_simps)
      with u(2) alpha Cons show ?thesis by (simp add: scans_def scan_token_def del: set_simps)
    next
      case bad
      have "NUL \<in> set (drop (buffer_pos s1) (stream_buffer s1))"
        using c(2,3) fin by (auto simp: sees_def can_unget_def stream_states)
      with r bad Cons show ?thesis
        by (simp add: scans_def scan_token_def lex_save_cached_def Let_def del: set_simps)
    qed
  qed
qed

end

end
