(* ===== verification/Jansson_Load_Text.thy ===== *)
theory Jansson_Load_Text
  imports Jansson_Load_Scan
begin

text \<open>
  Facts about the tokens of a text: they always exist when the escapes of the text are
  well-formed, they split the text, and those of UTF-8 hold UTF-8.
\<close>

section \<open>Well-formed escapes\<close>

text \<open>After every \<^verbatim>\<open>\u\<close> come four letters or digits. Other characters fail an assertion.\<close>

fun escapes_ok :: "string \<Rightarrow> bool" where
  "escapes_ok [] = True"
| "escapes_ok (c # cs) = ((c = CHR 0x5C \<and> take 1 cs = ''u'' \<longrightarrow> decode_unicode_escape cs \<noteq> None) \<and> escapes_ok cs)"

lemma escapes_ok_append: "escapes_ok (a @ b) \<Longrightarrow> escapes_ok b"
  by (induction a) auto

lemma escapes_ok_drop: "escapes_ok xs \<Longrightarrow> escapes_ok (drop n xs)"
  using escapes_ok_append [of "take n xs" "drop n xs"] by simp

lemma escapes_ok_unicode: "escapes_ok (CHR 0x5C # CHR ''u'' # ds) \<Longrightarrow> escapes_ok (drop n ds)"
  using escapes_ok_drop [of "CHR 0x5C # CHR ''u'' # ds" "Suc (Suc n)"] by simp

lemma escape_digits_take: "escape_digits n (take n cs @ ds) v = escape_digits n cs v" if "n \<le> length cs"
  using that
proof (induction n arbitrary: cs v)
  case (Suc n)
  then obtain c cs' where "cs = c # cs'" by (cases cs) auto
  with Suc show ?case by (cases "escape_digit c") auto
qed simp

lemma decode_take:
  assumes "decode_unicode_escape (CHR ''u'' # ds) = Some v"
  shows "decode_unicode_escape (CHR ''u'' # take 4 ds @ b) = Some v"
  using assms decode_range [OF assms] by (simp add: decode_unicode_escape_def escape_digits_take)

lemma unescape_total:
  "string_end xs = Some (body, rest) \<Longrightarrow> escapes_ok xs \<Longrightarrow> unescape t (body @ [CHR 0x22]) \<noteq> None"
proof (induction "length xs" arbitrary: xs body t rule: less_induct)
  case less
  from less.prems(1) show ?case
  proof (cases rule: string_end_SomeE)
    case quote
    then show ?thesis by (simp add: unescape_simps)
  next
    case (plain c cs b)
    with less.hyps [of cs b "t @ [c]"] less.prems(2) show ?thesis by (simp add: unescape_simps)
  next
    case (simple d ds b)
    then obtain x where "simple_escape d = Some x" by (auto simp: simple_escape_def)
    moreover have "escapes_ok ds" using less.prems(2) simple(1) by simp
    ultimately show ?thesis
      using less.hyps [of ds b "t @ [x]"] simple by (simp add: unescape_escape escape_step_def)
  next
    case (unicode ds b)
    let ?cs = "CHR ''u'' # take 4 ds @ b @ [CHR 0x22]"
    from less.prems(2) unicode(1) obtain v where v: "decode_unicode_escape (CHR ''u'' # ds) = Some v" by auto
    from decode_range [OF v] have len: "4 \<le> length ds" by simp
    from decode_take [OF v] have v': "decode_unicode_escape ?cs = Some v" by simp
    have drop: "drop 5 ?cs = b @ [CHR 0x22]" using len by simp
    have esc: "escapes_ok (drop 4 ds)" using less.prems(2) unfolding unicode(1) by (rule escapes_ok_unicode)
    have IH: "unescape u (b @ [CHR 0x22]) \<noteq> None" for u
      using less.hyps [OF _ unicode(2) esc] unicode(1) by simp
    have "escape_step ?cs \<noteq> None \<and> (\<forall>bs r. escape_step ?cs = Some (Some (bs, r)) \<longrightarrow> (\<forall>u. unescape u r \<noteq> None))"
    proof (cases "(0xD800 \<le> v \<and> v \<le> 0xDBFF) \<and> take 2 (b @ [CHR 0x22]) = [CHR 0x5C, CHR ''u'']")
      case False
      then show ?thesis using v' drop IH by (auto simp: escape_step_def Let_def)
    next
      case True
      then have b: "take 2 b = [CHR 0x5C, CHR ''u'']" by (cases b; cases "tl b") auto
      from unicode(2) have "\<exists>ds' b'. drop 4 ds = CHR 0x5C # CHR ''u'' # ds' \<and> string_end (drop 4 ds') = Some (b', rest) \<and>
          b = CHR 0x5C # CHR ''u'' # take 4 ds' @ b'"
        by (cases rule: string_end_SomeE) (use b in auto)
      then obtain ds' b' where d: "drop 4 ds = CHR 0x5C # CHR ''u'' # ds'" "string_end (drop 4 ds') = Some (b', rest)"
        "b = CHR 0x5C # CHR ''u'' # take 4 ds' @ b'" by blast
      from esc d(1) obtain v2 where v2: "decode_unicode_escape (CHR ''u'' # ds') = Some v2" by auto
      from decode_range [OF v2] have len2: "4 \<le> length ds'" by simp
      have v2': "decode_unicode_escape (drop 1 (b @ [CHR 0x22])) = Some v2" using decode_take [OF v2] d(3) by simp
      have drop2: "drop 6 (b @ [CHR 0x22]) = b' @ [CHR 0x22]" using len2 d(3) by simp
      have "escapes_ok (drop 4 ds')" using esc unfolding d(1) by (rule escapes_ok_unicode)
      moreover have "length (drop 4 ds') < length xs"
        using unicode(1) arg_cong [OF d(1), of length] by simp
      ultimately have "unescape u (b' @ [CHR 0x22]) \<noteq> None" for u using less.hyps [OF _ d(2)] by blast
      with v' drop v2' drop2 True show ?thesis by (auto simp: escape_step_def Let_def simp del: drop_drop)
    qed
    then show ?thesis unfolding unicode(3) append_Cons append_assoc unescape_escape
      by (auto split: option.splits)
  qed
qed

section \<open>The numbers that the C library reads\<close>

lemma is_digit_byte: "is_digit 10 c \<longleftrightarrow> digit_byte c"
  using uchar_range [of c] of_nat_of_char [of c, where 'a = int]
  by (auto simp: is_digit_def digit_value_def l_isdigit_def schar_def)

text \<open>
  \<^verbatim>\<open>strtod\<close> reads the whole of a decimal number: an optional minus sign, digits, an optional
  fraction and an optional exponent, with the decimal point of the locale.
\<close>

definition digits_text :: "string \<Rightarrow> bool" where
  "digits_text ds \<longleftrightarrow> ds \<noteq> [] \<and> (\<forall>c \<in> set ds. digit_byte c)"

definition sign_text :: "string \<Rightarrow> bool" where
  "sign_text sg \<longleftrightarrow> sg = [] \<or> sg = ''-''"

definition fraction_text :: "string \<Rightarrow> bool" where
  "fraction_text ft \<longleftrightarrow> ft = [] \<or> (\<exists>ds. ft = CHR ''.'' # ds \<and> digits_text ds)"

definition exponent_text :: "string \<Rightarrow> bool" where
  "exponent_text et \<longleftrightarrow> et = [] \<or>
     (\<exists>x sg ds. et = x # sg @ ds \<and> x \<in> {CHR ''e'', CHR ''E''} \<and> sg \<in> {[], ''+'', ''-''} \<and> digits_text ds)"

definition strtod_ok :: "number_reader \<Rightarrow> bool" where
  "strtod_ok rd \<longleftrightarrow> (\<forall>sg ds ft et. sign_text sg \<and> digits_text ds \<and> fraction_text ft \<and> exponent_text et \<longrightarrow>
     snd (snd (strtod rd (to_locale (reader_point rd) (sg @ ds @ ft @ et)))) = length (sg @ ds @ ft @ et))"

lemma digits_part_text: "digits_part xs = Some (p, rest) \<Longrightarrow> digits_text p"
  by (auto simp: digits_part_def digits_text_def dest: set_takeWhileD split: if_splits)

lemma integer_part_text:
  assumes "integer_part xs = Some (p, rest)"
  shows "\<exists>sg ds. p = sg @ ds \<and> sign_text sg \<and> digits_text ds"
proof -
  define sg where "sg = (if take 1 xs \<in> (\<lambda>y. [y]) ` {CHR ''-''} then take 1 xs else [])"
  from assms obtain ds where ds: "p = sg @ ds" "integer_digits (drop (length sg) xs) = Some (ds, rest)"
    by (auto simp: integer_part_def Let_def after_split sg_def)
  have "sign_text sg" by (auto simp: sg_def sign_text_def)
  moreover have "digits_text ''0''" by (simp add: digits_text_def l_isdigit_def schar_def)
  then have "digits_text ds" using ds(2) digits_part_text [of "drop (length sg) xs" ds rest]
    unfolding integer_digits_def by (metis option.distinct(1) option.inject prod.inject)
  ultimately show ?thesis using ds(1) by blast
qed

lemma fraction_part_text: "fraction_part xs = Some (p, rest) \<Longrightarrow> fraction_text p"
  using digits_part_text by (auto simp: fraction_part_def fraction_text_def after_split split: if_splits)

lemma exponent_part_text:
  assumes "exponent_part xs = Some (p, rest)"
  shows "exponent_text p"
proof (cases "take 1 xs = ''E'' \<or> take 1 xs = ''e''")
  case True
  define sg where "sg = (if take 1 (tl xs) \<in> (\<lambda>y. [y]) ` {CHR ''+'', CHR ''-''} then take 1 (tl xs) else [])"
  from assms True obtain q where q: "digits_part (drop (length sg) (tl xs)) = Some (q, rest)" "p = take 1 xs @ sg @ q"
    by (auto simp: exponent_part_def Let_def after_split sg_def)
  moreover have "sg \<in> {[], ''+'', ''-''}" by (auto simp: sg_def)
  moreover obtain x where "take 1 xs = [x]" "x \<in> {CHR ''e'', CHR ''E''}" using True by auto
  ultimately have "p = x # sg @ q \<and> x \<in> {CHR ''e'', CHR ''E''} \<and> sg \<in> {[], ''+'', ''-''} \<and> digits_text q"
    using digits_part_text [OF q(1)] by simp
  then show ?thesis unfolding exponent_text_def by blast
qed (use assms in \<open>auto simp: exponent_part_def exponent_text_def\<close>)

lemma strtoll_digits:
  assumes "sign_text sg" "digits_text ds"
  defines "v \<equiv> (if sg = [] then digits_value 10 ds else - digits_value 10 ds)"
  shows "strtoll (sg @ ds) = (max LONG_MIN (min LONG_MAX v), v < LONG_MIN \<or> LONG_MAX < v, length (sg @ ds))"
proof -
  have all: "\<forall>c \<in> set ds. is_digit 10 c" using assms(2) by (simp add: digits_text_def is_digit_byte)
  then have t: "takeWhile (is_digit 10) ds = ds" "dropWhile (is_digit 10) ds = []" by (simp_all add: takeWhile_all)
  obtain d ds' where d: "ds = d # ds'" using assms(2) by (cases ds) (auto simp: digits_text_def)
  with all have h: "\<not> isspace d" "d \<noteq> CHR ''-''" "d \<noteq> CHR ''+''" using digit_not_special [of d] by auto
  have "\<not> isspace (CHR ''-'')" by (simp add: isspace_def)
  with h(1) d assms(1) have l: "n2a_lstrip (sg @ ds) = sg @ ds" by (auto simp: sign_text_def)
  show ?thesis
  proof (cases "sg = []")
    case True
    then show ?thesis unfolding strtoll_def l v_def Let_def using t h d by simp
  next
    case False
    then have "sg = ''-''" using assms(1) by (simp add: sign_text_def)
    then show ?thesis unfolding strtoll_def l v_def Let_def using t d by simp
  qed
qed

lemma scan_number_total:
  assumes "strtod_ok rd" "NUL \<notin> set xs"
  shows "scan_number rd xs \<noteq> None"
proof (cases "integer_part xs")
  case (Some ir)
  obtain it r1 where ir: "integer_part xs = Some (it, r1)" using Some by fastforce
  from integer_part_text [OF ir] obtain sg ds where it: "it = sg @ ds" "sign_text sg" "digits_text ds" by blast
  have int: "integer_token it r1 \<noteq> None"
    using strtoll_digits [OF it(2,3)] by (simp add: integer_token_def it(1) Let_def)
  have real: "real_token rd (it @ ft @ et) r3 \<noteq> None"
    if "fraction_part r1 = Some (ft, r2)" "exponent_part r2 = Some (et, r3)" for ft r2 et r3
  proof -
    have "xs = it @ ft @ et @ r3"
      using integer_part_split [OF ir] fraction_part_split [OF that(1)] exponent_part_split [OF that(2)] by simp
    then have "c_string (it @ ft @ et) = it @ ft @ et" using assms(2) by (simp add: is_cstr_def)
    moreover have "snd (snd (strtod rd (to_locale (reader_point rd) (it @ ft @ et)))) = length (it @ ft @ et)"
      using assms(1) it fraction_part_text [OF that(1)] exponent_part_text [OF that(2)]
      unfolding strtod_ok_def by simp
    ultimately show ?thesis by (simp add: real_token_def jsonp_strtod_def case_prod_unfold Let_def)
  qed
  show ?thesis using int real ir by (auto simp: scan_number_def split: option.splits)
qed (simp add: scan_number_def)

lemma scan_token_total:
  assumes "strtod_ok rd" "NUL \<notin> set xs" "escapes_ok xs"
  shows "scan_token rd e xs \<noteq> None"
proof (cases "dropWhile space_byte xs")
  case (Cons c cs)
  then have xs: "xs = takeWhile space_byte xs @ c # cs" by (metis takeWhile_dropWhile_id)
  have "escapes_ok (c # cs)" using escapes_ok_append [of "takeWhile space_byte xs" "c # cs"] assms(3) xs by simp
  then have "escapes_ok cs" by simp
  then have "unescape [] (body @ [CHR 0x22]) \<noteq> None" if "string_end cs = Some (body, rest)" for body rest
    using unescape_total that by blast
  then have s: "scan_string cs \<noteq> None"
    by (cases "string_end cs") (auto simp: scan_string_def simp del: not_None_eq)
  have "NUL \<notin> set (c # cs)" using assms(2) xs by (metis Un_iff set_append)
  with s scan_number_total [OF assms(1)] Cons show ?thesis by (simp add: scan_token_def del: set_simps)
qed (simp add: scan_token_def del: set_simps dropWhile_eq_Nil_conv)

section \<open>Tokens split the text\<close>

lemma scan_string_split:
  assumes "scan_string xs = Some (k, rest)" "k \<noteq> TOKEN_INVALID"
  shows "\<exists>body t. string_end xs = Some (body, rest) \<and> unescape [] (body @ [CHR 0x22]) = Some (Some t) \<and>
    k = TOKEN_STRING (Some t) \<and> xs = body @ CHR 0x22 # rest"
  using assms string_end_split [of xs] by (auto simp: scan_string_def split: option.splits)

lemma scan_number_split:
  assumes "scan_number rd xs = Some (k, rest)" "k \<noteq> TOKEN_INVALID"
  shows "\<exists>tx. xs = tx @ rest \<and> tx \<noteq> [] \<and> (\<forall>c \<in> set tx. uchar c < 0x80) \<and>
    (\<exists>i. k = TOKEN_INTEGER i \<and> is_int64 i \<or> (\<exists>d. k = TOKEN_REAL d))"
proof -
  have "uchar c < 0x80" if "digit_byte c" for c
    using that uchar_range [of c] by (auto simp: l_isdigit_def schar_def split: if_splits)
  then have ascii: "\<forall>c \<in> set ds. uchar c < 0x80" if "digits_text ds" for ds
    using that by (simp add: digits_text_def)
  from assms obtain it r1 where it: "integer_part xs = Some (it, r1)"
    by (auto simp: scan_number_def split: option.splits)
  from integer_part_text [OF it] obtain sg ds where s: "it = sg @ ds" "sign_text sg" "digits_text ds" by blast
  have a1: "it \<noteq> []" "\<forall>c \<in> set it. uchar c < 0x80"
    using s ascii [OF s(3)] by (auto simp: sign_text_def digits_text_def)
  show ?thesis
  proof (cases "take 1 r1 \<in> {''.'', ''E'', ''e''}")
    case False
    with assms it have t: "integer_token it r1 = Some (k, rest)" by (simp add: scan_number_def)
    then have "rest = r1" "\<exists>i. k = TOKEN_INTEGER i \<and> is_int64 i"
      using assms(2) strtoll_digits [OF s(2,3)]
      by (auto simp: integer_token_def Let_def s(1) is_int64_def LONG_MIN_def LONG_MAX_def split: if_splits)
    with a1 integer_part_split [OF it] show ?thesis by blast
  next
    case True
    with assms it obtain ft r2 et where f: "fraction_part r1 = Some (ft, r2)" "exponent_part r2 = Some (et, rest)"
      "\<exists>d. k = TOKEN_REAL d"
      by (auto simp: scan_number_def real_token_def split: option.splits if_splits)
    have "\<forall>c \<in> set ft. uchar c < 0x80" using fraction_part_text [OF f(1)] ascii by (auto simp: fraction_text_def)
    moreover have "\<forall>c \<in> set et. uchar c < 0x80" using exponent_part_text [OF f(2)] ascii by (auto simp: exponent_text_def)
    ultimately show ?thesis
      using a1 f(3) integer_part_split [OF it] fraction_part_split [OF f(1)] exponent_part_split [OF f(2)]
      by (intro exI [of _ "it @ ft @ et"]) auto
  qed
qed

section \<open>Tokens of UTF-8\<close>

declare utf8_check_bytes.simps(2) [simp del]

lemma byte_literals: "byte 0x22 = CHR 0x22" "byte 0x5C = CHR 0x5C"
  by code_simp+

lemma enc_high:
  assumes "scalar cp" "0x80 \<le> cp" "c \<in> set (enc cp)"
  shows "0x80 \<le> uchar c"
proof -
  have cont: "0x80 \<le> uchar (byte (0x80 + w mod 64))" for w :: int
    using pos_mod_sign [of 64 w] pos_mod_bound [of 64 w] by simp
  consider "cp < 0x800" | "0x800 \<le> cp" "cp < 0x10000" | "0x10000 \<le> cp" by linarith
  then show ?thesis
  proof cases
    case 1
    then have "0 \<le> cp div 64" "cp div 64 < 32" using assms div_64_less [of cp 32] by simp_all
    with 1 assms cont show ?thesis by (auto simp: enc_2)
  next
    case 2
    then have "0 \<le> cp div 64 div 64" "cp div 64 div 64 < 16"
      using div_64_less [of cp 1024] div_64_less [of "cp div 64" 16] by simp_all
    with 2 assms cont show ?thesis by (auto simp: enc_3)
  next
    case 3
    have cp: "0 \<le> cp" "cp \<le> 0x10FFFF" using assms(1) by (simp_all only: scalar_def)
    have "0 \<le> cp div 64 div 64 div 64 \<and> cp div 64 div 64 div 64 < 16"
    proof -
      from cp have "cp < 64 * 65536" by simp
      from div_64_less [OF cp(1) this] have "0 \<le> cp div 64" "cp div 64 < 64 * 1024" by simp_all
      from div_64_less [OF this] have "0 \<le> cp div 64 div 64" "cp div 64 div 64 < 64 * 16" by simp_all
      from div_64_less [OF this] show ?thesis .
    qed
    then have "0x80 \<le> uchar (byte (0xF0 + cp div 64 div 64 div 64))" by simp
    moreover have "enc cp = [byte (0xF0 + cp div 64 div 64 div 64), byte (0x80 + cp div 64 div 64 mod 64),
        byte (0x80 + cp div 64 mod 64), byte (0x80 + cp mod 64)]" using enc_4 [OF 3] assms(1) by (simp only: scalar_def snd_conv)
    ultimately show ?thesis using assms(3) cont by (metis empty_iff empty_set set_ConsD)
  qed
qed

lemma enc_ascii: "scalar cp \<Longrightarrow> cp < 0x80 \<Longrightarrow> enc cp = [byte cp]"
  by (simp add: enc_1 scalar_def)

text \<open>UTF-8 can be cut at an ASCII character.\<close>

lemma codes_split_ascii:
  "\<forall>cp \<in> set cps. scalar cp \<Longrightarrow> concat (map enc cps) = a @ c # b \<Longrightarrow> uchar c < 0x80 \<Longrightarrow>
   \<exists>us vs. cps = us @ uchar c # vs \<and> a = concat (map enc us) \<and> b = concat (map enc vs)"
proof (induction cps arbitrary: a)
  case (Cons cp cps)
  have cp: "scalar cp" using Cons.prems by simp
  show ?case
  proof (cases "cp < 0x80")
    case True
    then have e: "enc cp = [byte cp]" using cp by (rule enc_ascii [rotated])
    show ?thesis
    proof (cases a)
      case Nil
      with Cons.prems e have "c = byte cp" "b = concat (map enc cps)" by auto
      then show ?thesis using True cp Nil by (intro exI [of _ "[]"] exI [of _ cps]) (auto simp: scalar_def)
    next
      case (Cons x a')
      with Cons.prems e have "x = byte cp" "concat (map enc cps) = a' @ c # b" by auto
      with Cons.IH [of a'] Cons.prems obtain us vs where
        "cps = us @ uchar c # vs" "a' = concat (map enc us)" "b = concat (map enc vs)" by auto
      with e Cons \<open>x = byte cp\<close> show ?thesis by (intro exI [of _ "cp # us"] exI [of _ vs]) simp
    qed
  next
    case False
    then have "\<forall>x \<in> set (enc cp). 0x80 \<le> uchar x" using enc_high [OF cp] by simp
    then have "c \<notin> set (enc cp)" using Cons.prems(3) by auto
    with Cons.prems(2) obtain a' where a': "a = enc cp @ a'" "concat (map enc cps) = a' @ c # b"
      by (auto simp: append_eq_append_conv2 append_eq_Cons_conv Cons_eq_append_conv)
    with Cons.IH [of a'] Cons.prems obtain us vs where
      "cps = us @ uchar c # vs" "a' = concat (map enc us)" "b = concat (map enc vs)" by auto
    with a' show ?thesis by (intro exI [of _ "cp # us"] exI [of _ vs]) simp
  qed
qed simp

lemma utf8_split_ascii:
  assumes "utf8_check_bytes (a @ c # b)" "uchar c < 0x80"
  shows "utf8_check_bytes a" "utf8_check_bytes b"
proof -
  from assms(1) obtain cps where cps: "\<forall>cp \<in> set cps. scalar cp" "concat (map enc cps) = a @ c # b"
    unfolding utf8_check_bytes_iff by metis
  from codes_split_ascii [OF cps assms(2)] obtain us vs where
    "cps = us @ uchar c # vs" "a = concat (map enc us)" "b = concat (map enc vs)" by blast
  with cps(1) show "utf8_check_bytes a" "utf8_check_bytes b" unfolding utf8_check_bytes_iff by auto
qed

lemma utf8_drop_ascii: "utf8_check_bytes (a @ b) \<Longrightarrow> \<forall>c \<in> set a. uchar c < 0x80 \<Longrightarrow> utf8_check_bytes b"
proof (induction a)
  case (Cons c a)
  then show ?case using utf8_split_ascii(2) [of "[]" c "a @ b"] by simp
qed simp

lemma utf8_append: "utf8_check_bytes a \<Longrightarrow> utf8_check_bytes b \<Longrightarrow> utf8_check_bytes (a @ b)"
  unfolding utf8_check_bytes_iff by (metis concat_append map_append set_append Un_iff)

lemma utf8_enc: "scalar cp \<Longrightarrow> utf8_check_bytes (enc cp)"
  unfolding utf8_check_bytes_iff by (rule exI [of _ "[cp]"]) simp

text \<open>The bytes of a code point beyond ASCII are copied as they are.\<close>

lemma unescape_plain:
  "\<forall>c \<in> set bs. c \<noteq> CHR 0x22 \<and> c \<noteq> CHR 0x5C \<Longrightarrow> unescape t (bs @ p) = unescape (t @ bs) p"
  by (induction bs arbitrary: t) (simp_all add: unescape_simps)

lemma unescape_enc:
  assumes "scalar cp" "cp \<noteq> 0x22" "cp \<noteq> 0x5C"
  shows "unescape t (enc cp @ p) = unescape (t @ enc cp) p"
proof (rule unescape_plain)
  have l: "uchar (CHR 0x22) = 0x22" "uchar (CHR 0x5C) = 0x5C" by simp_all
  show "\<forall>c \<in> set (enc cp). c \<noteq> CHR 0x22 \<and> c \<noteq> CHR 0x5C"
  proof (cases "cp < 0x80")
    case True
    with assms have "uchar (byte cp) = cp" by (simp add: scalar_def)
    then have "byte cp \<noteq> CHR 0x22" "byte cp \<noteq> CHR 0x5C" using assms(2,3) l by metis+
    with enc_ascii [OF assms(1) True] show ?thesis by simp
  next
    case False
    with enc_high [OF assms(1)] l show ?thesis by fastforce
  qed
qed

lemma decode_ascii:
  assumes "decode_unicode_escape cs = Some v"
  shows "\<forall>c \<in> set (take 5 cs). uchar c < 0x80"
proof -
  have d: "uchar c < 0x80" if "escape_digit c = Some x" for c x
    using that uchar_range [of c]
    by (auto simp: escape_digit_def l_isdigit_def l_islower_def l_isupper_def schar_def Let_def split: if_splits)
  have "(4 :: nat) = Suc (Suc (Suc (Suc 0)))" "(5 :: nat) = Suc (Suc (Suc (Suc (Suc 0))))" by simp_all
  with assms d show ?thesis
    by (cases cs) (auto simp: decode_unicode_escape_def escape_digits_Suc bind_eq_Some_conv simp del: escape_digits.simps(2,3))
qed

lemma escape_step_ascii:
  assumes "escape_step cs = Some (Some (bs, rest))"
  shows "\<exists>n. rest = drop n cs \<and> (\<forall>c \<in> set (take n cs). uchar c < 0x80)"
proof -
  from assms obtain d ds where cs: "cs = d # ds" by (cases cs) (simp_all add: escape_step_def)
  show ?thesis
  proof (cases "d = CHR ''u''")
    case False
    with assms cs obtain e where "simple_escape d = Some e" "rest = ds" by (auto simp: escape_step_def bind_eq_Some_conv)
    then show ?thesis using cs by (intro exI [of _ 1]) (auto simp: simple_escape_def split: if_splits)
  next
    case True
    with assms cs obtain v where v: "decode_unicode_escape cs = Some v" by (auto simp: escape_step_def bind_eq_Some_conv)
    note a = decode_ascii [OF v]
    show ?thesis
    proof (cases "0xD800 \<le> v \<and> v \<le> 0xDBFF")
      case False
      with assms cs True v have "rest = drop 5 cs" by (auto simp: escape_step_def Let_def split: if_splits)
      with a show ?thesis by blast
    next
      case sur: True
      with assms cs True v obtain v2 where v2: "take 2 (drop 5 cs) = [CHR 0x5C, CHR ''u'']"
        "decode_unicode_escape (drop 1 (drop 5 cs)) = Some v2" "rest = drop 6 (drop 5 cs)"
        by (auto simp: escape_step_def Let_def bind_eq_Some_conv simp del: drop_drop split: if_splits)
      have "take 11 cs = take 5 cs @ take 1 (drop 5 cs) @ take 5 (drop 1 (drop 5 cs))"
        using take_add [of 5 6 cs] take_add [of 1 5 "drop 5 cs"] by simp
      moreover have "take 1 (drop 5 cs) = [CHR 0x5C]" using v2(1) by (cases "drop 5 cs") auto
      ultimately have "\<forall>c \<in> set (take 11 cs). uchar c < 0x80" using a decode_ascii [OF v2(2)] by auto
      then show ?thesis using v2(3) by (intro exI [of _ 11]) simp
    qed
  qed
qed

lemma unescape_utf8:
  "utf8_check_bytes p \<Longrightarrow> unescape t p = Some (Some u) \<Longrightarrow> \<exists>w. u = t @ w \<and> utf8_check_bytes w"
proof (induction "length p" arbitrary: p t rule: less_induct)
  case less
  from less.prems(1) obtain cps where cps: "\<forall>cp \<in> set cps. scalar cp" "p = concat (map enc cps)"
    unfolding utf8_check_bytes_iff by blast
  show ?case
  proof (cases cps)
    case Nil
    with less.prems cps show ?thesis by (simp add: unescape_simps)
  next
    case (Cons cp cps')
    define q where "q = concat (map enc cps')"
    have q: "p = enc cp @ q" "scalar cp" "utf8_check_bytes q"
      using cps Cons unfolding q_def utf8_check_bytes_iff by auto
    have len: "length q < length p" using q enc_nonempty [OF q(2)] by (cases "enc cp") auto
    consider (quote) "cp = 0x22" | (esc) "cp = 0x5C" | (plain) "cp \<noteq> 0x22" "cp \<noteq> 0x5C" by blast
    then show ?thesis
    proof cases
      case quote
      then have "enc cp = [CHR 0x22]" by (simp add: utf8_encode_def byte_literals)
      with less.prems(2) q(1) show ?thesis by (intro exI [of _ "[]"]) (simp add: unescape_simps)
    next
      case plain
      with less.prems(2) q unescape_enc [of cp] have "unescape (t @ enc cp) q = Some (Some u)" by simp
      from less.hyps [OF len q(3) this] obtain w where "u = (t @ enc cp) @ w" "utf8_check_bytes w" by blast
      with utf8_append [OF utf8_enc [OF q(2)]] show ?thesis by (intro exI [of _ "enc cp @ w"]) simp
    next
      case esc
      then have "enc cp = [CHR 0x5C]" by (simp add: utf8_encode_def byte_literals)
      with less.prems(2) q(1) obtain bs rest where s: "escape_step q = Some (Some (bs, rest))" "unescape (t @ bs) rest = Some (Some u)"
        by (auto simp: unescape_escape split: option.splits)
      from escape_step_ascii [OF s(1)] obtain n where n: "rest = drop n q" "\<forall>c \<in> set (take n q). uchar c < 0x80" by blast
      have "utf8_check_bytes rest" using utf8_drop_ascii [of "take n q" "drop n q"] q(3) n by simp
      moreover have "length rest < length p" using len n(1) by simp
      ultimately obtain w where "u = (t @ bs) @ w" "utf8_check_bytes w" using less.hyps s(2) by blast
      moreover from escape_step_SomeD [OF s(1)] have "utf8_check_bytes bs" using utf8_enc by auto
      ultimately show ?thesis using utf8_append by (intro exI [of _ "bs @ w"]) simp
    qed
  qed
qed

text \<open>What the parser relies on.\<close>

fun token_ok :: "token \<Rightarrow> bool" where
  "token_ok (TOKEN_STRING s) = (case s of None \<Rightarrow> False | Some t \<Rightarrow> utf8_text t)"
| "token_ok (TOKEN_INTEGER i) = is_int64 i"
| "token_ok k = True"

lemma scan_token_ok:
  assumes "scan_token rd e xs = Some (k, rest)" "k \<noteq> TOKEN_INVALID" "NUL \<notin> set xs" "utf8_check_bytes xs"
  shows "\<exists>tx. xs = tx @ rest \<and> (k \<noteq> TOKEN_EOF \<longrightarrow> tx \<noteq> []) \<and> utf8_check_bytes rest \<and> token_ok k"
proof -
  define sp where "sp = takeWhile space_byte xs"
  have xs: "xs = sp @ dropWhile space_byte xs" by (simp add: sp_def)
  have "\<forall>c \<in> set sp. uchar c < 0x80" by (auto simp: sp_def dest: set_takeWhileD)
  with assms(4) xs have u: "utf8_check_bytes (dropWhile space_byte xs)" using utf8_drop_ascii [of sp] by metis
  show ?thesis
  proof (cases "dropWhile space_byte xs")
    case Nil
    with assms(1,2) have "k = TOKEN_EOF" "rest = []"
      by (auto simp: scan_token_def simp del: set_simps dropWhile_eq_Nil_conv split: if_splits)
    moreover have "xs = sp" using xs unfolding Nil by simp
    ultimately show ?thesis by (intro exI [of _ sp]) simp
  next
    case (Cons c cs)
    have *: ?thesis if "c # cs = tx @ rest" "tx \<noteq> []" "utf8_check_bytes rest" "token_ok k" for tx
      using xs Cons that by (intro exI [of _ "sp @ tx"]) simp
    consider (punct) "c \<in> set [CHR ''{'', CHR ''}'', CHR ''['', CHR '']'', CHR '':'', CHR '','']" "k = TOKEN_CHAR c" "rest = cs"
      | (quote) "c = CHR 0x22" "scan_string cs = Some (k, rest)"
      | (num) "scan_number rd (c # cs) = Some (k, rest)"
      | (alpha) "alpha_byte c" "k = identifier_token (takeWhile alpha_byte (c # cs))" "rest = dropWhile alpha_byte (c # cs)"
    proof -
      have "(if c \<in> set [CHR ''{'', CHR ''}'', CHR ''['', CHR '']'', CHR '':'', CHR '',''] then Some (TOKEN_CHAR c, cs)
          else if c = CHR 0x22 then scan_string cs
          else if digit_byte c \<or> c = CHR ''-'' then scan_number rd (c # cs)
          else if alpha_byte c then Some (identifier_token (takeWhile alpha_byte (c # cs)), dropWhile alpha_byte (c # cs))
          else Some (TOKEN_INVALID, [])) = Some (k, rest)"
        using assms(1) unfolding scan_token_def Cons list.case .
      then show thesis
        using that assms(2) by (metis option.inject prod.inject)
    qed
    then show ?thesis
    proof cases
      case punct
      then have "uchar c < 0x80" by auto
      with utf8_split_ascii(2) [of "[]" c cs] u Cons punct show ?thesis by (intro * [of "[c]"]) auto
    next
      case quote
      from scan_string_split [OF quote(2) assms(2)] obtain body t where
        b: "unescape [] (body @ [CHR 0x22]) = Some (Some t)" "k = TOKEN_STRING (Some t)" "cs = body @ CHR 0x22 # rest" by blast
      have q: "uchar (CHR 0x22) < 0x80" by simp
      have "utf8_check_bytes cs" using utf8_split_ascii(2) [of "[]" c cs] u Cons quote(1) q by simp
      with b(3) utf8_split_ascii [of body "CHR 0x22" rest] q have r: "utf8_check_bytes body" "utf8_check_bytes rest" by simp_all
      have "utf8_check_bytes [CHR 0x22]" by code_simp
      with r(1) have "utf8_check_bytes (body @ [CHR 0x22])" by (rule utf8_append)
      with unescape_utf8 [OF _ b(1)] have "utf8_check_bytes t" by auto
      moreover have "NUL \<notin> set cs" using assms(3) xs Cons by (metis Un_iff list.set_intros(2) set_append)
      then have "is_cstr t" using unescape_SomeD [OF b(1)] b(3) by (auto simp: is_cstr_def)
      ultimately show ?thesis using b quote(1) r(2) by (intro * [of "c # body @ [CHR 0x22]"]) (simp_all add: utf8_text_def)
    next
      case num
      from scan_number_split [OF num assms(2)] obtain tx where t: "c # cs = tx @ rest" "tx \<noteq> []" "\<forall>c \<in> set tx. uchar c < 0x80"
        "\<exists>i. k = TOKEN_INTEGER i \<and> is_int64 i \<or> (\<exists>d. k = TOKEN_REAL d)" by blast
      then have "utf8_check_bytes rest" using utf8_drop_ascii [of tx rest] u Cons by simp
      with t show ?thesis by (intro * [of tx]) auto
    next
      case alpha
      let ?tx = "takeWhile alpha_byte (c # cs)"
      have a: "c # cs = ?tx @ rest" using alpha(3) by simp
      have "uchar y < 0x80" if "alpha_byte y" for y
        using that uchar_range [of y] by (auto simp: l_isalpha_def l_isupper_def l_islower_def schar_def split: if_splits)
      then have "\<forall>y \<in> set ?tx. uchar y < 0x80" by (metis set_takeWhileD)
      then have "utf8_check_bytes rest" using utf8_drop_ascii [of ?tx rest] u Cons a by metis
      moreover have "token_ok k" by (simp add: alpha(2) identifier_token_def)
      ultimately show ?thesis using a alpha(1) by (intro * [of ?tx]) auto
    qed
  qed
qed

text \<open>The readable bytes of an input are UTF-8.\<close>

lemma readable_is_utf8: "utf8_check_bytes (fst (readable p))"
proof (induction p rule: readable.induct)
  case (2 b bs)
  let ?n = "utf8_check_first b"
  show ?case
  proof (cases "?n = 0 \<or> ?n > 1 \<and> utf8_check_full (b # bs) ?n = None")
    case False
    have "utf8_check_bytes (take (nat ?n) (b # bs))"
    proof (cases "?n > 1")
      case True
      with False obtain v where v: "utf8_check_full (b # bs) ?n = Some v" by auto
      from check_full_enc [OF refl True v] have e: "scalar v" "b # bs = enc v @ drop (nat ?n) (b # bs)" by simp_all
      then have "take (nat ?n) (b # bs) = enc v" using True
        by (metis append_eq_conv_conj append_take_drop_id append_same_eq)
      with utf8_enc [OF e(1)] show ?thesis by simp
    next
      case n: False
      then have one: "?n = 1" using False check_first_range(5) [of b] by auto
      then have "take (nat ?n) (b # bs) = [b]" by simp
      with one show ?thesis by (simp add: utf8_check_bytes.simps(2))
    qed
    with 2 [OF refl False] False show ?thesis
      by (simp add: readable.simps(2) Let_def case_prod_unfold utf8_append del: take_Cons' drop_Cons')
  qed (simp add: readable.simps(2) Let_def)
qed simp

end
