(* ===== verification/Jansson_Load_Parse.thy ===== *)
theory Jansson_Load_Parse
  imports Jansson_Load_Text Jansson_Value_Map
begin

text \<open>
  The parser of \<^verbatim>\<open>load.c\<close> returns on every input whose escapes are well-formed: no assertion
  fails, no loop runs for ever, and a value that it returns is well-formed and can be written
  by the encoder.
\<close>

lemma writable_object:
  "ht_ok t \<Longrightarrow> writable fmt (JObject t s) \<longleftrightarrow> (\<forall>k v. ht_map t k = Some v \<longrightarrow> utf8_text k \<and> writable fmt v)"
proof -
  have "writable fmt (JObject t s) \<longleftrightarrow> (\<forall>k v. (k, v) \<in> set (table_items t) \<longrightarrow> utf8_text k \<and> writable fmt v)"
    by (auto simp: list_all_iff)
  then show "ht_ok t \<Longrightarrow> ?thesis" by (simp add: items_in_map)
qed

definition value_ok :: "number_format \<Rightarrow> json \<Rightarrow> bool" where
  "value_ok fmt v \<longleftrightarrow> json_ok v \<and> writable fmt v"

lemma object_set_value_ok:
  assumes "value_ok fmt json" "obj_ok json" "json_object_size json < 1610612741" "value_ok fmt v" "utf8_text k"
  shows "\<exists>json'. json_object_set_nocheck json (Some k) (Some v) = Some (0, json') \<and> value_ok fmt json' \<and> obj_ok json' \<and>
    json_object_size json' \<le> json_object_size json + 1"
proof -
  from object_set_ok [OF assms(2,3), of k v] obtain json' where
    j: "json_object_set_nocheck json (Some k) (Some v) = Some (0, json')" "obj_ok json'"
      "obj_map json' = (obj_map json)(k \<mapsto> v)" by blast
  have "json_ok json'"
    by (rule object_set_json_ok [OF _ j(1)]) (use assms in \<open>simp_all add: value_ok_def\<close>)
  moreover have "writable fmt json'"
  proof -
    from assms(2) obtain t s where t: "json = JObject t s" "ht_ok t" by (rule obj_cases)
    from j(2) obtain t' s' where t': "json' = JObject t' s'" "ht_ok t'" by (rule obj_cases)
    have "ht_map t' = (ht_map t)(k \<mapsto> v)" using j(3) t(1) t'(1) by (simp add: obj_map_def)
    then show ?thesis
      using assms(1,4,5) unfolding t(1) t'(1) value_ok_def writable_object [OF t(2)] writable_object [OF t'(2)] by auto
  qed
  ultimately show ?thesis using j obj.put_count [OF assms(2) j(2,3)] by (auto simp: value_ok_def)
qed

lemma json_object_value_ok: "value_ok fmt json_object" "value_ok fmt json_array"
proof -
  have e: "json_object = JObject hashtable_init 0" "ht_size (hashtable_init :: json hashtable) = 0"
    by (simp_all add: json_object_def hashtable_init_def)
  show "value_ok fmt json_object"
    unfolding value_ok_def e(1) writable_object [OF conjunct1 [OF hashtable_init_ok]] json_ok_object_map
    by (simp add: hashtable_init_ok e(2))
  show "value_ok fmt json_array" by (simp add: value_ok_def json_array_def)
qed

lemma append_value_ok:
  assumes "value_ok fmt (JArray n xs)" "value_ok fmt x"
  shows "\<exists>n'. json_array_append_new (JArray n xs) (Some x) = Some (0, JArray n' (xs @ [x])) \<and>
    value_ok fmt (JArray n' (xs @ [x]))"
proof -
  from append_ok [of n xs x] assms obtain n' where
    "json_array_append_new (JArray n xs) (Some x) = Some (0, JArray n' (xs @ [x]))" "json_ok (JArray n' (xs @ [x]))"
    by (auto simp: value_ok_def simp del: json_ok.simps)
  with assms show ?thesis by (auto simp: value_ok_def list_all_iff simp del: json_ok.simps)
qed

section \<open>Progress\<close>

context byte_source begin

definition ahead :: "'d lex \<Rightarrow> string \<Rightarrow> int \<Rightarrow> bool" where
  "ahead l xs e \<longleftrightarrow> sees (lex_stream l) xs e \<and> escapes_ok xs \<and> utf8_check_bytes xs"

text \<open>The token just read is valid and there were \<open>m\<close> bytes before it was read, or it ends the parsing.\<close>

definition current :: "'d lex \<Rightarrow> nat \<Rightarrow> int \<Rightarrow> bool" where
  "current l m e \<longleftrightarrow> lex_token l = TOKEN_INVALID \<or>
     token_ok (lex_token l) \<and> (\<exists>xs. ahead l xs e \<and> (lex_token l \<noteq> TOKEN_EOF \<longrightarrow> length xs < m))"

lemma lex_scan_current:
  assumes "strtod_ok rd" "ahead l xs e"
  shows "\<exists>l'. lex_scan rd get l = Some l' \<and> current l' (length xs) e"
proof -
  from assms(2) have a: "sees (lex_stream l) xs e" "escapes_ok xs" "utf8_check_bytes xs" by (simp_all add: ahead_def)
  have nul: "NUL \<notin> set xs" using sees_bytes [OF a(1)] by auto
  from scan_token_total [OF assms(1) nul a(2), of e] obtain k rest where t: "scan_token rd e xs = Some (k, rest)" by auto
  with lex_scan_ok [OF a(1), of rd] obtain l' where l': "lex_scan rd get l = Some l'" "lex_token l' = k"
    "k \<noteq> TOKEN_INVALID \<longrightarrow> sees (lex_stream l') rest e" by (auto simp: scans_def)
  show ?thesis
  proof (cases "k = TOKEN_INVALID")
    case False
    from scan_token_ok [OF t False nul a(3)] obtain tx where x: "xs = tx @ rest" "k \<noteq> TOKEN_EOF \<longrightarrow> tx \<noteq> []"
      "utf8_check_bytes rest" "token_ok k" by blast
    have "ahead l' rest e" using l' False x(1,3) a(2) escapes_ok_append by (auto simp: ahead_def)
    with l'(1,2) x show ?thesis by (auto simp: current_def)
  qed (use l' in \<open>simp add: current_def\<close>)
qed

lemma current_ahead:
  "current l m e \<Longrightarrow> lex_token l \<noteq> TOKEN_INVALID \<Longrightarrow> lex_token l \<noteq> TOKEN_EOF \<Longrightarrow>
    \<exists>xs. ahead l xs e \<and> length xs < m"
  by (auto simp: current_def)

lemma current_mono: "current l m e \<Longrightarrow> m \<le> n \<Longrightarrow> current l n e"
  by (auto simp: current_def)

text \<open>After a token that lets the parser go on: the next one.\<close>

lemma next_current:
  assumes "strtod_ok rd" "current l m e" "lex_token l \<noteq> TOKEN_INVALID" "lex_token l \<noteq> TOKEN_EOF"
  shows "\<exists>l'. lex_scan rd get l = Some l' \<and> current l' (m - 1) e \<and> 0 < m"
proof -
  from current_ahead [OF assms(2-4)] obtain xs where xs: "ahead l xs e" "length xs < m" by blast
  from lex_scan_current [OF assms(1) xs(1)] xs(2) current_mono [of _ "length xs" e "m - 1"] show ?thesis by fastforce
qed

definition parsed :: "number_format \<Rightarrow> nat \<Rightarrow> int \<Rightarrow> (json option \<times> 'd lex) option \<Rightarrow> bool" where
  "parsed fmt m e r \<longleftrightarrow> (\<exists>res l. r = Some (res, l) \<and>
     (\<forall>v. res = Some v \<longrightarrow> value_ok fmt v \<and> (\<exists>xs. ahead l xs e \<and> length xs < m)))"

lemma parsed_null: "parsed fmt m e (Some (None, l))"
  by (simp add: parsed_def)

lemma parsed_value: "value_ok fmt v \<Longrightarrow> ahead l xs e \<Longrightarrow> length xs < m \<Longrightarrow> parsed fmt m e (Some (Some v, l))"
  by (auto simp: parsed_def)

lemma parsed_mono: "parsed fmt m e r \<Longrightarrow> m \<le> n \<Longrightarrow> parsed fmt n e r"
  by (fastforce simp: parsed_def)

text \<open>A value has been read: going on with the token after it.\<close>

lemma parsed_bind:
  assumes "parsed fmt m e r" "\<And>l. parsed fmt n e (f None l)"
    and "\<And>v l xs. value_ok fmt v \<Longrightarrow> ahead l xs e \<Longrightarrow> length xs < m \<Longrightarrow> parsed fmt n e (f (Some v) l)"
  shows "parsed fmt n e (Option.bind r (\<lambda>(res, l). f res l))"
proof -
  from assms(1) obtain res l where r: "r = Some (res, l)"
    "\<forall>v. res = Some v \<longrightarrow> value_ok fmt v \<and> (\<exists>xs. ahead l xs e \<and> length xs < m)" by (auto simp: parsed_def)
  with assms(2,3) show ?thesis by (cases res) auto
qed

text \<open>The end of an iteration: a comma goes on with the loop, the closing bracket ends it.\<close>

lemma parsed_separator:
  assumes "strtod_ok rd" "ahead l xs e" "length xs < m" "value_ok fmt json"
    and "\<And>l. current l (length xs - 1) e \<Longrightarrow> 0 < length xs \<Longrightarrow> parsed fmt m e (loop l)"
  shows "parsed fmt m e (do {
     l \<leftarrow> lex_scan rd get l;
     if lex_token l = TOKEN_CHAR (CHR '','') then do { l \<leftarrow> lex_scan rd get l; loop l }
     else Some (if lex_token l = TOKEN_CHAR close then Some json else None, l)
   })"
proof -
  from lex_scan_current [OF assms(1,2)] obtain l1 where l1: "lex_scan rd get l = Some l1" "current l1 (length xs) e" by blast
  consider (comma) "lex_token l1 = TOKEN_CHAR (CHR '','')" | (close) "lex_token l1 \<noteq> TOKEN_CHAR (CHR '','')" "lex_token l1 = TOKEN_CHAR close"
    | (bad) "lex_token l1 \<noteq> TOKEN_CHAR (CHR '','')" "lex_token l1 \<noteq> TOKEN_CHAR close" by blast
  then show ?thesis
  proof cases
    case comma
    with next_current [OF assms(1) l1(2)] obtain l2 where "lex_scan rd get l1 = Some l2" "current l2 (length xs - 1) e" "0 < length xs"
      by auto
    with comma l1(1) assms(5) show ?thesis by simp
  next
    case close
    from current_ahead [OF l1(2)] close(2) obtain ys where "ahead l1 ys e" "length ys < length xs" by auto
    with close l1(1) assms(3,4) parsed_value [of fmt json l1 ys e m] show ?thesis by simp
  qed (use l1(1) in \<open>simp add: parsed_null\<close>)
qed

lemma parse_ok:
  assumes rd: "strtod_ok rd" and fmt: "\<And>d. real_ok fmt d"
  shows "current l m e \<Longrightarrow> m \<le> 1610612741 \<Longrightarrow> 2 * m + 1 \<le> n \<Longrightarrow> parsed fmt m e (parse_value n rd get flags l)"
    and "current l m e \<Longrightarrow> 2 * m + 2 \<le> n \<Longrightarrow> value_ok fmt json \<Longrightarrow> obj_ok json \<Longrightarrow> json_object_size json + m \<le> 1610612741 \<Longrightarrow>
      parsed fmt m e (object_loop n rd get flags json l)"
    and "current l m e \<Longrightarrow> 2 * m + 2 \<le> n \<Longrightarrow> m \<le> 1610612741 \<Longrightarrow> value_ok fmt (JArray c ys) \<Longrightarrow>
      parsed fmt m e (array_loop n rd get flags (JArray c ys) l)"
proof (induction n arbitrary: l m json c ys)
  case (Suc n)
  {
    case 1
    show ?case
    proof (cases "lex_token l = TOKEN_INVALID \<or> lex_token l = TOKEN_EOF")
      case False
      with 1(1) obtain xs where xs: "ahead l xs e" "length xs < m" using current_ahead by blast
      have ok: "token_ok (lex_token l)" using 1(1) False by (auto simp: current_def)
      note v = parsed_value [OF _ xs]
      from next_current [OF rd 1(1)] False obtain l1 where
        l1: "lex_scan rd get l = Some l1" "current l1 (m - 1) e" "0 < m" by blast
      show ?thesis
      proof (cases "lex_token l")
        case (TOKEN_CHAR ch)
        consider (brace) "ch = CHR ''{''" | (bracket) "ch = CHR ''[''" | (other) "ch \<noteq> CHR ''{''" "ch \<noteq> CHR ''[''" by blast
        then show ?thesis
        proof cases
          case brace
          show ?thesis
          proof (cases "lex_token l1 = TOKEN_CHAR (CHR ''}'')")
            case True
            from current_ahead [OF l1(2)] True obtain ys where "ahead l1 ys e" "length ys < m" by fastforce
            then have "parsed fmt m e (Some (Some json_object, l1))"
              by (intro parsed_value json_object_value_ok) simp_all
            with True brace TOKEN_CHAR l1(1) show ?thesis by simp
          next
            case no: False
            have "parsed fmt (m - 1) e (object_loop n rd get flags json_object l1)"
              using 1 l1 empty_object json_object_value_ok by (intro Suc.IH(2)) simp_all
            from parsed_mono [OF this, of m] no brace TOKEN_CHAR l1(1) show ?thesis by simp
          qed
        next
          case bracket
          show ?thesis
          proof (cases "lex_token l1 = TOKEN_CHAR (CHR '']'')")
            case True
            from current_ahead [OF l1(2)] True obtain ys where "ahead l1 ys e" "length ys < m" by fastforce
            then have "parsed fmt m e (Some (Some json_array, l1))"
              by (intro parsed_value json_object_value_ok) simp_all
            with True bracket TOKEN_CHAR l1(1) show ?thesis by simp
          next
            case no: False
            have "parsed fmt (m - 1) e (array_loop n rd get flags json_array l1)"
              using 1 l1 json_object_value_ok(2) [of fmt] unfolding json_array_def by (intro Suc.IH(3)) simp_all
            from parsed_mono [OF this, of m] no bracket TOKEN_CHAR l1(1) show ?thesis by simp
          qed
        qed (use TOKEN_CHAR in \<open>simp add: parsed_null\<close>)
      next
        case (TOKEN_STRING s)
        with ok obtain t where "s = Some t" "utf8_text t" by (auto split: option.splits)
        with TOKEN_STRING show ?thesis by (auto intro!: v simp: value_ok_def json_string_nocheck_def)
      next
        case (TOKEN_INTEGER i)
        with ok show ?thesis by (auto intro!: v simp: value_ok_def json_integer_def)
      next
        case (TOKEN_REAL d)
        with fmt show ?thesis by (auto intro!: v simp: value_ok_def json_real_def)
      qed (use False in \<open>auto intro!: v simp: value_ok_def\<close>)
    qed (auto simp: parsed_null)
  next
    case 2
    show ?case
    proof (cases "lex_token l")
      case (TOKEN_STRING s)
      then have "token_ok (TOKEN_STRING s)" using 2(1) by (auto simp: current_def)
      then obtain key where s: "s = Some key" "utf8_text key" by (auto split: option.splits)
      define l0 where "l0 = l\<lparr>lex_token := TOKEN_STRING None\<rparr>"
      have steal: "lex_steal_string l = (Some key, l0)" by (simp add: lex_steal_string_def TOKEN_STRING s l0_def)
      from current_ahead [OF 2(1)] TOKEN_STRING obtain xs where xs: "ahead l xs e" "length xs < m" by auto
      then have "ahead l0 xs e" by (simp add: ahead_def l0_def)
      from lex_scan_current [OF rd this] obtain l1 where l1: "lex_scan rd get l0 = Some l1" "current l1 (length xs) e" by blast
      have get: "json_object_get json key = Some (obj_map json key)" using 2(4) by (rule obj.get_law)
      let ?old = "if flags AND JSON_REJECT_DUPLICATES \<noteq> 0 then json_object_get json key else Some None"
      have "\<exists>old. ?old = Some old" using get by simp
      then obtain old where old: "?old = Some old" by blast
      show ?thesis
      proof (cases "old = None \<and> lex_token l1 = TOKEN_CHAR (CHR '':'')")
        case False
        then show ?thesis using steal old l1(1) by (auto simp: parsed_null)
      next
        case True
        with next_current [OF rd l1(2)] obtain l2 where l2: "lex_scan rd get l1 = Some l2" "current l2 (length xs - 1) e" "0 < length xs"
          by auto
        let ?rest = "\<lambda>value l. if value = None then Some (None, l)
             else do {
               (r, json) \<leftarrow> json_object_set_nocheck json (Some key) value;
               if r \<noteq> 0 then Some (None, l)
               else do {
                 l \<leftarrow> lex_scan rd get l;
                 if lex_token l = TOKEN_CHAR (CHR '','') then do {
                   l \<leftarrow> lex_scan rd get l;
                   object_loop n rd get flags json l
                 }
                 else Some (if lex_token l = TOKEN_CHAR (CHR ''}'') then Some json else None, l)
               }
             }"
        have "parsed fmt m e (Option.bind (parse_value n rd get flags l2) (\<lambda>(value, l). ?rest value l))"
        proof (rule parsed_bind [of fmt "length xs - 1"])
          show "parsed fmt (length xs - 1) e (parse_value n rd get flags l2)"
            using l2 2 xs(2) by (intro Suc.IH(1)) simp_all
          fix v l3 zs
          assume v: "value_ok fmt v" "ahead l3 zs e" "length zs < length xs - 1"
          have "json_object_size json < 1610612741" using 2(5) xs(2) by simp
          from object_set_value_ok [OF 2(3,4) this v(1) s(2)] obtain json' where
            j: "json_object_set_nocheck json (Some key) (Some v) = Some (0, json')" "value_ok fmt json'" "obj_ok json'"
              "json_object_size json' \<le> json_object_size json + 1" by blast
          have "parsed fmt m e (object_loop n rd get flags json' l4)" if "current l4 (length zs - 1) e" "0 < length zs" for l4
          proof (rule parsed_mono [of fmt "length zs - 1"])
            show "parsed fmt (length zs - 1) e (object_loop n rd get flags json' l4)"
              using that j 2 v(3) xs(2) by (intro Suc.IH(2)) simp_all
          qed (use v(3) xs(2) in simp)
          with parsed_separator [OF rd v(2), of m fmt json' "object_loop n rd get flags json'" "CHR ''}''"] j v(3) xs(2)
          show "parsed fmt m e (?rest (Some v) l3)" by simp
        qed (simp add: parsed_null)
        then show ?thesis using steal old l1(1) l2(1) True by simp
      qed
    qed (simp_all add: lex_steal_string_def parsed_null)
  next
    case 3
    show ?case
    proof (cases "lex_token l = TOKEN_EOF")
      case False
      let ?rest = "\<lambda>elem l. if elem = None then Some (None, l)
          else do {
            (r, json) \<leftarrow> json_array_append_new (JArray c ys) elem;
            if r \<noteq> 0 then Some (None, l)
            else do {
              l \<leftarrow> lex_scan rd get l;
              if lex_token l = TOKEN_CHAR (CHR '','') then do {
                l \<leftarrow> lex_scan rd get l;
                array_loop n rd get flags json l
              }
              else Some (if lex_token l = TOKEN_CHAR (CHR '']'') then Some json else None, l)
            }
          }"
      have "parsed fmt m e (Option.bind (parse_value n rd get flags l) (\<lambda>(elem, l). ?rest elem l))"
      proof (rule parsed_bind [of fmt m])
        show "parsed fmt m e (parse_value n rd get flags l)" using 3 by (intro Suc.IH(1)) simp_all
        fix v l3 zs
        assume v: "value_ok fmt v" "ahead l3 zs e" "length zs < m"
        from append_value_ok [OF 3(4) v(1)] obtain c' where
          a: "json_array_append_new (JArray c ys) (Some v) = Some (0, JArray c' (ys @ [v]))" "value_ok fmt (JArray c' (ys @ [v]))"
          by blast
        have "parsed fmt m e (array_loop n rd get flags (JArray c' (ys @ [v])) l4)"
          if "current l4 (length zs - 1) e" "0 < length zs" for l4
        proof (rule parsed_mono [of fmt "length zs - 1"])
          show "parsed fmt (length zs - 1) e (array_loop n rd get flags (JArray c' (ys @ [v])) l4)"
            using that a(2) 3 v(3) by (intro Suc.IH(3)) simp_all
        qed (use v(3) in simp)
        with parsed_separator [OF rd v(2,3) a(2), of "array_loop n rd get flags (JArray c' (ys @ [v]))" "CHR '']''"] a(1)
        show "parsed fmt m e (?rest (Some v) l3)" by simp
      qed (simp add: parsed_null)
      then show ?thesis using False by simp
    qed (simp add: parsed_null)
  }
qed simp_all

lemma parse_json_ok:
  assumes rd: "strtod_ok rd" and fmt: "\<And>d. real_ok fmt d"
    and d: "source_ok d" "escapes_ok (fst (readable (pending d)))" "length (pending d) \<le> 1610612741"
    and n: "parse_fuel (length (pending d)) \<le> n"
  shows "\<exists>res l. parse_json n rd get flags (lex_init d) = Some (res, l) \<and> (\<forall>v. res = Some v \<longrightarrow> value_ok fmt v)"
proof -
  let ?xs = "fst (readable (pending d))" and ?e = "snd (readable (pending d))"
  have a: "ahead (lex_init d) ?xs ?e"
    using stream_init_sees [OF d(1)] d(2) readable_is_utf8 by (simp add: ahead_def lex_init_def)
  from lex_scan_current [OF rd a] obtain l1 where l1: "lex_scan rd get (lex_init d) = Some l1" "current l1 (length ?xs) ?e" by blast
  have len: "length ?xs \<le> length (pending d)" by (rule readable_length)
  have "parsed fmt (length ?xs) ?e (parse_value n rd get flags l1)"
    by (rule parse_ok(1) [OF rd fmt l1(2)]) (use len d(3) n in \<open>simp_all add: parse_fuel_def\<close>)
  then obtain res l2 where r: "parse_value n rd get flags l1 = Some (res, l2)"
    "\<forall>v. res = Some v \<longrightarrow> value_ok fmt v \<and> (\<exists>xs. ahead l2 xs ?e)" by (auto simp: parsed_def)
  have last: "\<exists>l3. lex_scan rd get l2 = Some l3" if "res \<noteq> None"
    using r(2) that lex_scan_current [OF rd] by blast
  show ?thesis using l1(1) r last by (cases res) (auto simp: parse_json_def simp del: set_simps)
qed

end

text \<open>The results for the sources of the library.\<close>

lemma json_loads_returns:
  assumes "strtod_ok rd" "\<And>d. real_ok fmt d" "is_cstr s" "length s \<le> 1610612741" "escapes_ok (fst (readable s))"
  shows "\<exists>res. json_loads rd (Some s) flags = Some res \<and> (\<forall>v. res = Some v \<longrightarrow> value_ok fmt v)"
proof -
  let ?d = "\<lparr>string_text = s, string_pos = 0\<rparr>"
  have "int (length s) \<le> INT_MAX" using assms(4) by (simp add: INT_MAX_def)
  then have "\<exists>res l. parse_json (parse_fuel (length s)) rd string_get flags (lex_init ?d) = Some (res, l) \<and>
      (\<forall>v. res = Some v \<longrightarrow> value_ok fmt v)"
    using assms by (intro string_src.parse_json_ok) simp_all
  then show ?thesis by (auto simp: json_loads_def)
qed

lemma json_loadb_returns:
  assumes "strtod_ok rd" "\<And>d. real_ok fmt d" "NUL \<notin> set (take n b)" "n \<le> length b" "n \<le> 1610612741"
    "escapes_ok (fst (readable (take n b)))"
  shows "\<exists>res. json_loadb rd (Some b) n flags = Some res \<and> (\<forall>v. res = Some v \<longrightarrow> value_ok fmt v)"
proof -
  let ?d = "\<lparr>buffer_text = b, buffer_len = n, buffer_at = 0\<rparr>"
  have "\<exists>res l. parse_json (parse_fuel n) rd buffer_get flags (lex_init ?d) = Some (res, l) \<and>
      (\<forall>v. res = Some v \<longrightarrow> value_ok fmt v)"
    using assms by (intro buffer_src.parse_json_ok) simp_all
  then show ?thesis by (auto simp: json_loadb_def)
qed

lemma json_loadf_returns:
  assumes "strtod_ok rd" "\<And>d. real_ok fmt d" "NUL \<notin> set b" "length b \<le> 1610612741" "escapes_ok (fst (readable b))"
  shows "\<exists>res. json_loadf rd (Some b) flags = Some res \<and> (\<forall>v. res = Some v \<longrightarrow> value_ok fmt v)"
proof -
  have "\<exists>res l. parse_json (parse_fuel (length b)) rd file_get flags (lex_init b) = Some (res, l) \<and>
      (\<forall>v. res = Some v \<longrightarrow> value_ok fmt v)"
    using assms by (intro file_src.parse_json_ok) simp_all
  then show ?thesis by (auto simp: json_loadf_def)
qed

end
