(* ===== verification/Jansson_Load_Print.thy ===== *)
theory Jansson_Load_Print
  imports Jansson_Load_Parse
begin

text \<open>
  The texts that the encoder writes for the parts of a value, and the tokens that the decoder
  finds in them.
\<close>

section \<open>What follows a token\<close>

text \<open>After a value the encoder writes a comma, a closing bracket, white space or nothing.\<close>

definition stops :: "string \<Rightarrow> bool" where
  "stops rest \<longleftrightarrow> rest = [] \<or> hd rest \<in> set [CHR '','', CHR '']'', CHR ''}'', CHR '' '', CHR 0x0A]"

definition blank :: "string \<Rightarrow> bool" where
  "blank ws \<longleftrightarrow> (\<forall>c \<in> set ws. c \<in> set [CHR '' '', CHR 0x0A])"

lemma blank_simps [simp]: "blank []" "blank (a @ b) \<longleftrightarrow> blank a \<and> blank b" "blank [CHR '' '']" "blank [NL]"
  by (auto simp: blank_def)

lemma drop_blank: "blank ws \<Longrightarrow> \<not> space_byte c \<Longrightarrow> dropWhile space_byte (ws @ c # cs) = c # cs"
  by (induction ws) (auto simp: blank_def)

lemma drop_blank_end: "blank ws \<Longrightarrow> dropWhile space_byte ws = []"
  by (induction ws) (auto simp: blank_def)

lemma stops_blank: "blank ws \<Longrightarrow> stops rest \<Longrightarrow> stops (ws @ rest)"
  by (cases ws) (auto simp: blank_def stops_def)

lemma stops_simps [simp]: "stops []" "stops (CHR '','' # cs)" "stops (CHR '']'' # cs)" "stops (CHR ''}'' # cs)"
  by (simp_all add: stops_def)

lemma stops_not_digit:
  assumes "stops rest"
  shows "takeWhile digit_byte rest = []" "takeWhile alpha_byte rest = []" "take 1 rest \<notin> {''.'', ''E'', ''e''}"
    "take 1 rest \<noteq> ''+''" "take 1 rest \<noteq> ''-''"
  using assms
  by (cases rest; auto simp: stops_def l_isdigit_def l_isalpha_def l_isupper_def l_islower_def schar_def)+

lemma takeWhile_stop: "\<forall>c \<in> set xs. P c \<Longrightarrow> takeWhile P rest = [] \<Longrightarrow> takeWhile P (xs @ rest) = xs \<and> dropWhile P (xs @ rest) = rest"
  by (cases rest) (auto split: if_splits)

section \<open>Tokens in context\<close>

lemma scan_punct:
  assumes "blank ws" "c \<in> set [CHR ''{'', CHR ''}'', CHR ''['', CHR '']'', CHR '':'', CHR '','']"
  shows "scan_token rd e (ws @ c # cs) = Some (TOKEN_CHAR c, cs)"
proof -
  have "\<not> space_byte c" using assms(2) by auto
  from drop_blank [OF assms(1) this] assms(2) show ?thesis by (simp add: scan_token_def del: set_simps)
qed

lemma scan_quoted:
  assumes "blank ws" "string_end (q @ CHR 0x22 # rest) = Some (q, rest)" "unescape [] (q @ [CHR 0x22]) = Some (Some s)"
  shows "scan_token rd e (ws @ CHR 0x22 # q @ CHR 0x22 # rest) = Some (TOKEN_STRING (Some s), rest)"
proof -
  have "dropWhile space_byte (ws @ CHR 0x22 # q @ CHR 0x22 # rest) = CHR 0x22 # q @ CHR 0x22 # rest"
    by (rule drop_blank [OF assms(1)]) simp
  then show ?thesis using assms(2,3) by (simp add: scan_token_def scan_string_def del: string_end.simps)
qed

lemma scan_word:
  assumes "blank ws" "w \<in> set [''true'', ''false'', ''null'']" "stops rest"
  shows "scan_token rd e (ws @ w @ rest) = Some (identifier_token w, rest)"
proof -
  from assms(2) obtain c cs where w: "w = c # cs" by auto
  have a: "\<forall>x \<in> set w. alpha_byte x"
    using assms(2) by (auto simp: l_isalpha_def l_isupper_def l_islower_def schar_def)
  have c: "\<not> space_byte c" "c \<notin> set [CHR ''{'', CHR ''}'', CHR ''['', CHR '']'', CHR '':'', CHR '','']" "c \<noteq> CHR 0x22"
    "\<not> (digit_byte c \<or> c = CHR ''-'')" "alpha_byte c"
    using assms(2) w a by (auto simp: l_isdigit_def schar_def)
  from takeWhile_stop [OF a stops_not_digit(2) [OF assms(3)]] drop_blank [OF assms(1) c(1)] c w
  show ?thesis by (simp add: scan_token_def del: set_simps)
qed

lemma scan_numeral:
  assumes "blank ws" "n = c # cs" "digit_byte c \<or> c = CHR ''-''"
  shows "scan_token rd e (ws @ n @ rest) = scan_number rd (n @ rest)"
proof -
  have "\<not> space_byte c" "c \<notin> set [CHR ''{'', CHR ''}'', CHR ''['', CHR '']'', CHR '':'', CHR '','']" "c \<noteq> CHR 0x22"
    using assms(3) by (auto simp: l_isdigit_def schar_def)
  with drop_blank [OF assms(1) this(1)] assms(2,3) show ?thesis by (simp add: scan_token_def del: set_simps)
qed

section \<open>Numbers\<close>

lemma digits_part_stop: "digits_text ds \<Longrightarrow> takeWhile digit_byte rest = [] \<Longrightarrow> digits_part (ds @ rest) = Some (ds, rest)"
  using takeWhile_stop [of ds digit_byte rest] by (auto simp: digits_part_def digits_text_def)

text \<open>Digits without a leading zero.\<close>

definition plain_digits :: "string \<Rightarrow> bool" where
  "plain_digits ds \<longleftrightarrow> digits_text ds \<and> (take 1 ds = ''0'' \<longrightarrow> ds = ''0'')"

lemma integer_part_stop:
  assumes "sign_text sg" "plain_digits ds" "takeWhile digit_byte rest = []"
  shows "integer_part (sg @ ds @ rest) = Some (sg @ ds, rest)"
proof -
  obtain d ds' where d: "ds = d # ds'" "digit_byte d"
    using assms(2) by (cases ds) (auto simp: plain_digits_def digits_text_def)
  have "integer_digits (ds @ rest) = Some (ds, rest)"
    using assms(2,3) d digits_part_stop [of ds rest] by (auto simp: integer_digits_def plain_digits_def)
  moreover have "d \<noteq> CHR ''-''" using d(2) by (auto simp: l_isdigit_def schar_def)
  ultimately show ?thesis using assms(1) d(1) by (auto simp: integer_part_def sign_text_def after_def)
qed

lemma scan_integer:
  assumes "blank ws" "sign_text sg" "plain_digits ds" "stops rest"
  defines "v \<equiv> (if sg = [] then digits_value 10 ds else - digits_value 10 ds)"
  assumes "is_int64 v"
  shows "scan_token rd e (ws @ (sg @ ds) @ rest) = Some (TOKEN_INTEGER v, rest)"
proof -
  obtain c cs where c: "sg @ ds = c # cs" "digit_byte c \<or> c = CHR ''-''"
    using assms(2,3) by (cases ds) (auto simp: sign_text_def plain_digits_def digits_text_def)
  have "integer_part ((sg @ ds) @ rest) = Some (sg @ ds, rest)"
    using integer_part_stop [OF assms(2,3) stops_not_digit(1) [OF assms(4)]] by simp
  moreover have "integer_token (sg @ ds) rest = Some (TOKEN_INTEGER v, rest)"
    using assms(6) strtoll_digits [OF assms(2), of ds] assms(3)
    by (simp add: integer_token_def plain_digits_def v_def [symmetric] is_int64_def LONG_MIN_def LONG_MAX_def)
  ultimately show ?thesis
    using stops_not_digit(3) [OF assms(4)] scan_numeral [OF assms(1) c] by (simp add: scan_number_def)
qed

lemma dec_digits_plain: "plain_digits (dec_digits n)"
proof -
  have z: "take 1 (dec_digits n) = ''0'' \<Longrightarrow> n = 0"
  proof (induction n rule: dec_digits.induct)
    case (1 n)
    show ?case
    proof (cases "n < 10")
      case True
      with 1(2) have "digit_char n = CHR ''0''" by (subst (asm) dec_digits.simps) simp
      with of_char_digit [OF True] show ?thesis by simp
    next
      case False
      then have "dec_digits n = dec_digits (n div 10) @ [digit_char (n mod 10)]" by (subst dec_digits.simps) simp
      with 1(2) have "take 1 (dec_digits (n div 10)) = ''0''" by (cases "dec_digits (n div 10)") simp_all
      with 1(1) [OF False] False show ?thesis by simp
    qed
  qed
  have "dec_digits 0 = ''0''" by (subst dec_digits.simps) (simp add: digit_char_def, code_simp)
  with z show ?thesis
    using dec_digits_all [of n] by (auto simp: plain_digits_def digits_text_def is_digit_byte [symmetric])
qed

lemma scan_show_int:
  assumes "blank ws" "is_int64 i" "stops rest"
  shows "scan_token rd e (ws @ show_int i @ rest) = Some (TOKEN_INTEGER i, rest)"
proof (cases "i < 0")
  case True
  with scan_integer [OF assms(1) _ dec_digits_plain assms(3), of "''-''" "nat (- i)"] assms(2) show ?thesis
    by (simp add: show_int_def sign_text_def dec_digits_value)
next
  case False
  with scan_integer [OF assms(1) _ dec_digits_plain assms(3), of "[]" "nat i"] assms(2) show ?thesis
    by (simp add: show_int_def sign_text_def dec_digits_value)
qed

text \<open>
  A real number. \<^verbatim>\<open>snprintf\<close> with \<^verbatim>\<open>%.17g\<close> writes a sign, digits, a fraction and an exponent
  as documented; what \<^verbatim>\<open>jsonp_dtostr\<close> makes of it is a JSON number, and \<^verbatim>\<open>strtod\<close> reads the
  same number back from it.
\<close>

definition exponent_of :: "(char \<times> string) option \<Rightarrow> bool" where
  "exponent_of ex \<longleftrightarrow> (case ex of None \<Rightarrow> True | Some (s, es) \<Rightarrow>
     s \<in> {CHR ''+'', CHR ''-''} \<and> (\<forall>c \<in> set es. digit_byte c) \<and> dropWhile (\<lambda>c. c = CHR ''0'') es \<noteq> [])"

definition printf_text :: "char \<Rightarrow> string \<Rightarrow> string \<Rightarrow> string \<Rightarrow> (char \<times> string) option \<Rightarrow> string" where
  "printf_text point sg ds fs ex =
     sg @ ds @ (if fs = [] then [] else point # fs) @ (case ex of None \<Rightarrow> [] | Some (s, es) \<Rightarrow> CHR ''e'' # s # es)"

definition json_real_text :: "string \<Rightarrow> string \<Rightarrow> string \<Rightarrow> (char \<times> string) option \<Rightarrow> string" where
  "json_real_text sg ds fs ex =
     sg @ ds @ (if fs = [] then (if ex = None then ''.0'' else []) else CHR ''.'' # fs) @
     (case ex of None \<Rightarrow> [] | Some (s, es) \<Rightarrow>
        CHR ''e'' # (if s = CHR ''-'' then [s] else []) @ dropWhile (\<lambda>c. c = CHR ''0'') es)"

definition real_reads :: "number_format \<Rightarrow> number_reader \<Rightarrow> double \<Rightarrow> bool" where
  "real_reads fmt rd d \<longleftrightarrow> (\<exists>sg ds fs ex. sign_text sg \<and> plain_digits ds \<and> (\<forall>c \<in> set fs. digit_byte c) \<and> exponent_of ex \<and>
     format_g17 fmt d = printf_text (decimal_point fmt) sg ds fs ex \<and> length (format_g17 fmt d) < 97 \<and>
     strtod rd (to_locale (reader_point rd) (json_real_text sg ds fs ex)) =
       (d, False, length (json_real_text sg ds fs ex)))"

definition point_ok :: "char \<Rightarrow> bool" where
  "point_ok p \<longleftrightarrow> \<not> digit_byte p \<and> p \<notin> {CHR ''-'', CHR ''+'', CHR ''e''}"

lemma dropWhile_at: "\<forall>c \<in> set a. P c \<Longrightarrow> \<not> P x \<Longrightarrow> dropWhile P (a @ x # b) = x # b \<and> takeWhile P (a @ x # b) = a"
  by (induction a) auto

lemma from_locale_text:
  assumes "point_ok point" "sign_text sg" "digits_text ds" "\<forall>c \<in> set fs. digit_byte c" "exponent_of ex"
  shows "from_locale point (printf_text point sg ds fs ex) = printf_text (CHR ''.'') sg ds fs ex"
proof (cases "point = CHR ''.''")
  case False
  have lead: "\<forall>c \<in> set (sg @ ds). c \<noteq> point"
    using assms by (auto simp: point_ok_def sign_text_def digits_text_def)
  show ?thesis
  proof (cases "fs = []")
    case fs: False
    with dropWhile_at [OF lead, of point] False show ?thesis by (simp add: from_locale_def printf_text_def)
  next
    case True
    have "\<forall>c \<in> set (printf_text point sg ds fs ex). c \<noteq> point"
      using lead True assms(1,5) by (auto simp: printf_text_def point_ok_def exponent_of_def split: option.splits)
    then have "dropWhile (\<lambda>c. c \<noteq> point) (printf_text point sg ds fs ex) = []" by simp
    moreover have "printf_text point sg ds fs ex = printf_text (CHR ''.'') sg ds fs ex" using True by (simp add: printf_text_def)
    ultimately show ?thesis by (simp add: from_locale_def del: dropWhile_eq_Nil_conv)
  qed
qed (simp add: from_locale_def)

lemma dtostr_text:
  assumes "point_ok (decimal_point fmt)" "sign_text sg" "digits_text ds" "\<forall>c \<in> set fs. digit_byte c" "exponent_of ex"
    and "format_g17 fmt d = printf_text (decimal_point fmt) sg ds fs ex" "length (format_g17 fmt d) < 97"
  shows "jsonp_dtostr fmt 100 d = Some (int (length (json_real_text sg ds fs ex)), json_real_text sg ds fs ex)"
proof -
  note fl = from_locale_text [OF assms(1-5)]
  have e: "CHR ''e'' \<noteq> c" "CHR ''.'' \<noteq> c" if "digit_byte c" for c using that by (auto simp: l_isdigit_def schar_def)
  have lead: "\<forall>c \<in> set (sg @ ds). c \<noteq> CHR ''e'' \<and> c \<noteq> CHR ''.''"
    using assms(2,3) e by (auto simp: sign_text_def digits_text_def)
  show ?thesis
  proof (cases ex)
    case None
    define buffer where "buffer = sg @ ds @ (if fs = [] then [] else CHR ''.'' # fs)"
    have ne: "CHR ''e'' \<notin> set buffer" using lead assms(4) e by (auto simp: buffer_def)
    have len: "length (format_g17 fmt d) = length buffer" using assms(6) None by (simp add: printf_text_def buffer_def)
    have loc: "from_locale (decimal_point fmt) (format_g17 fmt d) = buffer"
      using fl assms(6) None by (simp add: printf_text_def buffer_def)
    show ?thesis
    proof (cases "fs = []")
      case True
      then have "CHR ''.'' \<notin> set buffer" using lead by (auto simp: buffer_def)
      moreover have "json_real_text sg ds fs ex = buffer @ ''.0''" using True None by (simp add: json_real_text_def buffer_def)
      ultimately show ?thesis using assms(7) ne len loc by (simp add: jsonp_dtostr_def)
    next
      case False
      then have "CHR ''.'' \<in> set buffer" by (simp add: buffer_def)
      moreover have "json_real_text sg ds fs ex = buffer" using False None by (simp add: json_real_text_def buffer_def)
      moreover have "dropWhile (\<lambda>c. c \<noteq> CHR ''e'') buffer = []" using ne by auto
      then have "trim_exponent buffer = Some buffer" by (simp add: trim_exponent_def del: dropWhile_eq_Nil_conv)
      ultimately show ?thesis using assms(7) len loc by (simp add: jsonp_dtostr_def)
    qed
  next
    case (Some x)
    obtain s es where x: "x = (s, es)" by fastforce
    let ?pre = "sg @ ds @ (if fs = [] then [] else CHR ''.'' # fs)"
    have "\<forall>c \<in> set ?pre. c \<noteq> CHR ''e''" using lead assms(4) e by auto
    from dropWhile_at [OF this, of "CHR ''e''" "s # es"]
    have "trim_exponent (?pre @ CHR ''e'' # s # es) =
        Some (?pre @ CHR ''e'' # (if s = CHR ''-'' then [s] else []) @ dropWhile (\<lambda>c. c = CHR ''0'') es)"
      by (simp add: trim_exponent_def)
    then show ?thesis
      using assms(6,7) fl Some x by (simp add: jsonp_dtostr_def printf_text_def json_real_text_def)
  qed
qed

lemma scan_real:
  assumes "blank ws" "stops rest" "sign_text sg" "plain_digits ds" "\<forall>c \<in> set fs. digit_byte c" "exponent_of ex"
    and "strtod rd (to_locale (reader_point rd) (json_real_text sg ds fs ex)) = (d, False, length (json_real_text sg ds fs ex))"
  shows "scan_token rd e (ws @ json_real_text sg ds fs ex @ rest) = Some (TOKEN_REAL d, rest)"
proof -
  define ft where "ft = (if fs = [] then (if ex = None then ''.0'' else []) else CHR ''.'' # fs)"
  define et where "et = (case ex of None \<Rightarrow> [] | Some (s, es) \<Rightarrow>
        CHR ''e'' # (if s = CHR ''-'' then [s] else []) @ dropWhile (\<lambda>c. c = CHR ''0'') es)"
  have tx: "json_real_text sg ds fs ex = (sg @ ds) @ ft @ et" by (simp add: json_real_text_def ft_def et_def)
  obtain c cs where c: "sg @ ds = c # cs" "digit_byte c \<or> c = CHR ''-''"
    using assms(3,4) by (cases ds) (auto simp: sign_text_def plain_digits_def digits_text_def)
  have dig: "\<not> digit_byte (CHR ''.'')" "\<not> digit_byte (CHR ''e'')" "digit_byte (CHR ''0'')" "\<not> digit_byte (CHR ''-'')"
    by (simp_all add: l_isdigit_def schar_def)
  have et: "takeWhile digit_byte (et @ rest) = []"
    using stops_not_digit(1) [OF assms(2)] dig by (auto simp: et_def split: option.splits)
  have xp: "exponent_part (et @ rest) = Some (et, rest)"
  proof (cases ex)
    case None
    with stops_not_digit(3) [OF assms(2)] show ?thesis by (simp add: et_def exponent_part_def)
  next
    case (Some x)
    obtain s es where x: "x = (s, es)" by fastforce
    define zs where "zs = dropWhile (\<lambda>c. c = CHR ''0'') es"
    have z: "digits_text zs" using assms(6) Some x
      by (auto simp: exponent_of_def digits_text_def zs_def dest: set_dropWhileD)
    then obtain z zs' where zs: "zs = z # zs'" "digit_byte z" by (cases zs) (auto simp: digits_text_def)
    then have "z \<noteq> CHR ''+''" "z \<noteq> CHR ''-''" by (auto simp: l_isdigit_def schar_def)
    with digits_part_stop [OF z stops_not_digit(1) [OF assms(2)]] Some x zs(1) show ?thesis
      by (simp add: et_def exponent_part_def zs_def [symmetric] after_def)
  qed
  have fp: "fraction_part (ft @ et @ rest) = Some (ft, et @ rest)"
  proof (cases "ft = []")
    case True
    then obtain x where "ex = Some x" by (auto simp: ft_def split: if_splits)
    then have "take 1 (et @ rest) = ''e''" by (auto simp: et_def case_prod_unfold)
    with True show ?thesis by (simp add: fraction_part_def)
  next
    case False
    then obtain gs where g: "ft = CHR ''.'' # gs" "digits_text gs"
      using assms(5) dig by (auto simp: ft_def digits_text_def split: if_splits)
    with digits_part_stop [OF g(2) et] show ?thesis by (simp add: fraction_part_def after_def)
  qed
  have ip: "integer_part ((sg @ ds) @ ft @ et @ rest) = Some (sg @ ds, ft @ et @ rest)"
  proof -
    have "takeWhile digit_byte (ft @ et @ rest) = []"
      using et dig by (cases ft) (auto simp: ft_def split: if_splits)
    from integer_part_stop [OF assms(3,4) this] show ?thesis by simp
  qed
  have dot: "take 1 (ft @ et @ rest) \<in> {''.'', ''E'', ''e''}"
  proof (cases "ft = []")
    case True
    then obtain x where "ex = Some x" by (auto simp: ft_def split: if_splits)
    with True show ?thesis by (auto simp: et_def case_prod_unfold)
  qed (auto simp: ft_def split: if_splits)
  have nul: "NUL \<notin> set ((sg @ ds) @ ft @ et)"
  proof -
    have "\<not> digit_byte NUL" by (simp add: l_isdigit_def schar_def)
    then show ?thesis using assms(3-6)
      by (auto simp: sign_text_def plain_digits_def digits_text_def ft_def et_def exponent_of_def
        dest: set_dropWhileD split: option.splits if_splits)
  qed
  have "real_token rd ((sg @ ds) @ ft @ et) rest = Some (TOKEN_REAL d, rest)"
    using assms(7) nul unfolding tx by (simp add: real_token_def jsonp_strtod_def is_cstr_def)
  then have "scan_number rd ((sg @ ds) @ ft @ et @ rest) = Some (TOKEN_REAL d, rest)"
    using ip dot fp xp unfolding scan_number_def by (auto simp del: take_append)
  then show ?thesis using scan_numeral [OF assms(1) c] c(1) scan_numeral [OF assms(1), of "sg @ ds @ ft @ et" c "cs @ ft @ et" rd e rest] c(2)
    by (simp add: tx)
qed

section \<open>Strings\<close>

lemma div_bounds:
  "0 \<le> (u :: int) \<Longrightarrow> u < 16 * k \<Longrightarrow> 0 \<le> u div 16 \<and> u div 16 < k"
  "0 \<le> u \<Longrightarrow> u < 1024 * k \<Longrightarrow> 0 \<le> u div 1024 \<and> u div 1024 < k"
  by (simp_all add: pos_imp_zdiv_nonneg_iff div_less_iff_less_mult)

lemma escape_digits_four:
  "escape_digit w = Some a \<Longrightarrow> escape_digit x = Some b \<Longrightarrow> escape_digit y = Some c \<Longrightarrow> escape_digit z = Some d \<Longrightarrow>
   decode_unicode_escape (CHR ''u'' # w # x # y # z # rest) = Some (((a * 16 + b) * 16 + c) * 16 + d)"
  by (simp add: decode_unicode_escape_def eval_nat_numeral push_bit_eq_mult)

lemma escape_hex_char: "0 \<le> d \<Longrightarrow> d < 16 \<Longrightarrow> escape_digit (hex_char d) = Some d"
proof -
  assume d: "0 \<le> d" "d < 16"
  then have "uchar (hex_char d) = (if d < 10 then 48 + d else 87 + d)" by (simp add: hex_char_def)
  with d show ?thesis
    by (auto simp: escape_digit_def Let_def schar_def l_isdigit_def l_islower_def l_isupper_def)
qed

lemma decode_hex4:
  assumes "0 \<le> v" "v < 0x10000"
  shows "decode_unicode_escape (CHR ''u'' # hex4 v @ rest) = Some v"
proof -
  have d: "escape_digit (hex_char (w mod 16)) = Some (w mod 16)" for w :: int by (rule escape_hex_char) simp_all
  have q: "v div 256 = v div 16 div 16" "v div 4096 = v div 16 div 16 div 16" by simp_all
  have "0 \<le> v div 16 div 16 div 16" "v div 16 div 16 div 16 < 16"
  proof -
    note s = div_bounds(1)
    from assms have "v < 16 * 4096" by simp
    from s [OF assms(1) this] have "0 \<le> v div 16" "v div 16 < 16 * 256" by simp_all
    from s [OF this] have "0 \<le> v div 16 div 16" "v div 16 div 16 < 16 * 16" by simp_all
    from s [OF this] show "0 \<le> v div 16 div 16 div 16" "v div 16 div 16 div 16 < 16" by simp_all
  qed
  then have "v div 4096 mod 16 = v div 16 div 16 div 16" unfolding q by simp
  moreover have "(((v div 16 div 16 div 16) * 16 + v div 16 div 16 mod 16) * 16 + v div 16 mod 16) * 16 + v mod 16 = v"
    using div_mult_mod_eq [of v 16] div_mult_mod_eq [of "v div 16" 16] div_mult_mod_eq [of "v div 16 div 16" 16] by presburger
  moreover from escape_digits_four [OF d d d d, of "v div 4096" "v div 256" "v div 16" v rest]
  have "decode_unicode_escape (CHR ''u'' # hex4 v @ rest) =
      Some ((((v div 4096 mod 16) * 16 + v div 256 mod 16) * 16 + v div 16 mod 16) * 16 + v mod 16)"
    unfolding hex4_def append_Cons append_Nil .
  ultimately show ?thesis unfolding q(1) by (simp only:)
qed

lemma or_halves:
  assumes "0 \<le> x" "x < 1024"
  shows "0xD800 OR x = 0xD800 + (x :: int)" "0xDC00 OR x = 0xDC00 + x"
proof -
  have x: "take_bit 10 x = x" using assms by (simp add: take_bit_eq_mod)
  have "push_bit 10 k AND take_bit 10 x = 0" for k :: int by (rule bit_eqI) (auto simp: bit_simps)
  then have "push_bit 10 k OR x = push_bit 10 k + x" for k :: int
    using disjunctive_add_eq_or [of "push_bit 10 k" "take_bit 10 x"] by (simp add: x)
  from this [of 54] this [of 55] show "0xD800 OR x = 0xD800 + x" "0xDC00 OR x = 0xDC00 + x"
    by (simp_all add: push_bit_eq_mult)
qed

lemma escape_pair:
  assumes "0x10000 \<le> cp" "cp \<le> 0x10FFFF"
  defines "c \<equiv> cp - 0x10000"
  shows "escape_text cp = [CHR 0x5C, CHR ''u''] @ hex4 (0xD800 + c div 1024) @ [CHR 0x5C, CHR ''u''] @ hex4 (0xDC00 + c mod 1024)"
    and "0 \<le> c div 1024 \<and> c div 1024 < 1024" "0 \<le> c mod 1024 \<and> c mod 1024 < 1024"
    and "push_bit 10 (c div 1024) + c mod 1024 + 0x10000 = cp"
proof -
  have c: "0 \<le> c" "c < 1024 * 1024" using assms by simp_all
  then show hi: "0 \<le> c div 1024 \<and> c div 1024 < 1024" using div_bounds(2) [of c 1024] by simp
  show lo: "0 \<le> c mod 1024 \<and> c mod 1024 < 1024" by simp
  show "push_bit 10 (c div 1024) + c mod 1024 + 0x10000 = cp"
    using mult_div_mod_eq [of 1024 c] by (simp add: push_bit_eq_mult c_def algebra_simps)
  have "c AND 0x3ff = c mod 1024" using take_bit_eq_mask [of 10 c] by (simp add: take_bit_eq_mod mask_eq_exp_minus_1)
  moreover have "drop_bit 10 (c AND 0xffc00) = c div 1024"
  proof -
    have "drop_bit 10 (0xffc00 :: int) = 0x3ff" by (simp add: drop_bit_eq_div)
    moreover have "(c div 1024) AND 0x3ff = c div 1024"
      using take_bit_eq_mask [of 10 "c div 1024"] hi by (simp add: take_bit_eq_mod mask_eq_exp_minus_1)
    ultimately show ?thesis by (simp add: drop_bit_and) (simp add: drop_bit_eq_div)
  qed
  ultimately show "escape_text cp = [CHR 0x5C, CHR ''u''] @ hex4 (0xD800 + c div 1024) @ [CHR 0x5C, CHR ''u''] @ hex4 (0xDC00 + c mod 1024)"
    using assms(1) hi lo or_halves [of "c div 1024"] or_halves [of "c mod 1024"]
    by (simp add: escape_text_def Let_def c_def [symmetric])
qed

text \<open>A character that is not special to the scan for the closing quote.\<close>

lemma string_end_plain:
  "\<forall>c \<in> set bs. c \<noteq> CHR 0x22 \<and> c \<noteq> CHR 0x5C \<and> \<not> uchar c \<le> 0x1F \<Longrightarrow>
   string_end (bs @ xs) = after bs (string_end xs)"
proof (induction bs)
  case Nil
  then show ?case by (cases "string_end xs") (auto simp: after_def)
next
  case (Cons c bs)
  then show ?case by (cases "string_end xs") (auto simp: after_def)
qed

lemma string_end_unicode:
  "length h = 4 \<Longrightarrow> string_end (CHR 0x5C # CHR ''u'' # h @ xs) = after (CHR 0x5C # CHR ''u'' # h) (string_end xs)"
  by (cases "string_end xs") (auto simp: after_def)

lemma string_end_simple:
  "d \<in> set [CHR 0x22, CHR 0x5C, CHR ''/'', CHR ''b'', CHR ''f'', CHR ''n'', CHR ''r'', CHR ''t''] \<Longrightarrow>
   string_end (CHR 0x5C # d # xs) = after [CHR 0x5C, d] (string_end xs)"
  by (cases "string_end xs") (auto simp: after_def)

lemma after_after: "after a (after b z) = after (a @ b) z"
  by (cases z) (auto simp: after_def)

lemma hex4_length: "length (hex4 v) = 4"
  by (simp add: hex4_def)

text \<open>An escaped code point is read back.\<close>

lemma read_simple_escape:
  assumes "simple_escape d = Some x" "d \<noteq> CHR ''u''" "enc cp = [x]" "escape_text cp = [CHR 0x5C, d]"
  shows "string_end (escape_text cp @ xs) = after (escape_text cp) (string_end xs) \<and>
    unescape t (escape_text cp @ p) = unescape (t @ enc cp) p"
proof -
  have "d \<in> set [CHR 0x22, CHR 0x5C, CHR ''/'', CHR ''b'', CHR ''f'', CHR ''n'', CHR ''r'', CHR ''t'']"
    using assms(1) by (auto simp: simple_escape_def split: if_splits)
  from string_end_simple [OF this] assms show ?thesis by (simp add: unescape_escape escape_step_def)
qed

lemma escape_cases:
  assumes "scalar cp" "cp \<noteq> 0"
  obtains (short) d x where "simple_escape d = Some x" "d \<noteq> CHR ''u''" "enc cp = [x]" "escape_text cp = [CHR 0x5C, d]"
  | (one) "cp < 0x10000" "escape_text cp = [CHR 0x5C, CHR ''u''] @ hex4 cp"
  | (two) "0x10000 \<le> cp"
proof -
  have b: "enc k = [byte k]" if "0 \<le> k" "k < 0x80" for k using that by (simp add: enc_1)
  have bytes: "byte 0x5C = CHR 0x5C" "byte 0x22 = CHR 0x22" "byte 0x08 = CHR 0x08" "byte 0x0C = CHR 0x0C" "byte 0x0A = CHR 0x0A"
    "byte 0x0D = CHR 0x0D" "byte 0x09 = CHR 0x09" by code_simp+
  consider "cp \<in> {0x5C, 0x22, 0x08, 0x0C, 0x0A, 0x0D, 0x09}"
    | "cp \<notin> {0x5C, 0x22, 0x08, 0x0C, 0x0A, 0x0D, 0x09}" "cp < 0x10000" | "0x10000 \<le> cp" by linarith
  then show thesis
  proof cases
    case 1
    then have "\<exists>d x. simple_escape d = Some x \<and> d \<noteq> CHR ''u'' \<and> enc cp = [x] \<and> escape_text cp = [CHR 0x5C, d]"
      using b bytes by (elim insertE emptyE) (simp_all add: escape_text_def simple_escape_def)
    with short show thesis by blast
  qed (use one two in \<open>simp_all add: escape_text_def\<close>)
qed

lemma read_escape:
  assumes "scalar cp" "cp \<noteq> 0"
  shows "string_end (escape_text cp @ xs) = after (escape_text cp) (string_end xs) \<and>
    unescape t (escape_text cp @ p) = unescape (t @ enc cp) p"
  using assms
proof (cases rule: escape_cases)
  case (short d x)
  then show ?thesis by (rule read_simple_escape)
next
  case one
  have cp: "0 \<le> cp" "\<not> (0xD800 \<le> cp \<and> cp \<le> 0xDBFF)" "\<not> (0xDC00 \<le> cp \<and> cp \<le> 0xDFFF)" using assms(1) by (auto simp: scalar_def)
  from decode_hex4 [OF cp(1) one(1)] cp(2,3) assms(2)
  have "escape_step (CHR ''u'' # hex4 cp @ p) = Some (Some (enc cp, p))"
    by (auto simp: escape_step_def Let_def hex4_length)
  with one string_end_unicode [OF hex4_length, of cp xs] show ?thesis by (simp add: unescape_escape)
next
  case two
  define c where "c = cp - 0x10000"
  from two assms(1) have cp: "0x10000 \<le> cp" "cp \<le> 0x10FFFF" by (simp_all add: scalar_def)
  note e = escape_pair [OF cp, folded c_def]
  let ?a = "0xD800 + c div 1024" and ?b = "0xDC00 + c mod 1024"
  have d1: "decode_unicode_escape (CHR ''u'' # hex4 ?a @ r) = Some ?a" for r using e(2) by (intro decode_hex4) linarith+
  have d2: "decode_unicode_escape (CHR ''u'' # hex4 ?b @ r) = Some ?b" for r using e(3) by (intro decode_hex4) linarith+
  have "escape_step (CHR ''u'' # hex4 ?a @ CHR 0x5C # CHR ''u'' # hex4 ?b @ p) = Some (Some (enc cp, p))"
  proof -
    have dr: "drop 5 (CHR ''u'' # hex4 ?a @ r) = r" for r by (simp add: hex4_length)
    have r: "0xD800 \<le> ?a \<and> ?a \<le> 0xDBFF" "0xDC00 \<le> ?b \<and> ?b \<le> 0xDFFF" using e(2,3) by linarith+
    have "push_bit 10 (?a - 0xD800) + (?b - 0xDC00) + 0x10000 = cp" using e(4) by simp
    then show ?thesis
      unfolding escape_step_def list.case Let_def d1 Option.bind.bind_lunit dr using r d2 [of p]
      by (simp add: hex4_length)
  qed
  moreover have "string_end (escape_text cp @ xs) = after (escape_text cp) (string_end xs)"
    unfolding e(1) by (simp only: append_assoc append_Cons append_Nil string_end_unicode [OF hex4_length] after_after)
  ultimately show ?thesis by (simp add: e(1) unescape_escape)
qed

lemma read_escaped:
  assumes "scalar cp" "cp \<noteq> 0"
  shows "string_end (escaped ascii cp @ xs) = after (escaped ascii cp) (string_end xs) \<and>
    unescape t (escaped ascii cp @ p) = unescape (t @ enc cp) p"
proof (cases "must_escape ascii cp")
  case False
  then have cp: "cp \<noteq> 0x22" "cp \<noteq> 0x5C" "0x20 \<le> cp" by (auto simp: must_escape_def)
  have "c \<noteq> CHR 0x22 \<and> c \<noteq> CHR 0x5C \<and> \<not> uchar c \<le> 0x1F" if "c \<in> set (enc cp)" for c
  proof (cases "cp < 0x80")
    case True
    with that assms have u: "uchar c = cp" using enc_ascii [OF assms(1) True] by (auto simp: scalar_def)
    moreover have "uchar (CHR 0x22) = 0x22" "uchar (CHR 0x5C) = 0x5C" by simp_all
    ultimately show ?thesis using cp by auto
  next
    case False
    then have "0x80 \<le> uchar c" using enc_high [OF assms(1) _ that] by simp
    moreover have "uchar (CHR 0x22) = 0x22" "uchar (CHR 0x5C) = 0x5C" by simp_all
    ultimately show ?thesis by auto
  qed
  with False cp show ?thesis
    by (simp add: escaped_def string_end_plain unescape_enc [OF assms(1)])
next
  case True
  with read_escape [OF assms] show ?thesis by (simp add: escaped_def)
qed

lemma read_codes:
  "codes_ok cps \<Longrightarrow>
   string_end (concat (map (escaped ascii) cps) @ xs) = after (concat (map (escaped ascii) cps)) (string_end xs) \<and>
   unescape t (concat (map (escaped ascii) cps) @ p) = unescape (t @ concat (map enc cps)) p"
proof (induction cps arbitrary: t)
  case Nil
  then show ?case by (cases "string_end xs") (simp_all add: after_def)
next
  case (Cons cp cps)
  from Cons.prems have "scalar cp" "cp \<noteq> 0" by simp_all
  note r = read_escaped [OF this]
  from Cons.IH [of "t @ enc cp"] Cons.prems show ?case
    using r [of ascii "concat (map (escaped ascii) cps) @ xs" t "concat (map (escaped ascii) cps) @ p"] by (simp add: after_after)
qed

end
