(* ===== verification/Jansson_Load_Roundtrip.thy ===== *)
theory Jansson_Load_Roundtrip
  imports Jansson_Load_Print
begin

text \<open>
  The decoder reads back what the encoder writes, for every flag of the encoder and of the
  decoder.
\<close>

section \<open>Values that can be read back\<close>

primrec loadable :: "number_format \<Rightarrow> number_reader \<Rightarrow> json \<Rightarrow> bool" where
  "loadable fmt rd JNull = True"
| "loadable fmt rd JTrue = True"
| "loadable fmt rd JFalse = True"
| "loadable fmt rd (JInteger i) = is_int64 i"
| "loadable fmt rd (JReal d) = (\<not> is_nan d \<and> real_reads fmt rd d)"
| "loadable fmt rd (JString s) = utf8_text s"
| "loadable fmt rd (JArray n xs) = list_all id (map (loadable fmt rd) xs)"
| "loadable fmt rd (JObject t ser) =
     list_all (\<lambda>(k, w). utf8_text k \<and> w) (table_items (map_hashtable (loadable fmt rd) t))"

section \<open>Texts\<close>

definition puts :: "(string \<Rightarrow> (int \<times> string) option) \<Rightarrow> string \<Rightarrow> bool" where
  "puts f u \<longleftrightarrow> (\<forall>t. f t = Some (0, t @ u))"

lemma puts_append: "puts (append_text u) u"
  by (simp add: puts_def append_text_def)

lemma puts_nothing: "puts (\<lambda>t. Some (0, t)) []"
  by (simp add: puts_def)

lemma puts_and_then: "puts f u \<Longrightarrow> puts h v \<Longrightarrow> puts (\<lambda>t. and_then (f t) h) (u @ v)"
  by (simp add: puts_def and_then_def)

lemma puts_bind: "puts f u \<Longrightarrow> puts h v \<Longrightarrow> puts (\<lambda>t. Option.bind (f t) (\<lambda>(r, t). h t)) (u @ v)"
  by (simp add: puts_def)

lemma puts_ext: "(\<And>t. f t = h t) \<Longrightarrow> puts h u \<Longrightarrow> puts f u"
  by (simp add: puts_def)

lemma puts_indent: "\<exists>ws. blank ws \<and> puts (dump_indent flags depth space append_text) ws"
proof -
  have sp: "blank (take k whitespace)" for k by (simp add: blank_def whitespace_def min_def)
  have loop: "\<exists>ws. blank ws \<and> puts (indent_loop append_text k depth) ws" for k
  proof (induction depth)
    case 0
    show ?case by (rule exI [of _ "[]"]) (simp add: puts_def)
  next
    case (Suc depth)
    then obtain ws where ws: "blank ws" "puts (indent_loop append_text k depth) ws" by blast
    have "puts (indent_loop append_text k (Suc depth)) (take k whitespace @ ws)"
      by (rule puts_ext [OF indent_loop.simps(2)], rule puts_and_then [OF puts_append ws(2)])
    with ws(1) sp show ?case by (metis blank_simps(2))
  qed
  from loop [of "JSON_INDENT flags"] obtain ws where
    ws: "blank ws" "puts (indent_loop append_text (JSON_INDENT flags) depth) ws" by blast
  have nl: "puts (\<lambda>t. and_then (append_text [NL] t) (indent_loop append_text (JSON_INDENT flags) depth)) ([NL] @ ws)"
    by (rule puts_and_then [OF puts_append ws(2)])
  consider (indent) "JSON_INDENT flags > 0" | (space) "\<not> JSON_INDENT flags > 0" "space \<and> \<not> flag flags JSON_COMPACT"
    | (none) "\<not> JSON_INDENT flags > 0" "\<not> (space \<and> \<not> flag flags JSON_COMPACT)" by blast
  then show ?thesis
  proof cases
    case indent
    with nl have "puts (dump_indent flags depth space append_text) ([NL] @ ws)" by (simp add: dump_indent_def [abs_def])
    moreover have "blank ([NL] @ ws)" using ws(1) blank_simps by blast
    ultimately show ?thesis by blast
  next
    case space
    then have "puts (dump_indent flags depth space append_text) '' ''"
      using puts_append by (simp add: dump_indent_def [abs_def])
    then show ?thesis using blank_simps(3) by blast
  next
    case none
    then have "puts (dump_indent flags depth space append_text) []"
      using puts_nothing by (auto simp: dump_indent_def [abs_def])
    then show ?thesis using blank_simps(1) by blast
  qed
qed

lemma utf8_text_append: "utf8_text a \<Longrightarrow> utf8_text b \<Longrightarrow> utf8_text (a @ b)"
  by (simp add: utf8_text_def utf8_append)

lemma utf8_text_ascii: "\<forall>c \<in> set u. uchar c < 0x80 \<and> c \<noteq> NUL \<Longrightarrow> utf8_text u"
proof (induction u)
  case (Cons c u)
  then have "utf8_check_first c = 1" by (intro check_first_range(1) [THEN iffD2]) simp
  with Cons show ?case by (auto simp: utf8_text_def is_cstr_def utf8_check_bytes.simps(2))
qed (simp add: utf8_text_def is_cstr_def)

lemma utf8_text_blank: "blank ws \<Longrightarrow> utf8_text ws"
proof (rule utf8_text_ascii, intro ballI)
  fix c assume "blank ws" "c \<in> set ws"
  then have "c = CHR '' '' \<or> c = CHR 0x0A" by (simp add: blank_def)
  then show "uchar c < 0x80 \<and> c \<noteq> NUL" by (elim disjE) simp_all
qed

lemma utf8_text_Cons: "uchar c < 0x80 \<Longrightarrow> c \<noteq> NUL \<Longrightarrow> utf8_text u \<Longrightarrow> utf8_text (c # u)"
  using utf8_text_append [OF utf8_text_ascii [of "[c]"], of u] by simp

text \<open>What the encoder writes for a string.\<close>

lemma utf8_text_escape_text:
  assumes "scalar cp" "cp \<noteq> 0"
  shows "utf8_text (escape_text cp)"
proof -
  have hex: "utf8_text (hex4 v)" for v
  proof (rule utf8_text_ascii)
    have "uchar (hex_char (d mod 16)) < 0x80 \<and> hex_char (d mod 16) \<noteq> NUL" for d :: int
    proof -
      have "0 \<le> d mod 16" "d mod 16 < 16" by simp_all
      then have u: "0 < uchar (hex_char (d mod 16))" "uchar (hex_char (d mod 16)) < 0x80" by (auto simp: hex_char_def)
      then show ?thesis by auto
    qed
    then show "\<forall>c \<in> set (hex4 v). uchar c < 0x80 \<and> c \<noteq> NUL" by (simp add: hex4_def)
  qed
  have u: "utf8_text [CHR 0x5C, CHR ''u'']" by (rule utf8_text_ascii) simp
  from assms show ?thesis
  proof (cases rule: escape_cases)
    case (short d x)
    then have "d \<in> set [CHR 0x22, CHR 0x5C, CHR ''/'', CHR ''b'', CHR ''f'', CHR ''n'', CHR ''r'', CHR ''t'']"
      by (auto simp: simple_escape_def split: if_splits)
    then have "utf8_text [CHR 0x5C, d]" by (intro utf8_text_ascii) auto
    with short(4) show ?thesis by simp
  next
    case one
    with utf8_text_append [OF u hex] show ?thesis by simp
  next
    case two
    with assms(1) have "0x10000 \<le> cp" "cp \<le> 0x10FFFF" by (simp_all add: scalar_def)
    from escape_pair(1) [OF this] show ?thesis by (auto intro!: utf8_text_append u hex simp del: append.simps)
  qed
qed

lemma utf8_text_escaped:
  assumes "scalar cp" "cp \<noteq> 0"
  shows "utf8_text (escaped ascii cp)"
proof (cases "must_escape ascii cp")
  case True
  then show ?thesis using utf8_text_escape_text [OF assms] by (simp add: escaped_def)
next
  case False
  then have "escaped ascii cp = enc cp" by (simp add: escaped_def)
  moreover have "NUL \<notin> set (enc cp)" using printable_enc [OF assms(1)] False by (auto simp: printable_def must_escape_def)
  ultimately show ?thesis using utf8_enc [OF assms(1)] by (simp add: utf8_text_def is_cstr_def)
qed

lemma utf8_text_codes: "codes_ok cps \<Longrightarrow> utf8_text (concat (map (escaped ascii) cps))"
  by (induction cps) (simp_all add: utf8_text_ascii utf8_text_append utf8_text_escaped)

definition quoted :: "string \<Rightarrow> string \<Rightarrow> bool" where
  "quoted s u \<longleftrightarrow> utf8_text u \<and> u \<noteq> [] \<and>
     (\<forall>rd e ws rest. blank ws \<longrightarrow> scan_token rd e (ws @ u @ rest) = Some (TOKEN_STRING (Some s), rest))"

lemma dump_string_reads:
  assumes "utf8_text s"
  shows "\<exists>u. puts (dump_string s ascii append_text) u \<and> quoted s u"
proof -
  from assms obtain cps where cps: "codes_ok cps" "s = concat (map enc cps)" by (rule utf8_textE)
  define q where "q = concat (map (escaped ascii) cps)"
  have "puts (dump_string s ascii append_text) (CHR 0x22 # q @ [CHR 0x22])"
    using dump_chunks_codes [OF cps(1), of ascii]
    by (simp add: puts_def dump_string_def and_then_def append_text_def cps(2) q_def)
  moreover have "string_end (q @ CHR 0x22 # rest) = Some (q, rest)" for rest
    using read_codes [OF cps(1), of ascii "CHR 0x22 # rest"] by (simp add: after_def q_def)
  moreover have "unescape [] (q @ [CHR 0x22]) = Some (Some s)"
    using read_codes [OF cps(1), of ascii _ "[]" "[CHR 0x22]"] by (simp add: unescape_simps cps(2) q_def)
  moreover have "utf8_text (CHR 0x22 # q @ [CHR 0x22])"
    using utf8_text_codes [OF cps(1), of ascii] utf8_text_ascii [of "[CHR 0x22]"]
    by (simp add: q_def utf8_text_Cons utf8_text_append)
  ultimately show ?thesis
    by (intro exI [of _ "CHR 0x22 # q @ [CHR 0x22]"]) (simp add: quoted_def scan_quoted)
qed

section \<open>Reading a value\<close>

context byte_source begin

lemma scan_at:
  assumes "sees (lex_stream l) xs e" "scan_token rd e xs = Some (k, rest)" "k \<noteq> TOKEN_INVALID"
  shows "\<exists>l1. lex_scan rd get l = Some l1 \<and> lex_token l1 = k \<and> sees (lex_stream l1) rest e"
  using lex_scan_ok [OF assms(1), of rd] assms(2,3) by (auto simp: scans_def)

definition reads_value :: "number_reader \<Rightarrow> 64 word \<Rightarrow> json \<Rightarrow> string \<Rightarrow> bool" where
  "reads_value rd flags v u \<longleftrightarrow> u \<noteq> [] \<and> utf8_text u \<and>
     (\<forall>n (l :: 'd lex) ws rest e. 2 * length u \<le> n \<longrightarrow> blank ws \<longrightarrow> stops rest \<longrightarrow> sees (lex_stream l) (ws @ u @ rest) e \<longrightarrow>
        (\<exists>l1 v' l2. lex_scan rd get l = Some l1 \<and> lex_token l1 \<notin> {TOKEN_EOF, TOKEN_CHAR (CHR '']'')} \<and>
           (json_typeof v \<in> {JSON_ARRAY, JSON_OBJECT} \<longrightarrow> lex_token l1 \<in> TOKEN_CHAR ` set [CHR ''['', CHR ''{'']) \<and>
           parse_value n rd get flags l1 = Some (Some v', l2) \<and> sees (lex_stream l2) rest e \<and> json_ok v' \<and>
           json_equal_to v v' = Some True))"

lemma reads_valueD:
  assumes "reads_value rd flags v u" "2 * length u \<le> n" "blank ws" "stops rest" "sees (lex_stream l) (ws @ u @ rest) e"
  shows "\<exists>l1 v' l2. lex_scan rd get l = Some l1 \<and> lex_token l1 \<notin> {TOKEN_EOF, TOKEN_CHAR (CHR '']'')} \<and>
           (json_typeof v \<in> {JSON_ARRAY, JSON_OBJECT} \<longrightarrow> lex_token l1 \<in> TOKEN_CHAR ` set [CHR ''['', CHR ''{'']) \<and>
           parse_value n rd get flags l1 = Some (Some v', l2) \<and> sees (lex_stream l2) rest e \<and> json_ok v' \<and>
           json_equal_to v v' = Some True"
  using assms unfolding reads_value_def by blast

lemma reads_scalar:
  assumes "u \<noteq> []" "utf8_text u" "json_typeof v \<notin> {JSON_ARRAY, JSON_OBJECT}"
    and "\<And>ws rest e. blank ws \<Longrightarrow> stops rest \<Longrightarrow> scan_token rd e (ws @ u @ rest) = Some (k, rest)"
    and "k \<notin> {TOKEN_INVALID, TOKEN_EOF, TOKEN_CHAR (CHR '']'')}"
    and "\<And>n l. lex_token l = k \<Longrightarrow> parse_value (Suc n) rd get flags l = Some (Some v', l)"
    and "json_ok v'" "json_equal_to v v' = Some True"
  shows "reads_value rd flags v u"
  unfolding reads_value_def
proof (intro conjI allI impI)
  fix n :: nat and l :: "'d lex" and ws rest e
  assume n: "2 * length u \<le> n" "blank ws" "stops rest" "sees (lex_stream l) (ws @ u @ rest) e"
  obtain m where m: "n = Suc m" using n(1) assms(1) by (cases n) auto
  from scan_at [OF n(4) assms(4) [OF n(2,3)]] assms(5) obtain l1 where
    "lex_scan rd get l = Some l1" "lex_token l1 = k" "sees (lex_stream l1) rest e" by auto
  with assms(3,5-8) m show "\<exists>l1 v' l2. lex_scan rd get l = Some l1 \<and> lex_token l1 \<notin> {TOKEN_EOF, TOKEN_CHAR (CHR '']'')} \<and>
           (json_typeof v \<in> {JSON_ARRAY, JSON_OBJECT} \<longrightarrow> lex_token l1 \<in> TOKEN_CHAR ` set [CHR ''['', CHR ''{'']) \<and>
           parse_value n rd get flags l1 = Some (Some v', l2) \<and> sees (lex_stream l2) rest e \<and> json_ok v' \<and>
           json_equal_to v v' = Some True" by (intro exI [of _ l1] exI [of _ v']) simp
qed (use assms(1,2) in simp_all)

section \<open>Arrays\<close>

definition reads_entries :: "number_reader \<Rightarrow> 64 word \<Rightarrow> json list \<Rightarrow> string \<Rightarrow> bool" where
  "reads_entries rd flags vs u \<longleftrightarrow> utf8_text u \<and>
     (\<forall>n (l :: 'd lex) ws rest e c ys. 2 * length u + 1 \<le> n \<longrightarrow> blank ws \<longrightarrow> sees (lex_stream l) (ws @ u @ CHR '']'' # rest) e \<longrightarrow>
        json_ok (JArray c ys) \<longrightarrow>
        (\<exists>l1 c' zs l2. lex_scan rd get l = Some l1 \<and> lex_token l1 \<noteq> TOKEN_CHAR (CHR '']'') \<and>
           array_loop n rd get flags (JArray c ys) l1 = Some (Some (JArray c' (ys @ zs)), l2) \<and>
           sees (lex_stream l2) rest e \<and> json_ok (JArray c' (ys @ zs)) \<and>
           list_all2 (\<lambda>v z. json_equal_to v z = Some True) vs zs))"

lemma reads_entriesD:
  assumes "reads_entries rd flags vs u" "2 * length u + 1 \<le> n" "blank ws" "sees (lex_stream l) (ws @ u @ CHR '']'' # rest) e"
    "json_ok (JArray c ys)"
  shows "\<exists>l1 c' zs l2. lex_scan rd get l = Some l1 \<and> lex_token l1 \<noteq> TOKEN_CHAR (CHR '']'') \<and>
           array_loop n rd get flags (JArray c ys) l1 = Some (Some (JArray c' (ys @ zs)), l2) \<and>
           sees (lex_stream l2) rest e \<and> json_ok (JArray c' (ys @ zs)) \<and>
           list_all2 (\<lambda>v z. json_equal_to v z = Some True) vs zs"
  using assms unfolding reads_entries_def by blast

lemma reads_entries_last:
  assumes "reads_value rd flags v u" "blank ind"
  shows "reads_entries rd flags [v] (u @ ind)"
  unfolding reads_entries_def
proof (intro conjI allI impI)
  show "utf8_text (u @ ind)"
    using assms utf8_text_append utf8_text_blank by (simp add: reads_value_def)
  fix n :: nat and l :: "'d lex" and ws rest e c ys
  assume n: "2 * length (u @ ind) + 1 \<le> n" "blank ws" "sees (lex_stream l) (ws @ (u @ ind) @ CHR '']'' # rest) e"
    and ok: "json_ok (JArray c ys)"
  obtain m where m: "n = Suc m" "2 * length u \<le> m" using n(1) by (cases n) auto
  have st: "stops (ind @ CHR '']'' # rest)" by (rule stops_blank [OF assms(2)]) simp
  have "sees (lex_stream l) (ws @ u @ ind @ CHR '']'' # rest) e" using n(3) by simp
  from reads_valueD [OF assms(1) m(2) n(2) st this] obtain l1 v' l2 where
    l1: "lex_scan rd get l = Some l1" "lex_token l1 \<noteq> TOKEN_EOF" "lex_token l1 \<noteq> TOKEN_CHAR (CHR '']'')"
      "parse_value m rd get flags l1 = Some (Some v', l2)" "sees (lex_stream l2) (ind @ CHR '']'' # rest) e"
      "json_ok v'" "json_equal_to v v' = Some True" by auto
  from append_ok [OF ok l1(6)] obtain c' where
    a: "json_array_append_new (JArray c ys) (Some v') = Some (0, JArray c' (ys @ [v']))" "json_ok (JArray c' (ys @ [v']))" by blast
  have "scan_token rd e (ind @ CHR '']'' # rest) = Some (TOKEN_CHAR (CHR '']''), rest)"
    by (rule scan_punct [OF assms(2)]) simp
  from scan_at [OF l1(5) this] obtain l3 where
    l3: "lex_scan rd get l2 = Some l3" "lex_token l3 = TOKEN_CHAR (CHR '']'')" "sees (lex_stream l3) rest e" by auto
  have "array_loop n rd get flags (JArray c ys) l1 = Some (Some (JArray c' (ys @ [v'])), l3)"
    using m(1) l1(2,4) a(1) l3(1,2) by simp
  with l1(1,3,7) a(2) l3(3) show "\<exists>l1 c' zs l2. lex_scan rd get l = Some l1 \<and> lex_token l1 \<noteq> TOKEN_CHAR (CHR '']'') \<and>
           array_loop n rd get flags (JArray c ys) l1 = Some (Some (JArray c' (ys @ zs)), l2) \<and>
           sees (lex_stream l2) rest e \<and> json_ok (JArray c' (ys @ zs)) \<and>
           list_all2 (\<lambda>v z. json_equal_to v z = Some True) [v] zs"
    by (intro exI [of _ l1] exI [of _ c'] exI [of _ "[v']"] exI [of _ l3]) (simp del: json_ok.simps)
qed

lemma reads_entries_more:
  assumes "reads_value rd flags v u" "blank ind" "reads_entries rd flags vs u'"
  shows "reads_entries rd flags (v # vs) (u @ CHR '','' # ind @ u')"
  unfolding reads_entries_def
proof (intro conjI allI impI)
  show "utf8_text (u @ CHR '','' # ind @ u')"
    using assms utf8_text_append utf8_text_blank utf8_text_Cons [of "CHR '',''"]
    by (simp add: reads_value_def reads_entries_def)
  fix n :: nat and l :: "'d lex" and ws rest e c ys
  assume n: "2 * length (u @ CHR '','' # ind @ u') + 1 \<le> n" "blank ws"
    "sees (lex_stream l) (ws @ (u @ CHR '','' # ind @ u') @ CHR '']'' # rest) e"
    and ok: "json_ok (JArray c ys)"
  obtain m where m: "n = Suc m" "2 * length u \<le> m" "2 * length u' + 1 \<le> m" using n(1) by (cases n) auto
  have st: "stops (CHR '','' # ind @ u' @ CHR '']'' # rest)" by simp
  have "sees (lex_stream l) (ws @ u @ CHR '','' # ind @ u' @ CHR '']'' # rest) e" using n(3) by simp
  from reads_valueD [OF assms(1) m(2) n(2) st this] obtain l1 v' l2 where
    l1: "lex_scan rd get l = Some l1" "lex_token l1 \<noteq> TOKEN_EOF" "lex_token l1 \<noteq> TOKEN_CHAR (CHR '']'')"
      "parse_value m rd get flags l1 = Some (Some v', l2)" "sees (lex_stream l2) (CHR '','' # ind @ u' @ CHR '']'' # rest) e"
      "json_ok v'" "json_equal_to v v' = Some True" by auto
  from append_ok [OF ok l1(6)] obtain c1 where
    a: "json_array_append_new (JArray c ys) (Some v') = Some (0, JArray c1 (ys @ [v']))" "json_ok (JArray c1 (ys @ [v']))" by blast
  have "scan_token rd e (CHR '','' # ind @ u' @ CHR '']'' # rest) = Some (TOKEN_CHAR (CHR '',''), ind @ u' @ CHR '']'' # rest)"
    using scan_punct [of "[]" "CHR '',''"] by simp
  from scan_at [OF l1(5) this] obtain l3 where
    l3: "lex_scan rd get l2 = Some l3" "lex_token l3 = TOKEN_CHAR (CHR '','')" "sees (lex_stream l3) (ind @ u' @ CHR '']'' # rest) e" by auto
  from reads_entriesD [OF assms(3) m(3) assms(2) l3(3) a(2)] obtain l4 c' zs l5 where
    l4: "lex_scan rd get l3 = Some l4" "array_loop m rd get flags (JArray c1 (ys @ [v'])) l4 = Some (Some (JArray c' ((ys @ [v']) @ zs)), l5)"
      "sees (lex_stream l5) rest e" "json_ok (JArray c' ((ys @ [v']) @ zs))" "list_all2 (\<lambda>v z. json_equal_to v z = Some True) vs zs"
    by blast
  have "array_loop n rd get flags (JArray c ys) l1 = Some (Some (JArray c' (ys @ v' # zs)), l5)"
    using m(1) l1(2,4) a(1) l3(1,2) l4(1,2) by simp
  with l1(1,3,7) l4(3-5) show "\<exists>l1 c' zs l2. lex_scan rd get l = Some l1 \<and> lex_token l1 \<noteq> TOKEN_CHAR (CHR '']'') \<and>
           array_loop n rd get flags (JArray c ys) l1 = Some (Some (JArray c' (ys @ zs)), l2) \<and>
           sees (lex_stream l2) rest e \<and> json_ok (JArray c' (ys @ zs)) \<and>
           list_all2 (\<lambda>v z. json_equal_to v z = Some True) (v # vs) zs"
    by (intro exI [of _ l1] exI [of _ c'] exI [of _ "v' # zs"] exI [of _ l5]) (simp del: json_ok.simps)
qed

lemma reads_array:
  assumes "blank ind" "reads_entries rd flags vs u"
  shows "reads_value rd flags (JArray c vs) (CHR ''['' # ind @ u @ '']'')"
  unfolding reads_value_def
proof (intro conjI allI impI)
  show "utf8_text (CHR ''['' # ind @ u @ '']'')"
    using assms utf8_text_append utf8_text_blank utf8_text_Cons [of "CHR ''[''"] utf8_text_ascii [of "'']''"]
    by (simp add: reads_entries_def)
  fix n :: nat and l :: "'d lex" and ws rest e
  assume n: "2 * length (CHR ''['' # ind @ u @ '']'') \<le> n" "blank ws" "stops rest"
    "sees (lex_stream l) (ws @ (CHR ''['' # ind @ u @ '']'') @ rest) e"
  obtain m where m: "n = Suc m" "2 * length u + 1 \<le> m" using n(1) by (cases n) auto
  have "scan_token rd e (ws @ (CHR ''['' # ind @ u @ '']'') @ rest) = Some (TOKEN_CHAR (CHR ''[''), ind @ u @ CHR '']'' # rest)"
    using scan_punct [OF n(2), of "CHR ''[''" rd e "ind @ u @ CHR '']'' # rest"] by simp
  from scan_at [OF n(4) this] obtain l1 where
    l1: "lex_scan rd get l = Some l1" "lex_token l1 = TOKEN_CHAR (CHR ''['')" "sees (lex_stream l1) (ind @ u @ CHR '']'' # rest) e" by auto
  have e: "json_ok (JArray 8 [])" by simp
  from reads_entriesD [OF assms(2) m(2) assms(1) l1(3) e] obtain l2 c' zs l3 where
    l2: "lex_scan rd get l1 = Some l2" "lex_token l2 \<noteq> TOKEN_CHAR (CHR '']'')"
      "array_loop m rd get flags json_array l2 = Some (Some (JArray c' zs), l3)" "sees (lex_stream l3) rest e"
      "json_ok (JArray c' zs)" "list_all2 (\<lambda>v z. json_equal_to v z = Some True) vs zs" by (auto simp: json_array_def)
  have "parse_value n rd get flags l1 = Some (Some (JArray c' zs), l3)" using m(1) l1(2) l2(1-3) by simp
  moreover have "json_equal_to (JArray c vs) (JArray c' zs) = Some True" using equal_entries_ok [OF l2(6)] by simp
  ultimately show "\<exists>l1 v' l2. lex_scan rd get l = Some l1 \<and> lex_token l1 \<notin> {TOKEN_EOF, TOKEN_CHAR (CHR '']'')} \<and>
           (json_typeof (JArray c vs) \<in> {JSON_ARRAY, JSON_OBJECT} \<longrightarrow> lex_token l1 \<in> TOKEN_CHAR ` set [CHR ''['', CHR ''{'']) \<and>
           parse_value n rd get flags l1 = Some (Some v', l2) \<and> sees (lex_stream l2) rest e \<and> json_ok v' \<and>
           json_equal_to (JArray c vs) v' = Some True"
    using l1(1,2) l2(4,5) by (intro exI [of _ l1] exI [of _ "JArray c' zs"] exI [of _ l3]) (simp del: json_ok.simps json_equal_to.simps)
qed simp

lemma reads_empty:
  assumes "(open1, close, v) \<in> {(CHR ''['', CHR '']'', JArray c []), (CHR ''{'', CHR ''}'', JObject t s)}"
    "ht_size t = 0" "ht_list t = []"
  shows "reads_value rd flags v [open1, close]"
  unfolding reads_value_def
proof (intro conjI allI impI)
  show "utf8_text [open1, close]" using assms(1) by (intro utf8_text_ascii) auto
  fix n :: nat and l :: "'d lex" and ws rest e
  assume n: "2 * length [open1, close] \<le> n" "blank ws" "stops rest" "sees (lex_stream l) (ws @ [open1, close] @ rest) e"
  obtain m where m: "n = Suc m" using n(1) by (cases n) auto
  have t1: "scan_token rd e (ws @ [open1, close] @ rest) = Some (TOKEN_CHAR open1, close # rest)"
    unfolding append_Cons append_Nil by (rule scan_punct [OF n(2)]) (use assms(1) in auto)
  from scan_at [OF n(4) t1] obtain l1 where
    l1: "lex_scan rd get l = Some l1" "lex_token l1 = TOKEN_CHAR open1" "sees (lex_stream l1) (close # rest) e" by auto
  have "scan_token rd e (close # rest) = Some (TOKEN_CHAR close, rest)"
    using scan_punct [of "[]" close rd e rest] assms(1) by auto
  from scan_at [OF l1(3) this] obtain l2 where
    l2: "lex_scan rd get l1 = Some l2" "lex_token l2 = TOKEN_CHAR close" "sees (lex_stream l2) rest e" by auto
  let ?v = "if open1 = CHR ''['' then json_array else json_object"
  have "parse_value n rd get flags l1 = Some (Some ?v, l2)" using m l1(2) l2(1,2) assms(1) by auto
  moreover have "json_ok ?v" using json_object_value_ok by (auto simp: value_ok_def)
  moreover have "json_equal_to v ?v = Some True"
  proof (cases "open1 = CHR ''[''")
    case True
    with assms(1) have "v = JArray c []" by auto
    with True show ?thesis by (simp add: json_array_def json_array_equal_def)
  next
    case False
    with assms(1) have "v = JObject t s" by auto
    with False assms(2,3) show ?thesis
      by (simp add: json_object_def json_object_equal_def hashtable_init_def table_items_def ht_list_map)
  qed
  ultimately show "\<exists>l1 v' l2. lex_scan rd get l = Some l1 \<and> lex_token l1 \<notin> {TOKEN_EOF, TOKEN_CHAR (CHR '']'')} \<and>
           (json_typeof v \<in> {JSON_ARRAY, JSON_OBJECT} \<longrightarrow> lex_token l1 \<in> TOKEN_CHAR ` set [CHR ''['', CHR ''{'']) \<and>
           parse_value n rd get flags l1 = Some (Some v', l2) \<and> sees (lex_stream l2) rest e \<and> json_ok v' \<and>
           json_equal_to v v' = Some True"
    using l1(1,2) l2(3) assms(1) by (intro exI [of _ l1] exI [of _ ?v] exI [of _ l2]) auto
qed simp

section \<open>Objects\<close>

text \<open>A member that is read into an object without its key.\<close>

lemma reads_member:
  assumes q: "quoted k qt" and c: "blank cs" and v: "reads_value rd flags v u" "2 * length u \<le> m"
    and s: "blank ws" "stops rest" "sees (lex_stream l) (ws @ qt @ (CHR '':'' # cs) @ u @ rest) e"
    and j: "json_ok json" "obj_ok json" "json_object_size json < 1610612741" "obj_map json k = None"
  shows "\<exists>l1 v' json' l2. lex_scan rd get l = Some l1 \<and> lex_token l1 = TOKEN_STRING (Some k) \<and>
    sees (lex_stream l2) rest e \<and> json_equal_to v v' = Some True \<and> json_ok json' \<and> obj_ok json' \<and>
    obj_map json' = (obj_map json)(k \<mapsto> v') \<and> json_object_size json' \<le> json_object_size json + 1 \<and>
    object_loop (Suc m) rd get flags json l1 = do {
      l \<leftarrow> lex_scan rd get l2;
      if lex_token l = TOKEN_CHAR (CHR '','') then do { l \<leftarrow> lex_scan rd get l; object_loop m rd get flags json' l }
      else Some (if lex_token l = TOKEN_CHAR (CHR ''}'') then Some json' else None, l)
    }"
proof -
  have "scan_token rd e (ws @ qt @ (CHR '':'' # cs) @ u @ rest) = Some (TOKEN_STRING (Some k), CHR '':'' # cs @ u @ rest)"
    using q s(1) by (simp add: quoted_def)
  from scan_at [OF s(3) this] obtain l1 where
    l1: "lex_scan rd get l = Some l1" "lex_token l1 = TOKEN_STRING (Some k)" "sees (lex_stream l1) (CHR '':'' # cs @ u @ rest) e" by auto
  define l0 where "l0 = l1\<lparr>lex_token := TOKEN_STRING None\<rparr>"
  have steal: "lex_steal_string l1 = (Some k, l0)" by (simp add: lex_steal_string_def l1(2) l0_def)
  have l0: "sees (lex_stream l0) (CHR '':'' # cs @ u @ rest) e" using l1(3) by (simp add: l0_def)
  have "scan_token rd e (CHR '':'' # cs @ u @ rest) = Some (TOKEN_CHAR (CHR '':''), cs @ u @ rest)"
    using scan_punct [of "[]" "CHR '':''"] by simp
  from scan_at [OF l0 this] obtain l2 where
    l2: "lex_scan rd get l0 = Some l2" "lex_token l2 = TOKEN_CHAR (CHR '':'')" "sees (lex_stream l2) (cs @ u @ rest) e" by auto
  from reads_valueD [OF v c s(2) l2(3)] obtain l3 v' l4 where
    l3: "lex_scan rd get l2 = Some l3" "parse_value m rd get flags l3 = Some (Some v', l4)" "sees (lex_stream l4) rest e"
      "json_ok v'" "json_equal_to v v' = Some True" by (elim exE conjE)
  from object_set_ok [OF j(2,3), of k v'] obtain json' where
    o: "json_object_set_nocheck json (Some k) (Some v') = Some (0, json')" "obj_ok json'" "obj_map json' = (obj_map json)(k \<mapsto> v')"
    by (elim exE conjE)
  have ok: "json_ok json'" by (rule object_set_json_ok [OF j(1) o(1)]) (use l3(4) j(3) in simp_all)
  have size: "json_object_size json' \<le> json_object_size json + 1" using obj.put_count [OF j(2) o(2,3)] by simp
  have "json_object_get json k = Some None" using obj.get_law [OF j(2), of k] j(4) by simp
  then have "object_loop (Suc m) rd get flags json l1 = do {
      l \<leftarrow> lex_scan rd get l4;
      if lex_token l = TOKEN_CHAR (CHR '','') then do { l \<leftarrow> lex_scan rd get l; object_loop m rd get flags json' l }
      else Some (if lex_token l = TOKEN_CHAR (CHR ''}'') then Some json' else None, l)
    }"
    using steal l2(1,2) l3(1,2) o(1) by simp
  with l1(1,2) l3(3,5) ok o(2,3) size show ?thesis by blast
qed

definition same_member :: "string \<times> json \<Rightarrow> string \<times> json \<Rightarrow> bool" where
  "same_member m1 m2 \<longleftrightarrow> fst m1 = fst m2 \<and> json_equal_to (snd m1) (snd m2) = Some True"

definition reads_members :: "number_reader \<Rightarrow> 64 word \<Rightarrow> (string \<times> json) list \<Rightarrow> string \<Rightarrow> bool" where
  "reads_members rd flags kvs u \<longleftrightarrow> utf8_text u \<and>
     (\<forall>n (l :: 'd lex) ws rest e json. 2 * length u + 1 \<le> n \<longrightarrow> blank ws \<longrightarrow>
        sees (lex_stream l) (ws @ u @ CHR ''}'' # rest) e \<longrightarrow> json_ok json \<longrightarrow> obj_ok json \<longrightarrow>
        json_object_size json + length kvs \<le> 1610612741 \<longrightarrow> (\<forall>k \<in> fst ` set kvs. obj_map json k = None) \<longrightarrow>
        (\<exists>l1 json' zs l2. lex_scan rd get l = Some l1 \<and> lex_token l1 \<noteq> TOKEN_CHAR (CHR ''}'') \<and>
           object_loop n rd get flags json l1 = Some (Some json', l2) \<and> sees (lex_stream l2) rest e \<and>
           json_ok json' \<and> obj_ok json' \<and> obj_map json' = obj_map json ++ map_of zs \<and> list_all2 same_member kvs zs))"

lemma reads_membersD:
  assumes "reads_members rd flags kvs u" "2 * length u + 1 \<le> n" "blank ws" "sees (lex_stream l) (ws @ u @ CHR ''}'' # rest) e"
    "json_ok json" "obj_ok json" "json_object_size json + length kvs \<le> 1610612741" "\<forall>k \<in> fst ` set kvs. obj_map json k = None"
  shows "\<exists>l1 json' zs l2. lex_scan rd get l = Some l1 \<and> lex_token l1 \<noteq> TOKEN_CHAR (CHR ''}'') \<and>
           object_loop n rd get flags json l1 = Some (Some json', l2) \<and> sees (lex_stream l2) rest e \<and>
           json_ok json' \<and> obj_ok json' \<and> obj_map json' = obj_map json ++ map_of zs \<and> list_all2 same_member kvs zs"
  using assms unfolding reads_members_def by blast

lemma reads_members_last:
  assumes q: "quoted k qt" and c: "blank cs" and v: "reads_value rd flags v u" and ind: "blank ind"
  shows "reads_members rd flags [(k, v)] (qt @ (CHR '':'' # cs) @ u @ ind)"
  unfolding reads_members_def
proof (intro conjI allI impI)
  show "utf8_text (qt @ (CHR '':'' # cs) @ u @ ind)"
    using q v c ind utf8_text_append utf8_text_blank utf8_text_Cons [of "CHR '':''"] by (simp add: reads_value_def quoted_def)
  fix n :: nat and l :: "'d lex" and ws rest e json
  assume n: "2 * length (qt @ (CHR '':'' # cs) @ u @ ind) + 1 \<le> n" "blank ws"
      "sees (lex_stream l) (ws @ (qt @ (CHR '':'' # cs) @ u @ ind) @ CHR ''}'' # rest) e"
    and j: "json_ok json" "obj_ok json" "json_object_size json + length [(k, v)] \<le> 1610612741"
      "\<forall>k \<in> fst ` set [(k, v)]. obj_map json k = None"
  obtain m where m: "n = Suc m" "2 * length u \<le> m" using n(1) by (cases n) auto
  have st: "stops (ind @ CHR ''}'' # rest)" by (rule stops_blank [OF ind]) simp
  have s: "sees (lex_stream l) (ws @ qt @ (CHR '':'' # cs) @ u @ ind @ CHR ''}'' # rest) e" using n(3) by simp
  have b: "json_object_size json < 1610612741" "obj_map json k = None" using j(3,4) by simp_all
  from reads_member [OF q c v m(2) n(2) st s j(1,2) b] obtain l1 v' json' l2 where
    l1: "lex_scan rd get l = Some l1" "lex_token l1 = TOKEN_STRING (Some k)" "sees (lex_stream l2) (ind @ CHR ''}'' # rest) e"
      "json_equal_to v v' = Some True" "json_ok json'" "obj_ok json'" "obj_map json' = (obj_map json)(k \<mapsto> v')"
    and loop: "object_loop (Suc m) rd get flags json l1 = do {
      l \<leftarrow> lex_scan rd get l2;
      if lex_token l = TOKEN_CHAR (CHR '','') then do { l \<leftarrow> lex_scan rd get l; object_loop m rd get flags json' l }
      else Some (if lex_token l = TOKEN_CHAR (CHR ''}'') then Some json' else None, l)
    }" by (elim exE conjE)
  have "scan_token rd e (ind @ CHR ''}'' # rest) = Some (TOKEN_CHAR (CHR ''}''), rest)"
    by (rule scan_punct [OF ind]) simp
  from scan_at [OF l1(3) this] obtain l3 where
    l3: "lex_scan rd get l2 = Some l3" "lex_token l3 = TOKEN_CHAR (CHR ''}'')" "sees (lex_stream l3) rest e" by auto
  have "object_loop n rd get flags json l1 = Some (Some json', l3)" using loop l3(1,2) m(1) by simp
  moreover have "lex_token l1 \<noteq> TOKEN_CHAR (CHR ''}'')" using l1(2) by simp
  moreover have "obj_map json' = obj_map json ++ map_of [(k, v')]" using l1(7) by simp
  moreover have "list_all2 same_member [(k, v)] [(k, v')]" using l1(4) by (simp add: same_member_def)
  ultimately show "\<exists>l1 json' zs l2. lex_scan rd get l = Some l1 \<and> lex_token l1 \<noteq> TOKEN_CHAR (CHR ''}'') \<and>
           object_loop n rd get flags json l1 = Some (Some json', l2) \<and> sees (lex_stream l2) rest e \<and>
           json_ok json' \<and> obj_ok json' \<and> obj_map json' = obj_map json ++ map_of zs \<and> list_all2 same_member [(k, v)] zs"
    using l1(1,5,6) l3(3) by blast
qed

lemma reads_members_more:
  assumes q: "quoted k qt" and c: "blank cs" and v: "reads_value rd flags v u" and ind: "blank ind"
    and more: "reads_members rd flags kvs u'" and k: "k \<notin> fst ` set kvs"
  shows "reads_members rd flags ((k, v) # kvs) (qt @ (CHR '':'' # cs) @ u @ CHR '','' # ind @ u')"
  unfolding reads_members_def
proof (intro conjI allI impI)
  show "utf8_text (qt @ (CHR '':'' # cs) @ u @ CHR '','' # ind @ u')"
    using q v c ind more utf8_text_append utf8_text_blank utf8_text_Cons [of "CHR '':''"] utf8_text_Cons [of "CHR '',''"]
    by (simp add: reads_value_def reads_members_def quoted_def)
  fix n :: nat and l :: "'d lex" and ws rest e json
  assume n: "2 * length (qt @ (CHR '':'' # cs) @ u @ CHR '','' # ind @ u') + 1 \<le> n" "blank ws"
      "sees (lex_stream l) (ws @ (qt @ (CHR '':'' # cs) @ u @ CHR '','' # ind @ u') @ CHR ''}'' # rest) e"
    and j: "json_ok json" "obj_ok json" "json_object_size json + length ((k, v) # kvs) \<le> 1610612741"
      "\<forall>k \<in> fst ` set ((k, v) # kvs). obj_map json k = None"
  obtain m where m: "n = Suc m" "2 * length u \<le> m" "2 * length u' + 1 \<le> m" using n(1) by (cases n) auto
  let ?rest = "CHR '','' # ind @ u' @ CHR ''}'' # rest"
  have st: "stops ?rest" by simp
  have s: "sees (lex_stream l) (ws @ qt @ (CHR '':'' # cs) @ u @ ?rest) e" using n(3) by simp
  have b: "json_object_size json < 1610612741" "obj_map json k = None" using j(3,4) by simp_all
  from reads_member [OF q c v m(2) n(2) st s j(1,2) b] obtain l1 v' json1 l2 where
    l1: "lex_scan rd get l = Some l1" "lex_token l1 = TOKEN_STRING (Some k)" "sees (lex_stream l2) ?rest e"
      "json_equal_to v v' = Some True" "json_ok json1" "obj_ok json1" "obj_map json1 = (obj_map json)(k \<mapsto> v')"
      "json_object_size json1 \<le> json_object_size json + 1"
    and loop: "object_loop (Suc m) rd get flags json l1 = do {
      l \<leftarrow> lex_scan rd get l2;
      if lex_token l = TOKEN_CHAR (CHR '','') then do { l \<leftarrow> lex_scan rd get l; object_loop m rd get flags json1 l }
      else Some (if lex_token l = TOKEN_CHAR (CHR ''}'') then Some json1 else None, l)
    }" by (elim exE conjE)
  have "scan_token rd e ?rest = Some (TOKEN_CHAR (CHR '',''), ind @ u' @ CHR ''}'' # rest)"
    using scan_punct [of "[]" "CHR '',''"] by simp
  from scan_at [OF l1(3) this] obtain l3 where
    l3: "lex_scan rd get l2 = Some l3" "lex_token l3 = TOKEN_CHAR (CHR '','')" "sees (lex_stream l3) (ind @ u' @ CHR ''}'' # rest) e" by auto
  have "json_object_size json1 + length kvs \<le> 1610612741" using l1(8) j(3) by simp
  moreover have "\<forall>k \<in> fst ` set kvs. obj_map json1 k = None" using j(4) k by (auto simp: l1(7))
  ultimately obtain l4 json' zs l5 where
    l4: "lex_scan rd get l3 = Some l4" "object_loop m rd get flags json1 l4 = Some (Some json', l5)"
      "sees (lex_stream l5) rest e" "json_ok json'" "obj_ok json'" "obj_map json' = obj_map json1 ++ map_of zs" "list_all2 same_member kvs zs"
    using reads_membersD [OF more m(3) ind l3(3) l1(5,6)] by blast
  have keys: "map fst zs = map fst kvs" using l4(7) by (induction rule: list_all2_induct) (simp_all add: same_member_def)
  have "k \<notin> dom (map_of zs)" using k keys by (metis dom_map_of_conv_image_fst list.set_map)
  from map_add_upd_left [OF this] have "obj_map json' = obj_map json ++ map_of ((k, v') # zs)" by (simp add: l4(6) l1(7))
  moreover have "list_all2 same_member ((k, v) # kvs) ((k, v') # zs)" using l1(4) l4(7) by (simp add: same_member_def)
  moreover have "object_loop n rd get flags json l1 = Some (Some json', l5)" using loop l3(1,2) l4(1,2) m(1) by simp
  moreover have "lex_token l1 \<noteq> TOKEN_CHAR (CHR ''}'')" using l1(2) by simp
  ultimately show "\<exists>l1 json' zs l2. lex_scan rd get l = Some l1 \<and> lex_token l1 \<noteq> TOKEN_CHAR (CHR ''}'') \<and>
           object_loop n rd get flags json l1 = Some (Some json', l2) \<and> sees (lex_stream l2) rest e \<and>
           json_ok json' \<and> obj_ok json' \<and> obj_map json' = obj_map json ++ map_of zs \<and> list_all2 same_member ((k, v) # kvs) zs"
    using l1(1) l4(3,4,5) by blast
qed

lemma reads_object:
  assumes ind: "blank ind" and mem: "reads_members rd flags kvs u" and keys: "distinct (map fst kvs)"
    and t: "ht_ok t" "ht_size t \<le> 1610612741" "set kvs = set (table_items t)"
  shows "reads_value rd flags (JObject t ser) (CHR ''{'' # ind @ u @ ''}'')"
  unfolding reads_value_def
proof (intro conjI allI impI)
  show "utf8_text (CHR ''{'' # ind @ u @ ''}'')"
    using ind mem utf8_text_append utf8_text_blank utf8_text_Cons [of "CHR ''{''"] utf8_text_ascii [of "''}''"]
    by (simp add: reads_members_def)
  have "length kvs = card (set kvs)" using keys by (simp add: distinct_card distinct_map)
  also have "\<dots> = ht_size t"
    using t(3) items_map [OF t(1)] items_size [OF t(1)] by (simp add: distinct_card distinct_map)
  finally have len: "length kvs = ht_size t" .
  fix n :: nat and l :: "'d lex" and ws rest e
  assume n: "2 * length (CHR ''{'' # ind @ u @ ''}'') \<le> n" "blank ws" "stops rest"
    "sees (lex_stream l) (ws @ (CHR ''{'' # ind @ u @ ''}'') @ rest) e"
  obtain m where m: "n = Suc m" "2 * length u + 1 \<le> m" using n(1) by (cases n) auto
  have "scan_token rd e (ws @ (CHR ''{'' # ind @ u @ ''}'') @ rest) = Some (TOKEN_CHAR (CHR ''{''), ind @ u @ CHR ''}'' # rest)"
    using scan_punct [OF n(2), of "CHR ''{''" rd e "ind @ u @ CHR ''}'' # rest"] by simp
  from scan_at [OF n(4) this] obtain l1 where
    l1: "lex_scan rd get l = Some l1" "lex_token l1 = TOKEN_CHAR (CHR ''{'')" "sees (lex_stream l1) (ind @ u @ CHR ''}'' # rest) e" by auto
  have ok: "json_ok json_object" using json_object_value_ok by (simp add: value_ok_def)
  have "json_object_size json_object + length kvs \<le> 1610612741" "\<forall>k \<in> fst ` set kvs. obj_map json_object k = None"
    using len t(2) by (simp_all add: empty_object)
  from reads_membersD [OF mem m(2) ind l1(3) ok empty_object(1) this] obtain l2 json' zs l3 where
    l2: "lex_scan rd get l1 = Some l2" "lex_token l2 \<noteq> TOKEN_CHAR (CHR ''}'')"
      "object_loop m rd get flags json_object l2 = Some (Some json', l3)" "sees (lex_stream l3) rest e"
      "json_ok json'" "obj_ok json'" "obj_map json' = map_of zs" "list_all2 same_member kvs zs"
    by (auto simp: empty_object)
  from l2(6) obtain t' ser' where j: "json' = JObject t' ser'" "ht_ok t'" by (rule obj_cases)
  have zs: "map fst zs = map fst kvs" using l2(8) by (induction rule: list_all2_induct) (simp_all add: same_member_def)
  have map: "ht_map t' = map_of zs" using l2(7) by (simp add: j(1) obj_map_def)
  have "distinct (map fst zs)" using keys by (simp add: zs)
  from distinct_card [OF this] have "ht_size t' = length zs"
    using ht.count_law [OF j(2)] by (simp add: map dom_map_of_conv_image_fst)
  then have size: "ht_size t = ht_size t'" using len list_all2_lengthD [OF l2(8)] by simp
  have "\<exists>w. ht_map t' k = Some w \<and> json_equal_to v w = Some True" if "(k, v) \<in> set (table_items t)" for k v
  proof -
    from that t(3) obtain i where i: "i < length kvs" "kvs ! i = (k, v)" by (metis in_set_conv_nth)
    from list_all2_nthD [OF l2(8) i(1)] i(2) obtain w where w: "zs ! i = (k, w)" "json_equal_to v w = Some True"
      by (cases "zs ! i") (simp add: same_member_def)
    have "(k, w) \<in> set zs" using w(1) i(1) list_all2_lengthD [OF l2(8)] by (metis nth_mem)
    with keys zs have "map_of zs k = Some w" by simp
    with map w(2) show ?thesis by simp
  qed
  from equal_items_ok [OF j(2), of "table_items t" json_equal_to, OF this]
  have eq: "json_equal_to (JObject t ser) json' = Some True" by (simp add: j(1) json_object_equal_def size)
  have "parse_value n rd get flags l1 = Some (Some json', l3)" using m(1) l1(2) l2(1-3) by simp
  with eq show "\<exists>l1 v' l2. lex_scan rd get l = Some l1 \<and> lex_token l1 \<notin> {TOKEN_EOF, TOKEN_CHAR (CHR '']'')} \<and>
           (json_typeof (JObject t ser) \<in> {JSON_ARRAY, JSON_OBJECT} \<longrightarrow> lex_token l1 \<in> TOKEN_CHAR ` set [CHR ''['', CHR ''{'']) \<and>
           parse_value n rd get flags l1 = Some (Some v', l2) \<and> sees (lex_stream l2) rest e \<and> json_ok v' \<and>
           json_equal_to (JObject t ser) v' = Some True"
    using l1(1,2) l2(4,5) by (intro exI [of _ l1] exI [of _ json'] exI [of _ l3]) (simp del: json_equal_to.simps)
qed simp

end

section \<open>The members in the order in which they are written\<close>

lemma sorted_members_items:
  fixes t :: "json hashtable"
  assumes t: "ht_ok t"
  shows "\<exists>kvs. sorted_members flags (map_hashtable f t) = Some (map (\<lambda>(k, v). (k, Some (f v))) kvs) \<and>
    set kvs = set (table_items t) \<and> distinct (map fst kvs)"
proof -
  let ?t = "map_hashtable f t"
  define key where "key = (\<lambda>p :: json pair. (pair_serial p, pair_key p))"
  define cmp_func where "cmp_func = (if flag flags JSON_SORT_KEYS then object_key_compare_keys else object_key_compare_serials)"
  define ks where "ks = qsort_by cmp_func (map key (ht_list t))"
  define kvs where "kvs = map (\<lambda>k. (snd k, the (ht_map t (snd k)))) ks"
  have keys: "map (\<lambda>p. (pair_serial p, pair_key p)) (ht_list ?t) = map key (ht_list t)"
    by (simp add: ht_list_map pair.map_sel key_def)
  have len: "length (map key (ht_list t)) = ht_size t" using t by (simp add: ht_ok_def)
  have s: "sorted_members flags ?t = Some (map (\<lambda>k. (snd k, Option.bind (hashtable_get ?t (snd k)) (\<lambda>v. v))) ks)"
    using len unfolding sorted_members_def Let_def keys ks_def cmp_func_def by simp
  have items: "map fst (table_items t) = map snd (map key (ht_list t))" by (simp add: table_items_def key_def)
  have mks: "mset ks = mset (map key (ht_list t))" by (simp add: ks_def mset_qsort_by)
  have m: "mset (map fst kvs) = mset (map fst (table_items t))"
  proof -
    have "map fst kvs = map snd ks" by (simp add: kvs_def)
    then have "mset (map fst kvs) = image_mset snd (mset ks)" by simp
    also have "\<dots> = mset (map snd (map key (ht_list t)))" unfolding mks by (simp only: mset_map)
    finally show ?thesis using items by simp
  qed
  have look: "\<exists>v. ht_map t k = Some v" if "k \<in> fst ` set (table_items t)" for k
    using that by (auto simp: items_in_map [OF t])
  have ksf: "snd ` set ks = fst ` set (table_items t)"
    using mset_eq_setD [OF m] by (simp add: kvs_def image_image)
  have set: "set kvs = set (table_items t)"
  proof (rule set_eqI)
    fix x :: "string \<times> json"
    obtain k v where x: "x = (k, v)" by fastforce
    have "x \<in> set kvs \<longleftrightarrow> k \<in> snd ` set ks \<and> v = the (ht_map t k)" by (auto simp: kvs_def x)
    also have "\<dots> \<longleftrightarrow> ht_map t k = Some v"
    proof -
      have "k \<in> snd ` set ks" if "ht_map t k = Some v"
        using that items_in_map [OF t, of k v] unfolding ksf by (simp add: rev_image_eqI)
      with look [of k] show ?thesis unfolding ksf by (metis option.sel)
    qed
    finally show "x \<in> set kvs \<longleftrightarrow> x \<in> set (table_items t)" by (simp add: x items_in_map [OF t])
  qed
  have "distinct (map fst kvs)" using items_map [OF t] mset_eq_imp_distinct_iff [OF m] by simp
  moreover have "map (\<lambda>k. (snd k, Option.bind (hashtable_get ?t (snd k)) (\<lambda>v. v))) ks = map (\<lambda>(k, v). (k, Some (f v))) kvs"
  proof -
    have "Option.bind (hashtable_get ?t (snd k)) (\<lambda>v. v) = Some (f (the (ht_map t (snd k))))" if "k \<in> set ks" for k
    proof -
      have "snd k \<in> fst ` set (table_items t)" using that ksf by blast
      from look [OF this] obtain v where "ht_map t (snd k) = Some v" by blast
      with ht.get_law [OF t, of "snd k"] show ?thesis by (simp add: hashtable_get_map)
    qed
    then show ?thesis by (simp add: kvs_def)
  qed
  ultimately show ?thesis using s set by auto
qed

section \<open>What the encoder writes\<close>

lemma separator_puts:
  "\<exists>ind. blank ind \<and> puts (\<lambda>s. if b then and_then (append_text '','' s) (dump_indent flags (depth + 1) True append_text)
     else dump_indent flags depth False append_text s) (if b then CHR '','' # ind else ind)"
proof (cases b)
  case True
  obtain ind where i: "blank ind" "puts (dump_indent flags (depth + 1) True append_text) ind" using puts_indent by blast
  from puts_and_then [OF puts_append i(2), of "'',''"] i(1) True show ?thesis by auto
next
  case False
  then show ?thesis using puts_indent by simp
qed

lemma digit_ascii: "digit_byte c \<Longrightarrow> uchar c < 0x80 \<and> c \<noteq> NUL"
  using uchar_range [of c] by (auto simp: l_isdigit_def schar_def split: if_splits)

lemma utf8_text_number:
  assumes "sign_text sg" "digits_text ds"
  shows "utf8_text (sg @ ds)"
  using assms digit_ascii by (intro utf8_text_append utf8_text_ascii) (auto simp: sign_text_def digits_text_def)

lemma utf8_text_show_int: "utf8_text (show_int i)"
  using utf8_text_number [of "''-''" "dec_digits n" for n] utf8_text_number [of "[]" "dec_digits n" for n] dec_digits_plain
  by (auto simp: show_int_def sign_text_def plain_digits_def)

lemma utf8_text_real:
  assumes "sign_text sg" "plain_digits ds" "\<forall>c \<in> set fs. digit_byte c" "exponent_of ex"
  shows "utf8_text (json_real_text sg ds fs ex)"
proof -
  have f: "utf8_text (if fs = [] then (if ex = None then ''.0'' else []) else CHR ''.'' # fs)"
  proof (cases "fs = []")
    case False
    have "utf8_text fs" using assms(3) digit_ascii by (intro utf8_text_ascii) blast
    with False show ?thesis by (simp add: utf8_text_Cons)
  qed (simp add: utf8_text_ascii)
  have e: "utf8_text (case ex of None \<Rightarrow> [] | Some (s, es) \<Rightarrow>
        CHR ''e'' # (if s = CHR ''-'' then [s] else []) @ dropWhile (\<lambda>c. c = CHR ''0'') es)"
  proof (cases ex)
    case (Some x)
    obtain s es where x: "x = (s, es)" by fastforce
    from assms(4) Some x have s: "s = CHR ''+'' \<or> s = CHR ''-''" "\<forall>c \<in> set es. digit_byte c" by (simp_all add: exponent_of_def)
    have "utf8_text (dropWhile (\<lambda>c. c = CHR ''0'') es)"
      using s(2) digit_ascii by (intro utf8_text_ascii) (blast dest: set_dropWhileD)
    then show ?thesis using s(1) by (auto simp: Some x intro!: utf8_text_Cons)
  qed (simp add: utf8_text_ascii)
  have "utf8_text (sg @ ds)" using assms(1,2) by (intro utf8_text_number) (simp_all add: plain_digits_def)
  from utf8_text_append [OF this utf8_text_append [OF f e]] show ?thesis by (simp add: json_real_text_def)
qed

context byte_source begin

definition written :: "number_reader \<Rightarrow> 64 word \<Rightarrow> json \<Rightarrow> string writer \<Rightarrow> bool" where
  "written rd lflags v w \<longleftrightarrow> (\<forall>depth. \<exists>u. puts (w depth) u \<and> reads_value rd lflags v u)"

lemma writtenD: "written rd lflags v w \<Longrightarrow> \<exists>u. puts (w depth) u \<and> reads_value rd lflags v u"
  by (simp add: written_def)

lemma written_all: "(\<And>depth. w depth = h) \<Longrightarrow> puts h u \<Longrightarrow> reads_value rd lflags v u \<Longrightarrow> written rd lflags v w"
  by (auto simp: written_def)

lemma entries_put:
  assumes "vs \<noteq> []" "\<And>v. v \<in> set vs \<Longrightarrow> written rd lflags v (f v)"
  shows "\<exists>u. puts (dump_entries flags depth append_text (map f vs)) u \<and> reads_entries rd lflags vs u"
  using assms
proof (induction vs rule: list_nonempty_induct)
  case (single v)
  then obtain u where u: "puts (f v (depth + 1)) u" "reads_value rd lflags v u" using writtenD by fastforce
  obtain ind where i: "blank ind" "puts (dump_indent flags depth False append_text) ind" using puts_indent by blast
  have nil: "puts (dump_entries flags depth append_text []) []" by (simp add: puts_def)
  have "puts (dump_entries flags depth append_text [f v]) (u @ ind @ [])"
    by (rule puts_ext [OF dump_entries.simps(2)], simp only: simp_thms if_False)
      (intro puts_and_then u(1) i(2) nil)
  with reads_entries_last [OF u(2) i(1)] show ?case by (intro exI [of _ "u @ ind"]) (simp del: dump_entries.simps)
next
  case (cons v vs)
  then obtain u u' where u: "puts (f v (depth + 1)) u" "reads_value rd lflags v u"
    "puts (dump_entries flags depth append_text (map f vs)) u'" "reads_entries rd lflags vs u'" using writtenD by fastforce
  obtain ind where i: "blank ind" "puts (\<lambda>s. if map f vs \<noteq> [] then and_then (append_text '','' s) (dump_indent flags (depth + 1) True append_text)
     else dump_indent flags depth False append_text s) (if map f vs \<noteq> [] then CHR '','' # ind else ind)" using separator_puts by blast
  have "puts (dump_entries flags depth append_text (f v # map f vs)) (u @ (if map f vs \<noteq> [] then CHR '','' # ind else ind) @ u')"
    by (rule puts_ext [OF dump_entries.simps(2)]) (intro puts_and_then u(1,3) i(2))
  with reads_entries_more [OF u(2) i(1) u(4)] cons.hyps show ?case
    by (intro exI [of _ "u @ CHR '','' # ind @ u'"]) (simp del: dump_entries.simps)
qed

lemma members_put:
  assumes "kvs \<noteq> []" "distinct (map fst kvs)" "\<And>k v. (k, v) \<in> set kvs \<Longrightarrow> utf8_text k \<and> written rd lflags v (f v)"
  shows "\<exists>u. puts (dump_members flags depth append_text (map (\<lambda>(k, v). (k, Some (f v))) kvs)) u \<and> reads_members rd lflags kvs u"
  using assms
proof (induction kvs rule: list_nonempty_induct)
  case (single m)
  obtain k v where m: "m = (k, v)" by fastforce
  from single m obtain u where u: "utf8_text k" "puts (f v (depth + 1)) u" "reads_value rd lflags v u" using writtenD by fastforce
  obtain qt where q: "puts (dump_string k (flag flags JSON_ENSURE_ASCII) append_text) qt" "quoted k qt" using dump_string_reads [OF u(1)] by blast
  obtain ind where i: "blank ind" "puts (dump_indent flags depth False append_text) ind" using puts_indent by blast
  let ?ct = "if flag flags JSON_COMPACT then '':'' else '': ''"
  have nil: "puts (dump_members flags depth append_text []) []" by (simp add: puts_def)
  have "puts (dump_members flags depth append_text [(k, Some (f v))]) (qt @ (?ct @ u) @ ind @ [])"
    by (rule puts_ext [OF dump_members.simps(2)], simp only: simp_thms if_False Option.bind.bind_lunit)
      (intro puts_bind puts_and_then q(1) puts_append u(2) i(2) nil)
  with reads_members_last [OF q(2) _ u(3) i(1), of "if flag flags JSON_COMPACT then [] else '' ''"] m show ?case
    by (intro exI [of _ "qt @ (?ct @ u) @ ind"]) (simp del: dump_members.simps split: if_splits)
next
  case (cons m kvs)
  obtain k v where m: "m = (k, v)" by fastforce
  from cons.prems(2) [of k v] m have kv: "utf8_text k" "written rd lflags v (f v)" by simp_all
  from writtenD [OF kv(2), of "depth + 1"] obtain u where u: "puts (f v (depth + 1)) u" "reads_value rd lflags v u" by blast
  have "distinct (map fst kvs)" "\<And>k v. (k, v) \<in> set kvs \<Longrightarrow> utf8_text k \<and> written rd lflags v (f v)"
    using cons.prems(1) by simp (use cons.prems(2) in \<open>meson list.set_intros(2)\<close>)
  from cons.IH [OF this] obtain u' where
    u': "puts (dump_members flags depth append_text (map (\<lambda>(k, v). (k, Some (f v))) kvs)) u'" "reads_members rd lflags kvs u'"
    by blast
  obtain qt where q: "puts (dump_string k (flag flags JSON_ENSURE_ASCII) append_text) qt" "quoted k qt" using dump_string_reads [OF kv(1)] by blast
  let ?ms = "map (\<lambda>(k, v). (k, Some (f v))) kvs"
  obtain ind where i: "blank ind" "puts (\<lambda>s. if ?ms \<noteq> [] then and_then (append_text '','' s) (dump_indent flags (depth + 1) True append_text)
     else dump_indent flags depth False append_text s) (if ?ms \<noteq> [] then CHR '','' # ind else ind)" using separator_puts by blast
  let ?ct = "if flag flags JSON_COMPACT then '':'' else '': ''"
  have "puts (dump_members flags depth append_text ((k, Some (f v)) # ?ms)) (qt @ (?ct @ u) @ (if ?ms \<noteq> [] then CHR '','' # ind else ind) @ u')"
    by (rule puts_ext [OF dump_members.simps(2)], simp only: Option.bind.bind_lunit)
      (intro puts_bind puts_and_then q(1) puts_append u(1) u'(1) i(2))
  moreover have "k \<notin> fst ` set kvs" using cons.prems(1) m by simp
  ultimately show ?case
    using reads_members_more [OF q(2) _ u(2) i(1) u'(2), of "if flag flags JSON_COMPACT then [] else '' ''"] m cons.hyps
    by (intro exI [of _ "qt @ (?ct @ u) @ CHR '','' # ind @ u'"]) (simp del: dump_members.simps split: if_splits)
qed

text \<open>A value that can be read back, and the text that is written for it.\<close>

lemma reads_word:
  assumes "w \<in> set [''true'', ''false'', ''null'']" "utf8_text w" "json_typeof v \<notin> {JSON_ARRAY, JSON_OBJECT}"
    "\<And>n l. lex_token l = identifier_token w \<Longrightarrow> parse_value (Suc n) rd get lflags l = Some (Some v, l)"
    "json_ok v" "json_equal_to v v = Some True"
  shows "reads_value rd lflags v w"
proof (rule reads_scalar [OF _ assms(2,3)])
  show "identifier_token w \<notin> {TOKEN_INVALID, TOKEN_EOF, TOKEN_CHAR (CHR '']'')}" using assms(1) by (auto simp: identifier_token_def)
qed (use assms scan_word in auto)

lemma written_array:
  assumes "\<And>v. v \<in> set vs \<Longrightarrow> written rd lflags v (f v)"
  shows "written rd lflags (JArray c vs) (dump_array flags append_text (map f vs))"
  unfolding written_def
proof
  fix depth
  show "\<exists>u. puts (dump_array flags append_text (map f vs) depth) u \<and> reads_value rd lflags (JArray c vs) u"
  proof (cases "vs = []")
    case True
    have "puts (dump_array flags append_text (map f vs) depth) (''['' @ '']'')"
      unfolding dump_array_def [abs_def] using True by (simp del: append.simps) (intro puts_and_then puts_append)
    moreover have "reads_value rd lflags (JArray c []) ''[]''"
      by (rule reads_empty [where t = hashtable_init]) (simp_all add: hashtable_init_def)
    ultimately show ?thesis using True by auto
  next
    case False
    from entries_put [OF False assms] obtain u where
      u: "puts (dump_entries flags depth append_text (map f vs)) u" "reads_entries rd lflags vs u" by blast
    obtain ind where i: "blank ind" "puts (dump_indent flags (depth + 1) False append_text) ind" using puts_indent by blast
    have "puts (dump_array flags append_text (map f vs) depth) (''['' @ ind @ u @ '']'')"
      unfolding dump_array_def [abs_def] using False
      by (simp del: append.simps) (intro puts_and_then puts_append u(1) i(2) [simplified])
    with reads_array [OF i(1) u(2)] show ?thesis by auto
  qed
qed

lemma written_object:
  assumes t: "ht_ok t" "ht_size t \<le> 1610612741"
    and m: "\<And>k v. (k, v) \<in> set (table_items t) \<Longrightarrow> utf8_text k \<and> written rd lflags v (f v)"
  shows "written rd lflags (JObject t ser) (dump_object flags append_text (map_hashtable f t))"
  unfolding written_def
proof
  fix depth
  show "\<exists>u. puts (dump_object flags append_text (map_hashtable f t) depth) u \<and> reads_value rd lflags (JObject t ser) u"
  proof (cases "table_items t = []")
    case True
    then have e: "ht_list t = []" "hashtable_iter (map_hashtable f t) = None"
      by (simp_all add: table_items_def hashtable_iter_def ht_list_map)
    have "puts (dump_object flags append_text (map_hashtable f t) depth) (''{'' @ ''}'')"
      unfolding dump_object_def [abs_def] e(2) by (simp del: append.simps) (intro puts_and_then puts_append)
    moreover have "ht_size t = 0" using items_size [OF t(1)] True by simp
    then have "reads_value rd lflags (JObject t ser) ''{}''" using e(1) by (intro reads_empty) simp_all
    ultimately show ?thesis by auto
  next
    case False
    then have e: "hashtable_iter (map_hashtable f t) \<noteq> None"
      by (auto simp: table_items_def hashtable_iter_def ht_list_map split: list.splits)
    define sorted where "sorted \<longleftrightarrow> flag flags JSON_SORT_KEYS \<or> flag flags JSON_PRESERVE_ORDER"
    have "\<exists>kvs. set kvs = set (table_items t) \<and> distinct (map fst kvs) \<and>
       (if sorted then sorted_members flags (map_hashtable f t) = Some (map (\<lambda>(k, v). (k, Some (f v))) kvs)
        else kvs = table_items t)"
      using sorted_members_items [OF t(1), of flags f] items_map [OF t(1)] by (cases sorted) auto
    then obtain kvs where kvs: "set kvs = set (table_items t)" "distinct (map fst kvs)"
       "if sorted then sorted_members flags (map_hashtable f t) = Some (map (\<lambda>(k, v). (k, Some (f v))) kvs)
        else kvs = table_items t" by blast
    have ne: "kvs \<noteq> []" using kvs(1) False by auto
    have "\<And>k v. (k, v) \<in> set kvs \<Longrightarrow> utf8_text k \<and> written rd lflags v (f v)" using m kvs(1) by blast
    from members_put [OF ne kvs(2) this] obtain u where
      u: "puts (dump_members flags depth append_text (map (\<lambda>(k, v). (k, Some (f v))) kvs)) u" "reads_members rd lflags kvs u" by blast
    obtain ind where i: "blank ind" "puts (dump_indent flags (depth + 1) False append_text) ind" using puts_indent by blast
    let ?members = "\<lambda>s. if sorted
      then do { ms \<leftarrow> sorted_members flags (map_hashtable f t); dump_members flags depth append_text ms s }
      else dump_members flags depth append_text (map (\<lambda>(k, w). (k, Some w)) (table_items (map_hashtable f t))) s"
    have ms: "puts ?members u"
      using kvs(3) u(1) by (cases sorted) (simp_all add: comp_def case_prod_unfold)
    have "puts (dump_object flags append_text (map_hashtable f t) depth) (''{'' @ ind @ u @ ''}'')"
      unfolding dump_object_def [abs_def] sorted_def [symmetric] if_not_P [OF e]
      by (intro puts_and_then puts_append ms i(2))
    with reads_object [OF i(1) u(2) kvs(2) t kvs(1)] show ?thesis by auto
  qed
qed

lemma written_do_dump:
  assumes point: "point_ok (decimal_point fmt)"
  shows "json_ok v \<Longrightarrow> loadable fmt rd v \<Longrightarrow> written rd lflags v (do_dump v fmt flags append_text)"
proof (induction v)
  case JNull
  show ?case
  proof (rule written_all [where u = "''null''"])
    show "puts (append_text ''null'') ''null''" by (rule puts_append)
    show "reads_value rd lflags JNull ''null''" by (rule reads_word) (simp_all add: utf8_text_ascii identifier_token_def)
  qed simp
next
  case JTrue
  show ?case
  proof (rule written_all [where u = "''true''"])
    show "puts (append_text ''true'') ''true''" by (rule puts_append)
    show "reads_value rd lflags JTrue ''true''" by (rule reads_word) (simp_all add: utf8_text_ascii identifier_token_def)
  qed simp
next
  case JFalse
  show ?case
  proof (rule written_all [where u = "''false''"])
    show "puts (append_text ''false'') ''false''" by (rule puts_append)
    show "reads_value rd lflags JFalse ''false''" by (rule reads_word) (simp_all add: utf8_text_ascii identifier_token_def)
  qed simp
next
  case (JInteger i)
  then have i: "is_int64 i" by simp
  have "reads_value rd lflags (JInteger i) (show_int i)"
  proof (rule reads_scalar [where k = "TOKEN_INTEGER i" and v' = "JInteger i"])
    show "show_int i \<noteq> []" using dec_digits_plain by (auto simp: show_int_def plain_digits_def digits_text_def)
  qed (use i scan_show_int utf8_text_show_int in \<open>auto simp: json_integer_def\<close>)
  moreover have "puts (dump_integer append_text i) (show_int i)"
    using show_int64_length [OF i] by (simp add: puts_def dump_integer_def append_text_def)
  ultimately show ?case by (intro written_all [where u = "show_int i"]) simp_all
next
  case (JReal d)
  then obtain sg ds fs ex where r: "sign_text sg" "plain_digits ds" "\<forall>c \<in> set fs. digit_byte c" "exponent_of ex"
      "format_g17 fmt d = printf_text (decimal_point fmt) sg ds fs ex" "length (format_g17 fmt d) < 97"
      "strtod rd (to_locale (reader_point rd) (json_real_text sg ds fs ex)) = (d, False, length (json_real_text sg ds fs ex))"
    by (auto simp: real_reads_def)
  let ?u = "json_real_text sg ds fs ex"
  have "reads_value rd lflags (JReal d) ?u"
  proof (rule reads_scalar [where k = "TOKEN_REAL d" and v' = "JReal d"])
    show "?u \<noteq> []" using r(2) by (auto simp: json_real_text_def plain_digits_def digits_text_def)
    show "scan_token rd e (ws @ ?u @ rest) = Some (TOKEN_REAL d, rest)" if "blank ws" "stops rest" for ws rest e
      by (rule scan_real [OF that r(1-4,7)])
  qed (use JReal utf8_text_real [OF r(1-4)] in \<open>auto simp: json_real_def double_eq_def\<close>)
  moreover have "puts (dump_real fmt append_text d) ?u"
    using dtostr_text [OF point r(1) _ r(3-6)] r(2) by (simp add: puts_def dump_real_def append_text_def plain_digits_def)
  ultimately show ?case by (intro written_all [where u = ?u]) simp_all
next
  case (JString s)
  from JString obtain u where u: "puts (dump_string s (flag flags JSON_ENSURE_ASCII) append_text) u" "quoted s u"
    using dump_string_reads by fastforce
  have "reads_value rd lflags (JString s) u"
    by (rule reads_scalar [where k = "TOKEN_STRING (Some s)" and v' = "JString s"])
      (use u(2) in \<open>auto simp: quoted_def json_string_nocheck_def\<close>)
  with u(1) show ?case by (intro written_all [where u = u]) simp_all
next
  case (JArray n xs)
  have "written rd lflags v (do_dump v fmt flags append_text)" if "v \<in> set xs" for v
    using JArray.IH [OF that] JArray.prems that unfolding json_ok_members by (simp add: list_all_iff)
  from written_array [of xs, OF this] show ?case by (simp add: comp_def)
next
  case (JObject t ser)
  have "utf8_text k \<and> written rd lflags v (do_dump v fmt flags append_text)" if "(k, v) \<in> set (table_items t)" for k v
  proof -
    have "json_ok v" "utf8_text k \<and> loadable fmt rd v"
      using JObject.prems that unfolding json_ok_members by (auto simp: list_all_iff)
    with JObject.IH [OF table_items_set [OF that]] show ?thesis by blast
  qed
  from written_object [of t rd lflags "\<lambda>v. do_dump v fmt flags append_text" ser flags, OF _ _ this] JObject.prems
  show ?case unfolding json_ok_members by (simp add: hashtable.map_comp comp_def)
qed

text \<open>The whole text: it is read to its end, and an equal value comes out.\<close>

lemma parse_written:
  assumes w: "written rd lflags v w" and any: "json_typeof v \<in> {JSON_ARRAY, JSON_OBJECT} \<or> lflags AND JSON_DECODE_ANY \<noteq> 0"
  shows "\<exists>u. puts (w 0) u \<and> utf8_text u \<and> (\<forall>d n. source_ok d \<longrightarrow> pending d = u \<longrightarrow> parse_fuel (length u) \<le> n \<longrightarrow>
    (\<exists>v' l. parse_json n rd get lflags (lex_init d) = Some (Some v', l) \<and> json_ok v' \<and> json_equal_to v v' = Some True))"
proof -
  from writtenD [OF w, of 0] obtain u where u: "puts (w 0) u" "reads_value rd lflags v u" by blast
  have "\<exists>v' l. parse_json n rd get lflags (lex_init d) = Some (Some v', l) \<and> json_ok v' \<and> json_equal_to v v' = Some True"
    if d: "source_ok d" "pending d = u" "parse_fuel (length u) \<le> n" for d n
  proof -
    have "utf8_check_bytes u" using u(2) by (simp add: reads_value_def utf8_text_def)
    from readable_utf8 [OF this] stream_init_sees [OF d(1)] d(2)
    have s: "sees (lex_stream (lex_init d)) ([] @ u @ []) STREAM_STATE_EOF" by (simp add: lex_init_def)
    have n: "2 * length u \<le> n" using d(3) by (simp add: parse_fuel_def)
    from reads_valueD [OF u(2) n _ _ s] obtain l1 v' l2 where
      l1: "lex_scan rd get (lex_init d) = Some l1"
        "json_typeof v \<in> {JSON_ARRAY, JSON_OBJECT} \<longrightarrow> lex_token l1 \<in> TOKEN_CHAR ` set [CHR ''['', CHR ''{'']"
        "parse_value n rd get lflags l1 = Some (Some v', l2)" "sees (lex_stream l2) [] STREAM_STATE_EOF" "json_ok v'"
        "json_equal_to v v' = Some True" by auto
    have "scan_token rd STREAM_STATE_EOF [] = Some (TOKEN_EOF, [])" by (simp add: scan_token_def)
    from scan_at [OF l1(4) this] obtain l3 where l3: "lex_scan rd get l2 = Some l3" "lex_token l3 = TOKEN_EOF" by auto
    have "\<not> (lflags AND JSON_DECODE_ANY = 0 \<and> lex_token l1 \<notin> TOKEN_CHAR ` set [CHR ''['', CHR ''{''])"
      using any l1(2) by blast
    then have "\<exists>l. parse_json n rd get lflags (lex_init d) = Some (Some v', l)"
      using l1(1,3) l3 by (simp add: parse_json_def del: set_simps)
    with l1(5,6) show ?thesis by blast
  qed
  moreover have "utf8_text u" using u(2) by (simp add: reads_value_def)
  ultimately show ?thesis using u(1) by blast
qed

end

lemma json_dumps_loads:
  assumes v: "json_ok v" "loadable fmt rd v" and point: "point_ok (decimal_point fmt)"
    and any: "json_typeof v \<in> {JSON_ARRAY, JSON_OBJECT} \<or> flag flags JSON_ENCODE_ANY \<and> lflags AND JSON_DECODE_ANY \<noteq> 0"
  shows "\<exists>u. json_text fmt v flags = Some (0, u) \<and> (int (length u) \<le> INT_MAX \<longrightarrow>
    json_dumps fmt v flags = Some (Some u) \<and>
    (\<exists>v'. json_loads rd (Some u) lflags = Some (Some v') \<and> json_ok v' \<and> json_equal (Some v) (Some v') = Some True))"
proof -
  have "json_typeof v \<in> {JSON_ARRAY, JSON_OBJECT} \<or> lflags AND JSON_DECODE_ANY \<noteq> 0" using any by blast
  from string_src.parse_written [OF string_src.written_do_dump [OF point v, of lflags flags] this] obtain u where
    u: "puts (do_dump v fmt flags append_text 0) u" "utf8_text u"
      "\<And>d n. is_cstr (string_text d) \<and> 0 \<le> string_pos d \<and> int (length (string_text d)) \<le> INT_MAX \<Longrightarrow>
        drop (nat (string_pos d)) (string_text d) = u \<Longrightarrow> parse_fuel (length u) \<le> n \<Longrightarrow>
        \<exists>v' l. parse_json n rd string_get lflags (lex_init d) = Some (Some v', l) \<and> json_ok v' \<and> json_equal_to v v' = Some True"
    by blast
  have t: "json_text fmt v flags = Some (0, u)" using u(1) any by (auto simp: json_text_def json_dump_callback_def puts_def)
  have "json_dumps fmt v flags = Some (Some u) \<and>
    (\<exists>v'. json_loads rd (Some u) lflags = Some (Some v') \<and> json_ok v' \<and> json_equal (Some v) (Some v') = Some True)"
    if len: "int (length u) \<le> INT_MAX"
  proof -
    have "length u < 2 ^ 61" using len by (simp add: INT_MAX_def)
    from json_dumps_text [OF t this] u(2) have "json_dumps fmt v flags = Some (Some u)" by (simp add: utf8_text_def is_cstr_def)
    moreover have "\<exists>v' l. parse_json (parse_fuel (length u)) rd string_get lflags (lex_init \<lparr>string_text = u, string_pos = 0\<rparr>) =
        Some (Some v', l) \<and> json_ok v' \<and> json_equal_to v v' = Some True"
      by (rule u(3)) (use len u(2) in \<open>simp_all add: utf8_text_def\<close>)
    ultimately show ?thesis by (auto simp: json_loads_def json_equal_def)
  qed
  with t show ?thesis by blast
qed

end
