(* ===== verification/Jansson_Load_Properties.thy ===== *)
theory Jansson_Load_Properties
  imports Jansson_Load_Roundtrip Jansson_Properties
begin

text \<open>
  What the decoder \<^verbatim>\<open>src/lib/jansson-2.3.1/src/load.c\<close> promises, alone and together with the
  encoder, with concrete values.
\<close>

section \<open>A concrete C library\<close>

definition plain_reader :: number_reader where
  "plain_reader = \<lparr>strtod = (\<lambda>s. (0x3FE0000000000000, False, length s)), reader_point = CHR ''.''\<rparr>"

lemma plain_reader_ok: "strtod_ok plain_reader"
  by (simp add: strtod_ok_def plain_reader_def to_locale_def)

lemma plain_real_ok: "real_ok plain_format d"
proof -
  have "list_all printable ''0.5''" by code_simp
  then show ?thesis by (simp add: real_ok_def plain_format_prints)
qed

lemma plain_real_reads: "real_reads plain_format plain_reader 0x3FE0000000000000"
proof -
  have "sign_text []" "plain_digits ''0''" "\<forall>c \<in> set ''5''. digit_byte c" "exponent_of None"
    by (simp_all add: sign_text_def plain_digits_def digits_text_def exponent_of_def l_isdigit_def schar_def)
  moreover have "format_g17 plain_format 0x3FE0000000000000 = printf_text (decimal_point plain_format) [] ''0'' ''5'' None"
    "length (format_g17 plain_format 0x3FE0000000000000) < 97"
    by (simp_all add: plain_format_def printf_text_def)
  moreover have "strtod plain_reader (to_locale (reader_point plain_reader) (json_real_text [] ''0'' ''5'' None)) =
      (0x3FE0000000000000, False, length (json_real_text [] ''0'' ''5'' None))"
    by (simp add: plain_reader_def to_locale_def)
  ultimately show ?thesis unfolding real_reads_def by blast
qed

lemma loadable_object:
  "ht_ok t \<Longrightarrow> loadable fmt rd (JObject t s) \<longleftrightarrow> (\<forall>k v. ht_map t k = Some v \<longrightarrow> utf8_text k \<and> loadable fmt rd v)"
proof -
  have "loadable fmt rd (JObject t s) \<longleftrightarrow> (\<forall>k v. (k, v) \<in> set (table_items t) \<longrightarrow> utf8_text k \<and> loadable fmt rd v)"
    by (auto simp: list_all_iff)
  then show "ht_ok t \<Longrightarrow> ?thesis" by (simp add: items_in_map)
qed

section \<open>Decoding\<close>

text \<open>
  C3: What the encoder writes, the decoder reads back. For every well-formed value whose strings
  and keys are UTF-8 text and whose numbers the C library can write and read, for all flags of
  the encoder (indentation, compact, escaping of non-ASCII, sorted or original order) and of the
  decoder (rejecting duplicate keys too): the text exists, and, when an \<^verbatim>\<open>int\<close> can count its bytes,
  \<^verbatim>\<open>json_dumps\<close> returns it and \<^verbatim>\<open>json_loads\<close> makes of it a well-formed value that
  \<^verbatim>\<open>json_equal\<close> finds equal to the first. A value that is neither an array nor an object needs the
  flags that allow it on both sides.
\<close>

theorem decode_encoded:
  assumes "json_ok v" "loadable fmt rd v" "point_ok (decimal_point fmt)"
    and "json_typeof v \<in> {JSON_ARRAY, JSON_OBJECT} \<or> flag flags JSON_ENCODE_ANY \<and> lflags AND JSON_DECODE_ANY \<noteq> 0"
  shows "\<exists>u. json_text fmt v flags = Some (0, u) \<and> (int (length u) \<le> INT_MAX \<longrightarrow>
    json_dumps fmt v flags = Some (Some u) \<and>
    (\<exists>v'. json_loads rd (Some u) lflags = Some (Some v') \<and> json_ok v' \<and> json_equal (Some v) (Some v') = Some True))"
  by (rule json_dumps_loads [OF assms])

theorem decode_encoded_witness:
  "\<exists>j u. obj_map j = [[CHR 0xC3, CHR 0xA9, CHR 0x22] \<mapsto> JArray 2 [JReal 0x3FE0000000000000, JInteger (-7)]] \<and>
     json_text plain_format (JArray 1 [j]) (JSON_ENSURE_ASCII OR 4) = Some (0, u) \<and>
     (int (length u) \<le> INT_MAX \<longrightarrow> json_dumps plain_format (JArray 1 [j]) (JSON_ENSURE_ASCII OR 4) = Some (Some u) \<and>
       (\<exists>v'. json_loads plain_reader (Some u) JSON_REJECT_DUPLICATES = Some (Some v') \<and> json_ok v' \<and>
          json_equal (Some (JArray 1 [j])) (Some v') = Some True))"
proof -
  let ?k = "[CHR 0xC3, CHR 0xA9, CHR 0x22]" and ?v = "JArray 2 [JReal 0x3FE0000000000000, JInteger (-7)]"
  have k: "utf8_text ?k" by code_simp
  have v: "json_ok ?v" "loadable plain_format plain_reader ?v"
    using plain_real_reads by (simp_all add: is_int64_def is_nan_def drop_bit_eq_div take_bit_eq_mod)
  have size: "json_object_size json_object < 1610612741" by (simp add: empty_object)
  from object_set_ok [OF empty_object(1) this, of ?k ?v] obtain j where
    j: "json_object_set_nocheck json_object (Some ?k) (Some ?v) = Some (0, j)" "obj_ok j" "obj_map j = [?k \<mapsto> ?v]"
    by (auto simp: empty_object(3))
  have "json_ok json_object" using json_object_value_ok by (simp add: value_ok_def)
  then have ok: "json_ok j" by (rule object_set_json_ok [OF _ j(1) _ size]) (use v in simp)
  from j(2) obtain t s where t: "j = JObject t s" "ht_ok t" by (rule obj_cases)
  have "loadable plain_format plain_reader j"
    unfolding t(1) loadable_object [OF t(2)] using j(3) k v(2) by (simp add: t(1) obj_map_def)
  then have "json_ok (JArray 1 [j])" "loadable plain_format plain_reader (JArray 1 [j])" using ok by simp_all
  moreover have "point_ok (decimal_point plain_format)" by (simp add: plain_format_def point_ok_def l_isdigit_def schar_def)
  ultimately have "\<exists>u. json_text plain_format (JArray 1 [j]) (JSON_ENSURE_ASCII OR 4) = Some (0, u) \<and>
     (int (length u) \<le> INT_MAX \<longrightarrow> json_dumps plain_format (JArray 1 [j]) (JSON_ENSURE_ASCII OR 4) = Some (Some u) \<and>
       (\<exists>v'. json_loads plain_reader (Some u) JSON_REJECT_DUPLICATES = Some (Some v') \<and> json_ok v' \<and>
          json_equal (Some (JArray 1 [j])) (Some v') = Some True))"
    by (intro decode_encoded) simp_all
  with j(3) show ?thesis by blast
qed

text \<open>
  C22: \<^verbatim>\<open>json_loads\<close> returns, for every string of at most 1610612741 bytes in which the four
  characters after each backslash and \<^verbatim>\<open>u\<close> are letters or digits, whatever the flags and whatever
  else the bytes are: no assertion fails, no loop runs for ever and no recursion either. What it
  returns is NULL or a well-formed value that the encoder can write.
\<close>

theorem json_loads_total:
  assumes "strtod_ok rd" "\<And>d. real_ok fmt d" "is_cstr s" "length s \<le> 1610612741" "escapes_ok (fst (readable s))"
  shows "\<exists>res. json_loads rd (Some s) flags = Some res \<and> (\<forall>v. res = Some v \<longrightarrow> json_ok v \<and> writable fmt v)"
  using json_loads_returns [OF assms] by (simp add: value_ok_def)

theorem json_loads_total_witness:
  "\<exists>res. json_loads plain_reader (Some ''[1, {x'') 0 = Some res \<and> (\<forall>v. res = Some v \<longrightarrow> json_ok v \<and> writable plain_format v)"
proof -
  have "is_cstr ''[1, {x''" "escapes_ok (fst (readable ''[1, {x''))" by code_simp+
  then show ?thesis by (intro json_loads_total plain_reader_ok plain_real_ok) simp_all
qed

text \<open>
  C23: The lexer, which reads byte by byte, saves bytes and puts one back, finds the same tokens as
  the reference tokenizer, a function of the bytes ahead: the same token and the same rest of
  the input, \<^verbatim>\<open>TOKEN_INVALID\<close> for the same inputs, and an assertion fails on the same inputs.
\<close>

theorem lexer_is_tokenizer:
  assumes "string_src.sees (lex_stream l) xs e"
  shows "case scan_token rd e xs of
      None \<Rightarrow> lex_scan rd string_get l = None
    | Some (k, rest) \<Rightarrow> \<exists>l'. lex_scan rd string_get l = Some l' \<and> lex_token l' = k \<and>
        (k \<noteq> TOKEN_INVALID \<longrightarrow> string_src.sees (lex_stream l') rest e)"
  using string_src.lex_scan_ok [OF assms, of rd] by (simp add: string_src.scans_def)

theorem lexer_is_tokenizer_witness:
  "\<exists>l'. lex_scan plain_reader string_get (lex_init \<lparr>string_text = '' [-12]'', string_pos = 0\<rparr>) = Some l' \<and>
     lex_token l' = TOKEN_CHAR (CHR ''['') \<and> string_src.sees (lex_stream l') ''-12]'' STREAM_STATE_EOF"
proof -
  have r: "readable '' [-12]'' = ('' [-12]'', STREAM_STATE_EOF)" "is_cstr '' [-12]''" by code_simp+
  then have s: "string_src.sees (lex_stream (lex_init \<lparr>string_text = '' [-12]'', string_pos = 0\<rparr>)) '' [-12]'' STREAM_STATE_EOF"
    using string_src.stream_init_sees [of "\<lparr>string_text = '' [-12]'', string_pos = 0\<rparr>"] by (simp add: lex_init_def INT_MAX_def)
  have "scan_token plain_reader STREAM_STATE_EOF '' [-12]'' = Some (TOKEN_CHAR (CHR ''[''), ''-12]'')"
    by (simp add: scan_token_def)
  with lexer_is_tokenizer [OF s, of plain_reader] show ?thesis by simp
qed

lemma escape_digits_alnum:
  "escape_digits n cs v \<noteq> None \<Longrightarrow> n \<le> length cs \<Longrightarrow> \<forall>c \<in> set (take n cs). digit_byte c \<or> alpha_byte c"
proof (induction n arbitrary: cs v)
  case (Suc n)
  then obtain c cs' where cs: "cs = c # cs'" by (cases cs) auto
  from Suc.prems(1) cs obtain d where d: "escape_digit c = Some d" "escape_digits n cs' (push_bit 4 v + d) \<noteq> None"
    by (cases "escape_digit c") auto
  from d(1) have "digit_byte c \<or> alpha_byte c"
    by (auto simp: escape_digit_def Let_def l_isalpha_def split: if_splits)
  with Suc.IH [OF d(2)] Suc.prems(2) cs show ?case by simp
qed simp

text \<open>
  C24: An escape whose four characters are not all letters or digits ends the program: the test
  that should refuse it accepts every character, and the conversion reaches \<^verbatim>\<open>assert (0)\<close>. So
  \<^verbatim>\<open>json_loads\<close> is undefined on such a text, whatever follows the string.
\<close>

theorem bad_escape_aborts:
  assumes "length h = 4" "\<exists>c \<in> set h. \<not> (digit_byte c \<or> alpha_byte c)" "utf8_text (h @ CHR 0x22 # rest)"
    and "int (length rest) + 9 \<le> INT_MAX"
  shows "json_loads rd (Some (CHR ''['' # CHR 0x22 # CHR 0x5C # CHR ''u'' # h @ CHR 0x22 # rest)) flags = None"
proof -
  let ?xs = "CHR 0x22 # CHR 0x5C # CHR ''u'' # h @ CHR 0x22 # rest"
  let ?d = "\<lparr>string_text = CHR ''['' # ?xs, string_pos = 0\<rparr>"
  have u: "utf8_text (CHR ''['' # ?xs)" using assms(3) by (intro utf8_text_Cons) simp_all
  then have "readable (CHR ''['' # ?xs) = (CHR ''['' # ?xs, STREAM_STATE_EOF)" by (intro readable_utf8) (simp add: utf8_text_def)
  moreover have "is_cstr (string_text ?d) \<and> 0 \<le> string_pos ?d \<and> int (length (string_text ?d)) \<le> INT_MAX"
    using u assms(1,4) by (simp add: utf8_text_def)
  ultimately have s: "string_src.sees (lex_stream (lex_init ?d)) ([] @ CHR ''['' # ?xs) STREAM_STATE_EOF"
    using string_src.stream_init_sees [of ?d] by (simp add: lex_init_def)
  have "scan_token rd STREAM_STATE_EOF ([] @ CHR ''['' # ?xs) = Some (TOKEN_CHAR (CHR ''[''), ?xs)" by (rule scan_punct) simp_all
  from string_src.scan_at [OF s this] obtain l1 where
    l1: "lex_scan rd string_get (lex_init ?d) = Some l1" "lex_token l1 = TOKEN_CHAR (CHR ''['')"
      "string_src.sees (lex_stream l1) ?xs STREAM_STATE_EOF" by auto
  have dec: "decode_unicode_escape (CHR ''u'' # h @ [CHR 0x22]) = None"
    using escape_digits_alnum [of 4 "h @ [CHR 0x22]" 0] assms(1,2) by (cases "escape_digits 4 (h @ [CHR 0x22]) 0") (auto simp: decode_unicode_escape_def)
  have "string_end (CHR 0x5C # CHR ''u'' # h @ CHR 0x22 # rest) = Some (CHR 0x5C # CHR ''u'' # h, rest)"
    unfolding string_end_unicode [OF assms(1)] by (simp add: after_def)
  moreover have "unescape [] (CHR 0x5C # CHR ''u'' # h @ [CHR 0x22]) = None"
    using dec by (simp add: unescape_escape escape_step_def)
  ultimately have "scan_token rd STREAM_STATE_EOF ?xs = None"
    by (simp add: scan_token_def scan_string_def del: string_end.simps)
  with string_src.lex_scan_ok [OF l1(3), of rd] have "lex_scan rd string_get l1 = None" by (simp add: string_src.scans_def)
  with l1(2) have v: "parse_value (Suc n) rd string_get flags l1 = None" for n by simp
  have "parse_fuel (length (string_text ?d)) = Suc (2 * length (string_text ?d) + 1)" by (simp add: parse_fuel_def)
  then have "parse_json (parse_fuel (length (string_text ?d))) rd string_get flags (lex_init ?d) = None"
    using l1(1,2) v by (simp add: parse_json_def del: parse_value.simps)
  then show ?thesis by (simp add: json_loads_def)
qed

theorem bad_escape_aborts_witness:
  "json_loads plain_reader (Some (CHR ''['' # CHR 0x22 # CHR 0x5C # CHR ''u'' # ''12 4'' @ CHR 0x22 # '']'')) 0 = None"
proof (rule bad_escape_aborts)
  show "utf8_text (''12 4'' @ CHR 0x22 # '']'')" by code_simp
qed (simp_all add: INT_MAX_def l_isdigit_def l_isalpha_def l_isupper_def l_islower_def schar_def)

end
