(* ===== verification/Events_Received.thy ===== *)
theory Events_Received
  imports Events_Properties Jansson_Load_Properties
begin

text \<open>
  What a receiver that decodes the messages of \<^verbatim>\<open>src/events.c\<close> with the same JSON library gets:
  the handlers, the encoder and the decoder together.
\<close>

section \<open>Equal objects\<close>

lemma equal_items_members:
  "ht_ok t2 \<Longrightarrow> equal_items (map (\<lambda>(k, v). (k, eq v)) kvs) t2 = Some True \<Longrightarrow> (k, v) \<in> set kvs \<Longrightarrow>
   \<exists>w. ht_map t2 k = Some w \<and> eq v w = Some True"
proof (induction kvs)
  case (Cons kv kvs)
  obtain k' v' where kv: "kv = (k', v')" by fastforce
  from Cons.prems(2) have "(\<exists>w. ht_map t2 k' = Some w \<and> eq v' w = Some True) \<and>
      equal_items (map (\<lambda>(k, v). (k, eq v)) kvs) t2 = Some True"
    by (auto simp: kv ht.get_law [OF Cons.prems(1)] bind_eq_Some_conv split: option.splits if_splits)
  with Cons kv show ?case by auto
qed simp

lemma equal_objects:
  assumes "obj_ok j" "json_equal_to j j' = Some True" "json_ok j'"
  shows "obj_ok j' \<and> dom (obj_map j') = dom (obj_map j) \<and>
    (\<forall>k v. obj_map j k = Some v \<longrightarrow> (\<exists>w. obj_map j' k = Some w \<and> json_equal_to v w = Some True))"
proof -
  from assms(1) obtain t s where j: "j = JObject t s" "ht_ok t" by (rule obj_cases)
  from assms(2,3) j obtain t' s' where j': "j' = JObject t' s'" "ht_ok t'"
    by (cases j') (auto simp: json_ok_object_map)
  have e: "ht_size t = ht_size t'" "equal_items (map (\<lambda>(k, v). (k, json_equal_to v)) (table_items t)) t' = Some True"
    using assms(2) by (auto simp: j(1) j'(1) json_object_equal_def split: if_splits)
  have m: "\<exists>w. ht_map t' k = Some w \<and> json_equal_to v w = Some True" if "ht_map t k = Some v" for k v
    using equal_items_members [OF j'(2) e(2), of k v] that items_in_map [OF j(2)] by blast
  then have "dom (ht_map t) \<subseteq> dom (ht_map t')" by blast
  moreover have "card (dom (ht_map t)) = card (dom (ht_map t'))" using e(1) ht.count_law [OF j(2)] ht.count_law [OF j'(2)] by simp
  ultimately have "dom (ht_map t) = dom (ht_map t')" using card_subset_eq [OF ht.finite_law] by blast
  with m j j' show ?thesis by (simp add: obj_ok_def obj_map_def)
qed

text \<open>Values without numbers of floating point and without members: equal ones are the same.\<close>

definition plain_value :: "json \<Rightarrow> bool" where
  "plain_value v \<longleftrightarrow> json_typeof v \<notin> {JSON_REAL, JSON_ARRAY, JSON_OBJECT}"

lemma plain_equal: "plain_value v \<Longrightarrow> json_equal_to v w = Some True \<Longrightarrow> w = v"
  by (cases v; cases w) (auto simp: plain_value_def)

lemma equal_plain_objects:
  assumes "obj_ok j" "json_equal_to j j' = Some True" "json_ok j'" "\<forall>v \<in> ran (obj_map j). plain_value v"
  shows "obj_ok j' \<and> obj_map j' = obj_map j"
proof -
  note o = equal_objects [OF assms(1-3)]
  have e: "obj_ok j'" "dom (obj_map j') = dom (obj_map j)"
    "\<And>k v. obj_map j k = Some v \<Longrightarrow> \<exists>w. obj_map j' k = Some w \<and> json_equal_to v w = Some True"
    by (rule o [THEN conjunct1], rule o [THEN conjunct2, THEN conjunct1], rule o [THEN conjunct2, THEN conjunct2, rule_format])
  have "obj_map j' k = obj_map j k" for k
  proof (cases "obj_map j k")
    case None
    then show ?thesis using e(2) by (metis domIff)
  next
    case (Some v)
    then have "v \<in> ran (obj_map j)" by (rule ranI)
    with assms(4) have v: "plain_value v" by blast
    from e(3) [OF Some] obtain w where "obj_map j' k = Some w" "json_equal_to v w = Some True" by (elim exE conjE)
    with plain_equal [OF v] Some show ?thesis by simp
  qed
  with e(1) show ?thesis by blast
qed

section \<open>Decoding the text of an event\<close>

lemma event_received:
  assumes ok: "entries_ok fmt es" and point: "point_ok (decimal_point fmt)"
    and m: "\<forall>v \<in> ran (map_of (rev (kept es))). plain_value v"
  shows "\<exists>v'. json_loads rd (Some (event_text fmt es)) lflags = Some (Some v') \<and>
    (\<forall>k. json_object_get v' k = Some (map_of (rev (kept es)) k))"
proof -
  let ?j = "event_value es"
  note f = event_value_ok [OF ok]
  from f(2) obtain t s where j: "?j = JObject t s" "ht_ok t" by (rule event_objE)
  have w: "json_ok ?j" "writable fmt ?j" using f(2) by (simp_all add: event_obj_def)
  have "loadable fmt rd ?j"
    unfolding j(1) loadable_object [OF j(2)]
  proof (intro allI impI)
    fix k v assume k: "ht_map t k = Some v"
    with w(2) have "utf8_text k" "writable fmt v" unfolding j(1) writable_object [OF j(2)] by blast+
    moreover have "obj_map ?j k = Some v" using k by (simp add: j(1) obj_map_def)
    then have "plain_value v" using m by (auto simp: f(3) intro: ranI)
    ultimately show "utf8_text k \<and> loadable fmt rd v" by (cases v) (simp_all add: plain_value_def)
  qed
  moreover have "json_typeof ?j \<in> {JSON_ARRAY, JSON_OBJECT} \<or> flag 0 JSON_ENCODE_ANY \<and> lflags AND JSON_DECODE_ANY \<noteq> 0"
    by (simp add: j(1))
  ultimately obtain v' where v': "json_loads rd (Some (event_text fmt es)) lflags = Some (Some v')" "json_ok v'"
      "json_equal (Some ?j) (Some v') = Some True"
    using json_dumps_loads [OF w(1) _ point, of rd 0 lflags] f(7,10) by auto
  have "obj_ok ?j" using j by (simp add: obj_ok_def)
  from equal_plain_objects [OF this _ v'(2)] v'(3) m have "obj_ok v'" "obj_map v' = map_of (rev (kept es))"
    by (simp_all add: json_equal_def f(3))
  with v'(1) obj.get_law show ?thesis by auto
qed

lemma option_item_plain:
  assumes "\<forall>(name, opt) \<in> set opts. \<not> (\<exists>d. opt = Json_real d)" "v \<in> ran (map_of (rev (kept (option_entries g None opts))))"
  shows "plain_value v"
proof -
  from assms(2) obtain k where "map_of (rev (kept (option_entries g None opts))) k = Some v" by (auto simp: ran_def)
  then have "(k, v) \<in> set (kept (option_entries g None opts))" by (auto dest: map_of_SomeD)
  then obtain opt where o: "(k, opt) \<in> set opts" "option_item g opt = Some v"
    by (auto simp: kept_def option_entries_def split: option.splits if_splits)
  with assms(1) show ?thesis
    by (auto simp: option_item_def plain_value_def n2a_string_to_truncated_json_def json_string_nocheck_def
        json_integer_def n2a_bool_to_json_def split: event_option.splits option.splits if_splits)
qed

section \<open>Downtimes\<close>

text \<open>
  C4: A receiver gets the fields of a downtime. Adding a downtime of a host or a service sends one
  message; \<^verbatim>\<open>json_loads\<close> makes of it, whatever its flags, an object in which every name has exactly
  the value that the handler gave to it, and no other name has one.
\<close>

theorem downtime_received:
  assumes "clock_ok env" "connector_ok g s xs" "max_size_ok g"
    and "dt_type c = NEBTYPE_DOWNTIME_ADD"
    and "names = (if downtime_type c = HOST_DOWNTIME then host_names g ''downtime'' (dt_host_name c)
        else service_names g ''downtime'' (dt_host_name c) (dt_service_description c))"
    and "downtime_type c = HOST_DOWNTIME \<or> downtime_type c = SERVICE_DOWNTIME"
    and "entries_ok fmt (downtime_event g c)" and "names_fit names" and "point_ok (decimal_point fmt)"
  shows "\<exists>s' ys t v. n2a_event_downtime env fmt g c s = Some (0, s') \<and> connector_ok g s' ys \<and>
    connector_run env g s [Send (routing_key g names) t] s' \<and> json_loads rd (Some t) lflags = Some (Some v) \<and>
    (\<forall>k. json_object_get v k = Some (map_of (rev (kept (downtime_event g c))) k))"
proof -
  have "\<forall>v \<in> ran (map_of (rev (kept (downtime_event g c)))). plain_value v"
    unfolding downtime_event_def by (intro ballI option_item_plain) (auto simp: downtime_options_def)
  with downtime_sends [OF assms(1-8)] event_received [OF assms(7,9)] show ?thesis by blast
qed

theorem downtime_received_witness:
  "\<exists>s' ys t v. n2a_event_downtime up_env plain_format default_options some_downtime idle_state = Some (0, s') \<and>
     connector_ok default_options s' ys \<and>
     connector_run up_env default_options idle_state [Send ''nagios.Central.downtime.component.web'' t] s' \<and>
     json_loads plain_reader (Some t) JSON_REJECT_DUPLICATES = Some (Some v) \<and>
     (\<forall>k. json_object_get v k = Some (map_of (rev (kept (downtime_event default_options some_downtime))) k))"
proof -
  have "point_ok (decimal_point plain_format)" by (simp add: plain_format_def point_ok_def l_isdigit_def schar_def)
  from downtime_received [OF envs_ok(1) idle_ok [OF default_cache_size] default_max_size some_downtime_ok(1,3,2,4)
    some_names_fit(4) this] show ?thesis unfolding some_downtime_ok(5) .
qed

end
