(* ===== verification/Rabbit_Codec.thy ===== *)
theory Rabbit_Codec
  imports Prelude
begin

unbundle bit_operations_syntax

text \<open>
  The codec of the bundled AMQP client library (\<^verbatim>\<open>src/lib/librabbitmq/amqp_private.h\<close>). An
  \<^verbatim>\<open>amqp_bytes_t\<close> is the list of its bytes. An encoder writes into a buffer of fixed size at an
  offset and returns both, a decoder reads a buffer at an offset and returns the value and the
  new offset; where the code returns 0 they are \<open>None\<close>. Both have a specification:
  \<open>writes f w\<close> says that the encoder \<open>f\<close> puts exactly the bytes \<open>w\<close> or reports an error,
  \<open>reads d w x\<close> that the decoder \<open>d\<close> takes \<open>x\<close> from the bytes \<open>w\<close>.
\<close>

section \<open>Status\<close>

definition AMQP_STATUS_OK :: int where "AMQP_STATUS_OK = 0"
definition AMQP_STATUS_NO_MEMORY :: int where "AMQP_STATUS_NO_MEMORY = -0x1"
definition AMQP_STATUS_BAD_AMQP_DATA :: int where "AMQP_STATUS_BAD_AMQP_DATA = -0x2"
definition AMQP_STATUS_UNKNOWN_CLASS :: int where "AMQP_STATUS_UNKNOWN_CLASS = -0x3"
definition AMQP_STATUS_UNKNOWN_METHOD :: int where "AMQP_STATUS_UNKNOWN_METHOD = -0x4"
definition AMQP_STATUS_INVALID_PARAMETER :: int where "AMQP_STATUS_INVALID_PARAMETER = -0xA"
definition AMQP_STATUS_TABLE_TOO_BIG :: int where "AMQP_STATUS_TABLE_TOO_BIG = -0xB"

lemmas amqp_status = AMQP_STATUS_OK_def AMQP_STATUS_NO_MEMORY_def AMQP_STATUS_BAD_AMQP_DATA_def
  AMQP_STATUS_UNKNOWN_CLASS_def AMQP_STATUS_UNKNOWN_METHOD_def AMQP_STATUS_INVALID_PARAMETER_def
  AMQP_STATUS_TABLE_TOO_BIG_def

text \<open>
  A function that returns a status below 0 or goes on is \<open>Inl\<close> of the status or \<open>Inr\<close>.
  \<open>or_status\<close> is the check \<^verbatim>\<open>if (!...) return res\<close>, \<open>then_do\<close> the check \<^verbatim>\<open>if (res < 0) return res\<close>.
\<close>

definition or_status :: "int \<Rightarrow> 'a option \<Rightarrow> int + 'a" where
  "or_status res r = (case r of None \<Rightarrow> Inl res | Some x \<Rightarrow> Inr x)"

definition then_do :: "int + 'a \<Rightarrow> ('a \<Rightarrow> int + 'b) \<Rightarrow> int + 'b" where
  "then_do r f = (case r of Inl res \<Rightarrow> Inl res | Inr x \<Rightarrow> f x)"

lemma or_status_simps [simp]:
  "or_status res None = Inl res" "or_status res (Some x) = Inr x"
  by (simp_all add: or_status_def)

lemma then_do_simps [simp]:
  "then_do (Inl res) f = Inl res" "then_do (Inr x) f = f x"
  by (simp_all add: then_do_def)

lemma then_do_Inr [simp]: "then_do r f = Inr y \<longleftrightarrow> (\<exists>x. r = Inr x \<and> f x = Inr y)"
  by (cases r) simp_all

lemma or_status_Inr [simp]: "or_status res r = Inr y \<longleftrightarrow> r = Some y"
  by (cases r) simp_all

lemma then_do_cong [fundef_cong]:
  "r = r' \<Longrightarrow> (\<And>x. r' = Inr x \<Longrightarrow> f x = f' x) \<Longrightarrow> then_do r f = then_do r' f'"
  by (cases r') simp_all

text \<open>
  The status of a function in which an \<^verbatim>\<open>int\<close> operation overflows, which is undefined. No
  \<^verbatim>\<open>int\<close> has this value, so no other status is taken for it; it is passed on to the caller.
\<close>

definition int_overflow :: int where "int_overflow = 2 ^ 31"

definition codec_int :: "int \<Rightarrow> int + int" where
  "codec_int z = or_status int_overflow (int_result z)"

text \<open>
  \<^verbatim>\<open>return offset\<close> in a function that returns an \<^verbatim>\<open>int\<close>: the \<^verbatim>\<open>size_t\<close> is converted, and a
  negative result is taken for a status by the caller.
\<close>

definition return_offset :: "'a \<times> nat \<Rightarrow> int + 'a \<times> nat" where
  "return_offset = (\<lambda>(encoded, offset).
     let res = to_int (int offset) in if res < 0 then Inl res else Inr (encoded, nat res))"

lemma return_offset_id [simp]: "int n \<le> INT_MAX \<Longrightarrow> return_offset (b, n) = Inr (b, n)"
  by (simp add: return_offset_def Let_def is_int_def INT_MIN_def)

text \<open>Steps one after the other, each with its own way out.\<close>

fun run_steps :: "('s \<Rightarrow> int + 's) list \<Rightarrow> 's \<Rightarrow> int + 's" where
  "run_steps [] s = Inr s"
| "run_steps (f # fs) s = then_do (f s) (run_steps fs)"

section \<open>Integers in network order\<close>

fun net_bytes :: "nat \<Rightarrow> int \<Rightarrow> string" where
  "net_bytes 0 v = []"
| "net_bytes (Suc n) v = net_bytes n (v div 256) @ [byte v]"

definition net_value :: "string \<Rightarrow> int" where
  "net_value bs = foldl (\<lambda>v c. v * 256 + uchar c) 0 bs"

abbreviation octets :: "'w::len word \<Rightarrow> nat" where "octets (v :: 'w word) \<equiv> LENGTH('w) div 8"

definition wire :: "'w::len word \<Rightarrow> string" where
  "wire v = net_bytes (octets v) (uint v)"

lemma net_bytes_length [simp]: "length (net_bytes n v) = n"
  by (induction n arbitrary: v) simp_all

lemma wire_length [simp]: "length (wire (v :: 'w::len word)) = octets v"
  by (simp add: wire_def)

lemma net_value_bytes: "net_value (net_bytes n v) = v mod 256 ^ n"
proof (induction n arbitrary: v)
  case (Suc n)
  have "uchar (byte v) = v mod 256" by (simp add: of_char_of)
  moreover have "v mod (256 * 256 ^ n) = 256 * (v div 256 mod 256 ^ n) + v mod 256"
    by (rule zmod_zmult2_eq) simp
  ultimately show ?case using Suc [of "v div 256"] by (simp add: net_value_def)
qed (simp add: net_value_def)

lemma net_value_wire: "8 dvd LENGTH('w) \<Longrightarrow> net_value (wire (v :: 'w::len word)) = uint v"
proof (elim dvdE)
  fix k assume "LENGTH('w) = 8 * k"
  moreover have "uint v < 2 ^ LENGTH('w)" by (rule uint_lt2p)
  moreover have "(2::int) ^ (8 * k) = 256 ^ k" by (simp add: power_mult)
  ultimately show ?thesis by (simp add: wire_def net_value_bytes)
qed

lemma wire_not_Nil [simp]: "8 \<le> LENGTH('w) \<Longrightarrow> wire (v :: 'w::len word) \<noteq> []"
  by (simp add: div_greater_zero_iff flip: length_greater_0_conv)

section \<open>Reading and writing\<close>

definition amqp_e :: "string \<Rightarrow> nat \<Rightarrow> 'w::len word \<Rightarrow> string" where
  "amqp_e data offset val =
     take offset data @ net_bytes (octets val) (uint val) @ drop (offset + octets val) data"

definition amqp_d :: "string \<Rightarrow> nat \<Rightarrow> 'w::len word" where
  "amqp_d data offset = word_of_int (net_value (take (LENGTH('w) div 8) (drop offset data)))"

text \<open>The buffer to write to and the offset.\<close>

type_synonym encoding = "string \<times> nat"

definition amqp_encode :: "'w::len word \<Rightarrow> encoding \<Rightarrow> encoding option" where
  "amqp_encode input = (\<lambda>(encoded, offset).
     if offset + octets input \<le> length encoded
     then Some (amqp_e encoded offset input, offset + octets input) else None)"

definition amqp_decode :: "string \<Rightarrow> nat \<Rightarrow> ('w::len word \<times> nat) option" where
  "amqp_decode encoded offset =
     (if offset + LENGTH('w) div 8 \<le> length encoded
      then Some (amqp_d encoded offset, offset + LENGTH('w) div 8) else None)"

definition amqp_encode_bytes :: "string \<Rightarrow> encoding \<Rightarrow> encoding option" where
  "amqp_encode_bytes input = (\<lambda>(encoded, offset).
     if offset + length input \<le> length encoded
     then Some (take offset encoded @ input @ drop (offset + length input) encoded, offset + length input)
     else None)"

definition amqp_decode_bytes :: "string \<Rightarrow> nat \<Rightarrow> nat \<Rightarrow> (string \<times> nat) option" where
  "amqp_decode_bytes encoded len offset =
     (if offset + len \<le> length encoded then Some (take len (drop offset encoded), offset + len) else None)"

section \<open>What is at an offset\<close>

definition put_at :: "string \<Rightarrow> nat \<Rightarrow> string \<Rightarrow> string" where
  "put_at b o1 w = take o1 b @ w @ drop (o1 + length w) b"

definition holds_at :: "string \<Rightarrow> nat \<Rightarrow> string \<Rightarrow> bool" where
  "holds_at b o1 w \<longleftrightarrow> o1 + length w \<le> length b \<and> take (length w) (drop o1 b) = w"

lemma put_at_Nil [simp]: "put_at b o1 [] = b"
  by (simp add: put_at_def)

lemma put_at_length [simp]: "o1 + length w \<le> length b \<Longrightarrow> length (put_at b o1 w) = length b"
  by (simp add: put_at_def)

lemma put_at_append:
  "o1 + length u + length w \<le> length b \<Longrightarrow> put_at (put_at b o1 u) (o1 + length u) w = put_at b o1 (u @ w)"
  by (simp add: put_at_def ac_simps)

lemma holds_at_iff: "holds_at b o1 w \<longleftrightarrow> (\<exists>p q. b = p @ w @ q \<and> length p = o1)"
proof
  assume a: "holds_at b o1 w"
  then have "b = take o1 b @ w @ drop (o1 + length w) b"
    unfolding holds_at_def by (metis append_take_drop_id drop_drop add.commute)
  moreover have "length (take o1 b) = o1" using a by (simp add: holds_at_def)
  ultimately show "\<exists>p q. b = p @ w @ q \<and> length p = o1" by blast
qed (auto simp: holds_at_def)

lemma holds_at_append [simp]:
  "holds_at b o1 (u @ w) \<longleftrightarrow> holds_at b o1 u \<and> holds_at b (o1 + length u) w"
proof
  assume "holds_at b o1 (u @ w)"
  then obtain p q where b: "b = p @ u @ w @ q" "length p = o1" by (auto simp: holds_at_iff)
  then have "b = (p @ u) @ w @ q" "length (p @ u) = o1 + length u" by simp_all
  with b show "holds_at b o1 u \<and> holds_at b (o1 + length u) w" unfolding holds_at_iff by blast
next
  assume "holds_at b o1 u \<and> holds_at b (o1 + length u) w"
  then show "holds_at b o1 (u @ w)"
    by (auto simp: holds_at_def take_add ac_simps)
qed

lemma holds_at_put_at: "o1 + length w \<le> length b \<Longrightarrow> holds_at (put_at b o1 w) o1 w"
  by (simp add: holds_at_def put_at_def)

lemma holds_at_take: "holds_at b o1 w \<Longrightarrow> o1 + length w \<le> n \<Longrightarrow> holds_at (take n b) o1 w"
  by (auto simp: holds_at_def drop_take)

lemma holds_at_self [simp]: "holds_at w 0 w"
  by (simp add: holds_at_def)

section \<open>Specifications of encoders and decoders\<close>

definition writes :: "(encoding \<Rightarrow> int + encoding) \<Rightarrow> string \<Rightarrow> bool" where
  "writes f w \<longleftrightarrow> (\<forall>b o1.
     (w = [] \<or> o1 + length w \<le> length b \<longrightarrow> f (b, o1) = Inr (put_at b o1 w, o1 + length w)) \<and>
     (w \<noteq> [] \<and> length b < o1 + length w \<longrightarrow> (\<exists>res < 0. f (b, o1) = Inl res)))"

definition reads :: "(string \<Rightarrow> nat \<Rightarrow> int + 'a \<times> nat) \<Rightarrow> string \<Rightarrow> 'a \<Rightarrow> bool" where
  "reads d w x \<longleftrightarrow> (\<forall>e o1. holds_at e o1 w \<longrightarrow> d e o1 = Inr (x, o1 + length w))"

definition codec :: "(encoding \<Rightarrow> int + encoding) \<Rightarrow> (string \<Rightarrow> nat \<Rightarrow> int + 'a \<times> nat) \<Rightarrow> 'a \<Rightarrow> bool" where
  "codec f d x \<longleftrightarrow> (\<exists>w. writes f w \<and> reads d w x)"

lemma writes_fit: "writes f w \<Longrightarrow> o1 + length w \<le> length b \<Longrightarrow> f (b, o1) = Inr (put_at b o1 w, o1 + length w)"
  by (simp add: writes_def)

lemma writes_Inr:
  assumes "writes f w" and "f (b, o1) = Inr (b', o2)" and "o1 \<le> length b"
  shows "b' = put_at b o1 w \<and> o2 = o1 + length w \<and> o2 \<le> length b"
proof (cases "o1 + length w \<le> length b")
  case False
  with assms(3) have "w \<noteq> []" by auto
  with False assms(1) have "\<exists>res<0. f (b, o1) = Inl res" by (simp add: writes_def)
  with assms(2) show ?thesis by auto
qed (use assms writes_fit in fastforce)

lemma writes_then:
  assumes f: "writes f u" and g: "writes g w"
  shows "writes (\<lambda>s. then_do (f s) g) (u @ w)"
  unfolding writes_def
proof (intro allI conjI impI)
  fix b :: string and o1
  assume a: "u @ w = [] \<or> o1 + length (u @ w) \<le> length b"
  show "then_do (f (b, o1)) g = Inr (put_at b o1 (u @ w), o1 + length (u @ w))"
  proof (cases "u @ w = []")
    case True
    with f g show ?thesis by (simp add: writes_def)
  next
    case False
    with a have fits: "o1 + length u + length w \<le> length b" by auto
    with writes_fit [OF f, of o1 b] writes_fit [OF g, of "o1 + length u" "put_at b o1 u"]
    show ?thesis by (simp add: put_at_append add.assoc)
  qed
next
  fix b :: string and o1
  assume a: "u @ w \<noteq> [] \<and> length b < o1 + length (u @ w)"
  show "\<exists>res<0. then_do (f (b, o1)) g = Inl res"
  proof (cases "u \<noteq> [] \<and> length b < o1 + length u")
    case True
    with f have "\<exists>res<0. f (b, o1) = Inl res" by (simp add: writes_def)
    then show ?thesis by auto
  next
    case False
    then have "f (b, o1) = Inr (put_at b o1 u, o1 + length u)" using f by (auto simp: writes_def)
    moreover have "w \<noteq> []" "length (put_at b o1 u) < o1 + length u + length w"
      using False a by (cases "u = []"; auto)+
    ultimately show ?thesis using g by (simp add: writes_def)
  qed
qed

lemma writes_run_Nil: "writes (run_steps []) []"
  by (simp add: writes_def)

lemma writes_run_Cons: "writes f u \<Longrightarrow> writes (run_steps fs) w \<Longrightarrow> writes (run_steps (f # fs)) (u @ w)"
  using writes_then [of f u "run_steps fs" w] by (simp add: writes_def)

lemma reads_then:
  assumes "reads d u x" and "reads (k x) w y"
  shows "reads (\<lambda>e o1. then_do (d e o1) (\<lambda>(x, o2). k x e o2)) (u @ w) y"
  using assms by (auto simp: reads_def add.assoc)

lemma reads_return: "y' = y \<Longrightarrow> reads (\<lambda>e o1. Inr (y', o1)) [] y"
  by (simp add: reads_def)

lemma codec_then:
  assumes "codec f d x" and "codec (run_steps fs) (k x) y"
  shows "codec (run_steps (f # fs)) (\<lambda>e o1. then_do (d e o1) (\<lambda>(x, o2). k x e o2)) y"
proof -
  obtain u w where "writes f u" "reads d u x" "writes (run_steps fs) w" "reads (k x) w y"
    using assms by (auto simp: codec_def)
  then have "writes (run_steps (f # fs)) (u @ w)"
    "reads (\<lambda>e o1. then_do (d e o1) (\<lambda>(x, o2). k x e o2)) (u @ w) y"
    by (auto intro: writes_run_Cons reads_then)
  then show ?thesis unfolding codec_def by blast
qed

lemma codec_return: "y' = y \<Longrightarrow> codec (run_steps []) (\<lambda>e o1. Inr (y', o1)) y"
  unfolding codec_def by (rule exI [of _ "[]"]) (simp add: writes_run_Nil reads_return)

text \<open>What an encoder wrote, its decoder reads back.\<close>

lemma codec_roundtrip:
  assumes "codec f d x" and "f (b, o1) = Inr (b', o2)" and "o1 \<le> length b"
  shows "o2 \<le> length b \<and> length b' = length b \<and> d (take o2 b') o1 = Inr (x, o2)"
proof -
  obtain w where w: "writes f w" "reads d w x" using assms(1) by (auto simp: codec_def)
  note r = writes_Inr [OF w(1) assms(2,3)]
  then have "holds_at (take o2 b') o1 w"
    using holds_at_put_at [of o1 w b] by (auto intro: holds_at_take)
  with w(2) r show ?thesis by (auto simp: reads_def)
qed

section \<open>Integers and byte strings\<close>

lemma amqp_encode_put_at:
  "amqp_encode v (b, o1) =
    (if o1 + octets v \<le> length b then Some (put_at b o1 (wire v), o1 + octets v) else None)"
  by (simp add: amqp_encode_def amqp_e_def put_at_def wire_def)

lemma amqp_encode_bytes_put_at:
  "amqp_encode_bytes w (b, o1) =
    (if o1 + length w \<le> length b then Some (put_at b o1 w, o1 + length w) else None)"
  by (simp add: amqp_encode_bytes_def put_at_def)

lemma writes_amqp_encode:
  assumes "8 \<le> LENGTH('w::len)" and "res < 0"
  shows "writes (\<lambda>s. or_status res (amqp_encode (v :: 'w word) s)) (wire v)"
  using assms by (auto simp: writes_def amqp_encode_put_at)

lemma reads_amqp_decode:
  assumes "8 dvd LENGTH('w::len)"
  shows "reads (\<lambda>e o1. or_status res (amqp_decode e o1)) (wire (v :: 'w word)) v"
  using assms by (auto simp: reads_def amqp_decode_def amqp_d_def holds_at_def net_value_wire)

text \<open>A byte string after its length, in one or four bytes.\<close>

definition encode_counted :: "'w::len word \<Rightarrow> string \<Rightarrow> encoding \<Rightarrow> encoding option" where
  "encode_counted len input s =
     (case amqp_encode len s of None \<Rightarrow> None | Some s \<Rightarrow> amqp_encode_bytes input s)"

definition decode_counted :: "'w::len itself \<Rightarrow> string \<Rightarrow> nat \<Rightarrow> (string \<times> nat) option" where
  "decode_counted w encoded offset =
     (case amqp_decode encoded offset of None \<Rightarrow> None
      | Some (len :: 'w word, offset) \<Rightarrow> amqp_decode_bytes encoded (unat len) offset)"

lemma writes_encode_counted:
  assumes "8 \<le> LENGTH('w::len)" and "res < 0"
  shows "writes (\<lambda>s. or_status res (encode_counted (len :: 'w word) input s)) (wire len @ input)"
proof -
  have "or_status res (encode_counted len input (b, o1)) =
      (if o1 + length (wire len @ input) \<le> length b
       then Inr (put_at b o1 (wire len @ input), o1 + length (wire len @ input)) else Inl res)" for b o1
    using put_at_append [of o1 "wire len" input b]
    by (auto simp: encode_counted_def amqp_encode_put_at amqp_encode_bytes_put_at)
  with assms show ?thesis by (auto simp: writes_def)
qed

lemma reads_decode_counted:
  assumes "8 dvd LENGTH('w::len)" and "unat (len :: 'w word) = length input"
  shows "reads (\<lambda>e o1. or_status res (decode_counted TYPE('w) e o1)) (wire len @ input) input"
proof -
  have "amqp_decode e o1 = Some (len, o1 + octets len)" if "holds_at e o1 (wire len)" for e o1
    using reads_amqp_decode [OF assms(1), of res len] that by (simp add: reads_def)
  with assms(2) show ?thesis
    by (simp add: reads_def decode_counted_def amqp_decode_bytes_def) (simp add: holds_at_def)
qed


section \<open>The fields of a message\<close>

text \<open>
  Each is written or read together with the check of its result; \<open>res\<close> is the status that is
  returned when the buffer is too small. A short string has one byte of length, a long one four.
\<close>

definition put_8 :: "int \<Rightarrow> 8 word \<Rightarrow> encoding \<Rightarrow> int + encoding" where
  "put_8 res v s = or_status res (amqp_encode v s)"

definition put_16 :: "int \<Rightarrow> 16 word \<Rightarrow> encoding \<Rightarrow> int + encoding" where
  "put_16 res v s = or_status res (amqp_encode v s)"

definition put_32 :: "int \<Rightarrow> 32 word \<Rightarrow> encoding \<Rightarrow> int + encoding" where
  "put_32 res v s = or_status res (amqp_encode v s)"

definition put_64 :: "int \<Rightarrow> 64 word \<Rightarrow> encoding \<Rightarrow> int + encoding" where
  "put_64 res v s = or_status res (amqp_encode v s)"

definition put_short :: "int \<Rightarrow> string \<Rightarrow> encoding \<Rightarrow> int + encoding" where
  "put_short res v s = or_status res (encode_counted (word_of_nat (length v) :: 8 word) v s)"

definition put_long :: "int \<Rightarrow> string \<Rightarrow> encoding \<Rightarrow> int + encoding" where
  "put_long res v s = or_status res (encode_counted (word_of_nat (length v) :: 32 word) v s)"

definition get_8 :: "string \<Rightarrow> nat \<Rightarrow> int + 8 word \<times> nat" where
  "get_8 e o1 = or_status AMQP_STATUS_BAD_AMQP_DATA (amqp_decode e o1)"

definition get_16 :: "string \<Rightarrow> nat \<Rightarrow> int + 16 word \<times> nat" where
  "get_16 e o1 = or_status AMQP_STATUS_BAD_AMQP_DATA (amqp_decode e o1)"

definition get_32 :: "string \<Rightarrow> nat \<Rightarrow> int + 32 word \<times> nat" where
  "get_32 e o1 = or_status AMQP_STATUS_BAD_AMQP_DATA (amqp_decode e o1)"

definition get_64 :: "string \<Rightarrow> nat \<Rightarrow> int + 64 word \<times> nat" where
  "get_64 e o1 = or_status AMQP_STATUS_BAD_AMQP_DATA (amqp_decode e o1)"

definition get_short :: "string \<Rightarrow> nat \<Rightarrow> int + string \<times> nat" where
  "get_short e o1 = or_status AMQP_STATUS_BAD_AMQP_DATA (decode_counted TYPE(8) e o1)"

definition get_long :: "string \<Rightarrow> nat \<Rightarrow> int + string \<times> nat" where
  "get_long e o1 = or_status AMQP_STATUS_BAD_AMQP_DATA (decode_counted TYPE(32) e o1)"

definition get_raw :: "string \<Rightarrow> nat \<Rightarrow> nat \<Rightarrow> int + string \<times> nat" where
  "get_raw e len o1 = or_status AMQP_STATUS_BAD_AMQP_DATA (amqp_decode_bytes e len o1)"

lemma get_short_bytes: "get_short e o1 = then_do (get_8 e o1) (\<lambda>(len, o2). get_raw e (unat len) o2)"
  by (auto simp: get_short_def get_8_def get_raw_def decode_counted_def split: option.split)

text \<open>The lengths that the count has room for.\<close>

definition is_short :: "string \<Rightarrow> bool" where "is_short s \<longleftrightarrow> length s < 2 ^ 8"
definition is_long :: "string \<Rightarrow> bool" where "is_long s \<longleftrightarrow> length s < 2 ^ 32"

named_theorems codec_writes \<open>what an encoder writes\<close>
named_theorems codec_reads \<open>what a decoder reads\<close>

lemma writes_put_8 [codec_writes]: "res < 0 \<Longrightarrow> writes (put_8 res v) (wire v)"
  unfolding put_8_def by (rule writes_amqp_encode) simp_all

lemma writes_put_16 [codec_writes]: "res < 0 \<Longrightarrow> writes (put_16 res v) (wire v)"
  unfolding put_16_def by (rule writes_amqp_encode) simp_all

lemma writes_put_32 [codec_writes]: "res < 0 \<Longrightarrow> writes (put_32 res v) (wire v)"
  unfolding put_32_def by (rule writes_amqp_encode) simp_all

lemma writes_put_64 [codec_writes]: "res < 0 \<Longrightarrow> writes (put_64 res v) (wire v)"
  unfolding put_64_def by (rule writes_amqp_encode) simp_all

lemma writes_put_short [codec_writes]:
  "res < 0 \<Longrightarrow> writes (put_short res v) (wire (word_of_nat (length v) :: 8 word) @ v)"
  unfolding put_short_def by (rule writes_encode_counted) simp_all

lemma writes_put_long [codec_writes]:
  "res < 0 \<Longrightarrow> writes (put_long res v) (wire (word_of_nat (length v) :: 32 word) @ v)"
  unfolding put_long_def by (rule writes_encode_counted) simp_all

lemma reads_get_8 [codec_reads]: "reads get_8 (wire v) v"
  unfolding get_8_def [abs_def] by (rule reads_amqp_decode) simp

lemma reads_get_16 [codec_reads]: "reads get_16 (wire v) v"
  unfolding get_16_def [abs_def] by (rule reads_amqp_decode) simp

lemma reads_get_32 [codec_reads]: "reads get_32 (wire v) v"
  unfolding get_32_def [abs_def] by (rule reads_amqp_decode) simp

lemma reads_get_64 [codec_reads]: "reads get_64 (wire v) v"
  unfolding get_64_def [abs_def] by (rule reads_amqp_decode) simp

lemma reads_get_short [codec_reads]:
  "is_short v \<Longrightarrow> reads get_short (wire (word_of_nat (length v) :: 8 word) @ v) v"
  unfolding get_short_def [abs_def] by (rule reads_decode_counted) (simp_all add: is_short_def unat_of_nat)

lemma reads_get_long [codec_reads]:
  "is_long v \<Longrightarrow> reads get_long (wire (word_of_nat (length v) :: 32 word) @ v) v"
  unfolding get_long_def [abs_def] by (rule reads_decode_counted) (simp_all add: is_long_def unat_of_nat)

text \<open>A decoder that succeeds has moved on and stayed within the buffer.\<close>

lemma get_within:
  "get_8 e o1 = Inr (v8, o2) \<Longrightarrow> o1 < o2 \<and> o2 \<le> length e"
  "get_16 e o1 = Inr (v16, o2) \<Longrightarrow> o1 < o2 \<and> o2 \<le> length e"
  "get_32 e o1 = Inr (v32, o2) \<Longrightarrow> o1 < o2 \<and> o2 \<le> length e"
  "get_64 e o1 = Inr (v64, o2) \<Longrightarrow> o1 < o2 \<and> o2 \<le> length e"
  "get_short e o1 = Inr (v, o2) \<Longrightarrow> o1 < o2 \<and> o2 \<le> length e"
  "get_long e o1 = Inr (v, o2) \<Longrightarrow> o1 < o2 \<and> o2 \<le> length e"
  "get_raw e n o1 = Inr (v, o2) \<Longrightarrow> o1 \<le> o2 \<and> o2 \<le> length e"
  by (auto simp: get_8_def get_16_def get_32_def get_64_def get_short_def get_long_def get_raw_def decode_counted_def
    amqp_decode_def amqp_decode_bytes_def split: if_splits option.splits)

end
