(* ===== verification/Rabbit_Table.thy ===== *)
theory Rabbit_Table
  imports Rabbit_Codec
begin

text \<open>
  Field tables (\<^verbatim>\<open>src/lib/librabbitmq/amqp_table.c\<close>): values of 18 kinds, arrays and tables of
  them, their encoding and decoding, the comparison of entries and copies. The arrays of a table
  are lists; a \<^verbatim>\<open>float\<close> or \<^verbatim>\<open>double\<close> is its bits, as the code writes it.
\<close>

section \<open>Values\<close>

definition AMQP_FIELD_KIND_BOOLEAN :: "8 word" where "AMQP_FIELD_KIND_BOOLEAN = 0x74"
definition AMQP_FIELD_KIND_I8 :: "8 word" where "AMQP_FIELD_KIND_I8 = 0x62"
definition AMQP_FIELD_KIND_U8 :: "8 word" where "AMQP_FIELD_KIND_U8 = 0x42"
definition AMQP_FIELD_KIND_I16 :: "8 word" where "AMQP_FIELD_KIND_I16 = 0x73"
definition AMQP_FIELD_KIND_U16 :: "8 word" where "AMQP_FIELD_KIND_U16 = 0x75"
definition AMQP_FIELD_KIND_I32 :: "8 word" where "AMQP_FIELD_KIND_I32 = 0x49"
definition AMQP_FIELD_KIND_U32 :: "8 word" where "AMQP_FIELD_KIND_U32 = 0x69"
definition AMQP_FIELD_KIND_I64 :: "8 word" where "AMQP_FIELD_KIND_I64 = 0x6C"
definition AMQP_FIELD_KIND_U64 :: "8 word" where "AMQP_FIELD_KIND_U64 = 0x4C"
definition AMQP_FIELD_KIND_F32 :: "8 word" where "AMQP_FIELD_KIND_F32 = 0x66"
definition AMQP_FIELD_KIND_F64 :: "8 word" where "AMQP_FIELD_KIND_F64 = 0x64"
definition AMQP_FIELD_KIND_DECIMAL :: "8 word" where "AMQP_FIELD_KIND_DECIMAL = 0x44"
definition AMQP_FIELD_KIND_UTF8 :: "8 word" where "AMQP_FIELD_KIND_UTF8 = 0x53"
definition AMQP_FIELD_KIND_ARRAY :: "8 word" where "AMQP_FIELD_KIND_ARRAY = 0x41"
definition AMQP_FIELD_KIND_TIMESTAMP :: "8 word" where "AMQP_FIELD_KIND_TIMESTAMP = 0x54"
definition AMQP_FIELD_KIND_TABLE :: "8 word" where "AMQP_FIELD_KIND_TABLE = 0x46"
definition AMQP_FIELD_KIND_VOID :: "8 word" where "AMQP_FIELD_KIND_VOID = 0x56"
definition AMQP_FIELD_KIND_BYTES :: "8 word" where "AMQP_FIELD_KIND_BYTES = 0x78"

lemmas field_kinds = AMQP_FIELD_KIND_BOOLEAN_def
  AMQP_FIELD_KIND_I8_def
  AMQP_FIELD_KIND_U8_def
  AMQP_FIELD_KIND_I16_def
  AMQP_FIELD_KIND_U16_def
  AMQP_FIELD_KIND_I32_def
  AMQP_FIELD_KIND_U32_def
  AMQP_FIELD_KIND_I64_def
  AMQP_FIELD_KIND_U64_def
  AMQP_FIELD_KIND_F32_def
  AMQP_FIELD_KIND_F64_def
  AMQP_FIELD_KIND_DECIMAL_def
  AMQP_FIELD_KIND_UTF8_def
  AMQP_FIELD_KIND_ARRAY_def
  AMQP_FIELD_KIND_TIMESTAMP_def
  AMQP_FIELD_KIND_TABLE_def
  AMQP_FIELD_KIND_VOID_def
  AMQP_FIELD_KIND_BYTES_def

text \<open>\<open>Field_other\<close> is a value whose kind is none of these.\<close>

datatype amqp_field_value =
    Field_boolean int
  | Field_i8 "8 word" | Field_u8 "8 word"
  | Field_i16 "16 word" | Field_u16 "16 word"
  | Field_i32 "32 word" | Field_u32 "32 word"
  | Field_i64 "64 word" | Field_u64 "64 word"
  | Field_f32 "32 word" | Field_f64 "64 word"
  | Field_decimal "8 word" "32 word"
  | Field_utf8 string | Field_bytes string
  | Field_array "amqp_field_value list"
  | Field_timestamp "64 word"
  | Field_table "amqp_table_entry list"
  | Field_void
  | Field_other "8 word"
and amqp_table_entry = Table_entry (entry_key: string) (entry_value: amqp_field_value)

type_synonym amqp_table = "amqp_table_entry list"

fun field_kind :: "amqp_field_value \<Rightarrow> 8 word" where
  "field_kind (Field_boolean b) = AMQP_FIELD_KIND_BOOLEAN"
| "field_kind (Field_i8 v) = AMQP_FIELD_KIND_I8"
| "field_kind (Field_u8 v) = AMQP_FIELD_KIND_U8"
| "field_kind (Field_i16 v) = AMQP_FIELD_KIND_I16"
| "field_kind (Field_u16 v) = AMQP_FIELD_KIND_U16"
| "field_kind (Field_i32 v) = AMQP_FIELD_KIND_I32"
| "field_kind (Field_u32 v) = AMQP_FIELD_KIND_U32"
| "field_kind (Field_i64 v) = AMQP_FIELD_KIND_I64"
| "field_kind (Field_u64 v) = AMQP_FIELD_KIND_U64"
| "field_kind (Field_f32 v) = AMQP_FIELD_KIND_F32"
| "field_kind (Field_f64 v) = AMQP_FIELD_KIND_F64"
| "field_kind (Field_decimal d v) = AMQP_FIELD_KIND_DECIMAL"
| "field_kind (Field_utf8 s) = AMQP_FIELD_KIND_UTF8"
| "field_kind (Field_array vs) = AMQP_FIELD_KIND_ARRAY"
| "field_kind (Field_timestamp v) = AMQP_FIELD_KIND_TIMESTAMP"
| "field_kind (Field_table es) = AMQP_FIELD_KIND_TABLE"
| "field_kind (Field_void) = AMQP_FIELD_KIND_VOID"
| "field_kind (Field_bytes s) = AMQP_FIELD_KIND_BYTES"
| "field_kind (Field_other k) = k"

section \<open>Decoding\<close>

definition field :: "('a \<Rightarrow> 'b) \<Rightarrow> int + 'a \<times> nat \<Rightarrow> int + 'b \<times> nat" where
  "field f r = then_do r (\<lambda>(val, offset). Inr (f val, offset))"

lemma field_cong [fundef_cong]: "r = r' \<Longrightarrow> (\<And>x o1. r' = Inr (x, o1) \<Longrightarrow> f x = f' x) \<Longrightarrow> field f r = field f' r'"
  by (cases r') (auto simp: field_def)

lemma field_Inr [simp]: "field f r = Inr (y, o2) \<longleftrightarrow> (\<exists>x. r = Inr (x, o2) \<and> y = f x)"
  by (cases r) (auto simp: field_def)

text \<open>
  The loops that collect entries count them in an \<^verbatim>\<open>int\<close> and double the room for them, another
  \<^verbatim>\<open>int\<close>, when it is full.
\<close>

definition INITIAL_ARRAY_SIZE :: int where "INITIAL_ARRAY_SIZE = 16"
definition INITIAL_TABLE_SIZE :: int where "INITIAL_TABLE_SIZE = 16"

definition more_room :: "int \<Rightarrow> int \<Rightarrow> int + int" where
  "more_room num_entries allocated_entries =
     (if num_entries \<ge> allocated_entries then codec_int (allocated_entries * 2) else Inr allocated_entries)"

function amqp_decode_field_value :: "string \<Rightarrow> nat \<Rightarrow> int + amqp_field_value \<times> nat"
  and amqp_decode_array :: "string \<Rightarrow> nat \<Rightarrow> int + amqp_field_value list \<times> nat"
  and array_entries :: "string \<Rightarrow> nat \<Rightarrow> int \<Rightarrow> int \<Rightarrow> nat \<Rightarrow> int + amqp_field_value list \<times> nat"
  and amqp_decode_table :: "string \<Rightarrow> nat \<Rightarrow> int + amqp_table \<times> nat"
  and table_entries :: "string \<Rightarrow> nat \<Rightarrow> int \<Rightarrow> int \<Rightarrow> nat \<Rightarrow> int + amqp_table \<times> nat" where
  "amqp_decode_field_value encoded offset = then_do (get_8 encoded offset) (\<lambda>(kind, offset).
     if kind = AMQP_FIELD_KIND_BOOLEAN then field (\<lambda>val. Field_boolean (if val \<noteq> 0 then 1 else 0)) (get_8 encoded offset)
     else if kind = AMQP_FIELD_KIND_I8 then field Field_i8 (get_8 encoded offset)
     else if kind = AMQP_FIELD_KIND_U8 then field Field_u8 (get_8 encoded offset)
     else if kind = AMQP_FIELD_KIND_I16 then field Field_i16 (get_16 encoded offset)
     else if kind = AMQP_FIELD_KIND_U16 then field Field_u16 (get_16 encoded offset)
     else if kind = AMQP_FIELD_KIND_I32 then field Field_i32 (get_32 encoded offset)
     else if kind = AMQP_FIELD_KIND_U32 then field Field_u32 (get_32 encoded offset)
     else if kind = AMQP_FIELD_KIND_I64 then field Field_i64 (get_64 encoded offset)
     else if kind = AMQP_FIELD_KIND_U64 then field Field_u64 (get_64 encoded offset)
     else if kind = AMQP_FIELD_KIND_F32 then field Field_f32 (get_32 encoded offset)
     else if kind = AMQP_FIELD_KIND_F64 then field Field_f64 (get_64 encoded offset)
     else if kind = AMQP_FIELD_KIND_DECIMAL then then_do (get_8 encoded offset) (\<lambda>(decimals, offset).
         field (Field_decimal decimals) (get_32 encoded offset))
     else if kind = AMQP_FIELD_KIND_UTF8 then field Field_utf8 (get_long encoded offset)
     else if kind = AMQP_FIELD_KIND_BYTES then field Field_bytes (get_long encoded offset)
     else if kind = AMQP_FIELD_KIND_ARRAY then field Field_array (amqp_decode_array encoded offset)
     else if kind = AMQP_FIELD_KIND_TIMESTAMP then field Field_timestamp (get_64 encoded offset)
     else if kind = AMQP_FIELD_KIND_TABLE then field Field_table (amqp_decode_table encoded offset)
     else if kind = AMQP_FIELD_KIND_VOID then Inr (Field_void, offset)
     else Inl AMQP_STATUS_BAD_AMQP_DATA)"
| "amqp_decode_array encoded offset = then_do (get_32 encoded offset) (\<lambda>(arraysize, offset).
     array_entries encoded (offset + unat arraysize) 0 INITIAL_ARRAY_SIZE offset)"
| "array_entries encoded limit num_entries allocated_entries offset =
    (if offset < limit
     then then_do (more_room num_entries allocated_entries) (\<lambda>allocated_entries.
       then_do (amqp_decode_field_value encoded offset) (\<lambda>(v, offset).
       then_do (codec_int (num_entries + 1)) (\<lambda>num_entries.
         field ((#) v) (array_entries encoded limit num_entries allocated_entries offset))))
     else Inr ([], offset))"
| "amqp_decode_table encoded offset = then_do (get_32 encoded offset) (\<lambda>(tablesize, offset).
     table_entries encoded (offset + unat tablesize) 0 INITIAL_TABLE_SIZE offset)"
| "table_entries encoded limit num_entries allocated_entries offset =
    (if offset < limit
     then then_do (get_8 encoded offset) (\<lambda>(keylen, offset).
       then_do (more_room num_entries allocated_entries) (\<lambda>allocated_entries.
       then_do (get_raw encoded (unat keylen) offset) (\<lambda>(key, offset).
       then_do (amqp_decode_field_value encoded offset) (\<lambda>(v, offset).
       then_do (codec_int (num_entries + 1)) (\<lambda>num_entries.
         field ((#) (Table_entry key v)) (table_entries encoded limit num_entries allocated_entries offset))))))
     else Inr ([], offset))"
  by pat_completeness auto


text \<open>What is decoded lies within the buffer and behind the offset, on the domain first.\<close>

lemmas decode_pinduct =
  amqp_decode_field_value_amqp_decode_array_array_entries_amqp_decode_table_table_entries.pinduct
lemmas decode_psimps =
  amqp_decode_field_value.psimps amqp_decode_array.psimps array_entries.psimps
  amqp_decode_table.psimps table_entries.psimps

abbreviation "decode_dom \<equiv>
  amqp_decode_field_value_amqp_decode_array_array_entries_amqp_decode_table_table_entries_dom"

definition after :: "string \<Rightarrow> nat \<Rightarrow> int + 'a \<times> nat \<Rightarrow> bool" where
  "after e o1 r \<longleftrightarrow> (\<forall>v o2. r = Inr (v, o2) \<longrightarrow> o1 = o2 \<or> o1 < o2 \<and> o2 \<le> length e)"

definition beyond :: "string \<Rightarrow> nat \<Rightarrow> int + 'a \<times> nat \<Rightarrow> bool" where
  "beyond e o1 r \<longleftrightarrow> (\<forall>v o2. r = Inr (v, o2) \<longrightarrow> o1 < o2 \<and> o2 \<le> length e)"

lemma beyond_get:
  "beyond e o1 (get_8 e o1)" "beyond e o1 (get_16 e o1)" "beyond e o1 (get_32 e o1)"
  "beyond e o1 (get_64 e o1)" "beyond e o1 (get_short e o1)" "beyond e o1 (get_long e o1)"
  by (simp_all add: beyond_def get_within)

lemma beyond_then:
  "beyond e o1 r \<Longrightarrow> (\<And>x o2. r = Inr (x, o2) \<Longrightarrow> after e o2 (k x o2)) \<Longrightarrow>
    beyond e o1 (then_do r (\<lambda>(x, o2). k x o2))"
  by (fastforce simp: beyond_def after_def)

lemma after_then:
  "after e o1 r \<Longrightarrow> (\<And>x o2. r = Inr (x, o2) \<Longrightarrow> after e o2 (k x o2)) \<Longrightarrow>
    after e o1 (then_do r (\<lambda>(x, o2). k x o2))"
  by (fastforce simp: after_def)

lemma after_count: "(\<And>n. r = Inr n \<Longrightarrow> after e o1 (k n)) \<Longrightarrow> after e o1 (then_do r k)"
  by (cases r) (auto simp: after_def)

lemma after_get_raw: "after e o1 (get_raw e n o1)"
  using get_within(7) by (fastforce simp: after_def)

lemma after_beyond: "beyond e o1 r \<Longrightarrow> after e o1 r"
  by (simp add: beyond_def after_def)

lemma after_field: "after e o1 r \<Longrightarrow> after e o1 (field f r)"
  by (auto simp: after_def)

lemma after_if: "(c \<Longrightarrow> after e o1 r) \<Longrightarrow> (\<not> c \<Longrightarrow> after e o1 r') \<Longrightarrow> after e o1 (if c then r else r')"
  by simp

lemma after_return: "after e o1 (Inr (x, o1))" "after e o1 (Inl res)"
  by (simp_all add: after_def)

lemmas after_intros = after_if after_field after_return beyond_get [THEN after_beyond]
  beyond_then [OF beyond_get(1), THEN after_beyond]

lemma decode_beyond_dom:
  "decode_dom (Inl (Inl (e1, p1))) \<Longrightarrow> beyond e1 p1 (amqp_decode_field_value e1 p1)"
  "decode_dom (Inl (Inr (e2, p2))) \<Longrightarrow> beyond e2 p2 (amqp_decode_array e2 p2)"
  "decode_dom (Inr (Inl (e3, l3, n3, a3, p3))) \<Longrightarrow> after e3 p3 (array_entries e3 l3 n3 a3 p3)"
  "decode_dom (Inr (Inr (Inl (e4, p4)))) \<Longrightarrow> beyond e4 p4 (amqp_decode_table e4 p4)"
  "decode_dom (Inr (Inr (Inr (e5, l5, n5, a5, p5)))) \<Longrightarrow> after e5 p5 (table_entries e5 l5 n5 a5 p5)"
proof (induction e1 p1 and e2 p2 and e3 l3 n3 a3 p3 and e4 p4 and e5 l5 n5 a5 p5 rule: decode_pinduct)
  case (1 encoded offset)
  show ?case unfolding decode_psimps(1) [OF 1(1)]
    by (intro beyond_then beyond_get after_intros) (erule (15) 1(2) [OF _ refl, THEN after_beyond] 1(3) [OF _ refl, THEN after_beyond])+
next
  case (2 encoded offset)
  show ?case unfolding decode_psimps(2) [OF 2(1)]
    by (intro beyond_then beyond_get) (rule 2(2) [OF _ refl])
next
  case (3 encoded limit num_entries allocated_entries offset)
  show ?case unfolding decode_psimps(3) [OF 3(1)]
    by (intro after_if after_field after_return after_count beyond_then [THEN after_beyond] 3 refl) simp_all
next
  case (4 encoded offset)
  show ?case unfolding decode_psimps(4) [OF 4(1)]
    by (intro beyond_then beyond_get) (rule 4(2) [OF _ refl])
next
  case (5 encoded limit num_entries allocated_entries offset)
  show ?case unfolding decode_psimps(5) [OF 5(1)]
    by (intro after_if after_field after_return beyond_then [THEN after_beyond] beyond_get after_count
      after_then after_get_raw 5 refl) simp_all
qed

text \<open>Each call is at a later offset, or enters the entries at the same one.\<close>

definition decode_rank ::
  "((string \<times> nat) + (string \<times> nat)) + ((string \<times> nat \<times> int \<times> int \<times> nat) + ((string \<times> nat) + (string \<times> nat \<times> int \<times> int \<times> nat))) \<Rightarrow> nat" where
  "decode_rank x = (case x of
       Inl (Inl (e, p)) \<Rightarrow> 2 * (length e - p)
     | Inl (Inr (e, p)) \<Rightarrow> 2 * (length e - p) + 1
     | Inr (Inl (e, l, n, a, p)) \<Rightarrow> 2 * (length e - p) + 1
     | Inr (Inr (Inl (e, p))) \<Rightarrow> 2 * (length e - p) + 1
     | Inr (Inr (Inr (e, l, n, a, p))) \<Rightarrow> 2 * (length e - p) + 1)"

lemma decode_total: "All decode_dom"
  by (relation "measure decode_rank")
    (auto dest!: decode_beyond_dom(1) get_within simp: beyond_def decode_rank_def)

termination amqp_decode_field_value by (rule decode_total)

lemmas decode_beyond = decode_beyond_dom [OF decode_total [rule_format]]

declare amqp_decode_field_value.simps [simp del] amqp_decode_array.simps [simp del]
  array_entries.simps [simp del] amqp_decode_table.simps [simp del] table_entries.simps [simp del]

section \<open>Encoding\<close>

abbreviation too_big :: int where "too_big \<equiv> AMQP_STATUS_TABLE_TOO_BIG"

text \<open>The size of an array or table goes to its place at \<open>start\<close> when the entries are written.\<close>

definition fill_size :: "nat \<Rightarrow> encoding \<Rightarrow> int + encoding" where
  "fill_size start = (\<lambda>(encoded, offset).
     then_do (put_32 too_big (word_of_nat (offset - start - 4)) (encoded, start)) (\<lambda>(encoded, _). Inr (encoded, offset)))"

definition sized :: "(encoding \<Rightarrow> int + encoding) \<Rightarrow> encoding \<Rightarrow> int + encoding" where
  "sized f = (\<lambda>(encoded, start). then_do (f (encoded, start + 4)) (fill_size start))"

fun amqp_encode_field_value :: "amqp_field_value \<Rightarrow> encoding \<Rightarrow> int + encoding"
  and encode_values :: "amqp_field_value list \<Rightarrow> encoding \<Rightarrow> int + encoding"
  and encode_entries :: "amqp_table_entry list \<Rightarrow> encoding \<Rightarrow> int + encoding" where
  "amqp_encode_field_value entry s = then_do (put_8 AMQP_STATUS_BAD_AMQP_DATA (field_kind entry) s) (\<lambda>s.
     case entry of
       Field_boolean b \<Rightarrow> put_8 too_big (if b \<noteq> 0 then 1 else 0) s
     | Field_i8 v \<Rightarrow> put_8 too_big v s
     | Field_u8 v \<Rightarrow> put_8 too_big v s
     | Field_i16 v \<Rightarrow> put_16 too_big v s
     | Field_u16 v \<Rightarrow> put_16 too_big v s
     | Field_i32 v \<Rightarrow> put_32 too_big v s
     | Field_u32 v \<Rightarrow> put_32 too_big v s
     | Field_i64 v \<Rightarrow> put_64 too_big v s
     | Field_u64 v \<Rightarrow> put_64 too_big v s
     | Field_f32 v \<Rightarrow> put_32 too_big v s
     | Field_f64 v \<Rightarrow> put_64 too_big v s
     | Field_decimal d v \<Rightarrow> run_steps [put_8 too_big d, put_32 too_big v] s
     | Field_utf8 s1 \<Rightarrow> put_long too_big s1 s
     | Field_bytes s1 \<Rightarrow> put_long too_big s1 s
     | Field_array vs \<Rightarrow> sized (encode_values vs) s
     | Field_timestamp v \<Rightarrow> put_64 too_big v s
     | Field_table es \<Rightarrow> sized (encode_entries es) s
     | Field_void \<Rightarrow> Inr s
     | Field_other k \<Rightarrow> Inl AMQP_STATUS_INVALID_PARAMETER)"
| "encode_values [] s = Inr s"
| "encode_values (v # vs) s = then_do (amqp_encode_field_value v s) (encode_values vs)"
| "encode_entries [] s = Inr s"
| "encode_entries (Table_entry key v # es) s =
     then_do (put_short too_big key s) (\<lambda>s. then_do (amqp_encode_field_value v s) (encode_entries es))"

definition amqp_encode_array :: "amqp_field_value list \<Rightarrow> encoding \<Rightarrow> int + encoding" where
  "amqp_encode_array vs = sized (encode_values vs)"

definition amqp_encode_table :: "amqp_table \<Rightarrow> encoding \<Rightarrow> int + encoding" where
  "amqp_encode_table es = sized (encode_entries es)"

declare amqp_encode_field_value.simps [simp del]

section \<open>Comparison and copies\<close>

text \<open>\<open>memcmp\<close> compares unsigned bytes; only the sign of its result is specified.\<close>

fun memcmp :: "nat \<Rightarrow> string \<Rightarrow> string \<Rightarrow> int" where
  "memcmp (Suc n) (c # cs) (d # ds) =
     (if uchar c < uchar d then -1 else if uchar d < uchar c then 1 else memcmp n cs ds)"
| "memcmp _ _ _ = 0"

definition amqp_table_entry_cmp :: "amqp_table_entry \<Rightarrow> amqp_table_entry \<Rightarrow> int" where
  "amqp_table_entry_cmp p1 p2 =
    (let minlen = (if length (entry_key p2) < length (entry_key p1) then length (entry_key p2) else length (entry_key p1));
         d = memcmp minlen (entry_key p1) (entry_key p2)
     in if d \<noteq> 0 then d else to_int (int (length (entry_key p1)) - int (length (entry_key p2))))"

text \<open>A copy, or the status that says why there is none.\<close>

fun amqp_field_value_clone :: "amqp_field_value \<Rightarrow> int + amqp_field_value"
  and clone_values :: "amqp_field_value list \<Rightarrow> int + amqp_field_value list"
  and clone_entries :: "amqp_table_entry list \<Rightarrow> int + amqp_table_entry list"
  and amqp_table_entry_clone :: "amqp_table_entry \<Rightarrow> int + amqp_table_entry" where
  "amqp_field_value_clone (Field_array vs) =
     (if vs = [] then Inr (Field_array []) else then_do (clone_values vs) (\<lambda>vs. Inr (Field_array vs)))"
| "amqp_field_value_clone (Field_table es) =
     (if es = [] then Inr (Field_table []) else then_do (clone_entries es) (\<lambda>es. Inr (Field_table es)))"
| "amqp_field_value_clone (Field_other k) = Inl AMQP_STATUS_INVALID_PARAMETER"
| "amqp_field_value_clone v = Inr v"
| "clone_values [] = Inr []"
| "clone_values (v # vs) =
     then_do (amqp_field_value_clone v) (\<lambda>v. then_do (clone_values vs) (\<lambda>vs. Inr (v # vs)))"
| "clone_entries [] = Inr []"
| "clone_entries (e # es) =
     then_do (amqp_table_entry_clone e) (\<lambda>e. then_do (clone_entries es) (\<lambda>es. Inr (e # es)))"
| "amqp_table_entry_clone (Table_entry key v) =
     (if length key = 0 then Inl AMQP_STATUS_INVALID_PARAMETER
      else then_do (amqp_field_value_clone v) (\<lambda>v. Inr (Table_entry key v)))"

definition amqp_table_clone :: "amqp_table \<Rightarrow> int + amqp_table" where
  "amqp_table_clone original = (if original = [] then Inr [] else clone_entries original)"

end
