(* ===== verification/Rabbit_Methods.thy ===== *)
theory Rabbit_Methods
  imports Rabbit_Table
begin

text \<open>
  The methods of the protocol (\<^verbatim>\<open>src/lib/librabbitmq/amqp_framing.h\<close> and the look-up functions of
  \<^verbatim>\<open>amqp_framing.c\<close>): numbers, one record for each struct with the struct's name before its fields,
  and \<open>amqp_method\<close>, which the code has as a number and a pointer to the struct of that number. A
  method without fields has no record, as the code has NULL for it.
\<close>

section \<open>Constants\<close>

definition AMQP_FRAME_METHOD :: int where "AMQP_FRAME_METHOD = 1"
definition AMQP_FRAME_HEADER :: int where "AMQP_FRAME_HEADER = 2"
definition AMQP_FRAME_BODY :: int where "AMQP_FRAME_BODY = 3"
definition AMQP_FRAME_HEARTBEAT :: int where "AMQP_FRAME_HEARTBEAT = 8"
definition AMQP_FRAME_MIN_SIZE :: int where "AMQP_FRAME_MIN_SIZE = 4096"
definition AMQP_FRAME_END :: int where "AMQP_FRAME_END = 206"
definition AMQP_REPLY_SUCCESS :: int where "AMQP_REPLY_SUCCESS = 200"
definition AMQP_CONTENT_TOO_LARGE :: int where "AMQP_CONTENT_TOO_LARGE = 311"
definition AMQP_NO_ROUTE :: int where "AMQP_NO_ROUTE = 312"
definition AMQP_NO_CONSUMERS :: int where "AMQP_NO_CONSUMERS = 313"
definition AMQP_ACCESS_REFUSED :: int where "AMQP_ACCESS_REFUSED = 403"
definition AMQP_NOT_FOUND :: int where "AMQP_NOT_FOUND = 404"
definition AMQP_RESOURCE_LOCKED :: int where "AMQP_RESOURCE_LOCKED = 405"
definition AMQP_PRECONDITION_FAILED :: int where "AMQP_PRECONDITION_FAILED = 406"
definition AMQP_CONNECTION_FORCED :: int where "AMQP_CONNECTION_FORCED = 320"
definition AMQP_INVALID_PATH :: int where "AMQP_INVALID_PATH = 402"
definition AMQP_FRAME_ERROR :: int where "AMQP_FRAME_ERROR = 501"
definition AMQP_SYNTAX_ERROR :: int where "AMQP_SYNTAX_ERROR = 502"
definition AMQP_COMMAND_INVALID :: int where "AMQP_COMMAND_INVALID = 503"
definition AMQP_CHANNEL_ERROR :: int where "AMQP_CHANNEL_ERROR = 504"
definition AMQP_UNEXPECTED_FRAME :: int where "AMQP_UNEXPECTED_FRAME = 505"
definition AMQP_RESOURCE_ERROR :: int where "AMQP_RESOURCE_ERROR = 506"
definition AMQP_NOT_ALLOWED :: int where "AMQP_NOT_ALLOWED = 530"
definition AMQP_NOT_IMPLEMENTED :: int where "AMQP_NOT_IMPLEMENTED = 540"
definition AMQP_INTERNAL_ERROR :: int where "AMQP_INTERNAL_ERROR = 541"

lemmas amqp_constants = AMQP_FRAME_METHOD_def
  AMQP_FRAME_HEADER_def
  AMQP_FRAME_BODY_def
  AMQP_FRAME_HEARTBEAT_def
  AMQP_FRAME_MIN_SIZE_def
  AMQP_FRAME_END_def
  AMQP_REPLY_SUCCESS_def
  AMQP_CONTENT_TOO_LARGE_def
  AMQP_NO_ROUTE_def
  AMQP_NO_CONSUMERS_def
  AMQP_ACCESS_REFUSED_def
  AMQP_NOT_FOUND_def
  AMQP_RESOURCE_LOCKED_def
  AMQP_PRECONDITION_FAILED_def
  AMQP_CONNECTION_FORCED_def
  AMQP_INVALID_PATH_def
  AMQP_FRAME_ERROR_def
  AMQP_SYNTAX_ERROR_def
  AMQP_COMMAND_INVALID_def
  AMQP_CHANNEL_ERROR_def
  AMQP_UNEXPECTED_FRAME_def
  AMQP_RESOURCE_ERROR_def
  AMQP_NOT_ALLOWED_def
  AMQP_NOT_IMPLEMENTED_def
  AMQP_INTERNAL_ERROR_def

definition amqp_constant_name :: "int \<Rightarrow> string" where
  "amqp_constant_name constantNumber =
    (if constantNumber = AMQP_FRAME_METHOD then ''AMQP_FRAME_METHOD''
     else if constantNumber = AMQP_FRAME_HEADER then ''AMQP_FRAME_HEADER''
     else if constantNumber = AMQP_FRAME_BODY then ''AMQP_FRAME_BODY''
     else if constantNumber = AMQP_FRAME_HEARTBEAT then ''AMQP_FRAME_HEARTBEAT''
     else if constantNumber = AMQP_FRAME_MIN_SIZE then ''AMQP_FRAME_MIN_SIZE''
     else if constantNumber = AMQP_FRAME_END then ''AMQP_FRAME_END''
     else if constantNumber = AMQP_REPLY_SUCCESS then ''AMQP_REPLY_SUCCESS''
     else if constantNumber = AMQP_CONTENT_TOO_LARGE then ''AMQP_CONTENT_TOO_LARGE''
     else if constantNumber = AMQP_NO_ROUTE then ''AMQP_NO_ROUTE''
     else if constantNumber = AMQP_NO_CONSUMERS then ''AMQP_NO_CONSUMERS''
     else if constantNumber = AMQP_ACCESS_REFUSED then ''AMQP_ACCESS_REFUSED''
     else if constantNumber = AMQP_NOT_FOUND then ''AMQP_NOT_FOUND''
     else if constantNumber = AMQP_RESOURCE_LOCKED then ''AMQP_RESOURCE_LOCKED''
     else if constantNumber = AMQP_PRECONDITION_FAILED then ''AMQP_PRECONDITION_FAILED''
     else if constantNumber = AMQP_CONNECTION_FORCED then ''AMQP_CONNECTION_FORCED''
     else if constantNumber = AMQP_INVALID_PATH then ''AMQP_INVALID_PATH''
     else if constantNumber = AMQP_FRAME_ERROR then ''AMQP_FRAME_ERROR''
     else if constantNumber = AMQP_SYNTAX_ERROR then ''AMQP_SYNTAX_ERROR''
     else if constantNumber = AMQP_COMMAND_INVALID then ''AMQP_COMMAND_INVALID''
     else if constantNumber = AMQP_CHANNEL_ERROR then ''AMQP_CHANNEL_ERROR''
     else if constantNumber = AMQP_UNEXPECTED_FRAME then ''AMQP_UNEXPECTED_FRAME''
     else if constantNumber = AMQP_RESOURCE_ERROR then ''AMQP_RESOURCE_ERROR''
     else if constantNumber = AMQP_NOT_ALLOWED then ''AMQP_NOT_ALLOWED''
     else if constantNumber = AMQP_NOT_IMPLEMENTED then ''AMQP_NOT_IMPLEMENTED''
     else if constantNumber = AMQP_INTERNAL_ERROR then ''AMQP_INTERNAL_ERROR''
     else ''(unknown)'')"

definition amqp_constant_is_hard_error :: "int \<Rightarrow> int" where
  "amqp_constant_is_hard_error constantNumber =
    (if constantNumber \<in> {AMQP_CONNECTION_FORCED, AMQP_INVALID_PATH, AMQP_FRAME_ERROR, AMQP_SYNTAX_ERROR,
       AMQP_COMMAND_INVALID, AMQP_CHANNEL_ERROR, AMQP_UNEXPECTED_FRAME, AMQP_RESOURCE_ERROR,
       AMQP_NOT_ALLOWED, AMQP_NOT_IMPLEMENTED, AMQP_INTERNAL_ERROR} then 1 else 0)"

section \<open>Method numbers\<close>

definition AMQP_CONNECTION_START_METHOD :: "32 word" where "AMQP_CONNECTION_START_METHOD = 0x000A000A"
definition AMQP_CONNECTION_START_OK_METHOD :: "32 word" where "AMQP_CONNECTION_START_OK_METHOD = 0x000A000B"
definition AMQP_CONNECTION_SECURE_METHOD :: "32 word" where "AMQP_CONNECTION_SECURE_METHOD = 0x000A0014"
definition AMQP_CONNECTION_SECURE_OK_METHOD :: "32 word" where "AMQP_CONNECTION_SECURE_OK_METHOD = 0x000A0015"
definition AMQP_CONNECTION_TUNE_METHOD :: "32 word" where "AMQP_CONNECTION_TUNE_METHOD = 0x000A001E"
definition AMQP_CONNECTION_TUNE_OK_METHOD :: "32 word" where "AMQP_CONNECTION_TUNE_OK_METHOD = 0x000A001F"
definition AMQP_CONNECTION_OPEN_METHOD :: "32 word" where "AMQP_CONNECTION_OPEN_METHOD = 0x000A0028"
definition AMQP_CONNECTION_OPEN_OK_METHOD :: "32 word" where "AMQP_CONNECTION_OPEN_OK_METHOD = 0x000A0029"
definition AMQP_CONNECTION_CLOSE_METHOD :: "32 word" where "AMQP_CONNECTION_CLOSE_METHOD = 0x000A0032"
definition AMQP_CONNECTION_CLOSE_OK_METHOD :: "32 word" where "AMQP_CONNECTION_CLOSE_OK_METHOD = 0x000A0033"
definition AMQP_CHANNEL_OPEN_METHOD :: "32 word" where "AMQP_CHANNEL_OPEN_METHOD = 0x0014000A"
definition AMQP_CHANNEL_OPEN_OK_METHOD :: "32 word" where "AMQP_CHANNEL_OPEN_OK_METHOD = 0x0014000B"
definition AMQP_CHANNEL_FLOW_METHOD :: "32 word" where "AMQP_CHANNEL_FLOW_METHOD = 0x00140014"
definition AMQP_CHANNEL_FLOW_OK_METHOD :: "32 word" where "AMQP_CHANNEL_FLOW_OK_METHOD = 0x00140015"
definition AMQP_CHANNEL_CLOSE_METHOD :: "32 word" where "AMQP_CHANNEL_CLOSE_METHOD = 0x00140028"
definition AMQP_CHANNEL_CLOSE_OK_METHOD :: "32 word" where "AMQP_CHANNEL_CLOSE_OK_METHOD = 0x00140029"
definition AMQP_ACCESS_REQUEST_METHOD :: "32 word" where "AMQP_ACCESS_REQUEST_METHOD = 0x001E000A"
definition AMQP_ACCESS_REQUEST_OK_METHOD :: "32 word" where "AMQP_ACCESS_REQUEST_OK_METHOD = 0x001E000B"
definition AMQP_EXCHANGE_DECLARE_METHOD :: "32 word" where "AMQP_EXCHANGE_DECLARE_METHOD = 0x0028000A"
definition AMQP_EXCHANGE_DECLARE_OK_METHOD :: "32 word" where "AMQP_EXCHANGE_DECLARE_OK_METHOD = 0x0028000B"
definition AMQP_EXCHANGE_DELETE_METHOD :: "32 word" where "AMQP_EXCHANGE_DELETE_METHOD = 0x00280014"
definition AMQP_EXCHANGE_DELETE_OK_METHOD :: "32 word" where "AMQP_EXCHANGE_DELETE_OK_METHOD = 0x00280015"
definition AMQP_EXCHANGE_BIND_METHOD :: "32 word" where "AMQP_EXCHANGE_BIND_METHOD = 0x0028001E"
definition AMQP_EXCHANGE_BIND_OK_METHOD :: "32 word" where "AMQP_EXCHANGE_BIND_OK_METHOD = 0x0028001F"
definition AMQP_EXCHANGE_UNBIND_METHOD :: "32 word" where "AMQP_EXCHANGE_UNBIND_METHOD = 0x00280028"
definition AMQP_EXCHANGE_UNBIND_OK_METHOD :: "32 word" where "AMQP_EXCHANGE_UNBIND_OK_METHOD = 0x00280033"
definition AMQP_QUEUE_DECLARE_METHOD :: "32 word" where "AMQP_QUEUE_DECLARE_METHOD = 0x0032000A"
definition AMQP_QUEUE_DECLARE_OK_METHOD :: "32 word" where "AMQP_QUEUE_DECLARE_OK_METHOD = 0x0032000B"
definition AMQP_QUEUE_BIND_METHOD :: "32 word" where "AMQP_QUEUE_BIND_METHOD = 0x00320014"
definition AMQP_QUEUE_BIND_OK_METHOD :: "32 word" where "AMQP_QUEUE_BIND_OK_METHOD = 0x00320015"
definition AMQP_QUEUE_PURGE_METHOD :: "32 word" where "AMQP_QUEUE_PURGE_METHOD = 0x0032001E"
definition AMQP_QUEUE_PURGE_OK_METHOD :: "32 word" where "AMQP_QUEUE_PURGE_OK_METHOD = 0x0032001F"
definition AMQP_QUEUE_DELETE_METHOD :: "32 word" where "AMQP_QUEUE_DELETE_METHOD = 0x00320028"
definition AMQP_QUEUE_DELETE_OK_METHOD :: "32 word" where "AMQP_QUEUE_DELETE_OK_METHOD = 0x00320029"
definition AMQP_QUEUE_UNBIND_METHOD :: "32 word" where "AMQP_QUEUE_UNBIND_METHOD = 0x00320032"
definition AMQP_QUEUE_UNBIND_OK_METHOD :: "32 word" where "AMQP_QUEUE_UNBIND_OK_METHOD = 0x00320033"
definition AMQP_BASIC_QOS_METHOD :: "32 word" where "AMQP_BASIC_QOS_METHOD = 0x003C000A"
definition AMQP_BASIC_QOS_OK_METHOD :: "32 word" where "AMQP_BASIC_QOS_OK_METHOD = 0x003C000B"
definition AMQP_BASIC_CONSUME_METHOD :: "32 word" where "AMQP_BASIC_CONSUME_METHOD = 0x003C0014"
definition AMQP_BASIC_CONSUME_OK_METHOD :: "32 word" where "AMQP_BASIC_CONSUME_OK_METHOD = 0x003C0015"
definition AMQP_BASIC_CANCEL_METHOD :: "32 word" where "AMQP_BASIC_CANCEL_METHOD = 0x003C001E"
definition AMQP_BASIC_CANCEL_OK_METHOD :: "32 word" where "AMQP_BASIC_CANCEL_OK_METHOD = 0x003C001F"
definition AMQP_BASIC_PUBLISH_METHOD :: "32 word" where "AMQP_BASIC_PUBLISH_METHOD = 0x003C0028"
definition AMQP_BASIC_RETURN_METHOD :: "32 word" where "AMQP_BASIC_RETURN_METHOD = 0x003C0032"
definition AMQP_BASIC_DELIVER_METHOD :: "32 word" where "AMQP_BASIC_DELIVER_METHOD = 0x003C003C"
definition AMQP_BASIC_GET_METHOD :: "32 word" where "AMQP_BASIC_GET_METHOD = 0x003C0046"
definition AMQP_BASIC_GET_OK_METHOD :: "32 word" where "AMQP_BASIC_GET_OK_METHOD = 0x003C0047"
definition AMQP_BASIC_GET_EMPTY_METHOD :: "32 word" where "AMQP_BASIC_GET_EMPTY_METHOD = 0x003C0048"
definition AMQP_BASIC_ACK_METHOD :: "32 word" where "AMQP_BASIC_ACK_METHOD = 0x003C0050"
definition AMQP_BASIC_REJECT_METHOD :: "32 word" where "AMQP_BASIC_REJECT_METHOD = 0x003C005A"
definition AMQP_BASIC_RECOVER_ASYNC_METHOD :: "32 word" where "AMQP_BASIC_RECOVER_ASYNC_METHOD = 0x003C0064"
definition AMQP_BASIC_RECOVER_METHOD :: "32 word" where "AMQP_BASIC_RECOVER_METHOD = 0x003C006E"
definition AMQP_BASIC_RECOVER_OK_METHOD :: "32 word" where "AMQP_BASIC_RECOVER_OK_METHOD = 0x003C006F"
definition AMQP_BASIC_NACK_METHOD :: "32 word" where "AMQP_BASIC_NACK_METHOD = 0x003C0078"
definition AMQP_TX_SELECT_METHOD :: "32 word" where "AMQP_TX_SELECT_METHOD = 0x005A000A"
definition AMQP_TX_SELECT_OK_METHOD :: "32 word" where "AMQP_TX_SELECT_OK_METHOD = 0x005A000B"
definition AMQP_TX_COMMIT_METHOD :: "32 word" where "AMQP_TX_COMMIT_METHOD = 0x005A0014"
definition AMQP_TX_COMMIT_OK_METHOD :: "32 word" where "AMQP_TX_COMMIT_OK_METHOD = 0x005A0015"
definition AMQP_TX_ROLLBACK_METHOD :: "32 word" where "AMQP_TX_ROLLBACK_METHOD = 0x005A001E"
definition AMQP_TX_ROLLBACK_OK_METHOD :: "32 word" where "AMQP_TX_ROLLBACK_OK_METHOD = 0x005A001F"
definition AMQP_CONFIRM_SELECT_METHOD :: "32 word" where "AMQP_CONFIRM_SELECT_METHOD = 0x0055000A"
definition AMQP_CONFIRM_SELECT_OK_METHOD :: "32 word" where "AMQP_CONFIRM_SELECT_OK_METHOD = 0x0055000B"

lemmas method_numbers = AMQP_CONNECTION_START_METHOD_def
  AMQP_CONNECTION_START_OK_METHOD_def
  AMQP_CONNECTION_SECURE_METHOD_def
  AMQP_CONNECTION_SECURE_OK_METHOD_def
  AMQP_CONNECTION_TUNE_METHOD_def
  AMQP_CONNECTION_TUNE_OK_METHOD_def
  AMQP_CONNECTION_OPEN_METHOD_def
  AMQP_CONNECTION_OPEN_OK_METHOD_def
  AMQP_CONNECTION_CLOSE_METHOD_def
  AMQP_CONNECTION_CLOSE_OK_METHOD_def
  AMQP_CHANNEL_OPEN_METHOD_def
  AMQP_CHANNEL_OPEN_OK_METHOD_def
  AMQP_CHANNEL_FLOW_METHOD_def
  AMQP_CHANNEL_FLOW_OK_METHOD_def
  AMQP_CHANNEL_CLOSE_METHOD_def
  AMQP_CHANNEL_CLOSE_OK_METHOD_def
  AMQP_ACCESS_REQUEST_METHOD_def
  AMQP_ACCESS_REQUEST_OK_METHOD_def
  AMQP_EXCHANGE_DECLARE_METHOD_def
  AMQP_EXCHANGE_DECLARE_OK_METHOD_def
  AMQP_EXCHANGE_DELETE_METHOD_def
  AMQP_EXCHANGE_DELETE_OK_METHOD_def
  AMQP_EXCHANGE_BIND_METHOD_def
  AMQP_EXCHANGE_BIND_OK_METHOD_def
  AMQP_EXCHANGE_UNBIND_METHOD_def
  AMQP_EXCHANGE_UNBIND_OK_METHOD_def
  AMQP_QUEUE_DECLARE_METHOD_def
  AMQP_QUEUE_DECLARE_OK_METHOD_def
  AMQP_QUEUE_BIND_METHOD_def
  AMQP_QUEUE_BIND_OK_METHOD_def
  AMQP_QUEUE_PURGE_METHOD_def
  AMQP_QUEUE_PURGE_OK_METHOD_def
  AMQP_QUEUE_DELETE_METHOD_def
  AMQP_QUEUE_DELETE_OK_METHOD_def
  AMQP_QUEUE_UNBIND_METHOD_def
  AMQP_QUEUE_UNBIND_OK_METHOD_def
  AMQP_BASIC_QOS_METHOD_def
  AMQP_BASIC_QOS_OK_METHOD_def
  AMQP_BASIC_CONSUME_METHOD_def
  AMQP_BASIC_CONSUME_OK_METHOD_def
  AMQP_BASIC_CANCEL_METHOD_def
  AMQP_BASIC_CANCEL_OK_METHOD_def
  AMQP_BASIC_PUBLISH_METHOD_def
  AMQP_BASIC_RETURN_METHOD_def
  AMQP_BASIC_DELIVER_METHOD_def
  AMQP_BASIC_GET_METHOD_def
  AMQP_BASIC_GET_OK_METHOD_def
  AMQP_BASIC_GET_EMPTY_METHOD_def
  AMQP_BASIC_ACK_METHOD_def
  AMQP_BASIC_REJECT_METHOD_def
  AMQP_BASIC_RECOVER_ASYNC_METHOD_def
  AMQP_BASIC_RECOVER_METHOD_def
  AMQP_BASIC_RECOVER_OK_METHOD_def
  AMQP_BASIC_NACK_METHOD_def
  AMQP_TX_SELECT_METHOD_def
  AMQP_TX_SELECT_OK_METHOD_def
  AMQP_TX_COMMIT_METHOD_def
  AMQP_TX_COMMIT_OK_METHOD_def
  AMQP_TX_ROLLBACK_METHOD_def
  AMQP_TX_ROLLBACK_OK_METHOD_def
  AMQP_CONFIRM_SELECT_METHOD_def
  AMQP_CONFIRM_SELECT_OK_METHOD_def

definition amqp_method_name :: "32 word \<Rightarrow> string option" where
  "amqp_method_name methodNumber =
    (if methodNumber = AMQP_CONNECTION_START_METHOD then Some ''AMQP_CONNECTION_START_METHOD''
     else if methodNumber = AMQP_CONNECTION_START_OK_METHOD then Some ''AMQP_CONNECTION_START_OK_METHOD''
     else if methodNumber = AMQP_CONNECTION_SECURE_METHOD then Some ''AMQP_CONNECTION_SECURE_METHOD''
     else if methodNumber = AMQP_CONNECTION_SECURE_OK_METHOD then Some ''AMQP_CONNECTION_SECURE_OK_METHOD''
     else if methodNumber = AMQP_CONNECTION_TUNE_METHOD then Some ''AMQP_CONNECTION_TUNE_METHOD''
     else if methodNumber = AMQP_CONNECTION_TUNE_OK_METHOD then Some ''AMQP_CONNECTION_TUNE_OK_METHOD''
     else if methodNumber = AMQP_CONNECTION_OPEN_METHOD then Some ''AMQP_CONNECTION_OPEN_METHOD''
     else if methodNumber = AMQP_CONNECTION_OPEN_OK_METHOD then Some ''AMQP_CONNECTION_OPEN_OK_METHOD''
     else if methodNumber = AMQP_CONNECTION_CLOSE_METHOD then Some ''AMQP_CONNECTION_CLOSE_METHOD''
     else if methodNumber = AMQP_CONNECTION_CLOSE_OK_METHOD then Some ''AMQP_CONNECTION_CLOSE_OK_METHOD''
     else if methodNumber = AMQP_CHANNEL_OPEN_METHOD then Some ''AMQP_CHANNEL_OPEN_METHOD''
     else if methodNumber = AMQP_CHANNEL_OPEN_OK_METHOD then Some ''AMQP_CHANNEL_OPEN_OK_METHOD''
     else if methodNumber = AMQP_CHANNEL_FLOW_METHOD then Some ''AMQP_CHANNEL_FLOW_METHOD''
     else if methodNumber = AMQP_CHANNEL_FLOW_OK_METHOD then Some ''AMQP_CHANNEL_FLOW_OK_METHOD''
     else if methodNumber = AMQP_CHANNEL_CLOSE_METHOD then Some ''AMQP_CHANNEL_CLOSE_METHOD''
     else if methodNumber = AMQP_CHANNEL_CLOSE_OK_METHOD then Some ''AMQP_CHANNEL_CLOSE_OK_METHOD''
     else if methodNumber = AMQP_ACCESS_REQUEST_METHOD then Some ''AMQP_ACCESS_REQUEST_METHOD''
     else if methodNumber = AMQP_ACCESS_REQUEST_OK_METHOD then Some ''AMQP_ACCESS_REQUEST_OK_METHOD''
     else if methodNumber = AMQP_EXCHANGE_DECLARE_METHOD then Some ''AMQP_EXCHANGE_DECLARE_METHOD''
     else if methodNumber = AMQP_EXCHANGE_DECLARE_OK_METHOD then Some ''AMQP_EXCHANGE_DECLARE_OK_METHOD''
     else if methodNumber = AMQP_EXCHANGE_DELETE_METHOD then Some ''AMQP_EXCHANGE_DELETE_METHOD''
     else if methodNumber = AMQP_EXCHANGE_DELETE_OK_METHOD then Some ''AMQP_EXCHANGE_DELETE_OK_METHOD''
     else if methodNumber = AMQP_EXCHANGE_BIND_METHOD then Some ''AMQP_EXCHANGE_BIND_METHOD''
     else if methodNumber = AMQP_EXCHANGE_BIND_OK_METHOD then Some ''AMQP_EXCHANGE_BIND_OK_METHOD''
     else if methodNumber = AMQP_EXCHANGE_UNBIND_METHOD then Some ''AMQP_EXCHANGE_UNBIND_METHOD''
     else if methodNumber = AMQP_EXCHANGE_UNBIND_OK_METHOD then Some ''AMQP_EXCHANGE_UNBIND_OK_METHOD''
     else if methodNumber = AMQP_QUEUE_DECLARE_METHOD then Some ''AMQP_QUEUE_DECLARE_METHOD''
     else if methodNumber = AMQP_QUEUE_DECLARE_OK_METHOD then Some ''AMQP_QUEUE_DECLARE_OK_METHOD''
     else if methodNumber = AMQP_QUEUE_BIND_METHOD then Some ''AMQP_QUEUE_BIND_METHOD''
     else if methodNumber = AMQP_QUEUE_BIND_OK_METHOD then Some ''AMQP_QUEUE_BIND_OK_METHOD''
     else if methodNumber = AMQP_QUEUE_PURGE_METHOD then Some ''AMQP_QUEUE_PURGE_METHOD''
     else if methodNumber = AMQP_QUEUE_PURGE_OK_METHOD then Some ''AMQP_QUEUE_PURGE_OK_METHOD''
     else if methodNumber = AMQP_QUEUE_DELETE_METHOD then Some ''AMQP_QUEUE_DELETE_METHOD''
     else if methodNumber = AMQP_QUEUE_DELETE_OK_METHOD then Some ''AMQP_QUEUE_DELETE_OK_METHOD''
     else if methodNumber = AMQP_QUEUE_UNBIND_METHOD then Some ''AMQP_QUEUE_UNBIND_METHOD''
     else if methodNumber = AMQP_QUEUE_UNBIND_OK_METHOD then Some ''AMQP_QUEUE_UNBIND_OK_METHOD''
     else if methodNumber = AMQP_BASIC_QOS_METHOD then Some ''AMQP_BASIC_QOS_METHOD''
     else if methodNumber = AMQP_BASIC_QOS_OK_METHOD then Some ''AMQP_BASIC_QOS_OK_METHOD''
     else if methodNumber = AMQP_BASIC_CONSUME_METHOD then Some ''AMQP_BASIC_CONSUME_METHOD''
     else if methodNumber = AMQP_BASIC_CONSUME_OK_METHOD then Some ''AMQP_BASIC_CONSUME_OK_METHOD''
     else if methodNumber = AMQP_BASIC_CANCEL_METHOD then Some ''AMQP_BASIC_CANCEL_METHOD''
     else if methodNumber = AMQP_BASIC_CANCEL_OK_METHOD then Some ''AMQP_BASIC_CANCEL_OK_METHOD''
     else if methodNumber = AMQP_BASIC_PUBLISH_METHOD then Some ''AMQP_BASIC_PUBLISH_METHOD''
     else if methodNumber = AMQP_BASIC_RETURN_METHOD then Some ''AMQP_BASIC_RETURN_METHOD''
     else if methodNumber = AMQP_BASIC_DELIVER_METHOD then Some ''AMQP_BASIC_DELIVER_METHOD''
     else if methodNumber = AMQP_BASIC_GET_METHOD then Some ''AMQP_BASIC_GET_METHOD''
     else if methodNumber = AMQP_BASIC_GET_OK_METHOD then Some ''AMQP_BASIC_GET_OK_METHOD''
     else if methodNumber = AMQP_BASIC_GET_EMPTY_METHOD then Some ''AMQP_BASIC_GET_EMPTY_METHOD''
     else if methodNumber = AMQP_BASIC_ACK_METHOD then Some ''AMQP_BASIC_ACK_METHOD''
     else if methodNumber = AMQP_BASIC_REJECT_METHOD then Some ''AMQP_BASIC_REJECT_METHOD''
     else if methodNumber = AMQP_BASIC_RECOVER_ASYNC_METHOD then Some ''AMQP_BASIC_RECOVER_ASYNC_METHOD''
     else if methodNumber = AMQP_BASIC_RECOVER_METHOD then Some ''AMQP_BASIC_RECOVER_METHOD''
     else if methodNumber = AMQP_BASIC_RECOVER_OK_METHOD then Some ''AMQP_BASIC_RECOVER_OK_METHOD''
     else if methodNumber = AMQP_BASIC_NACK_METHOD then Some ''AMQP_BASIC_NACK_METHOD''
     else if methodNumber = AMQP_TX_SELECT_METHOD then Some ''AMQP_TX_SELECT_METHOD''
     else if methodNumber = AMQP_TX_SELECT_OK_METHOD then Some ''AMQP_TX_SELECT_OK_METHOD''
     else if methodNumber = AMQP_TX_COMMIT_METHOD then Some ''AMQP_TX_COMMIT_METHOD''
     else if methodNumber = AMQP_TX_COMMIT_OK_METHOD then Some ''AMQP_TX_COMMIT_OK_METHOD''
     else if methodNumber = AMQP_TX_ROLLBACK_METHOD then Some ''AMQP_TX_ROLLBACK_METHOD''
     else if methodNumber = AMQP_TX_ROLLBACK_OK_METHOD then Some ''AMQP_TX_ROLLBACK_OK_METHOD''
     else if methodNumber = AMQP_CONFIRM_SELECT_METHOD then Some ''AMQP_CONFIRM_SELECT_METHOD''
     else if methodNumber = AMQP_CONFIRM_SELECT_OK_METHOD then Some ''AMQP_CONFIRM_SELECT_OK_METHOD''
     else None)"

definition amqp_method_has_content :: "32 word \<Rightarrow> int" where
  "amqp_method_has_content methodNumber =
    (if methodNumber \<in> {AMQP_BASIC_PUBLISH_METHOD, AMQP_BASIC_RETURN_METHOD,
       AMQP_BASIC_DELIVER_METHOD, AMQP_BASIC_GET_OK_METHOD} then 1 else 0)"

section \<open>Method fields\<close>

record amqp_connection_start =
  connection_start_version_major :: "8 word"
  connection_start_version_minor :: "8 word"
  connection_start_server_properties :: amqp_table
  connection_start_mechanisms :: string
  connection_start_locales :: string

record amqp_connection_start_ok =
  connection_start_ok_client_properties :: amqp_table
  connection_start_ok_mechanism :: string
  connection_start_ok_response :: string
  connection_start_ok_locale :: string

record amqp_connection_secure =
  connection_secure_challenge :: string

record amqp_connection_secure_ok =
  connection_secure_ok_response :: string

record amqp_connection_tune =
  connection_tune_channel_max :: "16 word"
  connection_tune_frame_max :: "32 word"
  connection_tune_heartbeat :: "16 word"

record amqp_connection_tune_ok =
  connection_tune_ok_channel_max :: "16 word"
  connection_tune_ok_frame_max :: "32 word"
  connection_tune_ok_heartbeat :: "16 word"

record amqp_connection_open =
  connection_open_virtual_host :: string
  connection_open_capabilities :: string
  connection_open_insist :: int

record amqp_connection_open_ok =
  connection_open_ok_known_hosts :: string

record amqp_connection_close =
  connection_close_reply_code :: "16 word"
  connection_close_reply_text :: string
  connection_close_class_id :: "16 word"
  connection_close_method_id :: "16 word"

record amqp_channel_open =
  channel_open_out_of_band :: string

record amqp_channel_open_ok =
  channel_open_ok_channel_id :: string

record amqp_channel_flow =
  channel_flow_active :: int

record amqp_channel_flow_ok =
  channel_flow_ok_active :: int

record amqp_channel_close =
  channel_close_reply_code :: "16 word"
  channel_close_reply_text :: string
  channel_close_class_id :: "16 word"
  channel_close_method_id :: "16 word"

record amqp_access_request =
  access_request_realm :: string
  access_request_exclusive :: int
  access_request_passive :: int
  access_request_active :: int
  access_request_write :: int
  access_request_read :: int

record amqp_access_request_ok =
  access_request_ok_ticket :: "16 word"

record amqp_exchange_declare =
  exchange_declare_ticket :: "16 word"
  exchange_declare_exchange :: string
  exchange_declare_type :: string
  exchange_declare_passive :: int
  exchange_declare_durable :: int
  exchange_declare_auto_delete :: int
  exchange_declare_internal :: int
  exchange_declare_nowait :: int
  exchange_declare_arguments :: amqp_table

record amqp_exchange_delete =
  exchange_delete_ticket :: "16 word"
  exchange_delete_exchange :: string
  exchange_delete_if_unused :: int
  exchange_delete_nowait :: int

record amqp_exchange_bind =
  exchange_bind_ticket :: "16 word"
  exchange_bind_destination :: string
  exchange_bind_source :: string
  exchange_bind_routing_key :: string
  exchange_bind_nowait :: int
  exchange_bind_arguments :: amqp_table

record amqp_exchange_unbind =
  exchange_unbind_ticket :: "16 word"
  exchange_unbind_destination :: string
  exchange_unbind_source :: string
  exchange_unbind_routing_key :: string
  exchange_unbind_nowait :: int
  exchange_unbind_arguments :: amqp_table

record amqp_queue_declare =
  queue_declare_ticket :: "16 word"
  queue_declare_queue :: string
  queue_declare_passive :: int
  queue_declare_durable :: int
  queue_declare_exclusive :: int
  queue_declare_auto_delete :: int
  queue_declare_nowait :: int
  queue_declare_arguments :: amqp_table

record amqp_queue_declare_ok =
  queue_declare_ok_queue :: string
  queue_declare_ok_message_count :: "32 word"
  queue_declare_ok_consumer_count :: "32 word"

record amqp_queue_bind =
  queue_bind_ticket :: "16 word"
  queue_bind_queue :: string
  queue_bind_exchange :: string
  queue_bind_routing_key :: string
  queue_bind_nowait :: int
  queue_bind_arguments :: amqp_table

record amqp_queue_purge =
  queue_purge_ticket :: "16 word"
  queue_purge_queue :: string
  queue_purge_nowait :: int

record amqp_queue_purge_ok =
  queue_purge_ok_message_count :: "32 word"

record amqp_queue_delete =
  queue_delete_ticket :: "16 word"
  queue_delete_queue :: string
  queue_delete_if_unused :: int
  queue_delete_if_empty :: int
  queue_delete_nowait :: int

record amqp_queue_delete_ok =
  queue_delete_ok_message_count :: "32 word"

record amqp_queue_unbind =
  queue_unbind_ticket :: "16 word"
  queue_unbind_queue :: string
  queue_unbind_exchange :: string
  queue_unbind_routing_key :: string
  queue_unbind_arguments :: amqp_table

record amqp_basic_qos =
  basic_qos_prefetch_size :: "32 word"
  basic_qos_prefetch_count :: "16 word"
  basic_qos_global :: int

record amqp_basic_consume =
  basic_consume_ticket :: "16 word"
  basic_consume_queue :: string
  basic_consume_consumer_tag :: string
  basic_consume_no_local :: int
  basic_consume_no_ack :: int
  basic_consume_exclusive :: int
  basic_consume_nowait :: int
  basic_consume_arguments :: amqp_table

record amqp_basic_consume_ok =
  basic_consume_ok_consumer_tag :: string

record amqp_basic_cancel =
  basic_cancel_consumer_tag :: string
  basic_cancel_nowait :: int

record amqp_basic_cancel_ok =
  basic_cancel_ok_consumer_tag :: string

record amqp_basic_publish =
  basic_publish_ticket :: "16 word"
  basic_publish_exchange :: string
  basic_publish_routing_key :: string
  basic_publish_mandatory :: int
  basic_publish_immediate :: int

record amqp_basic_return =
  basic_return_reply_code :: "16 word"
  basic_return_reply_text :: string
  basic_return_exchange :: string
  basic_return_routing_key :: string

record amqp_basic_deliver =
  basic_deliver_consumer_tag :: string
  basic_deliver_delivery_tag :: "64 word"
  basic_deliver_redelivered :: int
  basic_deliver_exchange :: string
  basic_deliver_routing_key :: string

record amqp_basic_get =
  basic_get_ticket :: "16 word"
  basic_get_queue :: string
  basic_get_no_ack :: int

record amqp_basic_get_ok =
  basic_get_ok_delivery_tag :: "64 word"
  basic_get_ok_redelivered :: int
  basic_get_ok_exchange :: string
  basic_get_ok_routing_key :: string
  basic_get_ok_message_count :: "32 word"

record amqp_basic_get_empty =
  basic_get_empty_cluster_id :: string

record amqp_basic_ack =
  basic_ack_delivery_tag :: "64 word"
  basic_ack_multiple :: int

record amqp_basic_reject =
  basic_reject_delivery_tag :: "64 word"
  basic_reject_requeue :: int

record amqp_basic_recover_async =
  basic_recover_async_requeue :: int

record amqp_basic_recover =
  basic_recover_requeue :: int

record amqp_basic_nack =
  basic_nack_delivery_tag :: "64 word"
  basic_nack_multiple :: int
  basic_nack_requeue :: int

record amqp_confirm_select =
  confirm_select_nowait :: int

datatype (plugins only: code size) amqp_method =
    Connection_start amqp_connection_start
  | Connection_start_ok amqp_connection_start_ok
  | Connection_secure amqp_connection_secure
  | Connection_secure_ok amqp_connection_secure_ok
  | Connection_tune amqp_connection_tune
  | Connection_tune_ok amqp_connection_tune_ok
  | Connection_open amqp_connection_open
  | Connection_open_ok amqp_connection_open_ok
  | Connection_close amqp_connection_close
  | Connection_close_ok
  | Channel_open amqp_channel_open
  | Channel_open_ok amqp_channel_open_ok
  | Channel_flow amqp_channel_flow
  | Channel_flow_ok amqp_channel_flow_ok
  | Channel_close amqp_channel_close
  | Channel_close_ok
  | Access_request amqp_access_request
  | Access_request_ok amqp_access_request_ok
  | Exchange_declare amqp_exchange_declare
  | Exchange_declare_ok
  | Exchange_delete amqp_exchange_delete
  | Exchange_delete_ok
  | Exchange_bind amqp_exchange_bind
  | Exchange_bind_ok
  | Exchange_unbind amqp_exchange_unbind
  | Exchange_unbind_ok
  | Queue_declare amqp_queue_declare
  | Queue_declare_ok amqp_queue_declare_ok
  | Queue_bind amqp_queue_bind
  | Queue_bind_ok
  | Queue_purge amqp_queue_purge
  | Queue_purge_ok amqp_queue_purge_ok
  | Queue_delete amqp_queue_delete
  | Queue_delete_ok amqp_queue_delete_ok
  | Queue_unbind amqp_queue_unbind
  | Queue_unbind_ok
  | Basic_qos amqp_basic_qos
  | Basic_qos_ok
  | Basic_consume amqp_basic_consume
  | Basic_consume_ok amqp_basic_consume_ok
  | Basic_cancel amqp_basic_cancel
  | Basic_cancel_ok amqp_basic_cancel_ok
  | Basic_publish amqp_basic_publish
  | Basic_return amqp_basic_return
  | Basic_deliver amqp_basic_deliver
  | Basic_get amqp_basic_get
  | Basic_get_ok amqp_basic_get_ok
  | Basic_get_empty amqp_basic_get_empty
  | Basic_ack amqp_basic_ack
  | Basic_reject amqp_basic_reject
  | Basic_recover_async amqp_basic_recover_async
  | Basic_recover amqp_basic_recover
  | Basic_recover_ok
  | Basic_nack amqp_basic_nack
  | Tx_select
  | Tx_select_ok
  | Tx_commit
  | Tx_commit_ok
  | Tx_rollback
  | Tx_rollback_ok
  | Confirm_select amqp_confirm_select
  | Confirm_select_ok

primrec method_number :: "amqp_method \<Rightarrow> 32 word" where
  "method_number (Connection_start m) = AMQP_CONNECTION_START_METHOD"
| "method_number (Connection_start_ok m) = AMQP_CONNECTION_START_OK_METHOD"
| "method_number (Connection_secure m) = AMQP_CONNECTION_SECURE_METHOD"
| "method_number (Connection_secure_ok m) = AMQP_CONNECTION_SECURE_OK_METHOD"
| "method_number (Connection_tune m) = AMQP_CONNECTION_TUNE_METHOD"
| "method_number (Connection_tune_ok m) = AMQP_CONNECTION_TUNE_OK_METHOD"
| "method_number (Connection_open m) = AMQP_CONNECTION_OPEN_METHOD"
| "method_number (Connection_open_ok m) = AMQP_CONNECTION_OPEN_OK_METHOD"
| "method_number (Connection_close m) = AMQP_CONNECTION_CLOSE_METHOD"
| "method_number Connection_close_ok = AMQP_CONNECTION_CLOSE_OK_METHOD"
| "method_number (Channel_open m) = AMQP_CHANNEL_OPEN_METHOD"
| "method_number (Channel_open_ok m) = AMQP_CHANNEL_OPEN_OK_METHOD"
| "method_number (Channel_flow m) = AMQP_CHANNEL_FLOW_METHOD"
| "method_number (Channel_flow_ok m) = AMQP_CHANNEL_FLOW_OK_METHOD"
| "method_number (Channel_close m) = AMQP_CHANNEL_CLOSE_METHOD"
| "method_number Channel_close_ok = AMQP_CHANNEL_CLOSE_OK_METHOD"
| "method_number (Access_request m) = AMQP_ACCESS_REQUEST_METHOD"
| "method_number (Access_request_ok m) = AMQP_ACCESS_REQUEST_OK_METHOD"
| "method_number (Exchange_declare m) = AMQP_EXCHANGE_DECLARE_METHOD"
| "method_number Exchange_declare_ok = AMQP_EXCHANGE_DECLARE_OK_METHOD"
| "method_number (Exchange_delete m) = AMQP_EXCHANGE_DELETE_METHOD"
| "method_number Exchange_delete_ok = AMQP_EXCHANGE_DELETE_OK_METHOD"
| "method_number (Exchange_bind m) = AMQP_EXCHANGE_BIND_METHOD"
| "method_number Exchange_bind_ok = AMQP_EXCHANGE_BIND_OK_METHOD"
| "method_number (Exchange_unbind m) = AMQP_EXCHANGE_UNBIND_METHOD"
| "method_number Exchange_unbind_ok = AMQP_EXCHANGE_UNBIND_OK_METHOD"
| "method_number (Queue_declare m) = AMQP_QUEUE_DECLARE_METHOD"
| "method_number (Queue_declare_ok m) = AMQP_QUEUE_DECLARE_OK_METHOD"
| "method_number (Queue_bind m) = AMQP_QUEUE_BIND_METHOD"
| "method_number Queue_bind_ok = AMQP_QUEUE_BIND_OK_METHOD"
| "method_number (Queue_purge m) = AMQP_QUEUE_PURGE_METHOD"
| "method_number (Queue_purge_ok m) = AMQP_QUEUE_PURGE_OK_METHOD"
| "method_number (Queue_delete m) = AMQP_QUEUE_DELETE_METHOD"
| "method_number (Queue_delete_ok m) = AMQP_QUEUE_DELETE_OK_METHOD"
| "method_number (Queue_unbind m) = AMQP_QUEUE_UNBIND_METHOD"
| "method_number Queue_unbind_ok = AMQP_QUEUE_UNBIND_OK_METHOD"
| "method_number (Basic_qos m) = AMQP_BASIC_QOS_METHOD"
| "method_number Basic_qos_ok = AMQP_BASIC_QOS_OK_METHOD"
| "method_number (Basic_consume m) = AMQP_BASIC_CONSUME_METHOD"
| "method_number (Basic_consume_ok m) = AMQP_BASIC_CONSUME_OK_METHOD"
| "method_number (Basic_cancel m) = AMQP_BASIC_CANCEL_METHOD"
| "method_number (Basic_cancel_ok m) = AMQP_BASIC_CANCEL_OK_METHOD"
| "method_number (Basic_publish m) = AMQP_BASIC_PUBLISH_METHOD"
| "method_number (Basic_return m) = AMQP_BASIC_RETURN_METHOD"
| "method_number (Basic_deliver m) = AMQP_BASIC_DELIVER_METHOD"
| "method_number (Basic_get m) = AMQP_BASIC_GET_METHOD"
| "method_number (Basic_get_ok m) = AMQP_BASIC_GET_OK_METHOD"
| "method_number (Basic_get_empty m) = AMQP_BASIC_GET_EMPTY_METHOD"
| "method_number (Basic_ack m) = AMQP_BASIC_ACK_METHOD"
| "method_number (Basic_reject m) = AMQP_BASIC_REJECT_METHOD"
| "method_number (Basic_recover_async m) = AMQP_BASIC_RECOVER_ASYNC_METHOD"
| "method_number (Basic_recover m) = AMQP_BASIC_RECOVER_METHOD"
| "method_number Basic_recover_ok = AMQP_BASIC_RECOVER_OK_METHOD"
| "method_number (Basic_nack m) = AMQP_BASIC_NACK_METHOD"
| "method_number Tx_select = AMQP_TX_SELECT_METHOD"
| "method_number Tx_select_ok = AMQP_TX_SELECT_OK_METHOD"
| "method_number Tx_commit = AMQP_TX_COMMIT_METHOD"
| "method_number Tx_commit_ok = AMQP_TX_COMMIT_OK_METHOD"
| "method_number Tx_rollback = AMQP_TX_ROLLBACK_METHOD"
| "method_number Tx_rollback_ok = AMQP_TX_ROLLBACK_OK_METHOD"
| "method_number (Confirm_select m) = AMQP_CONFIRM_SELECT_METHOD"
| "method_number Confirm_select_ok = AMQP_CONFIRM_SELECT_OK_METHOD"

section \<open>Content properties\<close>

definition AMQP_CONNECTION_CLASS :: "16 word" where "AMQP_CONNECTION_CLASS = 0x000A"
definition AMQP_CHANNEL_CLASS :: "16 word" where "AMQP_CHANNEL_CLASS = 0x0014"
definition AMQP_ACCESS_CLASS :: "16 word" where "AMQP_ACCESS_CLASS = 0x001E"
definition AMQP_EXCHANGE_CLASS :: "16 word" where "AMQP_EXCHANGE_CLASS = 0x0028"
definition AMQP_QUEUE_CLASS :: "16 word" where "AMQP_QUEUE_CLASS = 0x0032"
definition AMQP_BASIC_CLASS :: "16 word" where "AMQP_BASIC_CLASS = 0x003C"
definition AMQP_TX_CLASS :: "16 word" where "AMQP_TX_CLASS = 0x005A"
definition AMQP_CONFIRM_CLASS :: "16 word" where "AMQP_CONFIRM_CLASS = 0x0055"

lemmas amqp_classes = AMQP_CONNECTION_CLASS_def
  AMQP_CHANNEL_CLASS_def
  AMQP_ACCESS_CLASS_def
  AMQP_EXCHANGE_CLASS_def
  AMQP_QUEUE_CLASS_def
  AMQP_BASIC_CLASS_def
  AMQP_TX_CLASS_def
  AMQP_CONFIRM_CLASS_def

definition AMQP_BASIC_CONTENT_TYPE_FLAG :: "32 word" where "AMQP_BASIC_CONTENT_TYPE_FLAG = push_bit 15 1"
definition AMQP_BASIC_CONTENT_ENCODING_FLAG :: "32 word" where "AMQP_BASIC_CONTENT_ENCODING_FLAG = push_bit 14 1"
definition AMQP_BASIC_HEADERS_FLAG :: "32 word" where "AMQP_BASIC_HEADERS_FLAG = push_bit 13 1"
definition AMQP_BASIC_DELIVERY_MODE_FLAG :: "32 word" where "AMQP_BASIC_DELIVERY_MODE_FLAG = push_bit 12 1"
definition AMQP_BASIC_PRIORITY_FLAG :: "32 word" where "AMQP_BASIC_PRIORITY_FLAG = push_bit 11 1"
definition AMQP_BASIC_CORRELATION_ID_FLAG :: "32 word" where "AMQP_BASIC_CORRELATION_ID_FLAG = push_bit 10 1"
definition AMQP_BASIC_REPLY_TO_FLAG :: "32 word" where "AMQP_BASIC_REPLY_TO_FLAG = push_bit 9 1"
definition AMQP_BASIC_EXPIRATION_FLAG :: "32 word" where "AMQP_BASIC_EXPIRATION_FLAG = push_bit 8 1"
definition AMQP_BASIC_MESSAGE_ID_FLAG :: "32 word" where "AMQP_BASIC_MESSAGE_ID_FLAG = push_bit 7 1"
definition AMQP_BASIC_TIMESTAMP_FLAG :: "32 word" where "AMQP_BASIC_TIMESTAMP_FLAG = push_bit 6 1"
definition AMQP_BASIC_TYPE_FLAG :: "32 word" where "AMQP_BASIC_TYPE_FLAG = push_bit 5 1"
definition AMQP_BASIC_USER_ID_FLAG :: "32 word" where "AMQP_BASIC_USER_ID_FLAG = push_bit 4 1"
definition AMQP_BASIC_APP_ID_FLAG :: "32 word" where "AMQP_BASIC_APP_ID_FLAG = push_bit 3 1"
definition AMQP_BASIC_CLUSTER_ID_FLAG :: "32 word" where "AMQP_BASIC_CLUSTER_ID_FLAG = push_bit 2 1"

lemmas basic_flags = AMQP_BASIC_CONTENT_TYPE_FLAG_def
  AMQP_BASIC_CONTENT_ENCODING_FLAG_def
  AMQP_BASIC_HEADERS_FLAG_def
  AMQP_BASIC_DELIVERY_MODE_FLAG_def
  AMQP_BASIC_PRIORITY_FLAG_def
  AMQP_BASIC_CORRELATION_ID_FLAG_def
  AMQP_BASIC_REPLY_TO_FLAG_def
  AMQP_BASIC_EXPIRATION_FLAG_def
  AMQP_BASIC_MESSAGE_ID_FLAG_def
  AMQP_BASIC_TIMESTAMP_FLAG_def
  AMQP_BASIC_TYPE_FLAG_def
  AMQP_BASIC_USER_ID_FLAG_def
  AMQP_BASIC_APP_ID_FLAG_def
  AMQP_BASIC_CLUSTER_ID_FLAG_def

record amqp_connection_properties =
  connection_properties_flags :: "32 word"

record amqp_channel_properties =
  channel_properties_flags :: "32 word"

record amqp_access_properties =
  access_properties_flags :: "32 word"

record amqp_exchange_properties =
  exchange_properties_flags :: "32 word"

record amqp_queue_properties =
  queue_properties_flags :: "32 word"

record amqp_basic_properties =
  basic_properties_flags :: "32 word"
  basic_properties_content_type :: string
  basic_properties_content_encoding :: string
  basic_properties_headers :: amqp_table
  basic_properties_delivery_mode :: "8 word"
  basic_properties_priority :: "8 word"
  basic_properties_correlation_id :: string
  basic_properties_reply_to :: string
  basic_properties_expiration :: string
  basic_properties_message_id :: string
  basic_properties_timestamp :: "64 word"
  basic_properties_type :: string
  basic_properties_user_id :: string
  basic_properties_app_id :: string
  basic_properties_cluster_id :: string

record amqp_tx_properties =
  tx_properties_flags :: "32 word"

record amqp_confirm_properties =
  confirm_properties_flags :: "32 word"

datatype (plugins only: code size) amqp_properties =
    Connection_properties amqp_connection_properties
  | Channel_properties amqp_channel_properties
  | Access_properties amqp_access_properties
  | Exchange_properties amqp_exchange_properties
  | Queue_properties amqp_queue_properties
  | Basic_properties amqp_basic_properties
  | Tx_properties amqp_tx_properties
  | Confirm_properties amqp_confirm_properties

text \<open>The flags are the first member of every struct.\<close>

primrec properties_flags :: "amqp_properties \<Rightarrow> 32 word" where
  "properties_flags (Connection_properties p) = connection_properties_flags p"
| "properties_flags (Channel_properties p) = channel_properties_flags p"
| "properties_flags (Access_properties p) = access_properties_flags p"
| "properties_flags (Exchange_properties p) = exchange_properties_flags p"
| "properties_flags (Queue_properties p) = queue_properties_flags p"
| "properties_flags (Basic_properties p) = basic_properties_flags p"
| "properties_flags (Tx_properties p) = tx_properties_flags p"
| "properties_flags (Confirm_properties p) = confirm_properties_flags p"

end
