(* ===== verification/Rabbit_Framing.thy ===== *)
theory Rabbit_Framing
  imports Rabbit_Methods
begin

text \<open>
  Encoding and decoding of methods and content properties (\<^verbatim>\<open>src/lib/librabbitmq/amqp_framing.c\<close>).
  \<open>encode_x\<close> and \<open>decode_x\<close> are the cases of the struct \<open>x\<close> in \<^verbatim>\<open>amqp_encode_method\<close> and
  \<^verbatim>\<open>amqp_decode_method\<close>. Up to eight \<^verbatim>\<open>amqp_boolean_t\<close> (an \<^verbatim>\<open>int\<close> that counts as true unless it
  is 0) share a byte.
\<close>

section \<open>Bits\<close>

abbreviation bad_data :: int where "bad_data \<equiv> AMQP_STATUS_BAD_AMQP_DATA"

text \<open>\<^verbatim>\<open>if (b) bit_buffer |= (1 << n)\<close> and \<^verbatim>\<open>(bit_buffer & (1 << n)) ? 1 : 0\<close>.\<close>

definition flag_bit :: "nat \<Rightarrow> int \<Rightarrow> 8 word \<Rightarrow> 8 word" where
  "flag_bit n b bit_buffer = (if b \<noteq> 0 then bit_buffer OR push_bit n 1 else bit_buffer)"

definition bit_flag :: "8 word \<Rightarrow> nat \<Rightarrow> int" where
  "bit_flag bit_buffer n = (if bit_buffer AND push_bit n 1 \<noteq> 0 then 1 else 0)"

section \<open>Encoding of a method\<close>

definition encode_connection_start :: "amqp_connection_start \<Rightarrow> encoding \<Rightarrow> int + encoding" where
  "encode_connection_start m = run_steps [
     put_8 bad_data (connection_start_version_major m),
     put_8 bad_data (connection_start_version_minor m),
     amqp_encode_table (connection_start_server_properties m),
     put_long bad_data (connection_start_mechanisms m),
     put_long bad_data (connection_start_locales m)]"

definition encode_connection_start_ok :: "amqp_connection_start_ok \<Rightarrow> encoding \<Rightarrow> int + encoding" where
  "encode_connection_start_ok m = run_steps [
     amqp_encode_table (connection_start_ok_client_properties m),
     put_short bad_data (connection_start_ok_mechanism m),
     put_long bad_data (connection_start_ok_response m),
     put_short bad_data (connection_start_ok_locale m)]"

definition encode_connection_secure :: "amqp_connection_secure \<Rightarrow> encoding \<Rightarrow> int + encoding" where
  "encode_connection_secure m = run_steps [
     put_long bad_data (connection_secure_challenge m)]"

definition encode_connection_secure_ok :: "amqp_connection_secure_ok \<Rightarrow> encoding \<Rightarrow> int + encoding" where
  "encode_connection_secure_ok m = run_steps [
     put_long bad_data (connection_secure_ok_response m)]"

definition encode_connection_tune :: "amqp_connection_tune \<Rightarrow> encoding \<Rightarrow> int + encoding" where
  "encode_connection_tune m = run_steps [
     put_16 bad_data (connection_tune_channel_max m),
     put_32 bad_data (connection_tune_frame_max m),
     put_16 bad_data (connection_tune_heartbeat m)]"

definition encode_connection_tune_ok :: "amqp_connection_tune_ok \<Rightarrow> encoding \<Rightarrow> int + encoding" where
  "encode_connection_tune_ok m = run_steps [
     put_16 bad_data (connection_tune_ok_channel_max m),
     put_32 bad_data (connection_tune_ok_frame_max m),
     put_16 bad_data (connection_tune_ok_heartbeat m)]"

definition encode_connection_open :: "amqp_connection_open \<Rightarrow> encoding \<Rightarrow> int + encoding" where
  "encode_connection_open m = run_steps [
     put_short bad_data (connection_open_virtual_host m),
     put_short bad_data (connection_open_capabilities m),
     put_8 bad_data (flag_bit 0 (connection_open_insist m) 0)]"

definition encode_connection_open_ok :: "amqp_connection_open_ok \<Rightarrow> encoding \<Rightarrow> int + encoding" where
  "encode_connection_open_ok m = run_steps [
     put_short bad_data (connection_open_ok_known_hosts m)]"

definition encode_connection_close :: "amqp_connection_close \<Rightarrow> encoding \<Rightarrow> int + encoding" where
  "encode_connection_close m = run_steps [
     put_16 bad_data (connection_close_reply_code m),
     put_short bad_data (connection_close_reply_text m),
     put_16 bad_data (connection_close_class_id m),
     put_16 bad_data (connection_close_method_id m)]"

definition encode_channel_open :: "amqp_channel_open \<Rightarrow> encoding \<Rightarrow> int + encoding" where
  "encode_channel_open m = run_steps [
     put_short bad_data (channel_open_out_of_band m)]"

definition encode_channel_open_ok :: "amqp_channel_open_ok \<Rightarrow> encoding \<Rightarrow> int + encoding" where
  "encode_channel_open_ok m = run_steps [
     put_long bad_data (channel_open_ok_channel_id m)]"

definition encode_channel_flow :: "amqp_channel_flow \<Rightarrow> encoding \<Rightarrow> int + encoding" where
  "encode_channel_flow m = run_steps [
     put_8 bad_data (flag_bit 0 (channel_flow_active m) 0)]"

definition encode_channel_flow_ok :: "amqp_channel_flow_ok \<Rightarrow> encoding \<Rightarrow> int + encoding" where
  "encode_channel_flow_ok m = run_steps [
     put_8 bad_data (flag_bit 0 (channel_flow_ok_active m) 0)]"

definition encode_channel_close :: "amqp_channel_close \<Rightarrow> encoding \<Rightarrow> int + encoding" where
  "encode_channel_close m = run_steps [
     put_16 bad_data (channel_close_reply_code m),
     put_short bad_data (channel_close_reply_text m),
     put_16 bad_data (channel_close_class_id m),
     put_16 bad_data (channel_close_method_id m)]"

definition encode_access_request :: "amqp_access_request \<Rightarrow> encoding \<Rightarrow> int + encoding" where
  "encode_access_request m = run_steps [
     put_short bad_data (access_request_realm m),
     put_8 bad_data (flag_bit 4 (access_request_read m) (
       flag_bit 3 (access_request_write m) (flag_bit 2 (access_request_active m) (
       flag_bit 1 (access_request_passive m) (flag_bit 0 (access_request_exclusive m) 0)))))]"

definition encode_access_request_ok :: "amqp_access_request_ok \<Rightarrow> encoding \<Rightarrow> int + encoding" where
  "encode_access_request_ok m = run_steps [
     put_16 bad_data (access_request_ok_ticket m)]"

definition encode_exchange_declare :: "amqp_exchange_declare \<Rightarrow> encoding \<Rightarrow> int + encoding" where
  "encode_exchange_declare m = run_steps [
     put_16 bad_data (exchange_declare_ticket m),
     put_short bad_data (exchange_declare_exchange m),
     put_short bad_data (exchange_declare_type m),
     put_8 bad_data (flag_bit 4 (exchange_declare_nowait m) (
       flag_bit 3 (exchange_declare_internal m) (flag_bit 2 (exchange_declare_auto_delete m) (
       flag_bit 1 (exchange_declare_durable m) (flag_bit 0 (exchange_declare_passive m) 0))))),
     amqp_encode_table (exchange_declare_arguments m)]"

definition encode_exchange_delete :: "amqp_exchange_delete \<Rightarrow> encoding \<Rightarrow> int + encoding" where
  "encode_exchange_delete m = run_steps [
     put_16 bad_data (exchange_delete_ticket m),
     put_short bad_data (exchange_delete_exchange m),
     put_8 bad_data (flag_bit 1 (exchange_delete_nowait m) (flag_bit 0 (exchange_delete_if_unused m) 0))]"

definition encode_exchange_bind :: "amqp_exchange_bind \<Rightarrow> encoding \<Rightarrow> int + encoding" where
  "encode_exchange_bind m = run_steps [
     put_16 bad_data (exchange_bind_ticket m),
     put_short bad_data (exchange_bind_destination m),
     put_short bad_data (exchange_bind_source m),
     put_short bad_data (exchange_bind_routing_key m),
     put_8 bad_data (flag_bit 0 (exchange_bind_nowait m) 0),
     amqp_encode_table (exchange_bind_arguments m)]"

definition encode_exchange_unbind :: "amqp_exchange_unbind \<Rightarrow> encoding \<Rightarrow> int + encoding" where
  "encode_exchange_unbind m = run_steps [
     put_16 bad_data (exchange_unbind_ticket m),
     put_short bad_data (exchange_unbind_destination m),
     put_short bad_data (exchange_unbind_source m),
     put_short bad_data (exchange_unbind_routing_key m),
     put_8 bad_data (flag_bit 0 (exchange_unbind_nowait m) 0),
     amqp_encode_table (exchange_unbind_arguments m)]"

definition encode_queue_declare :: "amqp_queue_declare \<Rightarrow> encoding \<Rightarrow> int + encoding" where
  "encode_queue_declare m = run_steps [
     put_16 bad_data (queue_declare_ticket m),
     put_short bad_data (queue_declare_queue m),
     put_8 bad_data (flag_bit 4 (queue_declare_nowait m) (
       flag_bit 3 (queue_declare_auto_delete m) (flag_bit 2 (queue_declare_exclusive m) (
       flag_bit 1 (queue_declare_durable m) (flag_bit 0 (queue_declare_passive m) 0))))),
     amqp_encode_table (queue_declare_arguments m)]"

definition encode_queue_declare_ok :: "amqp_queue_declare_ok \<Rightarrow> encoding \<Rightarrow> int + encoding" where
  "encode_queue_declare_ok m = run_steps [
     put_short bad_data (queue_declare_ok_queue m),
     put_32 bad_data (queue_declare_ok_message_count m),
     put_32 bad_data (queue_declare_ok_consumer_count m)]"

definition encode_queue_bind :: "amqp_queue_bind \<Rightarrow> encoding \<Rightarrow> int + encoding" where
  "encode_queue_bind m = run_steps [
     put_16 bad_data (queue_bind_ticket m),
     put_short bad_data (queue_bind_queue m),
     put_short bad_data (queue_bind_exchange m),
     put_short bad_data (queue_bind_routing_key m),
     put_8 bad_data (flag_bit 0 (queue_bind_nowait m) 0),
     amqp_encode_table (queue_bind_arguments m)]"

definition encode_queue_purge :: "amqp_queue_purge \<Rightarrow> encoding \<Rightarrow> int + encoding" where
  "encode_queue_purge m = run_steps [
     put_16 bad_data (queue_purge_ticket m),
     put_short bad_data (queue_purge_queue m),
     put_8 bad_data (flag_bit 0 (queue_purge_nowait m) 0)]"

definition encode_queue_purge_ok :: "amqp_queue_purge_ok \<Rightarrow> encoding \<Rightarrow> int + encoding" where
  "encode_queue_purge_ok m = run_steps [
     put_32 bad_data (queue_purge_ok_message_count m)]"

definition encode_queue_delete :: "amqp_queue_delete \<Rightarrow> encoding \<Rightarrow> int + encoding" where
  "encode_queue_delete m = run_steps [
     put_16 bad_data (queue_delete_ticket m),
     put_short bad_data (queue_delete_queue m),
     put_8 bad_data (flag_bit 2 (queue_delete_nowait m) (
       flag_bit 1 (queue_delete_if_empty m) (flag_bit 0 (queue_delete_if_unused m) 0)))]"

definition encode_queue_delete_ok :: "amqp_queue_delete_ok \<Rightarrow> encoding \<Rightarrow> int + encoding" where
  "encode_queue_delete_ok m = run_steps [
     put_32 bad_data (queue_delete_ok_message_count m)]"

definition encode_queue_unbind :: "amqp_queue_unbind \<Rightarrow> encoding \<Rightarrow> int + encoding" where
  "encode_queue_unbind m = run_steps [
     put_16 bad_data (queue_unbind_ticket m),
     put_short bad_data (queue_unbind_queue m),
     put_short bad_data (queue_unbind_exchange m),
     put_short bad_data (queue_unbind_routing_key m),
     amqp_encode_table (queue_unbind_arguments m)]"

definition encode_basic_qos :: "amqp_basic_qos \<Rightarrow> encoding \<Rightarrow> int + encoding" where
  "encode_basic_qos m = run_steps [
     put_32 bad_data (basic_qos_prefetch_size m),
     put_16 bad_data (basic_qos_prefetch_count m),
     put_8 bad_data (flag_bit 0 (basic_qos_global m) 0)]"

definition encode_basic_consume :: "amqp_basic_consume \<Rightarrow> encoding \<Rightarrow> int + encoding" where
  "encode_basic_consume m = run_steps [
     put_16 bad_data (basic_consume_ticket m),
     put_short bad_data (basic_consume_queue m),
     put_short bad_data (basic_consume_consumer_tag m),
     put_8 bad_data (flag_bit 3 (basic_consume_nowait m) (flag_bit 2 (basic_consume_exclusive m) (
       flag_bit 1 (basic_consume_no_ack m) (flag_bit 0 (basic_consume_no_local m) 0)))),
     amqp_encode_table (basic_consume_arguments m)]"

definition encode_basic_consume_ok :: "amqp_basic_consume_ok \<Rightarrow> encoding \<Rightarrow> int + encoding" where
  "encode_basic_consume_ok m = run_steps [
     put_short bad_data (basic_consume_ok_consumer_tag m)]"

definition encode_basic_cancel :: "amqp_basic_cancel \<Rightarrow> encoding \<Rightarrow> int + encoding" where
  "encode_basic_cancel m = run_steps [
     put_short bad_data (basic_cancel_consumer_tag m),
     put_8 bad_data (flag_bit 0 (basic_cancel_nowait m) 0)]"

definition encode_basic_cancel_ok :: "amqp_basic_cancel_ok \<Rightarrow> encoding \<Rightarrow> int + encoding" where
  "encode_basic_cancel_ok m = run_steps [
     put_short bad_data (basic_cancel_ok_consumer_tag m)]"

definition encode_basic_publish :: "amqp_basic_publish \<Rightarrow> encoding \<Rightarrow> int + encoding" where
  "encode_basic_publish m = run_steps [
     put_16 bad_data (basic_publish_ticket m),
     put_short bad_data (basic_publish_exchange m),
     put_short bad_data (basic_publish_routing_key m),
     put_8 bad_data (flag_bit 1 (basic_publish_immediate m) (flag_bit 0 (basic_publish_mandatory m) 0))]"

definition encode_basic_return :: "amqp_basic_return \<Rightarrow> encoding \<Rightarrow> int + encoding" where
  "encode_basic_return m = run_steps [
     put_16 bad_data (basic_return_reply_code m),
     put_short bad_data (basic_return_reply_text m),
     put_short bad_data (basic_return_exchange m),
     put_short bad_data (basic_return_routing_key m)]"

definition encode_basic_deliver :: "amqp_basic_deliver \<Rightarrow> encoding \<Rightarrow> int + encoding" where
  "encode_basic_deliver m = run_steps [
     put_short bad_data (basic_deliver_consumer_tag m),
     put_64 bad_data (basic_deliver_delivery_tag m),
     put_8 bad_data (flag_bit 0 (basic_deliver_redelivered m) 0),
     put_short bad_data (basic_deliver_exchange m),
     put_short bad_data (basic_deliver_routing_key m)]"

definition encode_basic_get :: "amqp_basic_get \<Rightarrow> encoding \<Rightarrow> int + encoding" where
  "encode_basic_get m = run_steps [
     put_16 bad_data (basic_get_ticket m),
     put_short bad_data (basic_get_queue m),
     put_8 bad_data (flag_bit 0 (basic_get_no_ack m) 0)]"

definition encode_basic_get_ok :: "amqp_basic_get_ok \<Rightarrow> encoding \<Rightarrow> int + encoding" where
  "encode_basic_get_ok m = run_steps [
     put_64 bad_data (basic_get_ok_delivery_tag m),
     put_8 bad_data (flag_bit 0 (basic_get_ok_redelivered m) 0),
     put_short bad_data (basic_get_ok_exchange m),
     put_short bad_data (basic_get_ok_routing_key m),
     put_32 bad_data (basic_get_ok_message_count m)]"

definition encode_basic_get_empty :: "amqp_basic_get_empty \<Rightarrow> encoding \<Rightarrow> int + encoding" where
  "encode_basic_get_empty m = run_steps [
     put_short bad_data (basic_get_empty_cluster_id m)]"

definition encode_basic_ack :: "amqp_basic_ack \<Rightarrow> encoding \<Rightarrow> int + encoding" where
  "encode_basic_ack m = run_steps [
     put_64 bad_data (basic_ack_delivery_tag m),
     put_8 bad_data (flag_bit 0 (basic_ack_multiple m) 0)]"

definition encode_basic_reject :: "amqp_basic_reject \<Rightarrow> encoding \<Rightarrow> int + encoding" where
  "encode_basic_reject m = run_steps [
     put_64 bad_data (basic_reject_delivery_tag m),
     put_8 bad_data (flag_bit 0 (basic_reject_requeue m) 0)]"

definition encode_basic_recover_async :: "amqp_basic_recover_async \<Rightarrow> encoding \<Rightarrow> int + encoding" where
  "encode_basic_recover_async m = run_steps [
     put_8 bad_data (flag_bit 0 (basic_recover_async_requeue m) 0)]"

definition encode_basic_recover :: "amqp_basic_recover \<Rightarrow> encoding \<Rightarrow> int + encoding" where
  "encode_basic_recover m = run_steps [
     put_8 bad_data (flag_bit 0 (basic_recover_requeue m) 0)]"

definition encode_basic_nack :: "amqp_basic_nack \<Rightarrow> encoding \<Rightarrow> int + encoding" where
  "encode_basic_nack m = run_steps [
     put_64 bad_data (basic_nack_delivery_tag m),
     put_8 bad_data (flag_bit 1 (basic_nack_requeue m) (flag_bit 0 (basic_nack_multiple m) 0))]"

definition encode_confirm_select :: "amqp_confirm_select \<Rightarrow> encoding \<Rightarrow> int + encoding" where
  "encode_confirm_select m = run_steps [
     put_8 bad_data (flag_bit 0 (confirm_select_nowait m) 0)]"

primrec encode_decoded :: "amqp_method \<Rightarrow> encoding \<Rightarrow> int + encoding" where
  "encode_decoded (Connection_start m) = encode_connection_start m"
| "encode_decoded (Connection_start_ok m) = encode_connection_start_ok m"
| "encode_decoded (Connection_secure m) = encode_connection_secure m"
| "encode_decoded (Connection_secure_ok m) = encode_connection_secure_ok m"
| "encode_decoded (Connection_tune m) = encode_connection_tune m"
| "encode_decoded (Connection_tune_ok m) = encode_connection_tune_ok m"
| "encode_decoded (Connection_open m) = encode_connection_open m"
| "encode_decoded (Connection_open_ok m) = encode_connection_open_ok m"
| "encode_decoded (Connection_close m) = encode_connection_close m"
| "encode_decoded Connection_close_ok = Inr"
| "encode_decoded (Channel_open m) = encode_channel_open m"
| "encode_decoded (Channel_open_ok m) = encode_channel_open_ok m"
| "encode_decoded (Channel_flow m) = encode_channel_flow m"
| "encode_decoded (Channel_flow_ok m) = encode_channel_flow_ok m"
| "encode_decoded (Channel_close m) = encode_channel_close m"
| "encode_decoded Channel_close_ok = Inr"
| "encode_decoded (Access_request m) = encode_access_request m"
| "encode_decoded (Access_request_ok m) = encode_access_request_ok m"
| "encode_decoded (Exchange_declare m) = encode_exchange_declare m"
| "encode_decoded Exchange_declare_ok = Inr"
| "encode_decoded (Exchange_delete m) = encode_exchange_delete m"
| "encode_decoded Exchange_delete_ok = Inr"
| "encode_decoded (Exchange_bind m) = encode_exchange_bind m"
| "encode_decoded Exchange_bind_ok = Inr"
| "encode_decoded (Exchange_unbind m) = encode_exchange_unbind m"
| "encode_decoded Exchange_unbind_ok = Inr"
| "encode_decoded (Queue_declare m) = encode_queue_declare m"
| "encode_decoded (Queue_declare_ok m) = encode_queue_declare_ok m"
| "encode_decoded (Queue_bind m) = encode_queue_bind m"
| "encode_decoded Queue_bind_ok = Inr"
| "encode_decoded (Queue_purge m) = encode_queue_purge m"
| "encode_decoded (Queue_purge_ok m) = encode_queue_purge_ok m"
| "encode_decoded (Queue_delete m) = encode_queue_delete m"
| "encode_decoded (Queue_delete_ok m) = encode_queue_delete_ok m"
| "encode_decoded (Queue_unbind m) = encode_queue_unbind m"
| "encode_decoded Queue_unbind_ok = Inr"
| "encode_decoded (Basic_qos m) = encode_basic_qos m"
| "encode_decoded Basic_qos_ok = Inr"
| "encode_decoded (Basic_consume m) = encode_basic_consume m"
| "encode_decoded (Basic_consume_ok m) = encode_basic_consume_ok m"
| "encode_decoded (Basic_cancel m) = encode_basic_cancel m"
| "encode_decoded (Basic_cancel_ok m) = encode_basic_cancel_ok m"
| "encode_decoded (Basic_publish m) = encode_basic_publish m"
| "encode_decoded (Basic_return m) = encode_basic_return m"
| "encode_decoded (Basic_deliver m) = encode_basic_deliver m"
| "encode_decoded (Basic_get m) = encode_basic_get m"
| "encode_decoded (Basic_get_ok m) = encode_basic_get_ok m"
| "encode_decoded (Basic_get_empty m) = encode_basic_get_empty m"
| "encode_decoded (Basic_ack m) = encode_basic_ack m"
| "encode_decoded (Basic_reject m) = encode_basic_reject m"
| "encode_decoded (Basic_recover_async m) = encode_basic_recover_async m"
| "encode_decoded (Basic_recover m) = encode_basic_recover m"
| "encode_decoded Basic_recover_ok = Inr"
| "encode_decoded (Basic_nack m) = encode_basic_nack m"
| "encode_decoded Tx_select = Inr"
| "encode_decoded Tx_select_ok = Inr"
| "encode_decoded Tx_commit = Inr"
| "encode_decoded Tx_commit_ok = Inr"
| "encode_decoded Tx_rollback = Inr"
| "encode_decoded Tx_rollback_ok = Inr"
| "encode_decoded (Confirm_select m) = encode_confirm_select m"
| "encode_decoded Confirm_select_ok = Inr"

text \<open>
  The function returns the offset as an \<^verbatim>\<open>int\<close>, which is negative from 2 to the power 31 on.
  The struct behind the pointer is the one of the number, or the result is undefined; methods without
  fields do not look at it.
\<close>

definition amqp_encode_method :: "32 word \<Rightarrow> amqp_method \<Rightarrow> string \<Rightarrow> (int + encoding) option" where
  "amqp_encode_method methodNumber decoded encoded =
    (if methodNumber = method_number decoded then Some (then_do (encode_decoded decoded (encoded, 0)) return_offset)
     else if methodNumber \<in> {AMQP_CONNECTION_CLOSE_OK_METHOD, AMQP_CHANNEL_CLOSE_OK_METHOD,
       AMQP_EXCHANGE_DECLARE_OK_METHOD, AMQP_EXCHANGE_DELETE_OK_METHOD,
       AMQP_EXCHANGE_BIND_OK_METHOD, AMQP_EXCHANGE_UNBIND_OK_METHOD,
       AMQP_QUEUE_BIND_OK_METHOD, AMQP_QUEUE_UNBIND_OK_METHOD,
       AMQP_BASIC_QOS_OK_METHOD, AMQP_BASIC_RECOVER_OK_METHOD,
       AMQP_TX_SELECT_METHOD, AMQP_TX_SELECT_OK_METHOD,
       AMQP_TX_COMMIT_METHOD, AMQP_TX_COMMIT_OK_METHOD,
       AMQP_TX_ROLLBACK_METHOD, AMQP_TX_ROLLBACK_OK_METHOD,
       AMQP_CONFIRM_SELECT_OK_METHOD}
     then Some (return_offset (encoded, 0))
     else if methodNumber \<in> {AMQP_CONNECTION_START_METHOD, AMQP_CONNECTION_START_OK_METHOD,
       AMQP_CONNECTION_SECURE_METHOD, AMQP_CONNECTION_SECURE_OK_METHOD,
       AMQP_CONNECTION_TUNE_METHOD, AMQP_CONNECTION_TUNE_OK_METHOD,
       AMQP_CONNECTION_OPEN_METHOD, AMQP_CONNECTION_OPEN_OK_METHOD,
       AMQP_CONNECTION_CLOSE_METHOD, AMQP_CHANNEL_OPEN_METHOD,
       AMQP_CHANNEL_OPEN_OK_METHOD, AMQP_CHANNEL_FLOW_METHOD,
       AMQP_CHANNEL_FLOW_OK_METHOD, AMQP_CHANNEL_CLOSE_METHOD,
       AMQP_ACCESS_REQUEST_METHOD, AMQP_ACCESS_REQUEST_OK_METHOD,
       AMQP_EXCHANGE_DECLARE_METHOD, AMQP_EXCHANGE_DELETE_METHOD,
       AMQP_EXCHANGE_BIND_METHOD, AMQP_EXCHANGE_UNBIND_METHOD,
       AMQP_QUEUE_DECLARE_METHOD, AMQP_QUEUE_DECLARE_OK_METHOD,
       AMQP_QUEUE_BIND_METHOD, AMQP_QUEUE_PURGE_METHOD,
       AMQP_QUEUE_PURGE_OK_METHOD, AMQP_QUEUE_DELETE_METHOD,
       AMQP_QUEUE_DELETE_OK_METHOD, AMQP_QUEUE_UNBIND_METHOD,
       AMQP_BASIC_QOS_METHOD, AMQP_BASIC_CONSUME_METHOD,
       AMQP_BASIC_CONSUME_OK_METHOD, AMQP_BASIC_CANCEL_METHOD,
       AMQP_BASIC_CANCEL_OK_METHOD, AMQP_BASIC_PUBLISH_METHOD,
       AMQP_BASIC_RETURN_METHOD, AMQP_BASIC_DELIVER_METHOD,
       AMQP_BASIC_GET_METHOD, AMQP_BASIC_GET_OK_METHOD,
       AMQP_BASIC_GET_EMPTY_METHOD, AMQP_BASIC_ACK_METHOD,
       AMQP_BASIC_REJECT_METHOD, AMQP_BASIC_RECOVER_ASYNC_METHOD,
       AMQP_BASIC_RECOVER_METHOD, AMQP_BASIC_NACK_METHOD,
       AMQP_CONFIRM_SELECT_METHOD}
     then None
     else Some (Inl AMQP_STATUS_UNKNOWN_METHOD))"

section \<open>Decoding of a method\<close>

definition decode_connection_start :: "string \<Rightarrow> nat \<Rightarrow> int + amqp_connection_start \<times> nat" where
  "decode_connection_start encoded offset =
     then_do (get_8 encoded offset) (\<lambda>(version_major, offset).
     then_do (get_8 encoded offset) (\<lambda>(version_minor, offset).
     then_do (amqp_decode_table encoded offset) (\<lambda>(server_properties, offset).
     then_do (get_long encoded offset) (\<lambda>(mechanisms, offset).
     then_do (get_long encoded offset) (\<lambda>(locales, offset).
     Inr (\<lparr>connection_start_version_major = version_major, connection_start_version_minor = version_minor,
       connection_start_server_properties = server_properties, connection_start_mechanisms = mechanisms,
       connection_start_locales = locales\<rparr>, offset))))))"

definition decode_connection_start_ok :: "string \<Rightarrow> nat \<Rightarrow> int + amqp_connection_start_ok \<times> nat" where
  "decode_connection_start_ok encoded offset =
     then_do (amqp_decode_table encoded offset) (\<lambda>(client_properties, offset).
     then_do (get_short encoded offset) (\<lambda>(mechanism, offset).
     then_do (get_long encoded offset) (\<lambda>(response, offset).
     then_do (get_short encoded offset) (\<lambda>(locale, offset).
     Inr (\<lparr>connection_start_ok_client_properties = client_properties,
       connection_start_ok_mechanism = mechanism, connection_start_ok_response = response,
       connection_start_ok_locale = locale\<rparr>, offset)))))"

definition decode_connection_secure :: "string \<Rightarrow> nat \<Rightarrow> int + amqp_connection_secure \<times> nat" where
  "decode_connection_secure encoded offset =
     then_do (get_long encoded offset) (\<lambda>(challenge, offset).
     Inr (\<lparr>connection_secure_challenge = challenge\<rparr>, offset))"

definition decode_connection_secure_ok :: "string \<Rightarrow> nat \<Rightarrow> int + amqp_connection_secure_ok \<times> nat" where
  "decode_connection_secure_ok encoded offset =
     then_do (get_long encoded offset) (\<lambda>(response, offset).
     Inr (\<lparr>connection_secure_ok_response = response\<rparr>, offset))"

definition decode_connection_tune :: "string \<Rightarrow> nat \<Rightarrow> int + amqp_connection_tune \<times> nat" where
  "decode_connection_tune encoded offset =
     then_do (get_16 encoded offset) (\<lambda>(channel_max, offset).
     then_do (get_32 encoded offset) (\<lambda>(frame_max, offset).
     then_do (get_16 encoded offset) (\<lambda>(heartbeat, offset).
     Inr (\<lparr>connection_tune_channel_max = channel_max, connection_tune_frame_max = frame_max,
       connection_tune_heartbeat = heartbeat\<rparr>, offset))))"

definition decode_connection_tune_ok :: "string \<Rightarrow> nat \<Rightarrow> int + amqp_connection_tune_ok \<times> nat" where
  "decode_connection_tune_ok encoded offset =
     then_do (get_16 encoded offset) (\<lambda>(channel_max, offset).
     then_do (get_32 encoded offset) (\<lambda>(frame_max, offset).
     then_do (get_16 encoded offset) (\<lambda>(heartbeat, offset).
     Inr (\<lparr>connection_tune_ok_channel_max = channel_max, connection_tune_ok_frame_max = frame_max,
       connection_tune_ok_heartbeat = heartbeat\<rparr>, offset))))"

definition decode_connection_open :: "string \<Rightarrow> nat \<Rightarrow> int + amqp_connection_open \<times> nat" where
  "decode_connection_open encoded offset =
     then_do (get_short encoded offset) (\<lambda>(virtual_host, offset).
     then_do (get_short encoded offset) (\<lambda>(capabilities, offset).
     then_do (get_8 encoded offset) (\<lambda>(bit_buffer, offset).
     Inr (\<lparr>connection_open_virtual_host = virtual_host, connection_open_capabilities = capabilities,
       connection_open_insist = bit_flag bit_buffer 0\<rparr>, offset))))"

definition decode_connection_open_ok :: "string \<Rightarrow> nat \<Rightarrow> int + amqp_connection_open_ok \<times> nat" where
  "decode_connection_open_ok encoded offset =
     then_do (get_short encoded offset) (\<lambda>(known_hosts, offset).
     Inr (\<lparr>connection_open_ok_known_hosts = known_hosts\<rparr>, offset))"

definition decode_connection_close :: "string \<Rightarrow> nat \<Rightarrow> int + amqp_connection_close \<times> nat" where
  "decode_connection_close encoded offset =
     then_do (get_16 encoded offset) (\<lambda>(reply_code, offset).
     then_do (get_short encoded offset) (\<lambda>(reply_text, offset).
     then_do (get_16 encoded offset) (\<lambda>(class_id, offset).
     then_do (get_16 encoded offset) (\<lambda>(method_id, offset).
     Inr (\<lparr>connection_close_reply_code = reply_code, connection_close_reply_text = reply_text,
       connection_close_class_id = class_id, connection_close_method_id = method_id\<rparr>, offset)))))"

definition decode_channel_open :: "string \<Rightarrow> nat \<Rightarrow> int + amqp_channel_open \<times> nat" where
  "decode_channel_open encoded offset =
     then_do (get_short encoded offset) (\<lambda>(out_of_band, offset).
     Inr (\<lparr>channel_open_out_of_band = out_of_band\<rparr>, offset))"

definition decode_channel_open_ok :: "string \<Rightarrow> nat \<Rightarrow> int + amqp_channel_open_ok \<times> nat" where
  "decode_channel_open_ok encoded offset =
     then_do (get_long encoded offset) (\<lambda>(channel_id, offset).
     Inr (\<lparr>channel_open_ok_channel_id = channel_id\<rparr>, offset))"

definition decode_channel_flow :: "string \<Rightarrow> nat \<Rightarrow> int + amqp_channel_flow \<times> nat" where
  "decode_channel_flow encoded offset =
     then_do (get_8 encoded offset) (\<lambda>(bit_buffer, offset).
     Inr (\<lparr>channel_flow_active = bit_flag bit_buffer 0\<rparr>, offset))"

definition decode_channel_flow_ok :: "string \<Rightarrow> nat \<Rightarrow> int + amqp_channel_flow_ok \<times> nat" where
  "decode_channel_flow_ok encoded offset =
     then_do (get_8 encoded offset) (\<lambda>(bit_buffer, offset).
     Inr (\<lparr>channel_flow_ok_active = bit_flag bit_buffer 0\<rparr>, offset))"

definition decode_channel_close :: "string \<Rightarrow> nat \<Rightarrow> int + amqp_channel_close \<times> nat" where
  "decode_channel_close encoded offset =
     then_do (get_16 encoded offset) (\<lambda>(reply_code, offset).
     then_do (get_short encoded offset) (\<lambda>(reply_text, offset).
     then_do (get_16 encoded offset) (\<lambda>(class_id, offset).
     then_do (get_16 encoded offset) (\<lambda>(method_id, offset).
     Inr (\<lparr>channel_close_reply_code = reply_code, channel_close_reply_text = reply_text,
       channel_close_class_id = class_id, channel_close_method_id = method_id\<rparr>, offset)))))"

definition decode_access_request :: "string \<Rightarrow> nat \<Rightarrow> int + amqp_access_request \<times> nat" where
  "decode_access_request encoded offset =
     then_do (get_short encoded offset) (\<lambda>(realm, offset).
     then_do (get_8 encoded offset) (\<lambda>(bit_buffer, offset).
     Inr (\<lparr>access_request_realm = realm, access_request_exclusive = bit_flag bit_buffer 0,
       access_request_passive = bit_flag bit_buffer 1, access_request_active = bit_flag bit_buffer 2,
       access_request_write = bit_flag bit_buffer 3, access_request_read = bit_flag bit_buffer 4\<rparr>, offset)))"

definition decode_access_request_ok :: "string \<Rightarrow> nat \<Rightarrow> int + amqp_access_request_ok \<times> nat" where
  "decode_access_request_ok encoded offset =
     then_do (get_16 encoded offset) (\<lambda>(ticket, offset).
     Inr (\<lparr>access_request_ok_ticket = ticket\<rparr>, offset))"

definition decode_exchange_declare :: "string \<Rightarrow> nat \<Rightarrow> int + amqp_exchange_declare \<times> nat" where
  "decode_exchange_declare encoded offset =
     then_do (get_16 encoded offset) (\<lambda>(ticket, offset).
     then_do (get_short encoded offset) (\<lambda>(exchange, offset).
     then_do (get_short encoded offset) (\<lambda>(type, offset).
     then_do (get_8 encoded offset) (\<lambda>(bit_buffer, offset).
     then_do (amqp_decode_table encoded offset) (\<lambda>(arguments, offset).
     Inr (\<lparr>exchange_declare_ticket = ticket, exchange_declare_exchange = exchange,
       exchange_declare_type = type, exchange_declare_passive = bit_flag bit_buffer 0,
       exchange_declare_durable = bit_flag bit_buffer 1, exchange_declare_auto_delete = bit_flag bit_buffer 2,
       exchange_declare_internal = bit_flag bit_buffer 3, exchange_declare_nowait = bit_flag bit_buffer 4,
       exchange_declare_arguments = arguments\<rparr>, offset))))))"

definition decode_exchange_delete :: "string \<Rightarrow> nat \<Rightarrow> int + amqp_exchange_delete \<times> nat" where
  "decode_exchange_delete encoded offset =
     then_do (get_16 encoded offset) (\<lambda>(ticket, offset).
     then_do (get_short encoded offset) (\<lambda>(exchange, offset).
     then_do (get_8 encoded offset) (\<lambda>(bit_buffer, offset).
     Inr (\<lparr>exchange_delete_ticket = ticket, exchange_delete_exchange = exchange,
       exchange_delete_if_unused = bit_flag bit_buffer 0, exchange_delete_nowait = bit_flag bit_buffer 1\<rparr>, offset))))"

definition decode_exchange_bind :: "string \<Rightarrow> nat \<Rightarrow> int + amqp_exchange_bind \<times> nat" where
  "decode_exchange_bind encoded offset =
     then_do (get_16 encoded offset) (\<lambda>(ticket, offset).
     then_do (get_short encoded offset) (\<lambda>(destination, offset).
     then_do (get_short encoded offset) (\<lambda>(source, offset).
     then_do (get_short encoded offset) (\<lambda>(routing_key, offset).
     then_do (get_8 encoded offset) (\<lambda>(bit_buffer, offset).
     then_do (amqp_decode_table encoded offset) (\<lambda>(arguments, offset).
     Inr (\<lparr>exchange_bind_ticket = ticket, exchange_bind_destination = destination,
       exchange_bind_source = source, exchange_bind_routing_key = routing_key,
       exchange_bind_nowait = bit_flag bit_buffer 0, exchange_bind_arguments = arguments\<rparr>, offset)))))))"

definition decode_exchange_unbind :: "string \<Rightarrow> nat \<Rightarrow> int + amqp_exchange_unbind \<times> nat" where
  "decode_exchange_unbind encoded offset =
     then_do (get_16 encoded offset) (\<lambda>(ticket, offset).
     then_do (get_short encoded offset) (\<lambda>(destination, offset).
     then_do (get_short encoded offset) (\<lambda>(source, offset).
     then_do (get_short encoded offset) (\<lambda>(routing_key, offset).
     then_do (get_8 encoded offset) (\<lambda>(bit_buffer, offset).
     then_do (amqp_decode_table encoded offset) (\<lambda>(arguments, offset).
     Inr (\<lparr>exchange_unbind_ticket = ticket, exchange_unbind_destination = destination,
       exchange_unbind_source = source, exchange_unbind_routing_key = routing_key,
       exchange_unbind_nowait = bit_flag bit_buffer 0, exchange_unbind_arguments = arguments\<rparr>, offset)))))))"

definition decode_queue_declare :: "string \<Rightarrow> nat \<Rightarrow> int + amqp_queue_declare \<times> nat" where
  "decode_queue_declare encoded offset =
     then_do (get_16 encoded offset) (\<lambda>(ticket, offset).
     then_do (get_short encoded offset) (\<lambda>(queue, offset).
     then_do (get_8 encoded offset) (\<lambda>(bit_buffer, offset).
     then_do (amqp_decode_table encoded offset) (\<lambda>(arguments, offset).
     Inr (\<lparr>queue_declare_ticket = ticket, queue_declare_queue = queue,
       queue_declare_passive = bit_flag bit_buffer 0, queue_declare_durable = bit_flag bit_buffer 1,
       queue_declare_exclusive = bit_flag bit_buffer 2, queue_declare_auto_delete = bit_flag bit_buffer 3,
       queue_declare_nowait = bit_flag bit_buffer 4, queue_declare_arguments = arguments\<rparr>, offset)))))"

definition decode_queue_declare_ok :: "string \<Rightarrow> nat \<Rightarrow> int + amqp_queue_declare_ok \<times> nat" where
  "decode_queue_declare_ok encoded offset =
     then_do (get_short encoded offset) (\<lambda>(queue, offset).
     then_do (get_32 encoded offset) (\<lambda>(message_count, offset).
     then_do (get_32 encoded offset) (\<lambda>(consumer_count, offset).
     Inr (\<lparr>queue_declare_ok_queue = queue, queue_declare_ok_message_count = message_count,
       queue_declare_ok_consumer_count = consumer_count\<rparr>, offset))))"

definition decode_queue_bind :: "string \<Rightarrow> nat \<Rightarrow> int + amqp_queue_bind \<times> nat" where
  "decode_queue_bind encoded offset =
     then_do (get_16 encoded offset) (\<lambda>(ticket, offset).
     then_do (get_short encoded offset) (\<lambda>(queue, offset).
     then_do (get_short encoded offset) (\<lambda>(exchange, offset).
     then_do (get_short encoded offset) (\<lambda>(routing_key, offset).
     then_do (get_8 encoded offset) (\<lambda>(bit_buffer, offset).
     then_do (amqp_decode_table encoded offset) (\<lambda>(arguments, offset).
     Inr (\<lparr>queue_bind_ticket = ticket, queue_bind_queue = queue,
       queue_bind_exchange = exchange, queue_bind_routing_key = routing_key, queue_bind_nowait = bit_flag bit_buffer 0,
       queue_bind_arguments = arguments\<rparr>, offset)))))))"

definition decode_queue_purge :: "string \<Rightarrow> nat \<Rightarrow> int + amqp_queue_purge \<times> nat" where
  "decode_queue_purge encoded offset =
     then_do (get_16 encoded offset) (\<lambda>(ticket, offset).
     then_do (get_short encoded offset) (\<lambda>(queue, offset).
     then_do (get_8 encoded offset) (\<lambda>(bit_buffer, offset).
     Inr (\<lparr>queue_purge_ticket = ticket, queue_purge_queue = queue,
       queue_purge_nowait = bit_flag bit_buffer 0\<rparr>, offset))))"

definition decode_queue_purge_ok :: "string \<Rightarrow> nat \<Rightarrow> int + amqp_queue_purge_ok \<times> nat" where
  "decode_queue_purge_ok encoded offset =
     then_do (get_32 encoded offset) (\<lambda>(message_count, offset).
     Inr (\<lparr>queue_purge_ok_message_count = message_count\<rparr>, offset))"

definition decode_queue_delete :: "string \<Rightarrow> nat \<Rightarrow> int + amqp_queue_delete \<times> nat" where
  "decode_queue_delete encoded offset =
     then_do (get_16 encoded offset) (\<lambda>(ticket, offset).
     then_do (get_short encoded offset) (\<lambda>(queue, offset).
     then_do (get_8 encoded offset) (\<lambda>(bit_buffer, offset).
     Inr (\<lparr>queue_delete_ticket = ticket, queue_delete_queue = queue,
       queue_delete_if_unused = bit_flag bit_buffer 0, queue_delete_if_empty = bit_flag bit_buffer 1,
       queue_delete_nowait = bit_flag bit_buffer 2\<rparr>, offset))))"

definition decode_queue_delete_ok :: "string \<Rightarrow> nat \<Rightarrow> int + amqp_queue_delete_ok \<times> nat" where
  "decode_queue_delete_ok encoded offset =
     then_do (get_32 encoded offset) (\<lambda>(message_count, offset).
     Inr (\<lparr>queue_delete_ok_message_count = message_count\<rparr>, offset))"

definition decode_queue_unbind :: "string \<Rightarrow> nat \<Rightarrow> int + amqp_queue_unbind \<times> nat" where
  "decode_queue_unbind encoded offset =
     then_do (get_16 encoded offset) (\<lambda>(ticket, offset).
     then_do (get_short encoded offset) (\<lambda>(queue, offset).
     then_do (get_short encoded offset) (\<lambda>(exchange, offset).
     then_do (get_short encoded offset) (\<lambda>(routing_key, offset).
     then_do (amqp_decode_table encoded offset) (\<lambda>(arguments, offset).
     Inr (\<lparr>queue_unbind_ticket = ticket, queue_unbind_queue = queue,
       queue_unbind_exchange = exchange, queue_unbind_routing_key = routing_key,
       queue_unbind_arguments = arguments\<rparr>, offset))))))"

definition decode_basic_qos :: "string \<Rightarrow> nat \<Rightarrow> int + amqp_basic_qos \<times> nat" where
  "decode_basic_qos encoded offset =
     then_do (get_32 encoded offset) (\<lambda>(prefetch_size, offset).
     then_do (get_16 encoded offset) (\<lambda>(prefetch_count, offset).
     then_do (get_8 encoded offset) (\<lambda>(bit_buffer, offset).
     Inr (\<lparr>basic_qos_prefetch_size = prefetch_size, basic_qos_prefetch_count = prefetch_count,
       basic_qos_global = bit_flag bit_buffer 0\<rparr>, offset))))"

definition decode_basic_consume :: "string \<Rightarrow> nat \<Rightarrow> int + amqp_basic_consume \<times> nat" where
  "decode_basic_consume encoded offset =
     then_do (get_16 encoded offset) (\<lambda>(ticket, offset).
     then_do (get_short encoded offset) (\<lambda>(queue, offset).
     then_do (get_short encoded offset) (\<lambda>(consumer_tag, offset).
     then_do (get_8 encoded offset) (\<lambda>(bit_buffer, offset).
     then_do (amqp_decode_table encoded offset) (\<lambda>(arguments, offset).
     Inr (\<lparr>basic_consume_ticket = ticket, basic_consume_queue = queue,
       basic_consume_consumer_tag = consumer_tag, basic_consume_no_local = bit_flag bit_buffer 0,
       basic_consume_no_ack = bit_flag bit_buffer 1, basic_consume_exclusive = bit_flag bit_buffer 2,
       basic_consume_nowait = bit_flag bit_buffer 3, basic_consume_arguments = arguments\<rparr>, offset))))))"

definition decode_basic_consume_ok :: "string \<Rightarrow> nat \<Rightarrow> int + amqp_basic_consume_ok \<times> nat" where
  "decode_basic_consume_ok encoded offset =
     then_do (get_short encoded offset) (\<lambda>(consumer_tag, offset).
     Inr (\<lparr>basic_consume_ok_consumer_tag = consumer_tag\<rparr>, offset))"

definition decode_basic_cancel :: "string \<Rightarrow> nat \<Rightarrow> int + amqp_basic_cancel \<times> nat" where
  "decode_basic_cancel encoded offset =
     then_do (get_short encoded offset) (\<lambda>(consumer_tag, offset).
     then_do (get_8 encoded offset) (\<lambda>(bit_buffer, offset).
     Inr (\<lparr>basic_cancel_consumer_tag = consumer_tag, basic_cancel_nowait = bit_flag bit_buffer 0\<rparr>, offset)))"

definition decode_basic_cancel_ok :: "string \<Rightarrow> nat \<Rightarrow> int + amqp_basic_cancel_ok \<times> nat" where
  "decode_basic_cancel_ok encoded offset =
     then_do (get_short encoded offset) (\<lambda>(consumer_tag, offset).
     Inr (\<lparr>basic_cancel_ok_consumer_tag = consumer_tag\<rparr>, offset))"

definition decode_basic_publish :: "string \<Rightarrow> nat \<Rightarrow> int + amqp_basic_publish \<times> nat" where
  "decode_basic_publish encoded offset =
     then_do (get_16 encoded offset) (\<lambda>(ticket, offset).
     then_do (get_short encoded offset) (\<lambda>(exchange, offset).
     then_do (get_short encoded offset) (\<lambda>(routing_key, offset).
     then_do (get_8 encoded offset) (\<lambda>(bit_buffer, offset).
     Inr (\<lparr>basic_publish_ticket = ticket, basic_publish_exchange = exchange,
       basic_publish_routing_key = routing_key, basic_publish_mandatory = bit_flag bit_buffer 0,
       basic_publish_immediate = bit_flag bit_buffer 1\<rparr>, offset)))))"

definition decode_basic_return :: "string \<Rightarrow> nat \<Rightarrow> int + amqp_basic_return \<times> nat" where
  "decode_basic_return encoded offset =
     then_do (get_16 encoded offset) (\<lambda>(reply_code, offset).
     then_do (get_short encoded offset) (\<lambda>(reply_text, offset).
     then_do (get_short encoded offset) (\<lambda>(exchange, offset).
     then_do (get_short encoded offset) (\<lambda>(routing_key, offset).
     Inr (\<lparr>basic_return_reply_code = reply_code, basic_return_reply_text = reply_text,
       basic_return_exchange = exchange, basic_return_routing_key = routing_key\<rparr>, offset)))))"

definition decode_basic_deliver :: "string \<Rightarrow> nat \<Rightarrow> int + amqp_basic_deliver \<times> nat" where
  "decode_basic_deliver encoded offset =
     then_do (get_short encoded offset) (\<lambda>(consumer_tag, offset).
     then_do (get_64 encoded offset) (\<lambda>(delivery_tag, offset).
     then_do (get_8 encoded offset) (\<lambda>(bit_buffer, offset).
     then_do (get_short encoded offset) (\<lambda>(exchange, offset).
     then_do (get_short encoded offset) (\<lambda>(routing_key, offset).
     Inr (\<lparr>basic_deliver_consumer_tag = consumer_tag, basic_deliver_delivery_tag = delivery_tag,
       basic_deliver_redelivered = bit_flag bit_buffer 0, basic_deliver_exchange = exchange,
       basic_deliver_routing_key = routing_key\<rparr>, offset))))))"

definition decode_basic_get :: "string \<Rightarrow> nat \<Rightarrow> int + amqp_basic_get \<times> nat" where
  "decode_basic_get encoded offset =
     then_do (get_16 encoded offset) (\<lambda>(ticket, offset).
     then_do (get_short encoded offset) (\<lambda>(queue, offset).
     then_do (get_8 encoded offset) (\<lambda>(bit_buffer, offset).
     Inr (\<lparr>basic_get_ticket = ticket, basic_get_queue = queue, basic_get_no_ack = bit_flag bit_buffer 0\<rparr>, offset))))"

definition decode_basic_get_ok :: "string \<Rightarrow> nat \<Rightarrow> int + amqp_basic_get_ok \<times> nat" where
  "decode_basic_get_ok encoded offset =
     then_do (get_64 encoded offset) (\<lambda>(delivery_tag, offset).
     then_do (get_8 encoded offset) (\<lambda>(bit_buffer, offset).
     then_do (get_short encoded offset) (\<lambda>(exchange, offset).
     then_do (get_short encoded offset) (\<lambda>(routing_key, offset).
     then_do (get_32 encoded offset) (\<lambda>(message_count, offset).
     Inr (\<lparr>basic_get_ok_delivery_tag = delivery_tag, basic_get_ok_redelivered = bit_flag bit_buffer 0,
       basic_get_ok_exchange = exchange, basic_get_ok_routing_key = routing_key,
       basic_get_ok_message_count = message_count\<rparr>, offset))))))"

definition decode_basic_get_empty :: "string \<Rightarrow> nat \<Rightarrow> int + amqp_basic_get_empty \<times> nat" where
  "decode_basic_get_empty encoded offset =
     then_do (get_short encoded offset) (\<lambda>(cluster_id, offset).
     Inr (\<lparr>basic_get_empty_cluster_id = cluster_id\<rparr>, offset))"

definition decode_basic_ack :: "string \<Rightarrow> nat \<Rightarrow> int + amqp_basic_ack \<times> nat" where
  "decode_basic_ack encoded offset =
     then_do (get_64 encoded offset) (\<lambda>(delivery_tag, offset).
     then_do (get_8 encoded offset) (\<lambda>(bit_buffer, offset).
     Inr (\<lparr>basic_ack_delivery_tag = delivery_tag, basic_ack_multiple = bit_flag bit_buffer 0\<rparr>, offset)))"

definition decode_basic_reject :: "string \<Rightarrow> nat \<Rightarrow> int + amqp_basic_reject \<times> nat" where
  "decode_basic_reject encoded offset =
     then_do (get_64 encoded offset) (\<lambda>(delivery_tag, offset).
     then_do (get_8 encoded offset) (\<lambda>(bit_buffer, offset).
     Inr (\<lparr>basic_reject_delivery_tag = delivery_tag, basic_reject_requeue = bit_flag bit_buffer 0\<rparr>, offset)))"

definition decode_basic_recover_async :: "string \<Rightarrow> nat \<Rightarrow> int + amqp_basic_recover_async \<times> nat" where
  "decode_basic_recover_async encoded offset =
     then_do (get_8 encoded offset) (\<lambda>(bit_buffer, offset).
     Inr (\<lparr>basic_recover_async_requeue = bit_flag bit_buffer 0\<rparr>, offset))"

definition decode_basic_recover :: "string \<Rightarrow> nat \<Rightarrow> int + amqp_basic_recover \<times> nat" where
  "decode_basic_recover encoded offset =
     then_do (get_8 encoded offset) (\<lambda>(bit_buffer, offset).
     Inr (\<lparr>basic_recover_requeue = bit_flag bit_buffer 0\<rparr>, offset))"

definition decode_basic_nack :: "string \<Rightarrow> nat \<Rightarrow> int + amqp_basic_nack \<times> nat" where
  "decode_basic_nack encoded offset =
     then_do (get_64 encoded offset) (\<lambda>(delivery_tag, offset).
     then_do (get_8 encoded offset) (\<lambda>(bit_buffer, offset).
     Inr (\<lparr>basic_nack_delivery_tag = delivery_tag, basic_nack_multiple = bit_flag bit_buffer 0,
       basic_nack_requeue = bit_flag bit_buffer 1\<rparr>, offset)))"

definition decode_confirm_select :: "string \<Rightarrow> nat \<Rightarrow> int + amqp_confirm_select \<times> nat" where
  "decode_confirm_select encoded offset =
     then_do (get_8 encoded offset) (\<lambda>(bit_buffer, offset).
     Inr (\<lparr>confirm_select_nowait = bit_flag bit_buffer 0\<rparr>, offset))"

definition decoded_as :: "('a \<Rightarrow> amqp_method) \<Rightarrow> int + 'a \<times> nat \<Rightarrow> int + amqp_method" where
  "decoded_as f r = then_do r (\<lambda>(m, _). Inr (f m))"

definition amqp_decode_method :: "32 word \<Rightarrow> string \<Rightarrow> int + amqp_method" where
  "amqp_decode_method methodNumber encoded =
    (if methodNumber = AMQP_CONNECTION_START_METHOD then decoded_as Connection_start (decode_connection_start encoded 0)
     else if methodNumber = AMQP_CONNECTION_START_OK_METHOD then decoded_as Connection_start_ok (decode_connection_start_ok encoded 0)
     else if methodNumber = AMQP_CONNECTION_SECURE_METHOD then decoded_as Connection_secure (decode_connection_secure encoded 0)
     else if methodNumber = AMQP_CONNECTION_SECURE_OK_METHOD then decoded_as Connection_secure_ok (decode_connection_secure_ok encoded 0)
     else if methodNumber = AMQP_CONNECTION_TUNE_METHOD then decoded_as Connection_tune (decode_connection_tune encoded 0)
     else if methodNumber = AMQP_CONNECTION_TUNE_OK_METHOD then decoded_as Connection_tune_ok (decode_connection_tune_ok encoded 0)
     else if methodNumber = AMQP_CONNECTION_OPEN_METHOD then decoded_as Connection_open (decode_connection_open encoded 0)
     else if methodNumber = AMQP_CONNECTION_OPEN_OK_METHOD then decoded_as Connection_open_ok (decode_connection_open_ok encoded 0)
     else if methodNumber = AMQP_CONNECTION_CLOSE_METHOD then decoded_as Connection_close (decode_connection_close encoded 0)
     else if methodNumber = AMQP_CONNECTION_CLOSE_OK_METHOD then Inr Connection_close_ok
     else if methodNumber = AMQP_CHANNEL_OPEN_METHOD then decoded_as Channel_open (decode_channel_open encoded 0)
     else if methodNumber = AMQP_CHANNEL_OPEN_OK_METHOD then decoded_as Channel_open_ok (decode_channel_open_ok encoded 0)
     else if methodNumber = AMQP_CHANNEL_FLOW_METHOD then decoded_as Channel_flow (decode_channel_flow encoded 0)
     else if methodNumber = AMQP_CHANNEL_FLOW_OK_METHOD then decoded_as Channel_flow_ok (decode_channel_flow_ok encoded 0)
     else if methodNumber = AMQP_CHANNEL_CLOSE_METHOD then decoded_as Channel_close (decode_channel_close encoded 0)
     else if methodNumber = AMQP_CHANNEL_CLOSE_OK_METHOD then Inr Channel_close_ok
     else if methodNumber = AMQP_ACCESS_REQUEST_METHOD then decoded_as Access_request (decode_access_request encoded 0)
     else if methodNumber = AMQP_ACCESS_REQUEST_OK_METHOD then decoded_as Access_request_ok (decode_access_request_ok encoded 0)
     else if methodNumber = AMQP_EXCHANGE_DECLARE_METHOD then decoded_as Exchange_declare (decode_exchange_declare encoded 0)
     else if methodNumber = AMQP_EXCHANGE_DECLARE_OK_METHOD then Inr Exchange_declare_ok
     else if methodNumber = AMQP_EXCHANGE_DELETE_METHOD then decoded_as Exchange_delete (decode_exchange_delete encoded 0)
     else if methodNumber = AMQP_EXCHANGE_DELETE_OK_METHOD then Inr Exchange_delete_ok
     else if methodNumber = AMQP_EXCHANGE_BIND_METHOD then decoded_as Exchange_bind (decode_exchange_bind encoded 0)
     else if methodNumber = AMQP_EXCHANGE_BIND_OK_METHOD then Inr Exchange_bind_ok
     else if methodNumber = AMQP_EXCHANGE_UNBIND_METHOD then decoded_as Exchange_unbind (decode_exchange_unbind encoded 0)
     else if methodNumber = AMQP_EXCHANGE_UNBIND_OK_METHOD then Inr Exchange_unbind_ok
     else if methodNumber = AMQP_QUEUE_DECLARE_METHOD then decoded_as Queue_declare (decode_queue_declare encoded 0)
     else if methodNumber = AMQP_QUEUE_DECLARE_OK_METHOD then decoded_as Queue_declare_ok (decode_queue_declare_ok encoded 0)
     else if methodNumber = AMQP_QUEUE_BIND_METHOD then decoded_as Queue_bind (decode_queue_bind encoded 0)
     else if methodNumber = AMQP_QUEUE_BIND_OK_METHOD then Inr Queue_bind_ok
     else if methodNumber = AMQP_QUEUE_PURGE_METHOD then decoded_as Queue_purge (decode_queue_purge encoded 0)
     else if methodNumber = AMQP_QUEUE_PURGE_OK_METHOD then decoded_as Queue_purge_ok (decode_queue_purge_ok encoded 0)
     else if methodNumber = AMQP_QUEUE_DELETE_METHOD then decoded_as Queue_delete (decode_queue_delete encoded 0)
     else if methodNumber = AMQP_QUEUE_DELETE_OK_METHOD then decoded_as Queue_delete_ok (decode_queue_delete_ok encoded 0)
     else if methodNumber = AMQP_QUEUE_UNBIND_METHOD then decoded_as Queue_unbind (decode_queue_unbind encoded 0)
     else if methodNumber = AMQP_QUEUE_UNBIND_OK_METHOD then Inr Queue_unbind_ok
     else if methodNumber = AMQP_BASIC_QOS_METHOD then decoded_as Basic_qos (decode_basic_qos encoded 0)
     else if methodNumber = AMQP_BASIC_QOS_OK_METHOD then Inr Basic_qos_ok
     else if methodNumber = AMQP_BASIC_CONSUME_METHOD then decoded_as Basic_consume (decode_basic_consume encoded 0)
     else if methodNumber = AMQP_BASIC_CONSUME_OK_METHOD then decoded_as Basic_consume_ok (decode_basic_consume_ok encoded 0)
     else if methodNumber = AMQP_BASIC_CANCEL_METHOD then decoded_as Basic_cancel (decode_basic_cancel encoded 0)
     else if methodNumber = AMQP_BASIC_CANCEL_OK_METHOD then decoded_as Basic_cancel_ok (decode_basic_cancel_ok encoded 0)
     else if methodNumber = AMQP_BASIC_PUBLISH_METHOD then decoded_as Basic_publish (decode_basic_publish encoded 0)
     else if methodNumber = AMQP_BASIC_RETURN_METHOD then decoded_as Basic_return (decode_basic_return encoded 0)
     else if methodNumber = AMQP_BASIC_DELIVER_METHOD then decoded_as Basic_deliver (decode_basic_deliver encoded 0)
     else if methodNumber = AMQP_BASIC_GET_METHOD then decoded_as Basic_get (decode_basic_get encoded 0)
     else if methodNumber = AMQP_BASIC_GET_OK_METHOD then decoded_as Basic_get_ok (decode_basic_get_ok encoded 0)
     else if methodNumber = AMQP_BASIC_GET_EMPTY_METHOD then decoded_as Basic_get_empty (decode_basic_get_empty encoded 0)
     else if methodNumber = AMQP_BASIC_ACK_METHOD then decoded_as Basic_ack (decode_basic_ack encoded 0)
     else if methodNumber = AMQP_BASIC_REJECT_METHOD then decoded_as Basic_reject (decode_basic_reject encoded 0)
     else if methodNumber = AMQP_BASIC_RECOVER_ASYNC_METHOD then decoded_as Basic_recover_async (decode_basic_recover_async encoded 0)
     else if methodNumber = AMQP_BASIC_RECOVER_METHOD then decoded_as Basic_recover (decode_basic_recover encoded 0)
     else if methodNumber = AMQP_BASIC_RECOVER_OK_METHOD then Inr Basic_recover_ok
     else if methodNumber = AMQP_BASIC_NACK_METHOD then decoded_as Basic_nack (decode_basic_nack encoded 0)
     else if methodNumber = AMQP_TX_SELECT_METHOD then Inr Tx_select
     else if methodNumber = AMQP_TX_SELECT_OK_METHOD then Inr Tx_select_ok
     else if methodNumber = AMQP_TX_COMMIT_METHOD then Inr Tx_commit
     else if methodNumber = AMQP_TX_COMMIT_OK_METHOD then Inr Tx_commit_ok
     else if methodNumber = AMQP_TX_ROLLBACK_METHOD then Inr Tx_rollback
     else if methodNumber = AMQP_TX_ROLLBACK_OK_METHOD then Inr Tx_rollback_ok
     else if methodNumber = AMQP_CONFIRM_SELECT_METHOD then decoded_as Confirm_select (decode_confirm_select encoded 0)
     else if methodNumber = AMQP_CONFIRM_SELECT_OK_METHOD then Inr Confirm_select_ok
     else Inl AMQP_STATUS_UNKNOWN_METHOD)"

section \<open>Content properties\<close>

text \<open>
  The flags go out in words of 16 bits, of which the lowest says that another one follows. The
  reader shifts each word into place; C leaves the shift undefined when its distance is the width
  of an \<^verbatim>\<open>int\<close> or more, or when its result does not fit.
\<close>

function encode_flags :: "32 word \<Rightarrow> encoding \<Rightarrow> int + encoding" where
  "encode_flags remaining_flags s =
    (let remainder = drop_bit 16 remaining_flags;
         partial_flags = (ucast (remaining_flags AND 0xFFFE) :: 16 word);
         partial_flags = (if remainder \<noteq> 0 then partial_flags OR 1 else partial_flags)
     in then_do (put_16 bad_data partial_flags s) (\<lambda>s.
          if remainder \<noteq> 0 then encode_flags remainder s else Inr s))"
  by auto
termination
proof (relation "measure (\<lambda>(r, s). unat r)")
  fix r remainder :: "32 word" and s s' :: encoding
  assume r: "remainder = drop_bit 16 r" "remainder \<noteq> 0"
  have "unat (drop_bit 16 r) = unat r div 2 ^ 16" by (simp only: unat_drop_bit_eq) (simp add: drop_bit_eq_div)
  moreover have "0 < unat r" using r by (cases "r = 0") (auto simp: unat_gt_0)
  then have "unat r div 2 ^ 16 < unat r" by (rule div_less_dividend [rotated]) simp
  ultimately have "unat remainder < unat r" by (simp only: r(1))
  then show "((remainder, s'), r, s) \<in> measure (\<lambda>(r, s). unat r)" by simp
qed simp

declare encode_flags.simps [simp del]

definition shift_flags :: "16 word \<Rightarrow> nat \<Rightarrow> 32 word option" where
  "shift_flags partial_flags flagword_index =
    do { defined (flagword_index * 16 < 32);
         v \<leftarrow> int_result (uint partial_flags * 2 ^ (flagword_index * 16));
         Some (word_of_int v) }"

function decode_flags :: "string \<Rightarrow> nat \<Rightarrow> 32 word \<Rightarrow> nat \<Rightarrow> (int + 32 word \<times> nat) option" where
  "decode_flags encoded flagword_index flags offset =
    (case get_16 encoded offset of
       Inl res \<Rightarrow> Some (Inl res)
     | Inr (partial_flags, offset) \<Rightarrow>
         do { v \<leftarrow> shift_flags partial_flags flagword_index;
              if partial_flags AND 1 \<noteq> 0
              then decode_flags encoded (flagword_index + 1) (flags OR v) offset
              else Some (Inr (flags OR v, offset)) })"
  by auto
termination
  by (relation "measure (\<lambda>(encoded, _, _, offset). length encoded - offset)") (auto dest!: get_within)

declare decode_flags.simps [simp del]

definition put_if :: "bool \<Rightarrow> (encoding \<Rightarrow> int + encoding) \<Rightarrow> encoding \<Rightarrow> int + encoding" where
  "put_if c f s = (if c then f s else Inr s)"

definition encode_basic_properties :: "amqp_basic_properties \<Rightarrow> encoding \<Rightarrow> int + encoding" where
  "encode_basic_properties p =
    (let flags = basic_properties_flags p in run_steps [
     put_if (flags AND AMQP_BASIC_CONTENT_TYPE_FLAG \<noteq> 0) (put_short bad_data (basic_properties_content_type p)),
     put_if (flags AND AMQP_BASIC_CONTENT_ENCODING_FLAG \<noteq> 0) (put_short bad_data (basic_properties_content_encoding p)),
     put_if (flags AND AMQP_BASIC_HEADERS_FLAG \<noteq> 0) (amqp_encode_table (basic_properties_headers p)),
     put_if (flags AND AMQP_BASIC_DELIVERY_MODE_FLAG \<noteq> 0) (put_8 bad_data (basic_properties_delivery_mode p)),
     put_if (flags AND AMQP_BASIC_PRIORITY_FLAG \<noteq> 0) (put_8 bad_data (basic_properties_priority p)),
     put_if (flags AND AMQP_BASIC_CORRELATION_ID_FLAG \<noteq> 0) (put_short bad_data (basic_properties_correlation_id p)),
     put_if (flags AND AMQP_BASIC_REPLY_TO_FLAG \<noteq> 0) (put_short bad_data (basic_properties_reply_to p)),
     put_if (flags AND AMQP_BASIC_EXPIRATION_FLAG \<noteq> 0) (put_short bad_data (basic_properties_expiration p)),
     put_if (flags AND AMQP_BASIC_MESSAGE_ID_FLAG \<noteq> 0) (put_short bad_data (basic_properties_message_id p)),
     put_if (flags AND AMQP_BASIC_TIMESTAMP_FLAG \<noteq> 0) (put_64 bad_data (basic_properties_timestamp p)),
     put_if (flags AND AMQP_BASIC_TYPE_FLAG \<noteq> 0) (put_short bad_data (basic_properties_type p)),
     put_if (flags AND AMQP_BASIC_USER_ID_FLAG \<noteq> 0) (put_short bad_data (basic_properties_user_id p)),
     put_if (flags AND AMQP_BASIC_APP_ID_FLAG \<noteq> 0) (put_short bad_data (basic_properties_app_id p)),
     put_if (flags AND AMQP_BASIC_CLUSTER_ID_FLAG \<noteq> 0) (put_short bad_data (basic_properties_cluster_id p))])"

definition amqp_encode_properties :: "16 word \<Rightarrow> amqp_properties \<Rightarrow> string \<Rightarrow> (int + encoding) option" where
  "amqp_encode_properties class_id decoded encoded =
    (case encode_flags (properties_flags decoded) (encoded, 0) of
       Inl res \<Rightarrow> Some (Inl res)
     | Inr s \<Rightarrow>
         if class_id = AMQP_BASIC_CLASS
         then (case decoded of Basic_properties p \<Rightarrow> Some (then_do (encode_basic_properties p s) return_offset) | _ \<Rightarrow> None)
         else if class_id \<in> {AMQP_CONNECTION_CLASS, AMQP_CHANNEL_CLASS, AMQP_ACCESS_CLASS, AMQP_EXCHANGE_CLASS, 
            AMQP_QUEUE_CLASS, AMQP_TX_CLASS, AMQP_CONFIRM_CLASS}
         then Some (return_offset s)
         else Some (Inl AMQP_STATUS_UNKNOWN_CLASS))"

text \<open>
  Only the members with a flag are assigned; the others keep what the memory of the struct held, \<open>p0\<close>.
\<close>

definition get_if :: "bool \<Rightarrow> (string \<Rightarrow> nat \<Rightarrow> int + 'a \<times> nat) \<Rightarrow> ('a \<Rightarrow> 'p \<Rightarrow> 'p) \<Rightarrow> string \<Rightarrow> 'p \<times> nat \<Rightarrow> int + 'p \<times> nat" where
  "get_if c d assign encoded = (\<lambda>(p, offset).
     if c then then_do (d encoded offset) (\<lambda>(v, offset). Inr (assign v p, offset)) else Inr (p, offset))"

definition decode_basic_properties ::
  "32 word \<Rightarrow> string \<Rightarrow> amqp_basic_properties \<times> nat \<Rightarrow> int + amqp_basic_properties \<times> nat" where
  "decode_basic_properties flags encoded = run_steps [
     get_if (flags AND AMQP_BASIC_CONTENT_TYPE_FLAG \<noteq> 0) get_short (\<lambda>v p. p\<lparr>basic_properties_content_type := v\<rparr>) encoded,
     get_if (flags AND AMQP_BASIC_CONTENT_ENCODING_FLAG \<noteq> 0) get_short (\<lambda>v p. p\<lparr>basic_properties_content_encoding := v\<rparr>) encoded,
     get_if (flags AND AMQP_BASIC_HEADERS_FLAG \<noteq> 0) amqp_decode_table (\<lambda>v p. p\<lparr>basic_properties_headers := v\<rparr>) encoded,
     get_if (flags AND AMQP_BASIC_DELIVERY_MODE_FLAG \<noteq> 0) get_8 (\<lambda>v p. p\<lparr>basic_properties_delivery_mode := v\<rparr>) encoded,
     get_if (flags AND AMQP_BASIC_PRIORITY_FLAG \<noteq> 0) get_8 (\<lambda>v p. p\<lparr>basic_properties_priority := v\<rparr>) encoded,
     get_if (flags AND AMQP_BASIC_CORRELATION_ID_FLAG \<noteq> 0) get_short (\<lambda>v p. p\<lparr>basic_properties_correlation_id := v\<rparr>) encoded,
     get_if (flags AND AMQP_BASIC_REPLY_TO_FLAG \<noteq> 0) get_short (\<lambda>v p. p\<lparr>basic_properties_reply_to := v\<rparr>) encoded,
     get_if (flags AND AMQP_BASIC_EXPIRATION_FLAG \<noteq> 0) get_short (\<lambda>v p. p\<lparr>basic_properties_expiration := v\<rparr>) encoded,
     get_if (flags AND AMQP_BASIC_MESSAGE_ID_FLAG \<noteq> 0) get_short (\<lambda>v p. p\<lparr>basic_properties_message_id := v\<rparr>) encoded,
     get_if (flags AND AMQP_BASIC_TIMESTAMP_FLAG \<noteq> 0) get_64 (\<lambda>v p. p\<lparr>basic_properties_timestamp := v\<rparr>) encoded,
     get_if (flags AND AMQP_BASIC_TYPE_FLAG \<noteq> 0) get_short (\<lambda>v p. p\<lparr>basic_properties_type := v\<rparr>) encoded,
     get_if (flags AND AMQP_BASIC_USER_ID_FLAG \<noteq> 0) get_short (\<lambda>v p. p\<lparr>basic_properties_user_id := v\<rparr>) encoded,
     get_if (flags AND AMQP_BASIC_APP_ID_FLAG \<noteq> 0) get_short (\<lambda>v p. p\<lparr>basic_properties_app_id := v\<rparr>) encoded,
     get_if (flags AND AMQP_BASIC_CLUSTER_ID_FLAG \<noteq> 0) get_short (\<lambda>v p. p\<lparr>basic_properties_cluster_id := v\<rparr>) encoded]"

definition amqp_decode_properties ::
  "16 word \<Rightarrow> amqp_basic_properties \<Rightarrow> string \<Rightarrow> (int + amqp_properties) option" where
  "amqp_decode_properties class_id p0 encoded =
    do { r \<leftarrow> decode_flags encoded 0 0 0;
         Some (then_do r (\<lambda>(flags, offset).
      (if class_id = AMQP_CONNECTION_CLASS then Inr (Connection_properties \<lparr>connection_properties_flags = flags\<rparr>)
       else if class_id = AMQP_CHANNEL_CLASS then Inr (Channel_properties \<lparr>channel_properties_flags = flags\<rparr>)
       else if class_id = AMQP_ACCESS_CLASS then Inr (Access_properties \<lparr>access_properties_flags = flags\<rparr>)
       else if class_id = AMQP_EXCHANGE_CLASS then Inr (Exchange_properties \<lparr>exchange_properties_flags = flags\<rparr>)
       else if class_id = AMQP_QUEUE_CLASS then Inr (Queue_properties \<lparr>queue_properties_flags = flags\<rparr>)
       else if class_id = AMQP_BASIC_CLASS then then_do (decode_basic_properties flags encoded (p0\<lparr>basic_properties_flags := flags\<rparr>, offset))
         (\<lambda>(p, _). Inr (Basic_properties p))
       else if class_id = AMQP_TX_CLASS then Inr (Tx_properties \<lparr>tx_properties_flags = flags\<rparr>)
       else if class_id = AMQP_CONFIRM_CLASS then Inr (Confirm_properties \<lparr>confirm_properties_flags = flags\<rparr>)
       else Inl AMQP_STATUS_UNKNOWN_CLASS))) }"

end
