(* ===== verification/Rabbit_Table_Facts.thy ===== *)
theory Rabbit_Table_Facts
  imports Rabbit_Table
begin

text \<open>
  The format of field tables as a function from tables to bytes (\<open>wire_value\<close>, \<open>wire_table\<close>): the
  encoder writes it, and the decoder reads it back when every count has room for its number.
\<close>

section \<open>The format\<close>

definition wire_sized :: "string \<Rightarrow> string" where
  "wire_sized w = wire (word_of_nat (length w) :: 32 word) @ w"

definition wire_short :: "string \<Rightarrow> string" where
  "wire_short s = wire (word_of_nat (length s) :: 8 word) @ s"

fun wire_value :: "amqp_field_value \<Rightarrow> string"
  and wire_values :: "amqp_field_value list \<Rightarrow> string"
  and wire_table :: "amqp_table \<Rightarrow> string" where
  "wire_value v = wire (field_kind v) @ (case v of
       Field_boolean b \<Rightarrow> wire (if b \<noteq> 0 then 1 else 0 :: 8 word)
     | Field_i8 v \<Rightarrow> wire v | Field_u8 v \<Rightarrow> wire v
     | Field_i16 v \<Rightarrow> wire v | Field_u16 v \<Rightarrow> wire v
     | Field_i32 v \<Rightarrow> wire v | Field_u32 v \<Rightarrow> wire v
     | Field_i64 v \<Rightarrow> wire v | Field_u64 v \<Rightarrow> wire v
     | Field_f32 v \<Rightarrow> wire v | Field_f64 v \<Rightarrow> wire v
     | Field_decimal d v \<Rightarrow> wire d @ wire v
     | Field_utf8 s \<Rightarrow> wire_sized s | Field_bytes s \<Rightarrow> wire_sized s
     | Field_array vs \<Rightarrow> wire_sized (wire_values vs)
     | Field_timestamp v \<Rightarrow> wire v
     | Field_table es \<Rightarrow> wire_sized (wire_table es)
     | Field_void \<Rightarrow> [] | Field_other k \<Rightarrow> [])"
| "wire_values [] = []"
| "wire_values (v # vs) = wire_value v @ wire_values vs"
| "wire_table [] = []"
| "wire_table (Table_entry key v # es) = wire_short key @ wire_value v @ wire_table es"

declare wire_value.simps [simp del]

text \<open>
  Values of the 18 kinds, and those that the format has room for, in arrays and tables with as many
  entries as the decoder can count.
\<close>

definition countable_list :: "'a list \<Rightarrow> bool" where "countable_list xs \<longleftrightarrow> length xs \<le> 2 ^ 30"

fun known_value :: "amqp_field_value \<Rightarrow> bool"
  and known_table :: "amqp_table \<Rightarrow> bool" where
  "known_value (Field_array vs) \<longleftrightarrow> list_all known_value vs"
| "known_value (Field_table es) \<longleftrightarrow> known_table es"
| "known_value (Field_other k) \<longleftrightarrow> False"
| "known_value v \<longleftrightarrow> True"
| "known_table [] \<longleftrightarrow> True"
| "known_table (Table_entry key v # es) \<longleftrightarrow> known_value v \<and> known_table es"

fun valid_value :: "amqp_field_value \<Rightarrow> bool"
  and valid_table :: "amqp_table \<Rightarrow> bool" where
  "valid_value (Field_boolean b) \<longleftrightarrow> b = 0 \<or> b = 1"
| "valid_value (Field_utf8 s) \<longleftrightarrow> is_long s"
| "valid_value (Field_bytes s) \<longleftrightarrow> is_long s"
| "valid_value (Field_array vs) \<longleftrightarrow> list_all valid_value vs \<and> is_long (wire_values vs) \<and> countable_list vs"
| "valid_value (Field_table es) \<longleftrightarrow> valid_table es \<and> is_long (wire_table es) \<and> countable_list es"
| "valid_value (Field_other k) \<longleftrightarrow> False"
| "valid_value v \<longleftrightarrow> True"
| "valid_table [] \<longleftrightarrow> True"
| "valid_table (Table_entry key v # es) \<longleftrightarrow> is_short key \<and> valid_value v \<and> valid_table es"

lemma valid_known:
  "valid_value v \<Longrightarrow> known_value v"
  "valid_table es \<Longrightarrow> known_table es"
  by (induction v and es rule: valid_value_valid_table.induct) (auto simp: list_all_iff)

section \<open>The encoder writes the format\<close>

lemma writes_sized:
  assumes w: "writes f w"
  shows "writes (sized f) (wire_sized w)"
proof -
  have ok: "sized f (b, start) = Inr (put_at b start (wire_sized w), start + length (wire_sized w))"
    if fits: "start + 4 + length w \<le> length b" for b start
  proof -
    let ?n = "word_of_nat (length w) :: 32 word"
    have "put_at (put_at b (start + 4) w) start (wire ?n) = put_at b start (wire_sized w)"
      using fits by (simp add: put_at_def wire_sized_def min_def ac_simps)
    moreover have "put_32 too_big ?n (put_at b (start + 4) w, start) =
        Inr (put_at (put_at b (start + 4) w) start (wire ?n), start + length (wire ?n))"
      by (rule writes_fit [OF writes_put_32]) (use fits in \<open>simp_all add: amqp_status\<close>)
    ultimately show ?thesis
      using writes_fit [OF w, of "start + 4" b] fits by (simp add: sized_def fill_size_def wire_sized_def)
  qed
  moreover have "\<exists>res<0. sized f (b, start) = Inl res"
    if big: "length b < start + 4 + length w" for b start
  proof (cases "w = []")
    case True
    then have "f (b, start + 4) = Inr (b, start + 4)" using w by (simp add: writes_def)
    moreover have "\<exists>res<0. put_32 too_big 0 (b, start) = Inl res"
      using big True writes_put_32 [of too_big 0] by (simp add: writes_def amqp_status)
    ultimately show ?thesis by (auto simp: sized_def fill_size_def)
  next
    case False
    then have "\<exists>res<0. f (b, start + 4) = Inl res" using w big by (simp add: writes_def)
    then show ?thesis by (auto simp: sized_def)
  qed
  ultimately show ?thesis by (simp add: writes_def wire_sized_def add.assoc)
qed

lemma amqp_status_negative [simp]: "AMQP_STATUS_BAD_AMQP_DATA < 0" "too_big < 0"
  by (simp_all add: amqp_status)

lemma writes_return: "writes Inr []"
  by (simp add: writes_def)

lemma writes_decimal: "writes (run_steps [put_8 too_big d, put_32 too_big v]) (wire d @ wire v)"
  using writes_run_Cons [OF writes_put_8 writes_run_Cons [OF writes_put_32 writes_run_Nil]] by simp

lemma writes_put_long': "writes (put_long too_big s) (wire_sized s)"
  unfolding wire_sized_def by (rule writes_put_long) simp

lemmas writes_field = writes_put_8 writes_put_16 writes_put_32 writes_put_64 writes_put_long'
  writes_sized writes_decimal writes_return

lemma encode_writes:
  "known_value v \<Longrightarrow> writes (amqp_encode_field_value v) (wire_value v)"
  "list_all known_value vs \<Longrightarrow> writes (encode_values vs) (wire_values vs)"
  "known_table es \<Longrightarrow> writes (encode_entries es) (wire_table es)"
proof (induction v and vs and es rule: wire_value_wire_values_wire_table.induct)
  case (1 v)
  then show ?case
    by (cases v; simp only: wire_value.simps amqp_encode_field_value.simps [abs_def] field_kind.simps
          amqp_field_value.case)
      (intro writes_then writes_field amqp_status_negative; simp)+
next
  case 2
  then show ?case using writes_return by (simp add: writes_def)
next
  case (3 v vs)
  then show ?case using writes_then [of "amqp_encode_field_value v" "wire_value v" "encode_values vs"]
    by (simp add: writes_def)
next
  case 4
  then show ?case using writes_return by (simp add: writes_def)
next
  case (5 key v es)
  then have "writes (\<lambda>s. then_do (amqp_encode_field_value v s) (encode_entries es)) (wire_value v @ wire_table es)"
    by (intro writes_then) simp_all
  then have "writes (\<lambda>s. then_do (put_short too_big key s)
      (\<lambda>s. then_do (amqp_encode_field_value v s) (encode_entries es))) (wire_short key @ wire_value v @ wire_table es)"
    unfolding wire_short_def by (rule writes_then [OF writes_put_short [OF amqp_status_negative(2)]])
  then show ?case by (simp add: writes_def)
qed

section \<open>The decoder reads the format\<close>

text \<open>
  The counters of the loops: the room is a power of two, at most 2 to the power 30, and more room is
  found for every entry but the one after as many.
\<close>

definition counts_ok :: "int \<Rightarrow> int \<Rightarrow> bool" where
  "counts_ok n a \<longleftrightarrow> (\<exists>k\<ge>4. k \<le> 30 \<and> a = 2 ^ k) \<and> 0 \<le> n \<and> n \<le> a"

lemma counts_start [simp]: "counts_ok 0 INITIAL_ARRAY_SIZE" "counts_ok 0 INITIAL_TABLE_SIZE"
  by (auto simp: counts_ok_def INITIAL_ARRAY_SIZE_def INITIAL_TABLE_SIZE_def intro!: exI [of _ 4])

lemma counts_bounds:
  assumes "counts_ok n a"
  shows "0 \<le> n" and "n \<le> a" and "16 \<le> a" and "a \<le> 2 ^ 30" and "a < 2 ^ 30 \<Longrightarrow> a * 2 \<le> 2 ^ 30"
proof -
  obtain k where k: "4 \<le> k" "k \<le> 30" "a = 2 ^ k" using assms by (auto simp: counts_ok_def)
  show "0 \<le> n" "n \<le> a" using assms by (simp_all add: counts_ok_def)
  show "16 \<le> a" using power_increasing [OF k(1), of "2 :: int"] k(3) by simp
  show "a \<le> 2 ^ 30" unfolding k(3) by (rule power_increasing [OF k(2)]) simp
  show "a * 2 \<le> 2 ^ 30" if "a < 2 ^ 30"
  proof -
    have "k < 30" using that k(3) by (metis k(2) nat_less_le order_less_irrefl)
    then have "(2 :: int) ^ Suc k \<le> 2 ^ 30" by (intro power_increasing) simp_all
    then show ?thesis by (simp add: k(3))
  qed
qed

lemma counts_full: "more_room (2 ^ 30) a = Inl int_overflow" if "counts_ok (2 ^ 30) a"
  using counts_bounds [OF that] by (simp add: more_room_def codec_int_def int_result_def is_int_def INT_MAX_def)

lemma counts_next:
  assumes "counts_ok n a" and "n < 2 ^ 30"
  obtains a' where "more_room n a = Inr a'" and "codec_int (n + 1) = Inr (n + 1)" and "counts_ok (n + 1) a'"
proof -
  note b = counts_bounds [OF assms(1)]
  have c: "codec_int (n + 1) = Inr (n + 1)"
    using b assms(2) by (simp add: codec_int_def int_result_def is_int_def INT_MAX_def INT_MIN_def)
  show thesis
  proof (cases "n < a")
    case True
    then have "counts_ok (n + 1) a" using assms(1) by (auto simp: counts_ok_def)
    with True c show ?thesis by (intro that [of a]) (simp_all add: more_room_def)
  next
    case False
    with b assms(2) have a: "n = a" "a * 2 \<le> 2 ^ 30" by auto
    with b have "more_room n a = Inr (a * 2)"
      by (simp add: more_room_def codec_int_def int_result_def is_int_def INT_MAX_def INT_MIN_def)
    moreover obtain k where k: "4 \<le> k" "k \<le> 30" "a = 2 ^ k" using assms(1) by (auto simp: counts_ok_def)
    with a(2) have "k \<noteq> 30" by (intro notI) simp
    with k have "4 \<le> Suc k" "Suc k \<le> 30" "a * 2 = 2 ^ Suc k" by simp_all
    with a(1) b(3) have "counts_ok (n + 1) (a * 2)" unfolding counts_ok_def by (intro conjI exI [of _ "Suc k"]) auto
    ultimately show ?thesis using c that by blast
  qed
qed

text \<open>The loops as long as there is room; the key of an entry is read in two steps around it.\<close>

lemma array_entries_next:
  assumes "counts_ok n a" and "n < 2 ^ 30" and "p < limit"
  obtains a' where "counts_ok (n + 1) a'" and "array_entries e limit n a p =
    then_do (amqp_decode_field_value e p) (\<lambda>(v, p). field ((#) v) (array_entries e limit (n + 1) a' p))"
proof -
  obtain a' where "more_room n a = Inr a'" "codec_int (n + 1) = Inr (n + 1)" "counts_ok (n + 1) a'"
    using assms(1,2) by (rule counts_next)
  with assms(3) show thesis by (intro that [of a']) (simp_all add: array_entries.simps [of e limit n])
qed

lemma table_entries_next:
  assumes "counts_ok n a" and "n < 2 ^ 30" and "p < limit"
  obtains a' where "counts_ok (n + 1) a'" and "table_entries e limit n a p =
    then_do (get_short e p) (\<lambda>(key, p). then_do (amqp_decode_field_value e p)
      (\<lambda>(v, p). field ((#) (Table_entry key v)) (table_entries e limit (n + 1) a' p)))"
proof -
  obtain a' where "more_room n a = Inr a'" "codec_int (n + 1) = Inr (n + 1)" "counts_ok (n + 1) a'"
    using assms(1,2) by (rule counts_next)
  with assms(3) show thesis
    by (intro that [of a']) (auto simp: table_entries.simps [of e limit n] get_short_bytes then_do_def split: sum.split)
qed

lemma reads_field: "reads d w x \<Longrightarrow> y = f x \<Longrightarrow> reads (\<lambda>e o1. field f (d e o1)) w y"
  by (auto simp: reads_def field_def)

lemma reads_get_8_then:
  "reads (k v) w y \<Longrightarrow> reads (\<lambda>e o1. then_do (get_8 e o1) (\<lambda>(x, o2). k x e o2)) (wire v @ w) y"
  by (rule reads_then [OF reads_get_8])

lemma reads_get_long': "is_long s \<Longrightarrow> reads get_long (wire_sized s) s"
  unfolding wire_sized_def by (rule reads_get_long)

lemma reads_sized:
  assumes "is_long w" and "\<And>e o1. holds_at e o1 w \<Longrightarrow> d e (o1 + length w) o1 = Inr (x, o1 + length w)"
  shows "reads (\<lambda>e o1. then_do (get_32 e o1) (\<lambda>(size, o2). d e (o2 + unat size) o2)) (wire_sized w) x"
  unfolding wire_sized_def
proof (rule reads_then [OF reads_get_32])
  show "reads (\<lambda>e o2. d e (o2 + unat (word_of_nat (length w) :: 32 word)) o2) w x"
    using assms by (simp add: reads_def unat_of_nat is_long_def)
qed

lemma readsD: "reads d w x \<Longrightarrow> holds_at e o1 w \<Longrightarrow> d e o1 = Inr (x, o1 + length w)"
  by (simp add: reads_def)

lemmas reads_at = reads_get_8 [THEN readsD] reads_get_16 [THEN readsD] reads_get_32 [THEN readsD]
  reads_get_64 [THEN readsD] reads_get_long' [THEN readsD]

lemma wire_value_not_Nil [simp]: "wire_value v \<noteq> []"
  by (simp add: wire_value.simps)

lemma reads_void: "reads (\<lambda>e o1. Inr (x, o1)) [] x"
  by (rule reads_return) simp

lemma decode_reads:
  "valid_value v \<Longrightarrow> reads amqp_decode_field_value (wire_value v) v"
  "list_all valid_value vs \<Longrightarrow> holds_at e2 o2 (wire_values vs) \<Longrightarrow>
    counts_ok n2 a2 \<Longrightarrow> n2 + int (length vs) \<le> 2 ^ 30 \<Longrightarrow>
    array_entries e2 (o2 + length (wire_values vs)) n2 a2 o2 = Inr (vs, o2 + length (wire_values vs))"
  "valid_table es \<Longrightarrow> holds_at e3 o3 (wire_table es) \<Longrightarrow>
    counts_ok n3 a3 \<Longrightarrow> n3 + int (length es) \<le> 2 ^ 30 \<Longrightarrow>
    table_entries e3 (o3 + length (wire_table es)) n3 a3 o3 = Inr (es, o3 + length (wire_table es))"
proof (induction v and vs and es arbitrary: and e2 o2 n2 a2 and e3 o3 n3 a3 rule: wire_value_wire_values_wire_table.induct)
  case (1 v)
  have "amqp_decode_field_value e o1 = Inr (v, o1 + length (wire_value v))" if h: "holds_at e o1 (wire_value v)" for e o1
  proof -
    have k: "get_8 e o1 = Inr (field_kind v, o1 + 1)"
      using h reads_at(1) [of e o1 "field_kind v"] by (simp add: wire_value.simps)
    note array = reads_sized [of "wire_values vs" "\<lambda>e l. array_entries e l 0 INITIAL_ARRAY_SIZE" vs for vs, folded amqp_decode_array.simps [abs_def], THEN readsD]
    note table = reads_sized [of "wire_table vs" "\<lambda>e l. table_entries e l 0 INITIAL_TABLE_SIZE" vs for vs, folded amqp_decode_table.simps [abs_def], THEN readsD]
    show ?thesis
    proof (cases v)
      case (Field_boolean b)
      with 1 h show ?thesis
        using reads_at(1) [of e "o1 + 1" "if b \<noteq> 0 then 1 else 0"] k
        by (auto simp: amqp_decode_field_value.simps wire_value.simps field_def field_kinds)
    next
      case (Field_array vs)
      with 1 h show ?thesis
        using array [of vs e "o1 + 1"] k
        by (auto simp: countable_list_def amqp_decode_field_value.simps wire_value.simps field_def field_kinds)
    next
      case (Field_table es)
      with 1 h show ?thesis
        using table [of es e "o1 + 1"] k
        by (auto simp: countable_list_def amqp_decode_field_value.simps wire_value.simps field_def field_kinds)
    qed (use 1 h k in \<open>simp_all add: amqp_decode_field_value.simps wire_value.simps field_def field_kinds\<close>,
      auto dest!: reads_at)
  qed
  then show ?case by (simp add: reads_def)
next
  case 2
  then show ?case by (simp add: array_entries.simps)
next
  case (3 v vs)
  then have "amqp_decode_field_value e2 o2 = Inr (v, o2 + length (wire_value v))"
    by (simp add: reads_def)
  moreover obtain a' where "counts_ok (n2 + 1) a'" and "array_entries e2 (o2 + length (wire_values (v # vs))) n2 a2 o2 =
      then_do (amqp_decode_field_value e2 o2) (\<lambda>(u, p). field ((#) u)
        (array_entries e2 (o2 + length (wire_values (v # vs))) (n2 + 1) a' p))"
    by (rule array_entries_next [OF 3(5), of o2 "o2 + length (wire_values (v # vs))"]) (use 3(6) in simp_all)
  moreover from this(1) have
    "array_entries e2 (o2 + length (wire_value v) + length (wire_values vs)) (n2 + 1) a' (o2 + length (wire_value v)) =
      Inr (vs, o2 + length (wire_value v) + length (wire_values vs))"
    using 3 by simp
  ultimately show ?case by (simp add: add.assoc)
next
  case 4
  then show ?case by (simp add: table_entries.simps)
next
  case (5 key v es)
  let ?o = "o3 + length (wire_short key)"
  let ?p = "?o + length (wire_value v)"
  have "get_short e3 o3 = Inr (key, ?o)"
    using 5 reads_get_short [of key] by (simp add: reads_def wire_short_def)
  moreover have "amqp_decode_field_value e3 ?o = Inr (v, ?p)" using 5 by (simp add: reads_def)
  moreover obtain a' where "counts_ok (n3 + 1) a'"
    and "table_entries e3 (o3 + length (wire_table (Table_entry key v # es))) n3 a3 o3 =
      then_do (get_short e3 o3) (\<lambda>(k, p). then_do (amqp_decode_field_value e3 p) (\<lambda>(u, p).
        field ((#) (Table_entry k u)) (table_entries e3 (o3 + length (wire_table (Table_entry key v # es))) (n3 + 1) a' p)))"
    by (rule table_entries_next [OF 5(5), of o3 "o3 + length (wire_table (Table_entry key v # es))"])
      (use 5(6) in simp_all)
  moreover from this(1) have
    "table_entries e3 (?p + length (wire_table es)) (n3 + 1) a' ?p = Inr (es, ?p + length (wire_table es))"
    using 5 by simp
  ultimately show ?case by (simp add: add.assoc)
qed

section \<open>Tables\<close>

lemma writes_table: "known_table t \<Longrightarrow> writes (amqp_encode_table t) (wire_sized (wire_table t))"
  unfolding amqp_encode_table_def by (intro writes_sized encode_writes)

lemma reads_table:
  "valid_table t \<Longrightarrow> is_long (wire_table t) \<Longrightarrow> countable_list t \<Longrightarrow>
    reads amqp_decode_table (wire_sized (wire_table t)) t"
  unfolding amqp_decode_table.simps [abs_def] countable_list_def by (intro reads_sized decode_reads) simp_all

text \<open>A table that may be an argument of a method.\<close>

definition sendable_table :: "amqp_table \<Rightarrow> bool" where
  "sendable_table t \<longleftrightarrow> valid_table t \<and> is_long (wire_table t) \<and> countable_list t"

lemma codec_table: "sendable_table t \<Longrightarrow> codec (amqp_encode_table t) amqp_decode_table t"
  unfolding codec_def sendable_table_def using writes_table reads_table valid_known(2) by blast

lemma codec_field:
  "res < 0 \<Longrightarrow> codec (put_8 res v8) get_8 v8"
  "res < 0 \<Longrightarrow> codec (put_16 res v16) get_16 v16"
  "res < 0 \<Longrightarrow> codec (put_32 res v32) get_32 v32"
  "res < 0 \<Longrightarrow> codec (put_64 res v64) get_64 v64"
  "res < 0 \<Longrightarrow> is_short v \<Longrightarrow> codec (put_short res v) get_short v"
  "res < 0 \<Longrightarrow> is_long v \<Longrightarrow> codec (put_long res v) get_long v"
  unfolding codec_def by (blast intro: codec_writes codec_reads)+

section \<open>What a decoder can return\<close>

text \<open>
  A result with the property, or the status for bad data; the counters of the loops overflow only in a
  buffer of at least 2 to the power 30 bytes.
\<close>

definition gives :: "string \<Rightarrow> int + 'a \<times> nat \<Rightarrow> ('a \<Rightarrow> nat \<Rightarrow> bool) \<Rightarrow> bool" where
  "gives e r P \<longleftrightarrow> (\<forall>v p. r = Inr (v, p) \<longrightarrow> P v p) \<and>
     (\<forall>res. r = Inl res \<longrightarrow> res = AMQP_STATUS_BAD_AMQP_DATA \<or> res = int_overflow \<and> 2 ^ 30 \<le> length e)"

lemma givesD: "gives e r P \<Longrightarrow> r = Inr (v, p) \<Longrightarrow> P v p"
  by (simp add: gives_def)

lemma gives_mono: "gives e r P \<Longrightarrow> (\<And>v p. r = Inr (v, p) \<Longrightarrow> P v p \<Longrightarrow> Q v p) \<Longrightarrow> gives e r Q"
  by (simp add: gives_def)

lemma gives_if: "(c \<Longrightarrow> gives e r P) \<Longrightarrow> (\<not> c \<Longrightarrow> gives e r' P) \<Longrightarrow> gives e (if c then r else r') P"
  by simp

lemma gives_field: "gives e r (\<lambda>v. P (f v)) \<Longrightarrow> gives e (field f r) P"
  by (cases r) (auto simp: gives_def field_def)

lemma gives_then: "gives e r (\<lambda>x p. gives e (k x p) P) \<Longrightarrow> gives e (then_do r (\<lambda>(x, p). k x p)) P"
  by (cases r) (auto simp: gives_def)

lemma gives_return: "P x p \<Longrightarrow> gives e (Inr (x, p)) P" "gives e (Inl AMQP_STATUS_BAD_AMQP_DATA) P"
  by (simp_all add: gives_def)

lemma gives_get:
  "(\<And>v. get_8 e p = Inr (v, p + 1) \<Longrightarrow> P8 v (p + 1)) \<Longrightarrow> gives e (get_8 e p) P8"
  "(\<And>v. P16 v (p + 2)) \<Longrightarrow> gives e (get_16 e p) P16"
  "(\<And>v. get_32 e p = Inr (v, p + 4) \<Longrightarrow> P32 v (p + 4)) \<Longrightarrow> gives e (get_32 e p) P32"
  "(\<And>v. P64 v (p + 8)) \<Longrightarrow> gives e (get_64 e p) P64"
  by (auto simp: gives_def get_8_def get_16_def get_32_def get_64_def amqp_decode_def split: if_splits)

lemma get_counted_cases:
  fixes e p
  defines "n \<equiv> unat (amqp_d e p :: 8 word)" and "m \<equiv> unat (amqp_d e p :: 32 word)"
  shows "get_short e p = (if p + 1 + n \<le> length e then Inr (take n (drop (p + 1) e), p + 1 + n) else Inl AMQP_STATUS_BAD_AMQP_DATA)"
    and "get_long e p = (if p + 4 + m \<le> length e then Inr (take m (drop (p + 4) e), p + 4 + m) else Inl AMQP_STATUS_BAD_AMQP_DATA)"
  unfolding n_def m_def
  by (simp_all add: get_short_def get_long_def decode_counted_def amqp_decode_def amqp_decode_bytes_def ac_simps)

lemma gives_get_counted:
  "(\<And>s. is_short s \<Longrightarrow> get_short e p = Inr (s, p + length (wire_short s)) \<Longrightarrow> P s (p + length (wire_short s))) \<Longrightarrow>
    gives e (get_short e p) P"
  "(\<And>s. is_long s \<Longrightarrow> Q s (p + length (wire_sized s))) \<Longrightarrow> gives e (get_long e p) Q"
proof -
  let ?n = "unat (amqp_d e p :: 8 word)" and ?m = "unat (amqp_d e p :: 32 word)"
  have len: "?n < 2 ^ 8" "?m < 2 ^ 32"
    using unsigned_less [of "amqp_d e p :: 8 word"] unsigned_less [of "amqp_d e p :: 32 word"] by simp_all
  show "gives e (get_short e p) P"
    if P: "\<And>s. is_short s \<Longrightarrow> get_short e p = Inr (s, p + length (wire_short s)) \<Longrightarrow> P s (p + length (wire_short s))"
  proof (cases "p + 1 + ?n \<le> length e")
    case True
    define s where "s = take ?n (drop (p + 1) e)"
    have s: "length s = ?n" using True by (simp add: s_def)
    then have "get_short e p = Inr (s, p + length (wire_short s))"
      using True by (simp add: get_counted_cases s_def wire_short_def)
    with P [of s] s len(1) show ?thesis by (simp add: gives_def is_short_def)
  qed (simp add: get_counted_cases gives_def)
  show "gives e (get_long e p) Q" if Q: "\<And>s. is_long s \<Longrightarrow> Q s (p + length (wire_sized s))"
  proof (cases "p + 4 + ?m \<le> length e")
    case True
    define s where "s = take ?m (drop (p + 4) e)"
    have s: "length s = ?m" using True by (simp add: s_def)
    then have "get_long e p = Inr (s, p + length (wire_sized s))"
      using True by (simp add: get_counted_cases s_def wire_sized_def)
    with Q [of s] s len(2) show ?thesis by (simp add: gives_def is_long_def)
  qed (simp add: get_counted_cases gives_def)
qed

lemmas gives_intros = gives_if gives_field gives_then gives_return gives_get gives_get_counted

text \<open>
  A decoded value is one that the format has room for, and its format has the length that was read.
  Each entry takes a byte at least, so there are no more entries than bytes before the offset.
\<close>

abbreviation counted :: "string \<Rightarrow> int \<Rightarrow> int \<Rightarrow> nat \<Rightarrow> bool" where
  "counted e n a p \<equiv> counts_ok n a \<and> n \<le> int p \<and> p \<le> length e"

lemma decode_gives:
  "length e1 < 2 ^ 32 \<Longrightarrow> gives e1 (amqp_decode_field_value e1 p1) (\<lambda>v p. valid_value v \<and> p = p1 + length (wire_value v))"
  "length e2 < 2 ^ 32 \<Longrightarrow> gives e2 (amqp_decode_array e2 p2)
    (\<lambda>vs p. list_all valid_value vs \<and> countable_list vs \<and> p = p2 + length (wire_sized (wire_values vs)))"
  "length e3 < 2 ^ 32 \<Longrightarrow> counted e3 n3 a3 p3 \<Longrightarrow> gives e3 (array_entries e3 l3 n3 a3 p3)
    (\<lambda>vs p. list_all valid_value vs \<and> n3 + int (length vs) \<le> 2 ^ 30 \<and> p = p3 + length (wire_values vs))"
  "length e4 < 2 ^ 32 \<Longrightarrow> gives e4 (amqp_decode_table e4 p4)
    (\<lambda>es p. valid_table es \<and> countable_list es \<and> p = p4 + length (wire_sized (wire_table es)))"
  "length e5 < 2 ^ 32 \<Longrightarrow> counted e5 n5 a5 p5 \<Longrightarrow> gives e5 (table_entries e5 l5 n5 a5 p5)
    (\<lambda>es p. valid_table es \<and> n5 + int (length es) \<le> 2 ^ 30 \<and> p = p5 + length (wire_table es))"
proof (induction e1 p1 and e2 p2 and e3 l3 n3 a3 p3 and e4 p4 and e5 l5 n5 a5 p5
    rule: amqp_decode_field_value_amqp_decode_array_array_entries_amqp_decode_table_table_entries.induct)
  case (1 encoded offset)
  have array: "is_long (wire_values vs)"
    if "amqp_decode_array encoded (Suc offset) = Inr (vs, Suc (offset + length (wire_sized (wire_values vs))))" for vs
    using that decode_beyond(2) [of encoded "Suc offset"] 1(3) by (auto simp: beyond_def is_long_def wire_sized_def)
  have table: "is_long (wire_table es)"
    if "amqp_decode_table encoded (Suc offset) = Inr (es, Suc (offset + length (wire_sized (wire_table es))))" for es
    using that decode_beyond(4) [of encoded "Suc offset"] 1(3) by (auto simp: beyond_def is_long_def wire_sized_def)
  show ?case unfolding amqp_decode_field_value.simps [of encoded]
    by (intro gives_intros gives_mono [OF 1(1) [OF _ refl _ _ _ _ _ _ _ _ _ _ _ _ _ _ _ 1(3)]]
      gives_mono [OF 1(2) [OF _ refl _ _ _ _ _ _ _ _ _ _ _ _ _ _ _ _ _ 1(3)]])
      (simp_all add: wire_value.simps array table)
next
  case (2 encoded offset)
  show ?case unfolding amqp_decode_array.simps [of encoded]
    by (intro gives_intros gives_mono [OF 2(1) [OF _ refl 2(2)]])
      (auto simp: wire_sized_def countable_list_def dest: get_within)
next
  case (3 encoded limit n a offset)
  show ?case
  proof (cases "offset < limit")
    case False
    with 3(4) counts_bounds [of n a] show ?thesis by (subst array_entries.simps) (simp add: gives_def)
  next
    case True
    show ?thesis
    proof (cases "n = 2 ^ 30")
      case full: True
      then have "array_entries encoded limit n a offset = Inl int_overflow"
        using True 3(4) counts_full [of a] by (subst array_entries.simps) simp
      with full 3(4) show ?thesis by (simp add: gives_def)
    next
      case False
      with 3(4) counts_bounds [of n a] have "n < 2 ^ 30" by linarith
      then obtain a' where m: "more_room n a = Inr a'" "codec_int (n + 1) = Inr (n + 1)" "counts_ok (n + 1) a'"
        using 3(4) counts_next by blast
      have within: "Suc offset \<le> p \<and> p \<le> length encoded" if "amqp_decode_field_value encoded offset = Inr (v, p)" for v p
        using decode_beyond(1) [of encoded offset] that by (simp add: beyond_def)
      have "array_entries encoded limit n a offset = then_do (amqp_decode_field_value encoded offset)
          (\<lambda>(v, p). field ((#) v) (array_entries encoded limit (n + 1) a' p))"
        using True m by (subst array_entries.simps) simp
      then show ?thesis
        using 3(4) m(3) within
        by (simp only:) (intro gives_then gives_mono [OF 3(1) [OF True m(1) 3(3)]] gives_field
          gives_mono [OF 3(2) [OF True m(1) _ refl m(2) 3(3)]]; fastforce)
    qed
  qed
next
  case (4 encoded offset)
  show ?case unfolding amqp_decode_table.simps [of encoded]
    by (intro gives_intros gives_mono [OF 4(1) [OF _ refl 4(2)]])
      (auto simp: wire_sized_def countable_list_def dest: get_within)
next
  case (5 encoded limit n a offset)
  show ?case
  proof (cases "offset < limit")
    case False
    with 5(4) counts_bounds [of n a] show ?thesis by (subst table_entries.simps) (simp add: gives_def)
  next
    case True
    show ?thesis
    proof (cases "n = 2 ^ 30")
      case full: True
      then have "table_entries encoded limit n a offset = then_do (get_8 encoded offset) (\<lambda>(keylen, p). Inl int_overflow)"
        using True 5(4) counts_full [of a] by (subst table_entries.simps) simp
      with full 5(4) show ?thesis by (auto simp: gives_def get_8_def then_do_def or_status_def split: sum.splits option.splits)
    next
      case False
      with 5(4) counts_bounds [of n a] have "n < 2 ^ 30" by linarith
      then obtain a' where m: "more_room n a = Inr a'" "codec_int (n + 1) = Inr (n + 1)" "counts_ok (n + 1) a'"
        using 5(4) counts_next by blast
      have within: "Suc q \<le> p \<and> p \<le> length encoded" if "amqp_decode_field_value encoded q = Inr (v, p)" for v p q
        using decode_beyond(1) [of encoded q] that by (simp add: beyond_def)
      have split: "table_entries encoded limit n a offset = then_do (get_short encoded offset)
          (\<lambda>(key, p). then_do (amqp_decode_field_value encoded p)
            (\<lambda>(v, p). field ((#) (Table_entry key v)) (table_entries encoded limit (n + 1) a' p)))"
        using True m by (subst table_entries.simps) (auto simp: get_short_bytes then_do_def split: sum.split)
      have ih1: "gives encoded (amqp_decode_field_value encoded p) (\<lambda>v q. valid_value v \<and> q = p + length (wire_value v))"
        if "get_short encoded offset = Inr (key, p)" for key p
        using that 5(1) [OF True _ refl m(1) _ refl 5(3)] by (auto simp: get_short_bytes)
      have ih2: "gives encoded (table_entries encoded limit (n + 1) a' q)
          (\<lambda>es r. valid_table es \<and> n + 1 + int (length es) \<le> 2 ^ 30 \<and> r = q + length (wire_table es))"
        if "get_short encoded offset = Inr (key, p)" "amqp_decode_field_value encoded p = Inr (v, q)"
          "counted encoded (n + 1) a' q" for key p v q
        using that 5(2) [OF True _ refl m(1) _ refl _ refl m(2) 5(3)] by (auto simp: get_short_bytes)
      show ?thesis
        unfolding split using 5(4) m(3) within
        by (intro gives_then gives_get_counted gives_mono [OF ih1] gives_field gives_mono [OF ih2]; fastforce)
    qed
  qed
qed

lemma decoded_table_sendable:
  assumes "length e < 2 ^ 32" and "amqp_decode_table e o1 = Inr (t, o2)"
  shows "sendable_table t \<and> o2 = o1 + length (wire_sized (wire_table t)) \<and> o2 \<le> length e"
proof -
  have "valid_table t \<and> countable_list t \<and> o2 = o1 + length (wire_sized (wire_table t))"
    by (rule givesD [OF decode_gives(4) assms(2)]) (rule assms(1))
  moreover have "o2 \<le> length e" using decode_beyond(4) [of e o1] assms(2) by (simp add: beyond_def)
  ultimately show ?thesis using assms(1) by (simp add: sendable_table_def is_long_def wire_sized_def)
qed

section \<open>Copies and the order of keys\<close>

fun clonable :: "amqp_field_value \<Rightarrow> bool"
  and clonable_table :: "amqp_table \<Rightarrow> bool" where
  "clonable (Field_array vs) \<longleftrightarrow> list_all clonable vs"
| "clonable (Field_table es) \<longleftrightarrow> clonable_table es"
| "clonable (Field_other k) \<longleftrightarrow> False"
| "clonable v \<longleftrightarrow> True"
| "clonable_table [] \<longleftrightarrow> True"
| "clonable_table (Table_entry key v # es) \<longleftrightarrow> key \<noteq> [] \<and> clonable v \<and> clonable_table es"

definition clone_result :: "bool \<Rightarrow> 'a \<Rightarrow> int + 'a" where
  "clone_result c x = (if c then Inr x else Inl AMQP_STATUS_INVALID_PARAMETER)"

lemma clonable_Cons:
  "clonable_table (e # es) \<longleftrightarrow> entry_key e \<noteq> [] \<and> clonable (entry_value e) \<and> clonable_table es"
  by (cases e) simp

lemma clone_copies:
  "amqp_field_value_clone v = clone_result (clonable v) v"
  "clone_values vs = clone_result (list_all clonable vs) vs"
  "clone_entries es = clone_result (clonable_table es) es"
  "amqp_table_entry_clone e = clone_result (clonable_table [e]) e"
  by (induction v and vs and es and e
      rule: amqp_field_value_clone_clone_values_clone_entries_amqp_table_entry_clone.induct)
    (auto simp: clone_result_def clonable_Cons split: if_splits)

lemma memcmp_sign:
  "n \<le> length xs \<Longrightarrow> n \<le> length ys \<Longrightarrow>
    (memcmp n xs ys = 0 \<longleftrightarrow> take n xs = take n ys) \<and> memcmp n ys xs = - memcmp n xs ys"
  by (induction n xs ys rule: memcmp.induct) auto

end
