(* ===== verification/Rabbit_Framing_Facts.thy ===== *)
theory Rabbit_Framing_Facts
  imports Rabbit_Framing Rabbit_Table_Facts
begin

text \<open>
  What the encoder of a method or of content properties writes, the decoder reads back, when the
  byte strings have room for their lengths and the booleans are 0 or 1.
\<close>

section \<open>Bits\<close>

definition is_bool :: "int \<Rightarrow> bool" where "is_bool b \<longleftrightarrow> b = 0 \<or> b = 1"

lemma bit_flag_iff: "n < 8 \<Longrightarrow> bit_flag buf n = of_bool (bit buf n)"
proof -
  assume n: "n < 8"
  have "buf AND push_bit n 1 = (if bit buf n then push_bit n 1 else 0)"
    by (rule bit_word_eqI) (auto simp: bit_simps)
  moreover have "bit (push_bit n 1 :: 8 word) n" using n by (simp add: bit_simps)
  with n have "(push_bit n 1 :: 8 word) \<noteq> 0" by (intro notI) simp
  ultimately show ?thesis by (simp add: bit_flag_def)
qed

lemma bit_flag_bit: "n < 8 \<Longrightarrow> bit (flag_bit m b buf) n \<longleftrightarrow> m = n \<and> b \<noteq> 0 \<or> bit buf n"
  by (auto simp: flag_bit_def bit_simps)

lemma bit_flag_flag_bit [simp]:
  "n < 8 \<Longrightarrow> bit_flag (flag_bit m b buf) n = (if m = n \<and> b \<noteq> 0 then 1 else bit_flag buf n)"
  by (simp add: bit_flag_iff bit_flag_bit)

lemma is_bool_if [simp]: "is_bool b \<Longrightarrow> (if b \<noteq> 0 then 1 else 0) = b"
  by (auto simp: is_bool_def)

lemma bit_flag_0 [simp]: "bit_flag 0 n = 0"
  by (simp add: bit_flag_def)

section \<open>Fields that the format has room for\<close>

definition valid_connection_start :: "amqp_connection_start \<Rightarrow> bool" where
  "valid_connection_start m \<longleftrightarrow> sendable_table (connection_start_server_properties m) \<and>
     is_long (connection_start_mechanisms m) \<and>
     is_long (connection_start_locales m)"

definition valid_connection_start_ok :: "amqp_connection_start_ok \<Rightarrow> bool" where
  "valid_connection_start_ok m \<longleftrightarrow> sendable_table (connection_start_ok_client_properties m) \<and>
     is_short (connection_start_ok_mechanism m) \<and>
     is_long (connection_start_ok_response m) \<and>
     is_short (connection_start_ok_locale m)"

definition valid_connection_secure :: "amqp_connection_secure \<Rightarrow> bool" where
  "valid_connection_secure m \<longleftrightarrow> is_long (connection_secure_challenge m)"

definition valid_connection_secure_ok :: "amqp_connection_secure_ok \<Rightarrow> bool" where
  "valid_connection_secure_ok m \<longleftrightarrow> is_long (connection_secure_ok_response m)"

definition valid_connection_tune :: "amqp_connection_tune \<Rightarrow> bool" where
  "valid_connection_tune m \<longleftrightarrow> True"

definition valid_connection_tune_ok :: "amqp_connection_tune_ok \<Rightarrow> bool" where
  "valid_connection_tune_ok m \<longleftrightarrow> True"

definition valid_connection_open :: "amqp_connection_open \<Rightarrow> bool" where
  "valid_connection_open m \<longleftrightarrow> is_short (connection_open_virtual_host m) \<and>
     is_short (connection_open_capabilities m) \<and>
     is_bool (connection_open_insist m)"

definition valid_connection_open_ok :: "amqp_connection_open_ok \<Rightarrow> bool" where
  "valid_connection_open_ok m \<longleftrightarrow> is_short (connection_open_ok_known_hosts m)"

definition valid_connection_close :: "amqp_connection_close \<Rightarrow> bool" where
  "valid_connection_close m \<longleftrightarrow> is_short (connection_close_reply_text m)"

definition valid_channel_open :: "amqp_channel_open \<Rightarrow> bool" where
  "valid_channel_open m \<longleftrightarrow> is_short (channel_open_out_of_band m)"

definition valid_channel_open_ok :: "amqp_channel_open_ok \<Rightarrow> bool" where
  "valid_channel_open_ok m \<longleftrightarrow> is_long (channel_open_ok_channel_id m)"

definition valid_channel_flow :: "amqp_channel_flow \<Rightarrow> bool" where
  "valid_channel_flow m \<longleftrightarrow> is_bool (channel_flow_active m)"

definition valid_channel_flow_ok :: "amqp_channel_flow_ok \<Rightarrow> bool" where
  "valid_channel_flow_ok m \<longleftrightarrow> is_bool (channel_flow_ok_active m)"

definition valid_channel_close :: "amqp_channel_close \<Rightarrow> bool" where
  "valid_channel_close m \<longleftrightarrow> is_short (channel_close_reply_text m)"

definition valid_access_request :: "amqp_access_request \<Rightarrow> bool" where
  "valid_access_request m \<longleftrightarrow> is_short (access_request_realm m) \<and>
     is_bool (access_request_exclusive m) \<and>
     is_bool (access_request_passive m) \<and>
     is_bool (access_request_active m) \<and>
     is_bool (access_request_write m) \<and>
     is_bool (access_request_read m)"

definition valid_access_request_ok :: "amqp_access_request_ok \<Rightarrow> bool" where
  "valid_access_request_ok m \<longleftrightarrow> True"

definition valid_exchange_declare :: "amqp_exchange_declare \<Rightarrow> bool" where
  "valid_exchange_declare m \<longleftrightarrow> is_short (exchange_declare_exchange m) \<and>
     is_short (exchange_declare_type m) \<and>
     is_bool (exchange_declare_passive m) \<and>
     is_bool (exchange_declare_durable m) \<and>
     is_bool (exchange_declare_auto_delete m) \<and>
     is_bool (exchange_declare_internal m) \<and>
     is_bool (exchange_declare_nowait m) \<and>
     sendable_table (exchange_declare_arguments m)"

definition valid_exchange_delete :: "amqp_exchange_delete \<Rightarrow> bool" where
  "valid_exchange_delete m \<longleftrightarrow> is_short (exchange_delete_exchange m) \<and>
     is_bool (exchange_delete_if_unused m) \<and>
     is_bool (exchange_delete_nowait m)"

definition valid_exchange_bind :: "amqp_exchange_bind \<Rightarrow> bool" where
  "valid_exchange_bind m \<longleftrightarrow> is_short (exchange_bind_destination m) \<and>
     is_short (exchange_bind_source m) \<and>
     is_short (exchange_bind_routing_key m) \<and>
     is_bool (exchange_bind_nowait m) \<and>
     sendable_table (exchange_bind_arguments m)"

definition valid_exchange_unbind :: "amqp_exchange_unbind \<Rightarrow> bool" where
  "valid_exchange_unbind m \<longleftrightarrow> is_short (exchange_unbind_destination m) \<and>
     is_short (exchange_unbind_source m) \<and>
     is_short (exchange_unbind_routing_key m) \<and>
     is_bool (exchange_unbind_nowait m) \<and>
     sendable_table (exchange_unbind_arguments m)"

definition valid_queue_declare :: "amqp_queue_declare \<Rightarrow> bool" where
  "valid_queue_declare m \<longleftrightarrow> is_short (queue_declare_queue m) \<and>
     is_bool (queue_declare_passive m) \<and>
     is_bool (queue_declare_durable m) \<and>
     is_bool (queue_declare_exclusive m) \<and>
     is_bool (queue_declare_auto_delete m) \<and>
     is_bool (queue_declare_nowait m) \<and>
     sendable_table (queue_declare_arguments m)"

definition valid_queue_declare_ok :: "amqp_queue_declare_ok \<Rightarrow> bool" where
  "valid_queue_declare_ok m \<longleftrightarrow> is_short (queue_declare_ok_queue m)"

definition valid_queue_bind :: "amqp_queue_bind \<Rightarrow> bool" where
  "valid_queue_bind m \<longleftrightarrow> is_short (queue_bind_queue m) \<and>
     is_short (queue_bind_exchange m) \<and>
     is_short (queue_bind_routing_key m) \<and>
     is_bool (queue_bind_nowait m) \<and>
     sendable_table (queue_bind_arguments m)"

definition valid_queue_purge :: "amqp_queue_purge \<Rightarrow> bool" where
  "valid_queue_purge m \<longleftrightarrow> is_short (queue_purge_queue m) \<and>
     is_bool (queue_purge_nowait m)"

definition valid_queue_purge_ok :: "amqp_queue_purge_ok \<Rightarrow> bool" where
  "valid_queue_purge_ok m \<longleftrightarrow> True"

definition valid_queue_delete :: "amqp_queue_delete \<Rightarrow> bool" where
  "valid_queue_delete m \<longleftrightarrow> is_short (queue_delete_queue m) \<and>
     is_bool (queue_delete_if_unused m) \<and>
     is_bool (queue_delete_if_empty m) \<and>
     is_bool (queue_delete_nowait m)"

definition valid_queue_delete_ok :: "amqp_queue_delete_ok \<Rightarrow> bool" where
  "valid_queue_delete_ok m \<longleftrightarrow> True"

definition valid_queue_unbind :: "amqp_queue_unbind \<Rightarrow> bool" where
  "valid_queue_unbind m \<longleftrightarrow> is_short (queue_unbind_queue m) \<and>
     is_short (queue_unbind_exchange m) \<and>
     is_short (queue_unbind_routing_key m) \<and>
     sendable_table (queue_unbind_arguments m)"

definition valid_basic_qos :: "amqp_basic_qos \<Rightarrow> bool" where
  "valid_basic_qos m \<longleftrightarrow> is_bool (basic_qos_global m)"

definition valid_basic_consume :: "amqp_basic_consume \<Rightarrow> bool" where
  "valid_basic_consume m \<longleftrightarrow> is_short (basic_consume_queue m) \<and>
     is_short (basic_consume_consumer_tag m) \<and>
     is_bool (basic_consume_no_local m) \<and>
     is_bool (basic_consume_no_ack m) \<and>
     is_bool (basic_consume_exclusive m) \<and>
     is_bool (basic_consume_nowait m) \<and>
     sendable_table (basic_consume_arguments m)"

definition valid_basic_consume_ok :: "amqp_basic_consume_ok \<Rightarrow> bool" where
  "valid_basic_consume_ok m \<longleftrightarrow> is_short (basic_consume_ok_consumer_tag m)"

definition valid_basic_cancel :: "amqp_basic_cancel \<Rightarrow> bool" where
  "valid_basic_cancel m \<longleftrightarrow> is_short (basic_cancel_consumer_tag m) \<and>
     is_bool (basic_cancel_nowait m)"

definition valid_basic_cancel_ok :: "amqp_basic_cancel_ok \<Rightarrow> bool" where
  "valid_basic_cancel_ok m \<longleftrightarrow> is_short (basic_cancel_ok_consumer_tag m)"

definition valid_basic_publish :: "amqp_basic_publish \<Rightarrow> bool" where
  "valid_basic_publish m \<longleftrightarrow> is_short (basic_publish_exchange m) \<and>
     is_short (basic_publish_routing_key m) \<and>
     is_bool (basic_publish_mandatory m) \<and>
     is_bool (basic_publish_immediate m)"

definition valid_basic_return :: "amqp_basic_return \<Rightarrow> bool" where
  "valid_basic_return m \<longleftrightarrow> is_short (basic_return_reply_text m) \<and>
     is_short (basic_return_exchange m) \<and>
     is_short (basic_return_routing_key m)"

definition valid_basic_deliver :: "amqp_basic_deliver \<Rightarrow> bool" where
  "valid_basic_deliver m \<longleftrightarrow> is_short (basic_deliver_consumer_tag m) \<and>
     is_bool (basic_deliver_redelivered m) \<and>
     is_short (basic_deliver_exchange m) \<and>
     is_short (basic_deliver_routing_key m)"

definition valid_basic_get :: "amqp_basic_get \<Rightarrow> bool" where
  "valid_basic_get m \<longleftrightarrow> is_short (basic_get_queue m) \<and>
     is_bool (basic_get_no_ack m)"

definition valid_basic_get_ok :: "amqp_basic_get_ok \<Rightarrow> bool" where
  "valid_basic_get_ok m \<longleftrightarrow> is_bool (basic_get_ok_redelivered m) \<and>
     is_short (basic_get_ok_exchange m) \<and>
     is_short (basic_get_ok_routing_key m)"

definition valid_basic_get_empty :: "amqp_basic_get_empty \<Rightarrow> bool" where
  "valid_basic_get_empty m \<longleftrightarrow> is_short (basic_get_empty_cluster_id m)"

definition valid_basic_ack :: "amqp_basic_ack \<Rightarrow> bool" where
  "valid_basic_ack m \<longleftrightarrow> is_bool (basic_ack_multiple m)"

definition valid_basic_reject :: "amqp_basic_reject \<Rightarrow> bool" where
  "valid_basic_reject m \<longleftrightarrow> is_bool (basic_reject_requeue m)"

definition valid_basic_recover_async :: "amqp_basic_recover_async \<Rightarrow> bool" where
  "valid_basic_recover_async m \<longleftrightarrow> is_bool (basic_recover_async_requeue m)"

definition valid_basic_recover :: "amqp_basic_recover \<Rightarrow> bool" where
  "valid_basic_recover m \<longleftrightarrow> is_bool (basic_recover_requeue m)"

definition valid_basic_nack :: "amqp_basic_nack \<Rightarrow> bool" where
  "valid_basic_nack m \<longleftrightarrow> is_bool (basic_nack_multiple m) \<and>
     is_bool (basic_nack_requeue m)"

definition valid_confirm_select :: "amqp_confirm_select \<Rightarrow> bool" where
  "valid_confirm_select m \<longleftrightarrow> is_bool (confirm_select_nowait m)"

primrec valid_method :: "amqp_method \<Rightarrow> bool" where
  "valid_method (Connection_start m) \<longleftrightarrow> valid_connection_start m"
| "valid_method (Connection_start_ok m) \<longleftrightarrow> valid_connection_start_ok m"
| "valid_method (Connection_secure m) \<longleftrightarrow> valid_connection_secure m"
| "valid_method (Connection_secure_ok m) \<longleftrightarrow> valid_connection_secure_ok m"
| "valid_method (Connection_tune m) \<longleftrightarrow> valid_connection_tune m"
| "valid_method (Connection_tune_ok m) \<longleftrightarrow> valid_connection_tune_ok m"
| "valid_method (Connection_open m) \<longleftrightarrow> valid_connection_open m"
| "valid_method (Connection_open_ok m) \<longleftrightarrow> valid_connection_open_ok m"
| "valid_method (Connection_close m) \<longleftrightarrow> valid_connection_close m"
| "valid_method Connection_close_ok \<longleftrightarrow> True"
| "valid_method (Channel_open m) \<longleftrightarrow> valid_channel_open m"
| "valid_method (Channel_open_ok m) \<longleftrightarrow> valid_channel_open_ok m"
| "valid_method (Channel_flow m) \<longleftrightarrow> valid_channel_flow m"
| "valid_method (Channel_flow_ok m) \<longleftrightarrow> valid_channel_flow_ok m"
| "valid_method (Channel_close m) \<longleftrightarrow> valid_channel_close m"
| "valid_method Channel_close_ok \<longleftrightarrow> True"
| "valid_method (Access_request m) \<longleftrightarrow> valid_access_request m"
| "valid_method (Access_request_ok m) \<longleftrightarrow> valid_access_request_ok m"
| "valid_method (Exchange_declare m) \<longleftrightarrow> valid_exchange_declare m"
| "valid_method Exchange_declare_ok \<longleftrightarrow> True"
| "valid_method (Exchange_delete m) \<longleftrightarrow> valid_exchange_delete m"
| "valid_method Exchange_delete_ok \<longleftrightarrow> True"
| "valid_method (Exchange_bind m) \<longleftrightarrow> valid_exchange_bind m"
| "valid_method Exchange_bind_ok \<longleftrightarrow> True"
| "valid_method (Exchange_unbind m) \<longleftrightarrow> valid_exchange_unbind m"
| "valid_method Exchange_unbind_ok \<longleftrightarrow> True"
| "valid_method (Queue_declare m) \<longleftrightarrow> valid_queue_declare m"
| "valid_method (Queue_declare_ok m) \<longleftrightarrow> valid_queue_declare_ok m"
| "valid_method (Queue_bind m) \<longleftrightarrow> valid_queue_bind m"
| "valid_method Queue_bind_ok \<longleftrightarrow> True"
| "valid_method (Queue_purge m) \<longleftrightarrow> valid_queue_purge m"
| "valid_method (Queue_purge_ok m) \<longleftrightarrow> valid_queue_purge_ok m"
| "valid_method (Queue_delete m) \<longleftrightarrow> valid_queue_delete m"
| "valid_method (Queue_delete_ok m) \<longleftrightarrow> valid_queue_delete_ok m"
| "valid_method (Queue_unbind m) \<longleftrightarrow> valid_queue_unbind m"
| "valid_method Queue_unbind_ok \<longleftrightarrow> True"
| "valid_method (Basic_qos m) \<longleftrightarrow> valid_basic_qos m"
| "valid_method Basic_qos_ok \<longleftrightarrow> True"
| "valid_method (Basic_consume m) \<longleftrightarrow> valid_basic_consume m"
| "valid_method (Basic_consume_ok m) \<longleftrightarrow> valid_basic_consume_ok m"
| "valid_method (Basic_cancel m) \<longleftrightarrow> valid_basic_cancel m"
| "valid_method (Basic_cancel_ok m) \<longleftrightarrow> valid_basic_cancel_ok m"
| "valid_method (Basic_publish m) \<longleftrightarrow> valid_basic_publish m"
| "valid_method (Basic_return m) \<longleftrightarrow> valid_basic_return m"
| "valid_method (Basic_deliver m) \<longleftrightarrow> valid_basic_deliver m"
| "valid_method (Basic_get m) \<longleftrightarrow> valid_basic_get m"
| "valid_method (Basic_get_ok m) \<longleftrightarrow> valid_basic_get_ok m"
| "valid_method (Basic_get_empty m) \<longleftrightarrow> valid_basic_get_empty m"
| "valid_method (Basic_ack m) \<longleftrightarrow> valid_basic_ack m"
| "valid_method (Basic_reject m) \<longleftrightarrow> valid_basic_reject m"
| "valid_method (Basic_recover_async m) \<longleftrightarrow> valid_basic_recover_async m"
| "valid_method (Basic_recover m) \<longleftrightarrow> valid_basic_recover m"
| "valid_method Basic_recover_ok \<longleftrightarrow> True"
| "valid_method (Basic_nack m) \<longleftrightarrow> valid_basic_nack m"
| "valid_method Tx_select \<longleftrightarrow> True"
| "valid_method Tx_select_ok \<longleftrightarrow> True"
| "valid_method Tx_commit \<longleftrightarrow> True"
| "valid_method Tx_commit_ok \<longleftrightarrow> True"
| "valid_method Tx_rollback \<longleftrightarrow> True"
| "valid_method Tx_rollback_ok \<longleftrightarrow> True"
| "valid_method (Confirm_select m) \<longleftrightarrow> valid_confirm_select m"
| "valid_method Confirm_select_ok \<longleftrightarrow> True"

section \<open>Each method\<close>

lemmas codec_steps = codec_then codec_field codec_table codec_return

named_theorems codec_methods \<open>round trips of the methods\<close>

lemma codec_connection_start [codec_methods]: "valid_connection_start m \<Longrightarrow> codec (encode_connection_start m) decode_connection_start m"
  unfolding encode_connection_start_def decode_connection_start_def [abs_def] valid_connection_start_def
  by ((elim conjE)?, (rule codec_steps amqp_status_negative | assumption)+, simp split del: if_split cong: if_cong)

lemma codec_connection_start_ok [codec_methods]: "valid_connection_start_ok m \<Longrightarrow> codec (encode_connection_start_ok m) decode_connection_start_ok m"
  unfolding encode_connection_start_ok_def decode_connection_start_ok_def [abs_def] valid_connection_start_ok_def
  by ((elim conjE)?, (rule codec_steps amqp_status_negative | assumption)+, simp split del: if_split cong: if_cong)

lemma codec_connection_secure [codec_methods]: "valid_connection_secure m \<Longrightarrow> codec (encode_connection_secure m) decode_connection_secure m"
  unfolding encode_connection_secure_def decode_connection_secure_def [abs_def] valid_connection_secure_def
  by ((elim conjE)?, (rule codec_steps amqp_status_negative | assumption)+, simp split del: if_split cong: if_cong)

lemma codec_connection_secure_ok [codec_methods]: "valid_connection_secure_ok m \<Longrightarrow> codec (encode_connection_secure_ok m) decode_connection_secure_ok m"
  unfolding encode_connection_secure_ok_def decode_connection_secure_ok_def [abs_def] valid_connection_secure_ok_def
  by ((elim conjE)?, (rule codec_steps amqp_status_negative | assumption)+, simp split del: if_split cong: if_cong)

lemma codec_connection_tune [codec_methods]: "valid_connection_tune m \<Longrightarrow> codec (encode_connection_tune m) decode_connection_tune m"
  unfolding encode_connection_tune_def decode_connection_tune_def [abs_def] valid_connection_tune_def
  by ((elim conjE)?, (rule codec_steps amqp_status_negative | assumption)+, simp split del: if_split cong: if_cong)

lemma codec_connection_tune_ok [codec_methods]: "valid_connection_tune_ok m \<Longrightarrow> codec (encode_connection_tune_ok m) decode_connection_tune_ok m"
  unfolding encode_connection_tune_ok_def decode_connection_tune_ok_def [abs_def] valid_connection_tune_ok_def
  by ((elim conjE)?, (rule codec_steps amqp_status_negative | assumption)+, simp split del: if_split cong: if_cong)

lemma codec_connection_open [codec_methods]: "valid_connection_open m \<Longrightarrow> codec (encode_connection_open m) decode_connection_open m"
  unfolding encode_connection_open_def decode_connection_open_def [abs_def] valid_connection_open_def
  by ((elim conjE)?, (rule codec_steps amqp_status_negative | assumption)+, simp split del: if_split cong: if_cong)

lemma codec_connection_open_ok [codec_methods]: "valid_connection_open_ok m \<Longrightarrow> codec (encode_connection_open_ok m) decode_connection_open_ok m"
  unfolding encode_connection_open_ok_def decode_connection_open_ok_def [abs_def] valid_connection_open_ok_def
  by ((elim conjE)?, (rule codec_steps amqp_status_negative | assumption)+, simp split del: if_split cong: if_cong)

lemma codec_connection_close [codec_methods]: "valid_connection_close m \<Longrightarrow> codec (encode_connection_close m) decode_connection_close m"
  unfolding encode_connection_close_def decode_connection_close_def [abs_def] valid_connection_close_def
  by ((elim conjE)?, (rule codec_steps amqp_status_negative | assumption)+, simp split del: if_split cong: if_cong)

lemma codec_channel_open [codec_methods]: "valid_channel_open m \<Longrightarrow> codec (encode_channel_open m) decode_channel_open m"
  unfolding encode_channel_open_def decode_channel_open_def [abs_def] valid_channel_open_def
  by ((elim conjE)?, (rule codec_steps amqp_status_negative | assumption)+, simp split del: if_split cong: if_cong)

lemma codec_channel_open_ok [codec_methods]: "valid_channel_open_ok m \<Longrightarrow> codec (encode_channel_open_ok m) decode_channel_open_ok m"
  unfolding encode_channel_open_ok_def decode_channel_open_ok_def [abs_def] valid_channel_open_ok_def
  by ((elim conjE)?, (rule codec_steps amqp_status_negative | assumption)+, simp split del: if_split cong: if_cong)

lemma codec_channel_flow [codec_methods]: "valid_channel_flow m \<Longrightarrow> codec (encode_channel_flow m) decode_channel_flow m"
  unfolding encode_channel_flow_def decode_channel_flow_def [abs_def] valid_channel_flow_def
  by ((elim conjE)?, (rule codec_steps amqp_status_negative | assumption)+, simp split del: if_split cong: if_cong)

lemma codec_channel_flow_ok [codec_methods]: "valid_channel_flow_ok m \<Longrightarrow> codec (encode_channel_flow_ok m) decode_channel_flow_ok m"
  unfolding encode_channel_flow_ok_def decode_channel_flow_ok_def [abs_def] valid_channel_flow_ok_def
  by ((elim conjE)?, (rule codec_steps amqp_status_negative | assumption)+, simp split del: if_split cong: if_cong)

lemma codec_channel_close [codec_methods]: "valid_channel_close m \<Longrightarrow> codec (encode_channel_close m) decode_channel_close m"
  unfolding encode_channel_close_def decode_channel_close_def [abs_def] valid_channel_close_def
  by ((elim conjE)?, (rule codec_steps amqp_status_negative | assumption)+, simp split del: if_split cong: if_cong)

lemma codec_access_request [codec_methods]: "valid_access_request m \<Longrightarrow> codec (encode_access_request m) decode_access_request m"
  unfolding encode_access_request_def decode_access_request_def [abs_def] valid_access_request_def
  by ((elim conjE)?, (rule codec_steps amqp_status_negative | assumption)+, simp split del: if_split cong: if_cong)

lemma codec_access_request_ok [codec_methods]: "valid_access_request_ok m \<Longrightarrow> codec (encode_access_request_ok m) decode_access_request_ok m"
  unfolding encode_access_request_ok_def decode_access_request_ok_def [abs_def] valid_access_request_ok_def
  by ((elim conjE)?, (rule codec_steps amqp_status_negative | assumption)+, simp split del: if_split cong: if_cong)

lemma codec_exchange_declare [codec_methods]: "valid_exchange_declare m \<Longrightarrow> codec (encode_exchange_declare m) decode_exchange_declare m"
  unfolding encode_exchange_declare_def decode_exchange_declare_def [abs_def] valid_exchange_declare_def
  by ((elim conjE)?, (rule codec_steps amqp_status_negative | assumption)+, simp split del: if_split cong: if_cong)

lemma codec_exchange_delete [codec_methods]: "valid_exchange_delete m \<Longrightarrow> codec (encode_exchange_delete m) decode_exchange_delete m"
  unfolding encode_exchange_delete_def decode_exchange_delete_def [abs_def] valid_exchange_delete_def
  by ((elim conjE)?, (rule codec_steps amqp_status_negative | assumption)+, simp split del: if_split cong: if_cong)

lemma codec_exchange_bind [codec_methods]: "valid_exchange_bind m \<Longrightarrow> codec (encode_exchange_bind m) decode_exchange_bind m"
  unfolding encode_exchange_bind_def decode_exchange_bind_def [abs_def] valid_exchange_bind_def
  by ((elim conjE)?, (rule codec_steps amqp_status_negative | assumption)+, simp split del: if_split cong: if_cong)

lemma codec_exchange_unbind [codec_methods]: "valid_exchange_unbind m \<Longrightarrow> codec (encode_exchange_unbind m) decode_exchange_unbind m"
  unfolding encode_exchange_unbind_def decode_exchange_unbind_def [abs_def] valid_exchange_unbind_def
  by ((elim conjE)?, (rule codec_steps amqp_status_negative | assumption)+, simp split del: if_split cong: if_cong)

lemma codec_queue_declare [codec_methods]: "valid_queue_declare m \<Longrightarrow> codec (encode_queue_declare m) decode_queue_declare m"
  unfolding encode_queue_declare_def decode_queue_declare_def [abs_def] valid_queue_declare_def
  by ((elim conjE)?, (rule codec_steps amqp_status_negative | assumption)+, simp split del: if_split cong: if_cong)

lemma codec_queue_declare_ok [codec_methods]: "valid_queue_declare_ok m \<Longrightarrow> codec (encode_queue_declare_ok m) decode_queue_declare_ok m"
  unfolding encode_queue_declare_ok_def decode_queue_declare_ok_def [abs_def] valid_queue_declare_ok_def
  by ((elim conjE)?, (rule codec_steps amqp_status_negative | assumption)+, simp split del: if_split cong: if_cong)

lemma codec_queue_bind [codec_methods]: "valid_queue_bind m \<Longrightarrow> codec (encode_queue_bind m) decode_queue_bind m"
  unfolding encode_queue_bind_def decode_queue_bind_def [abs_def] valid_queue_bind_def
  by ((elim conjE)?, (rule codec_steps amqp_status_negative | assumption)+, simp split del: if_split cong: if_cong)

lemma codec_queue_purge [codec_methods]: "valid_queue_purge m \<Longrightarrow> codec (encode_queue_purge m) decode_queue_purge m"
  unfolding encode_queue_purge_def decode_queue_purge_def [abs_def] valid_queue_purge_def
  by ((elim conjE)?, (rule codec_steps amqp_status_negative | assumption)+, simp split del: if_split cong: if_cong)

lemma codec_queue_purge_ok [codec_methods]: "valid_queue_purge_ok m \<Longrightarrow> codec (encode_queue_purge_ok m) decode_queue_purge_ok m"
  unfolding encode_queue_purge_ok_def decode_queue_purge_ok_def [abs_def] valid_queue_purge_ok_def
  by ((elim conjE)?, (rule codec_steps amqp_status_negative | assumption)+, simp split del: if_split cong: if_cong)

lemma codec_queue_delete [codec_methods]: "valid_queue_delete m \<Longrightarrow> codec (encode_queue_delete m) decode_queue_delete m"
  unfolding encode_queue_delete_def decode_queue_delete_def [abs_def] valid_queue_delete_def
  by ((elim conjE)?, (rule codec_steps amqp_status_negative | assumption)+, simp split del: if_split cong: if_cong)

lemma codec_queue_delete_ok [codec_methods]: "valid_queue_delete_ok m \<Longrightarrow> codec (encode_queue_delete_ok m) decode_queue_delete_ok m"
  unfolding encode_queue_delete_ok_def decode_queue_delete_ok_def [abs_def] valid_queue_delete_ok_def
  by ((elim conjE)?, (rule codec_steps amqp_status_negative | assumption)+, simp split del: if_split cong: if_cong)

lemma codec_queue_unbind [codec_methods]: "valid_queue_unbind m \<Longrightarrow> codec (encode_queue_unbind m) decode_queue_unbind m"
  unfolding encode_queue_unbind_def decode_queue_unbind_def [abs_def] valid_queue_unbind_def
  by ((elim conjE)?, (rule codec_steps amqp_status_negative | assumption)+, simp split del: if_split cong: if_cong)

lemma codec_basic_qos [codec_methods]: "valid_basic_qos m \<Longrightarrow> codec (encode_basic_qos m) decode_basic_qos m"
  unfolding encode_basic_qos_def decode_basic_qos_def [abs_def] valid_basic_qos_def
  by ((elim conjE)?, (rule codec_steps amqp_status_negative | assumption)+, simp split del: if_split cong: if_cong)

lemma codec_basic_consume [codec_methods]: "valid_basic_consume m \<Longrightarrow> codec (encode_basic_consume m) decode_basic_consume m"
  unfolding encode_basic_consume_def decode_basic_consume_def [abs_def] valid_basic_consume_def
  by ((elim conjE)?, (rule codec_steps amqp_status_negative | assumption)+, simp split del: if_split cong: if_cong)

lemma codec_basic_consume_ok [codec_methods]: "valid_basic_consume_ok m \<Longrightarrow> codec (encode_basic_consume_ok m) decode_basic_consume_ok m"
  unfolding encode_basic_consume_ok_def decode_basic_consume_ok_def [abs_def] valid_basic_consume_ok_def
  by ((elim conjE)?, (rule codec_steps amqp_status_negative | assumption)+, simp split del: if_split cong: if_cong)

lemma codec_basic_cancel [codec_methods]: "valid_basic_cancel m \<Longrightarrow> codec (encode_basic_cancel m) decode_basic_cancel m"
  unfolding encode_basic_cancel_def decode_basic_cancel_def [abs_def] valid_basic_cancel_def
  by ((elim conjE)?, (rule codec_steps amqp_status_negative | assumption)+, simp split del: if_split cong: if_cong)

lemma codec_basic_cancel_ok [codec_methods]: "valid_basic_cancel_ok m \<Longrightarrow> codec (encode_basic_cancel_ok m) decode_basic_cancel_ok m"
  unfolding encode_basic_cancel_ok_def decode_basic_cancel_ok_def [abs_def] valid_basic_cancel_ok_def
  by ((elim conjE)?, (rule codec_steps amqp_status_negative | assumption)+, simp split del: if_split cong: if_cong)

lemma codec_basic_publish [codec_methods]: "valid_basic_publish m \<Longrightarrow> codec (encode_basic_publish m) decode_basic_publish m"
  unfolding encode_basic_publish_def decode_basic_publish_def [abs_def] valid_basic_publish_def
  by ((elim conjE)?, (rule codec_steps amqp_status_negative | assumption)+, simp split del: if_split cong: if_cong)

lemma codec_basic_return [codec_methods]: "valid_basic_return m \<Longrightarrow> codec (encode_basic_return m) decode_basic_return m"
  unfolding encode_basic_return_def decode_basic_return_def [abs_def] valid_basic_return_def
  by ((elim conjE)?, (rule codec_steps amqp_status_negative | assumption)+, simp split del: if_split cong: if_cong)

lemma codec_basic_deliver [codec_methods]: "valid_basic_deliver m \<Longrightarrow> codec (encode_basic_deliver m) decode_basic_deliver m"
  unfolding encode_basic_deliver_def decode_basic_deliver_def [abs_def] valid_basic_deliver_def
  by ((elim conjE)?, (rule codec_steps amqp_status_negative | assumption)+, simp split del: if_split cong: if_cong)

lemma codec_basic_get [codec_methods]: "valid_basic_get m \<Longrightarrow> codec (encode_basic_get m) decode_basic_get m"
  unfolding encode_basic_get_def decode_basic_get_def [abs_def] valid_basic_get_def
  by ((elim conjE)?, (rule codec_steps amqp_status_negative | assumption)+, simp split del: if_split cong: if_cong)

lemma codec_basic_get_ok [codec_methods]: "valid_basic_get_ok m \<Longrightarrow> codec (encode_basic_get_ok m) decode_basic_get_ok m"
  unfolding encode_basic_get_ok_def decode_basic_get_ok_def [abs_def] valid_basic_get_ok_def
  by ((elim conjE)?, (rule codec_steps amqp_status_negative | assumption)+, simp split del: if_split cong: if_cong)

lemma codec_basic_get_empty [codec_methods]: "valid_basic_get_empty m \<Longrightarrow> codec (encode_basic_get_empty m) decode_basic_get_empty m"
  unfolding encode_basic_get_empty_def decode_basic_get_empty_def [abs_def] valid_basic_get_empty_def
  by ((elim conjE)?, (rule codec_steps amqp_status_negative | assumption)+, simp split del: if_split cong: if_cong)

lemma codec_basic_ack [codec_methods]: "valid_basic_ack m \<Longrightarrow> codec (encode_basic_ack m) decode_basic_ack m"
  unfolding encode_basic_ack_def decode_basic_ack_def [abs_def] valid_basic_ack_def
  by ((elim conjE)?, (rule codec_steps amqp_status_negative | assumption)+, simp split del: if_split cong: if_cong)

lemma codec_basic_reject [codec_methods]: "valid_basic_reject m \<Longrightarrow> codec (encode_basic_reject m) decode_basic_reject m"
  unfolding encode_basic_reject_def decode_basic_reject_def [abs_def] valid_basic_reject_def
  by ((elim conjE)?, (rule codec_steps amqp_status_negative | assumption)+, simp split del: if_split cong: if_cong)

lemma codec_basic_recover_async [codec_methods]: "valid_basic_recover_async m \<Longrightarrow> codec (encode_basic_recover_async m) decode_basic_recover_async m"
  unfolding encode_basic_recover_async_def decode_basic_recover_async_def [abs_def] valid_basic_recover_async_def
  by ((elim conjE)?, (rule codec_steps amqp_status_negative | assumption)+, simp split del: if_split cong: if_cong)

lemma codec_basic_recover [codec_methods]: "valid_basic_recover m \<Longrightarrow> codec (encode_basic_recover m) decode_basic_recover m"
  unfolding encode_basic_recover_def decode_basic_recover_def [abs_def] valid_basic_recover_def
  by ((elim conjE)?, (rule codec_steps amqp_status_negative | assumption)+, simp split del: if_split cong: if_cong)

lemma codec_basic_nack [codec_methods]: "valid_basic_nack m \<Longrightarrow> codec (encode_basic_nack m) decode_basic_nack m"
  unfolding encode_basic_nack_def decode_basic_nack_def [abs_def] valid_basic_nack_def
  by ((elim conjE)?, (rule codec_steps amqp_status_negative | assumption)+, simp split del: if_split cong: if_cong)

lemma codec_confirm_select [codec_methods]: "valid_confirm_select m \<Longrightarrow> codec (encode_confirm_select m) decode_confirm_select m"
  unfolding encode_confirm_select_def decode_confirm_select_def [abs_def] valid_confirm_select_def
  by ((elim conjE)?, (rule codec_steps amqp_status_negative | assumption)+, simp split del: if_split cong: if_cong)

section \<open>All methods\<close>

text \<open>\<open>f\<close> writes bytes, the same for every buffer, from which \<open>g\<close> gets \<open>y\<close>.\<close>

definition sends :: "(encoding \<Rightarrow> int + encoding) \<Rightarrow> (string \<Rightarrow> int + 'a) \<Rightarrow> 'a \<Rightarrow> bool" where
  "sends f g y \<longleftrightarrow> (\<exists>w. writes f w \<and> g w = Inr y)"

lemma sends_codec: "codec f d x \<Longrightarrow> sends f (\<lambda>e. decoded_as C (d e 0)) (C x)"
  by (auto simp: codec_def sends_def decoded_as_def dest: readsD [OF _ holds_at_self])

lemma sends_empty: "sends Inr (\<lambda>e. Inr y) y"
  unfolding sends_def using writes_return by blast

lemma writes_result:
  assumes "writes f w"
  shows "if length w \<le> length e
     then \<exists>b. f (e, 0) = Inr (b, length w) \<and> length b = length e \<and> take (length w) b = w \<and>
        drop (length w) b = drop (length w) e
     else \<exists>res<0. f (e, 0) = Inl res"
proof (cases "length w \<le> length e")
  case True
  then show ?thesis using writes_fit [OF assms, of 0 e] by (simp add: put_at_def)
next
  case False
  then have "w \<noteq> []" by auto
  with False assms show ?thesis by (simp add: writes_def)
qed

lemma sends_result:
  assumes "sends f g y"
  shows "\<exists>n. \<forall>e. if n \<le> length e
     then int n \<le> INT_MAX \<longrightarrow> (\<exists>b. then_do (f (e, 0)) return_offset = Inr (b, n) \<and>
        length b = length e \<and> drop n b = drop n e \<and> g (take n b) = Inr y)
     else \<exists>res<0. then_do (f (e, 0)) return_offset = Inl res"
proof -
  obtain w where w: "writes f w" "g w = Inr y" using assms by (auto simp: sends_def)
  have "if length w \<le> length e
     then int (length w) \<le> INT_MAX \<longrightarrow> (\<exists>b. then_do (f (e, 0)) return_offset = Inr (b, length w) \<and>
        length b = length e \<and> drop (length w) b = drop (length w) e \<and> g (take (length w) b) = Inr y)
     else \<exists>res<0. then_do (f (e, 0)) return_offset = Inl res" for e
    using writes_result [OF w(1), of e] w(2) by (auto split: if_splits)
  then show ?thesis by blast
qed

lemma decode_switch:
  "amqp_decode_method AMQP_CONNECTION_START_METHOD = (\<lambda>e. decoded_as Connection_start (decode_connection_start e 0))"
  "amqp_decode_method AMQP_CONNECTION_START_OK_METHOD = (\<lambda>e. decoded_as Connection_start_ok (decode_connection_start_ok e 0))"
  "amqp_decode_method AMQP_CONNECTION_SECURE_METHOD = (\<lambda>e. decoded_as Connection_secure (decode_connection_secure e 0))"
  "amqp_decode_method AMQP_CONNECTION_SECURE_OK_METHOD = (\<lambda>e. decoded_as Connection_secure_ok (decode_connection_secure_ok e 0))"
  "amqp_decode_method AMQP_CONNECTION_TUNE_METHOD = (\<lambda>e. decoded_as Connection_tune (decode_connection_tune e 0))"
  "amqp_decode_method AMQP_CONNECTION_TUNE_OK_METHOD = (\<lambda>e. decoded_as Connection_tune_ok (decode_connection_tune_ok e 0))"
  "amqp_decode_method AMQP_CONNECTION_OPEN_METHOD = (\<lambda>e. decoded_as Connection_open (decode_connection_open e 0))"
  "amqp_decode_method AMQP_CONNECTION_OPEN_OK_METHOD = (\<lambda>e. decoded_as Connection_open_ok (decode_connection_open_ok e 0))"
  "amqp_decode_method AMQP_CONNECTION_CLOSE_METHOD = (\<lambda>e. decoded_as Connection_close (decode_connection_close e 0))"
  "amqp_decode_method AMQP_CONNECTION_CLOSE_OK_METHOD = (\<lambda>e. Inr Connection_close_ok)"
  "amqp_decode_method AMQP_CHANNEL_OPEN_METHOD = (\<lambda>e. decoded_as Channel_open (decode_channel_open e 0))"
  "amqp_decode_method AMQP_CHANNEL_OPEN_OK_METHOD = (\<lambda>e. decoded_as Channel_open_ok (decode_channel_open_ok e 0))"
  "amqp_decode_method AMQP_CHANNEL_FLOW_METHOD = (\<lambda>e. decoded_as Channel_flow (decode_channel_flow e 0))"
  "amqp_decode_method AMQP_CHANNEL_FLOW_OK_METHOD = (\<lambda>e. decoded_as Channel_flow_ok (decode_channel_flow_ok e 0))"
  "amqp_decode_method AMQP_CHANNEL_CLOSE_METHOD = (\<lambda>e. decoded_as Channel_close (decode_channel_close e 0))"
  "amqp_decode_method AMQP_CHANNEL_CLOSE_OK_METHOD = (\<lambda>e. Inr Channel_close_ok)"
  "amqp_decode_method AMQP_ACCESS_REQUEST_METHOD = (\<lambda>e. decoded_as Access_request (decode_access_request e 0))"
  "amqp_decode_method AMQP_ACCESS_REQUEST_OK_METHOD = (\<lambda>e. decoded_as Access_request_ok (decode_access_request_ok e 0))"
  "amqp_decode_method AMQP_EXCHANGE_DECLARE_METHOD = (\<lambda>e. decoded_as Exchange_declare (decode_exchange_declare e 0))"
  "amqp_decode_method AMQP_EXCHANGE_DECLARE_OK_METHOD = (\<lambda>e. Inr Exchange_declare_ok)"
  "amqp_decode_method AMQP_EXCHANGE_DELETE_METHOD = (\<lambda>e. decoded_as Exchange_delete (decode_exchange_delete e 0))"
  "amqp_decode_method AMQP_EXCHANGE_DELETE_OK_METHOD = (\<lambda>e. Inr Exchange_delete_ok)"
  "amqp_decode_method AMQP_EXCHANGE_BIND_METHOD = (\<lambda>e. decoded_as Exchange_bind (decode_exchange_bind e 0))"
  "amqp_decode_method AMQP_EXCHANGE_BIND_OK_METHOD = (\<lambda>e. Inr Exchange_bind_ok)"
  "amqp_decode_method AMQP_EXCHANGE_UNBIND_METHOD = (\<lambda>e. decoded_as Exchange_unbind (decode_exchange_unbind e 0))"
  "amqp_decode_method AMQP_EXCHANGE_UNBIND_OK_METHOD = (\<lambda>e. Inr Exchange_unbind_ok)"
  "amqp_decode_method AMQP_QUEUE_DECLARE_METHOD = (\<lambda>e. decoded_as Queue_declare (decode_queue_declare e 0))"
  "amqp_decode_method AMQP_QUEUE_DECLARE_OK_METHOD = (\<lambda>e. decoded_as Queue_declare_ok (decode_queue_declare_ok e 0))"
  "amqp_decode_method AMQP_QUEUE_BIND_METHOD = (\<lambda>e. decoded_as Queue_bind (decode_queue_bind e 0))"
  "amqp_decode_method AMQP_QUEUE_BIND_OK_METHOD = (\<lambda>e. Inr Queue_bind_ok)"
  "amqp_decode_method AMQP_QUEUE_PURGE_METHOD = (\<lambda>e. decoded_as Queue_purge (decode_queue_purge e 0))"
  "amqp_decode_method AMQP_QUEUE_PURGE_OK_METHOD = (\<lambda>e. decoded_as Queue_purge_ok (decode_queue_purge_ok e 0))"
  "amqp_decode_method AMQP_QUEUE_DELETE_METHOD = (\<lambda>e. decoded_as Queue_delete (decode_queue_delete e 0))"
  "amqp_decode_method AMQP_QUEUE_DELETE_OK_METHOD = (\<lambda>e. decoded_as Queue_delete_ok (decode_queue_delete_ok e 0))"
  "amqp_decode_method AMQP_QUEUE_UNBIND_METHOD = (\<lambda>e. decoded_as Queue_unbind (decode_queue_unbind e 0))"
  "amqp_decode_method AMQP_QUEUE_UNBIND_OK_METHOD = (\<lambda>e. Inr Queue_unbind_ok)"
  "amqp_decode_method AMQP_BASIC_QOS_METHOD = (\<lambda>e. decoded_as Basic_qos (decode_basic_qos e 0))"
  "amqp_decode_method AMQP_BASIC_QOS_OK_METHOD = (\<lambda>e. Inr Basic_qos_ok)"
  "amqp_decode_method AMQP_BASIC_CONSUME_METHOD = (\<lambda>e. decoded_as Basic_consume (decode_basic_consume e 0))"
  "amqp_decode_method AMQP_BASIC_CONSUME_OK_METHOD = (\<lambda>e. decoded_as Basic_consume_ok (decode_basic_consume_ok e 0))"
  "amqp_decode_method AMQP_BASIC_CANCEL_METHOD = (\<lambda>e. decoded_as Basic_cancel (decode_basic_cancel e 0))"
  "amqp_decode_method AMQP_BASIC_CANCEL_OK_METHOD = (\<lambda>e. decoded_as Basic_cancel_ok (decode_basic_cancel_ok e 0))"
  "amqp_decode_method AMQP_BASIC_PUBLISH_METHOD = (\<lambda>e. decoded_as Basic_publish (decode_basic_publish e 0))"
  "amqp_decode_method AMQP_BASIC_RETURN_METHOD = (\<lambda>e. decoded_as Basic_return (decode_basic_return e 0))"
  "amqp_decode_method AMQP_BASIC_DELIVER_METHOD = (\<lambda>e. decoded_as Basic_deliver (decode_basic_deliver e 0))"
  "amqp_decode_method AMQP_BASIC_GET_METHOD = (\<lambda>e. decoded_as Basic_get (decode_basic_get e 0))"
  "amqp_decode_method AMQP_BASIC_GET_OK_METHOD = (\<lambda>e. decoded_as Basic_get_ok (decode_basic_get_ok e 0))"
  "amqp_decode_method AMQP_BASIC_GET_EMPTY_METHOD = (\<lambda>e. decoded_as Basic_get_empty (decode_basic_get_empty e 0))"
  "amqp_decode_method AMQP_BASIC_ACK_METHOD = (\<lambda>e. decoded_as Basic_ack (decode_basic_ack e 0))"
  "amqp_decode_method AMQP_BASIC_REJECT_METHOD = (\<lambda>e. decoded_as Basic_reject (decode_basic_reject e 0))"
  "amqp_decode_method AMQP_BASIC_RECOVER_ASYNC_METHOD = (\<lambda>e. decoded_as Basic_recover_async (decode_basic_recover_async e 0))"
  "amqp_decode_method AMQP_BASIC_RECOVER_METHOD = (\<lambda>e. decoded_as Basic_recover (decode_basic_recover e 0))"
  "amqp_decode_method AMQP_BASIC_RECOVER_OK_METHOD = (\<lambda>e. Inr Basic_recover_ok)"
  "amqp_decode_method AMQP_BASIC_NACK_METHOD = (\<lambda>e. decoded_as Basic_nack (decode_basic_nack e 0))"
  "amqp_decode_method AMQP_TX_SELECT_METHOD = (\<lambda>e. Inr Tx_select)"
  "amqp_decode_method AMQP_TX_SELECT_OK_METHOD = (\<lambda>e. Inr Tx_select_ok)"
  "amqp_decode_method AMQP_TX_COMMIT_METHOD = (\<lambda>e. Inr Tx_commit)"
  "amqp_decode_method AMQP_TX_COMMIT_OK_METHOD = (\<lambda>e. Inr Tx_commit_ok)"
  "amqp_decode_method AMQP_TX_ROLLBACK_METHOD = (\<lambda>e. Inr Tx_rollback)"
  "amqp_decode_method AMQP_TX_ROLLBACK_OK_METHOD = (\<lambda>e. Inr Tx_rollback_ok)"
  "amqp_decode_method AMQP_CONFIRM_SELECT_METHOD = (\<lambda>e. decoded_as Confirm_select (decode_confirm_select e 0))"
  "amqp_decode_method AMQP_CONFIRM_SELECT_OK_METHOD = (\<lambda>e. Inr Confirm_select_ok)"
  by (simp_all add: amqp_decode_method_def [abs_def] method_numbers)

lemma method_sends: "valid_method m \<Longrightarrow> sends (encode_decoded m) (amqp_decode_method (method_number m)) m"
  by (cases m; simp add: decode_switch)
    (rule sends_empty | rule sends_codec, rule codec_methods, assumption)+

lemma amqp_encode_method_own: "amqp_encode_method (method_number m) m encoded =
    Some (then_do (encode_decoded m (encoded, 0)) return_offset)"
  by (simp add: amqp_encode_method_def)

end
