(* ===== verification/Rabbit_Content_Facts.thy ===== *)
theory Rabbit_Content_Facts
  imports Rabbit_Framing_Facts
begin

text \<open>
  Content properties: the flag words, and that the decoder restores the members that have a flag.
\<close>

section \<open>Flags\<close>

text \<open>Flags that fit into one word; the lowest bit is the continuation.\<close>

definition one_word :: "32 word \<Rightarrow> bool" where "one_word flags \<longleftrightarrow> flags AND 0xFFFE = flags"

lemma one_word_facts:
  assumes "one_word flags"
  shows "drop_bit 16 flags = 0" and "(ucast flags :: 16 word) AND 1 = 0"
    and "word_of_int (uint (ucast flags :: 16 word)) = flags"
proof -
  have bits: "bit flags n \<longleftrightarrow> n < 16 \<and> 0 < n \<and> bit flags n" for n
  proof -
    have "bit flags n = bit (flags AND 0xFFFE) n" using assms by (simp add: one_word_def)
    also have "\<dots> \<longleftrightarrow> bit flags n \<and> bit (0xFFFE :: 32 word) n" by (simp add: bit_and_iff)
    also have "(0xFFFE :: 32 word) = mask 16 AND NOT 1" by (simp add: mask_eq_exp_minus_1)
    finally show ?thesis by (auto simp: bit_simps)
  qed
  show "drop_bit 16 flags = 0"
    by (rule bit_word_eqI) (use bits in \<open>auto simp: bit_simps\<close>)
  show "(ucast flags :: 16 word) AND 1 = 0"
  proof (rule bit_word_eqI)
    fix n assume "n < LENGTH(16)"
    then show "bit ((ucast flags :: 16 word) AND 1) n = bit (0 :: 16 word) n"
      using bits [of 0] by (cases n) (auto simp: bit_simps)
  qed
  have "(ucast (ucast flags :: 16 word) :: 32 word) = flags"
  proof (rule bit_word_eqI)
    fix n assume "n < LENGTH(32)"
    then show "bit (ucast (ucast flags :: 16 word) :: 32 word) n = bit flags n"
      using bits [of n] by (auto simp: bit_simps)
  qed
  then show "word_of_int (uint (ucast flags :: 16 word)) = flags" by simp
qed

lemma encode_one_word: "one_word flags \<Longrightarrow> encode_flags flags = put_16 bad_data (ucast flags)"
  by (rule ext, subst encode_flags.simps)
    (auto simp: one_word_facts Let_def, simp add: one_word_def then_do_def split: sum.splits)

lemma decode_one_word:
  assumes "one_word flags" and "get_16 e 0 = Inr (ucast flags, n)"
  shows "decode_flags e 0 0 0 = Some (Inr (flags, n))"
proof -
  define x where "x = uint (ucast flags :: 16 word)"
  have "0 \<le> x" "x < 2 ^ 16"
    using uint_lt2p [of "ucast flags :: 16 word"] by (simp_all add: x_def)
  then have "int_result x = Some x"
    by (simp add: int_result_def is_int_def INT_MIN_def INT_MAX_def)
  then have "shift_flags (ucast flags) 0 = Some flags"
    using one_word_facts(3) [OF assms(1)] by (simp add: shift_flags_def x_def)
  then show ?thesis
    by (subst decode_flags.simps) (simp add: assms one_word_facts)
qed

section \<open>Members\<close>

lemma writes_unique:
  assumes "writes f u" and "writes f w"
  shows "u = w"
proof -
  define b :: string where "b = replicate (length u + length w) NUL"
  have "length b = length u + length w" by (simp add: b_def)
  then have "0 + length u \<le> length b" "0 + length w \<le> length b" by simp_all
  from writes_fit [OF assms(1) this(1)] writes_fit [OF assms(2) this(2)]
  have "put_at b 0 u = put_at b 0 w \<and> length u = length w" by simp
  then show ?thesis by (metis append_eq_append_conv append.left_neutral put_at_def take0)
qed

definition members_codec ::
  "(encoding \<Rightarrow> int + encoding) list \<Rightarrow> (string \<Rightarrow> ('p \<times> nat \<Rightarrow> int + 'p \<times> nat) list) \<Rightarrow> 'p \<Rightarrow> 'p \<Rightarrow> bool" where
  "members_codec fs ds p q \<longleftrightarrow> (\<exists>w. writes (run_steps fs) w \<and>
     (\<forall>e o1. holds_at e o1 w \<longrightarrow> run_steps (ds e) (p, o1) = Inr (q, o1 + length w)))"

lemma members_codec_Nil: "p = q \<Longrightarrow> members_codec [] (\<lambda>e. []) p q"
  unfolding members_codec_def by (rule exI [of _ "[]"]) (simp add: writes_run_Nil)

lemma members_codec_Cons:
  assumes f: "c \<Longrightarrow> codec f d v" and upd: "upd (\<lambda>x. x) p = p"
    and m: "members_codec fs ds (upd (\<lambda>x. if c then v else x) p) q"
  shows "members_codec (put_if c f # fs) (\<lambda>e. get_if c d (\<lambda>v p. upd (\<lambda>_. v) p) e # ds e) p q"
proof -
  obtain w where w: "writes (run_steps fs) w"
    and r: "\<And>e o1. holds_at e o1 w \<Longrightarrow>
      run_steps (ds e) (upd (\<lambda>x. if c then v else x) p, o1) = Inr (q, o1 + length w)"
    using m by (auto simp: members_codec_def)
  show ?thesis
  proof (cases c)
    case True
    then obtain u where u: "writes f u" "reads d u v" using f by (auto simp: codec_def)
    have "put_if c f = f" using True by (simp add: put_if_def fun_eq_iff)
    then have "writes (run_steps (put_if c f # fs)) (u @ w)" using writes_run_Cons [OF u(1) w] by simp
    moreover have "run_steps (get_if c d (\<lambda>v p. upd (\<lambda>_. v) p) e # ds e) (p, o1) = Inr (q, o1 + length (u @ w))"
      if "holds_at e o1 (u @ w)" for e o1
      using that r [of e "o1 + length u"] readsD [OF u(2), of e o1] True by (simp add: get_if_def add.assoc)
    ultimately show ?thesis unfolding members_codec_def by blast
  next
    case False
    have "writes (run_steps (put_if c f # fs)) w"
      using w False by (simp add: put_if_def writes_def)
    moreover have "run_steps (get_if c d (\<lambda>v p. upd (\<lambda>_. v) p) e # ds e) (p, o1) = Inr (q, o1 + length w)"
      if "holds_at e o1 w" for e o1
      using that r [of e o1] False upd by (simp add: get_if_def)
    ultimately show ?thesis unfolding members_codec_def by blast
  qed
qed

text \<open>The members of \<open>p\<close> that have a flag, the others from \<open>p0\<close>.\<close>

definition flagged :: "amqp_basic_properties \<Rightarrow> amqp_basic_properties \<Rightarrow> amqp_basic_properties" where
  "flagged p p0 = (let flags = basic_properties_flags p in \<lparr>
     basic_properties_flags = flags,
     basic_properties_content_type = (if flags AND AMQP_BASIC_CONTENT_TYPE_FLAG \<noteq> 0 then basic_properties_content_type p else basic_properties_content_type p0),
     basic_properties_content_encoding = (if flags AND AMQP_BASIC_CONTENT_ENCODING_FLAG \<noteq> 0 then basic_properties_content_encoding p else basic_properties_content_encoding p0),
     basic_properties_headers = (if flags AND AMQP_BASIC_HEADERS_FLAG \<noteq> 0 then basic_properties_headers p else basic_properties_headers p0),
     basic_properties_delivery_mode = (if flags AND AMQP_BASIC_DELIVERY_MODE_FLAG \<noteq> 0 then basic_properties_delivery_mode p else basic_properties_delivery_mode p0),
     basic_properties_priority = (if flags AND AMQP_BASIC_PRIORITY_FLAG \<noteq> 0 then basic_properties_priority p else basic_properties_priority p0),
     basic_properties_correlation_id = (if flags AND AMQP_BASIC_CORRELATION_ID_FLAG \<noteq> 0 then basic_properties_correlation_id p else basic_properties_correlation_id p0),
     basic_properties_reply_to = (if flags AND AMQP_BASIC_REPLY_TO_FLAG \<noteq> 0 then basic_properties_reply_to p else basic_properties_reply_to p0),
     basic_properties_expiration = (if flags AND AMQP_BASIC_EXPIRATION_FLAG \<noteq> 0 then basic_properties_expiration p else basic_properties_expiration p0),
     basic_properties_message_id = (if flags AND AMQP_BASIC_MESSAGE_ID_FLAG \<noteq> 0 then basic_properties_message_id p else basic_properties_message_id p0),
     basic_properties_timestamp = (if flags AND AMQP_BASIC_TIMESTAMP_FLAG \<noteq> 0 then basic_properties_timestamp p else basic_properties_timestamp p0),
     basic_properties_type = (if flags AND AMQP_BASIC_TYPE_FLAG \<noteq> 0 then basic_properties_type p else basic_properties_type p0),
     basic_properties_user_id = (if flags AND AMQP_BASIC_USER_ID_FLAG \<noteq> 0 then basic_properties_user_id p else basic_properties_user_id p0),
     basic_properties_app_id = (if flags AND AMQP_BASIC_APP_ID_FLAG \<noteq> 0 then basic_properties_app_id p else basic_properties_app_id p0),
     basic_properties_cluster_id = (if flags AND AMQP_BASIC_CLUSTER_ID_FLAG \<noteq> 0 then basic_properties_cluster_id p else basic_properties_cluster_id p0)\<rparr>)"

definition valid_basic_properties :: "amqp_basic_properties \<Rightarrow> bool" where
  "valid_basic_properties p \<longleftrightarrow> (let flags = basic_properties_flags p in one_word flags \<and>
     (flags AND AMQP_BASIC_CONTENT_TYPE_FLAG \<noteq> 0 \<longrightarrow> is_short (basic_properties_content_type p)) \<and>
     (flags AND AMQP_BASIC_CONTENT_ENCODING_FLAG \<noteq> 0 \<longrightarrow> is_short (basic_properties_content_encoding p)) \<and>
     (flags AND AMQP_BASIC_HEADERS_FLAG \<noteq> 0 \<longrightarrow> sendable_table (basic_properties_headers p)) \<and>
     (flags AND AMQP_BASIC_CORRELATION_ID_FLAG \<noteq> 0 \<longrightarrow> is_short (basic_properties_correlation_id p)) \<and>
     (flags AND AMQP_BASIC_REPLY_TO_FLAG \<noteq> 0 \<longrightarrow> is_short (basic_properties_reply_to p)) \<and>
     (flags AND AMQP_BASIC_EXPIRATION_FLAG \<noteq> 0 \<longrightarrow> is_short (basic_properties_expiration p)) \<and>
     (flags AND AMQP_BASIC_MESSAGE_ID_FLAG \<noteq> 0 \<longrightarrow> is_short (basic_properties_message_id p)) \<and>
     (flags AND AMQP_BASIC_TYPE_FLAG \<noteq> 0 \<longrightarrow> is_short (basic_properties_type p)) \<and>
     (flags AND AMQP_BASIC_USER_ID_FLAG \<noteq> 0 \<longrightarrow> is_short (basic_properties_user_id p)) \<and>
     (flags AND AMQP_BASIC_APP_ID_FLAG \<noteq> 0 \<longrightarrow> is_short (basic_properties_app_id p)) \<and>
     (flags AND AMQP_BASIC_CLUSTER_ID_FLAG \<noteq> 0 \<longrightarrow> is_short (basic_properties_cluster_id p)))"

lemma basic_members:
  assumes "valid_basic_properties p" and "flags = basic_properties_flags p"
  shows "members_codec [
     put_if (flags AND AMQP_BASIC_CONTENT_TYPE_FLAG \<noteq> 0) (put_short bad_data (basic_properties_content_type p)),
     put_if (flags AND AMQP_BASIC_CONTENT_ENCODING_FLAG \<noteq> 0) (put_short bad_data (basic_properties_content_encoding p)),
     put_if (flags AND AMQP_BASIC_HEADERS_FLAG \<noteq> 0) (amqp_encode_table (basic_properties_headers p)),
     put_if (flags AND AMQP_BASIC_DELIVERY_MODE_FLAG \<noteq> 0) (put_8 bad_data (basic_properties_delivery_mode p)),
     put_if (flags AND AMQP_BASIC_PRIORITY_FLAG \<noteq> 0) (put_8 bad_data (basic_properties_priority p)),
     put_if (flags AND AMQP_BASIC_CORRELATION_ID_FLAG \<noteq> 0) (put_short bad_data (basic_properties_correlation_id p)),
     put_if (flags AND AMQP_BASIC_REPLY_TO_FLAG \<noteq> 0) (put_short bad_data (basic_properties_reply_to p)),
     put_if (flags AND AMQP_BASIC_EXPIRATION_FLAG \<noteq> 0) (put_short bad_data (basic_properties_expiration p)),
     put_if (flags AND AMQP_BASIC_MESSAGE_ID_FLAG \<noteq> 0) (put_short bad_data (basic_properties_message_id p)),
     put_if (flags AND AMQP_BASIC_TIMESTAMP_FLAG \<noteq> 0) (put_64 bad_data (basic_properties_timestamp p)),
     put_if (flags AND AMQP_BASIC_TYPE_FLAG \<noteq> 0) (put_short bad_data (basic_properties_type p)),
     put_if (flags AND AMQP_BASIC_USER_ID_FLAG \<noteq> 0) (put_short bad_data (basic_properties_user_id p)),
     put_if (flags AND AMQP_BASIC_APP_ID_FLAG \<noteq> 0) (put_short bad_data (basic_properties_app_id p)),
     put_if (flags AND AMQP_BASIC_CLUSTER_ID_FLAG \<noteq> 0) (put_short bad_data (basic_properties_cluster_id p))] (\<lambda>encoded. [
     get_if (flags AND AMQP_BASIC_CONTENT_TYPE_FLAG \<noteq> 0) get_short (\<lambda>v p. p\<lparr>basic_properties_content_type := v\<rparr>) encoded,
     get_if (flags AND AMQP_BASIC_CONTENT_ENCODING_FLAG \<noteq> 0) get_short (\<lambda>v p. p\<lparr>basic_properties_content_encoding := v\<rparr>) encoded,
     get_if (flags AND AMQP_BASIC_HEADERS_FLAG \<noteq> 0) amqp_decode_table (\<lambda>v p. p\<lparr>basic_properties_headers := v\<rparr>) encoded,
     get_if (flags AND AMQP_BASIC_DELIVERY_MODE_FLAG \<noteq> 0) get_8 (\<lambda>v p. p\<lparr>basic_properties_delivery_mode := v\<rparr>) encoded,
     get_if (flags AND AMQP_BASIC_PRIORITY_FLAG \<noteq> 0) get_8 (\<lambda>v p. p\<lparr>basic_properties_priority := v\<rparr>) encoded,
     get_if (flags AND AMQP_BASIC_CORRELATION_ID_FLAG \<noteq> 0) get_short (\<lambda>v p. p\<lparr>basic_properties_correlation_id := v\<rparr>) encoded,
     get_if (flags AND AMQP_BASIC_REPLY_TO_FLAG \<noteq> 0) get_short (\<lambda>v p. p\<lparr>basic_properties_reply_to := v\<rparr>) encoded,
     get_if (flags AND AMQP_BASIC_EXPIRATION_FLAG \<noteq> 0) get_short (\<lambda>v p. p\<lparr>basic_properties_expiration := v\<rparr>) encoded,
     get_if (flags AND AMQP_BASIC_MESSAGE_ID_FLAG \<noteq> 0) get_short (\<lambda>v p. p\<lparr>basic_properties_message_id := v\<rparr>) encoded,
     get_if (flags AND AMQP_BASIC_TIMESTAMP_FLAG \<noteq> 0) get_64 (\<lambda>v p. p\<lparr>basic_properties_timestamp := v\<rparr>) encoded,
     get_if (flags AND AMQP_BASIC_TYPE_FLAG \<noteq> 0) get_short (\<lambda>v p. p\<lparr>basic_properties_type := v\<rparr>) encoded,
     get_if (flags AND AMQP_BASIC_USER_ID_FLAG \<noteq> 0) get_short (\<lambda>v p. p\<lparr>basic_properties_user_id := v\<rparr>) encoded,
     get_if (flags AND AMQP_BASIC_APP_ID_FLAG \<noteq> 0) get_short (\<lambda>v p. p\<lparr>basic_properties_app_id := v\<rparr>) encoded,
     get_if (flags AND AMQP_BASIC_CLUSTER_ID_FLAG \<noteq> 0) get_short (\<lambda>v p. p\<lparr>basic_properties_cluster_id := v\<rparr>) encoded])
     (p0\<lparr>basic_properties_flags := flags\<rparr>) (flagged p p0)"
proof -
  have valid: "flags AND AMQP_BASIC_CONTENT_TYPE_FLAG \<noteq> 0 \<Longrightarrow> is_short (basic_properties_content_type p)"
    "flags AND AMQP_BASIC_CONTENT_ENCODING_FLAG \<noteq> 0 \<Longrightarrow> is_short (basic_properties_content_encoding p)"
    "flags AND AMQP_BASIC_HEADERS_FLAG \<noteq> 0 \<Longrightarrow> sendable_table (basic_properties_headers p)"
    "flags AND AMQP_BASIC_CORRELATION_ID_FLAG \<noteq> 0 \<Longrightarrow> is_short (basic_properties_correlation_id p)"
    "flags AND AMQP_BASIC_REPLY_TO_FLAG \<noteq> 0 \<Longrightarrow> is_short (basic_properties_reply_to p)"
    "flags AND AMQP_BASIC_EXPIRATION_FLAG \<noteq> 0 \<Longrightarrow> is_short (basic_properties_expiration p)"
    "flags AND AMQP_BASIC_MESSAGE_ID_FLAG \<noteq> 0 \<Longrightarrow> is_short (basic_properties_message_id p)"
    "flags AND AMQP_BASIC_TYPE_FLAG \<noteq> 0 \<Longrightarrow> is_short (basic_properties_type p)"
    "flags AND AMQP_BASIC_USER_ID_FLAG \<noteq> 0 \<Longrightarrow> is_short (basic_properties_user_id p)"
    "flags AND AMQP_BASIC_APP_ID_FLAG \<noteq> 0 \<Longrightarrow> is_short (basic_properties_app_id p)"
    "flags AND AMQP_BASIC_CLUSTER_ID_FLAG \<noteq> 0 \<Longrightarrow> is_short (basic_properties_cluster_id p)"
    using assms unfolding valid_basic_properties_def Let_def by blast+
  note codecs = codec_field [OF amqp_status_negative(1)] codec_table
  show ?thesis
    apply (rule members_codec_Cons [where upd = basic_properties_content_type_update and v = "basic_properties_content_type p"])
      apply (rule codecs, erule valid)
     apply simp
    apply (rule members_codec_Cons [where upd = basic_properties_content_encoding_update and v = "basic_properties_content_encoding p"])
      apply (rule codecs, erule valid)
     apply simp
    apply (rule members_codec_Cons [where upd = basic_properties_headers_update and v = "basic_properties_headers p"])
      apply (rule codecs, erule valid)
     apply simp
    apply (rule members_codec_Cons [where upd = basic_properties_delivery_mode_update and v = "basic_properties_delivery_mode p"])
      apply (rule codecs)
     apply simp
    apply (rule members_codec_Cons [where upd = basic_properties_priority_update and v = "basic_properties_priority p"])
      apply (rule codecs)
     apply simp
    apply (rule members_codec_Cons [where upd = basic_properties_correlation_id_update and v = "basic_properties_correlation_id p"])
      apply (rule codecs, erule valid)
     apply simp
    apply (rule members_codec_Cons [where upd = basic_properties_reply_to_update and v = "basic_properties_reply_to p"])
      apply (rule codecs, erule valid)
     apply simp
    apply (rule members_codec_Cons [where upd = basic_properties_expiration_update and v = "basic_properties_expiration p"])
      apply (rule codecs, erule valid)
     apply simp
    apply (rule members_codec_Cons [where upd = basic_properties_message_id_update and v = "basic_properties_message_id p"])
      apply (rule codecs, erule valid)
     apply simp
    apply (rule members_codec_Cons [where upd = basic_properties_timestamp_update and v = "basic_properties_timestamp p"])
      apply (rule codecs)
     apply simp
    apply (rule members_codec_Cons [where upd = basic_properties_type_update and v = "basic_properties_type p"])
      apply (rule codecs, erule valid)
     apply simp
    apply (rule members_codec_Cons [where upd = basic_properties_user_id_update and v = "basic_properties_user_id p"])
      apply (rule codecs, erule valid)
     apply simp
    apply (rule members_codec_Cons [where upd = basic_properties_app_id_update and v = "basic_properties_app_id p"])
      apply (rule codecs, erule valid)
     apply simp
    apply (rule members_codec_Cons [where upd = basic_properties_cluster_id_update and v = "basic_properties_cluster_id p"])
      apply (rule codecs, erule valid)
     apply simp
    apply (rule members_codec_Nil)
    apply (simp add: flagged_def assms(2) Let_def split del: if_split)
    done
qed

section \<open>All of them\<close>

lemma encode_properties_writes:
  assumes v: "valid_basic_properties p"
  shows "\<exists>w. writes (\<lambda>s. then_do (encode_flags (basic_properties_flags p) s) (encode_basic_properties p)) w \<and>
    (\<forall>e p0. holds_at e 0 w \<longrightarrow>
      amqp_decode_properties AMQP_BASIC_CLASS p0 e = Some (Inr (Basic_properties (flagged p p0))))"
proof -
  define flags where "flags = basic_properties_flags p"
  have ow: "one_word flags" using v by (simp add: valid_basic_properties_def flags_def Let_def)
  let ?u = "wire (ucast flags :: 16 word)"
  note m = basic_members [OF v flags_def, unfolded members_codec_def]
  obtain w where w: "writes (encode_basic_properties p) w"
    using m [of undefined] unfolding encode_basic_properties_def flags_def Let_def by blast
  have r: "decode_basic_properties flags e (p0\<lparr>basic_properties_flags := flags\<rparr>, o1) =
      Inr (flagged p p0, o1 + length w)" if "holds_at e o1 w" for e o1 p0
  proof -
    obtain w' where w': "writes (encode_basic_properties p) w'"
      "\<And>e o1. holds_at e o1 w' \<Longrightarrow>
        decode_basic_properties flags e (p0\<lparr>basic_properties_flags := flags\<rparr>, o1) = Inr (flagged p p0, o1 + length w')"
      using m [of p0] unfolding encode_basic_properties_def decode_basic_properties_def flags_def Let_def by blast
    from writes_unique [OF w w'(1)] w'(2) that show ?thesis by simp
  qed
  have "writes (\<lambda>s. then_do (encode_flags flags s) (encode_basic_properties p)) (?u @ w)"
    unfolding encode_one_word [OF ow] by (intro writes_then w writes_put_16 amqp_status_negative)
  moreover have "amqp_decode_properties AMQP_BASIC_CLASS p0 e = Some (Inr (Basic_properties (flagged p p0)))"
    if h: "holds_at e 0 (?u @ w)" for e p0
  proof -
    have "get_16 e 0 = Inr (ucast flags, 2)" using readsD [OF reads_get_16, of e 0 "ucast flags"] h by simp
    moreover have "holds_at e 2 w" using h by (simp add: numeral_2_eq_2)
    ultimately show ?thesis using decode_one_word [OF ow, of e 2] r [of e 2 p0]
      by (simp add: amqp_decode_properties_def amqp_classes)
  qed
  ultimately show ?thesis unfolding flags_def by blast
qed

lemma amqp_encode_properties_basic:
  "amqp_encode_properties AMQP_BASIC_CLASS (Basic_properties p) encoded =
    Some (then_do (then_do (encode_flags (basic_properties_flags p) (encoded, 0)) (encode_basic_properties p)) return_offset)"
  by (auto simp: amqp_encode_properties_def split: sum.split)

lemma properties_send:
  assumes "valid_basic_properties p"
  shows "\<exists>n. \<forall>encoded. if n \<le> length encoded
     then int n \<le> INT_MAX \<longrightarrow>
        (\<exists>b. amqp_encode_properties AMQP_BASIC_CLASS (Basic_properties p) encoded = Some (Inr (b, n)) \<and>
        length b = length encoded \<and> drop n b = drop n encoded \<and>
        (\<forall>p0. amqp_decode_properties AMQP_BASIC_CLASS p0 (take n b) =
          Some (Inr (Basic_properties (flagged p p0)))))
     else \<exists>res<0. amqp_encode_properties AMQP_BASIC_CLASS (Basic_properties p) encoded = Some (Inl res)"
proof -
  define f where "f = (\<lambda>s. then_do (encode_flags (basic_properties_flags p) s) (encode_basic_properties p))"
  obtain w where w: "writes f w"
    and d: "\<And>e p0. holds_at e 0 w \<Longrightarrow>
      amqp_decode_properties AMQP_BASIC_CLASS p0 e = Some (Inr (Basic_properties (flagged p p0)))"
    using encode_properties_writes [OF assms] unfolding f_def by blast
  have "if length w \<le> length e
     then int (length w) \<le> INT_MAX \<longrightarrow> (\<exists>b. then_do (f (e, 0)) return_offset = Inr (b, length w) \<and>
        length b = length e \<and> drop (length w) b = drop (length w) e \<and> holds_at (take (length w) b) 0 w)
     else \<exists>res<0. then_do (f (e, 0)) return_offset = Inl res" for e
    using writes_result [OF w, of e] by (auto split: if_splits)
  then show ?thesis
    using d unfolding amqp_encode_properties_basic f_def by (intro exI [of _ "length w"]) (metis (no_types, lifting))
qed

end
