(* ===== verification/Rabbit_Codec_Properties.thy ===== *)
theory Rabbit_Codec_Properties
  imports Rabbit_Content_Facts
begin

text \<open>
  Results on the codec of the AMQP client library: methods, content properties and field tables are
  read back as they were written.
\<close>

section \<open>Methods\<close>

text \<open>
  C7: A method is encoded into a number \<open>n\<close> of bytes that does not depend on the buffer. If the buffer
  is smaller, the encoder reports an error; otherwise, as long as \<open>n\<close> is an \<^verbatim>\<open>int\<close>, it returns \<open>n\<close>, leaves
  the bytes behind them as they were, and decoding the \<open>n\<close> bytes under the method's number gives the
  method back. This holds for methods whose short strings are below 256 bytes and long strings below
  2 to the power 32, whose booleans are 0 or 1 (any other number is decoded as 1), and whose tables
  consist of values of the 18 kinds with such strings and booleans, with at most 2 to the power 30
  entries in each table or array and sizes below 2 to the power 32.
\<close>

theorem methods_roundtrip:
  assumes "valid_method m"
  shows "\<exists>n. \<forall>encoded. if n \<le> length encoded
     then int n \<le> INT_MAX \<longrightarrow> (\<exists>b. amqp_encode_method (method_number m) m encoded = Some (Inr (b, n)) \<and>
        length b = length encoded \<and> drop n b = drop n encoded \<and>
        amqp_decode_method (method_number m) (take n b) = Inr m)
     else \<exists>res<0. amqp_encode_method (method_number m) m encoded = Some (Inl res)"
  using sends_result [OF method_sends [OF assms]] by (simp only: amqp_encode_method_own option.inject)

definition sample_publish :: amqp_method where
  "sample_publish = Basic_publish \<lparr>basic_publish_ticket = 0, basic_publish_exchange = ''canopsis.events'',
     basic_publish_routing_key = ''nagios.check'', basic_publish_mandatory = 0, basic_publish_immediate = 0\<rparr>"

theorem methods_roundtrip_witness:
  "\<exists>n. \<forall>encoded. if n \<le> length encoded
     then int n \<le> INT_MAX \<longrightarrow>
       (\<exists>b. amqp_encode_method (method_number sample_publish) sample_publish encoded = Some (Inr (b, n)) \<and>
        length b = length encoded \<and> drop n b = drop n encoded \<and>
        amqp_decode_method (method_number sample_publish) (take n b) = Inr sample_publish)
     else \<exists>res<0. amqp_encode_method (method_number sample_publish) sample_publish encoded = Some (Inl res)"
  by (rule methods_roundtrip)
    (simp add: sample_publish_def valid_basic_publish_def is_short_def is_bool_def)

section \<open>Content properties\<close>

text \<open>
  C10: Properties of class basic are encoded into a number \<open>n\<close> of bytes that does not depend on the
  buffer. If the buffer is smaller, the encoder reports an error; otherwise, as long as \<open>n\<close> is an
  \<^verbatim>\<open>int\<close>, it returns \<open>n\<close>, leaves the bytes behind them as they were, and the receiver gets the same flags
  and the members that have one; its other members keep what the memory held. This holds for
  properties whose flags fit into one word, whose flagged strings are below 256 bytes, and whose
  headers, if flagged, are a table as for the methods above.
\<close>

theorem content_roundtrip:
  assumes "valid_basic_properties p"
  shows "\<exists>n. \<forall>encoded. if n \<le> length encoded
     then int n \<le> INT_MAX \<longrightarrow>
       (\<exists>b. amqp_encode_properties AMQP_BASIC_CLASS (Basic_properties p) encoded = Some (Inr (b, n)) \<and>
        length b = length encoded \<and> drop n b = drop n encoded \<and>
        (\<forall>p0. amqp_decode_properties AMQP_BASIC_CLASS p0 (take n b) =
          Some (Inr (Basic_properties (flagged p p0)))))
     else \<exists>res<0. amqp_encode_properties AMQP_BASIC_CLASS (Basic_properties p) encoded = Some (Inl res)"
  by (rule properties_send [OF assms])

definition sample_properties :: amqp_basic_properties where
  "sample_properties = \<lparr>basic_properties_flags = AMQP_BASIC_CONTENT_TYPE_FLAG OR AMQP_BASIC_DELIVERY_MODE_FLAG,
     basic_properties_content_type = ''application/json'', basic_properties_content_encoding = [],
     basic_properties_headers = [], basic_properties_delivery_mode = 2, basic_properties_priority = 0,
     basic_properties_correlation_id = [], basic_properties_reply_to = [], basic_properties_expiration = [],
     basic_properties_message_id = [], basic_properties_timestamp = 0, basic_properties_type = [],
     basic_properties_user_id = [], basic_properties_app_id = [], basic_properties_cluster_id = []\<rparr>"

lemma sample_properties_valid: "valid_basic_properties sample_properties"
  by (simp add: valid_basic_properties_def sample_properties_def one_word_def basic_flags is_short_def
    sendable_table_def countable_list_def is_long_def Let_def)

theorem content_roundtrip_witness:
  "\<exists>n. \<forall>encoded. if n \<le> length encoded
     then int n \<le> INT_MAX \<longrightarrow>
       (\<exists>b. amqp_encode_properties AMQP_BASIC_CLASS (Basic_properties sample_properties) encoded = Some (Inr (b, n)) \<and>
        length b = length encoded \<and> drop n b = drop n encoded \<and>
        (\<forall>p0. amqp_decode_properties AMQP_BASIC_CLASS p0 (take n b) =
          Some (Inr (Basic_properties (flagged sample_properties p0)))))
     else \<exists>res<0. amqp_encode_properties AMQP_BASIC_CLASS (Basic_properties sample_properties) encoded = Some (Inl res)"
  by (rule content_roundtrip [OF sample_properties_valid])

section \<open>Field tables\<close>

text \<open>
  C8: The encoder of tables, which fills in the sizes after the entries, refines the format: it writes
  exactly the bytes of \<open>wire_table\<close> with their number in front, at the offset and nowhere else, when they
  fit, and reports an error otherwise.
\<close>

theorem table_encoder_refines_format:
  assumes "known_table t" and "start \<le> length encoded"
  shows "let w = wire_sized (wire_table t) in
    if start + length w \<le> length encoded
    then amqp_encode_table t (encoded, start) = Inr (put_at encoded start w, start + length w)
    else \<exists>res<0. amqp_encode_table t (encoded, start) = Inl res"
proof -
  have "wire_sized (wire_table t) \<noteq> []" by (simp add: wire_sized_def)
  with writes_table [OF assms(1)] show ?thesis by (auto simp: writes_def Let_def)
qed

definition sample_table :: amqp_table where
  "sample_table = [Table_entry ''product'' (Field_utf8 ''rabbitmq-c''),
     Table_entry ''capabilities'' (Field_table [Table_entry ''cancel'' (Field_boolean 1)])]"

theorem table_encoder_refines_format_witness:
  "let w = wire_sized (wire_table sample_table) in
    if 0 + length w \<le> length (replicate 80 NUL)
    then amqp_encode_table sample_table (replicate 80 NUL, 0) = Inr (put_at (replicate 80 NUL) 0 w, 0 + length w)
    else \<exists>res<0. amqp_encode_table sample_table (replicate 80 NUL, 0) = Inl res"
  by (rule table_encoder_refines_format) (simp_all add: sample_table_def)

text \<open>
  C9: Whatever bytes the peer sends as a table, below 4 GB, the decoder ends, reads nothing behind the
  end of the buffer and either returns a table, which is encoded again into as many bytes that decode to
  the same table; or fails with the status for bad data; or, in a buffer of at least 1 GB only,
  its counter of entries overflows, which is undefined.
\<close>

theorem decoded_table_reencodes:
  assumes "length e < 2 ^ 32"
  shows "(\<exists>t o2. amqp_decode_table e o1 = Inr (t, o2) \<and> o1 < o2 \<and> o2 \<le> length e \<and>
      (\<forall>encoded. length encoded = o2 - o1 \<longrightarrow>
        (\<exists>b. amqp_encode_table t (encoded, 0) = Inr (b, o2 - o1) \<and> amqp_decode_table b 0 = Inr (t, o2 - o1)))) \<or>
    amqp_decode_table e o1 = Inl AMQP_STATUS_BAD_AMQP_DATA \<or>
    2 ^ 30 \<le> length e \<and> amqp_decode_table e o1 = Inl int_overflow"
proof (cases "amqp_decode_table e o1")
  case (Inl res)
  then show ?thesis using decode_gives(4) [OF assms, of o1] by (auto simp: gives_def)
next
  case (Inr r)
  obtain t o2 where r: "r = (t, o2)" by (cases r)
  let ?w = "wire_sized (wire_table t)"
  have t: "sendable_table t" "o2 = o1 + length ?w" "o2 \<le> length e"
    using decoded_table_sendable [OF assms] Inr r by blast+
  have "amqp_encode_table t (encoded, 0) = Inr (?w, length ?w) \<and> amqp_decode_table ?w 0 = Inr (t, length ?w)"
    if "length encoded = length ?w" for encoded
    using writes_fit [OF writes_table, of t 0 encoded] readsD [OF reads_table, of t ?w 0] t(1) that valid_known(2) [of t]
    by (simp add: sendable_table_def put_at_def)
  moreover have "o1 < o2" using t(2) by (simp add: wire_sized_def)
  ultimately show ?thesis using Inr r t(2,3) by auto
qed

theorem decoded_table_reencodes_witness:
  "(\<exists>t o2. amqp_decode_table (wire_sized (wire_table sample_table)) 0 = Inr (t, o2) \<and> 0 < o2 \<and>
      o2 \<le> length (wire_sized (wire_table sample_table)) \<and>
      (\<forall>encoded. length encoded = o2 - 0 \<longrightarrow>
        (\<exists>b. amqp_encode_table t (encoded, 0) = Inr (b, o2 - 0) \<and> amqp_decode_table b 0 = Inr (t, o2 - 0)))) \<or>
    amqp_decode_table (wire_sized (wire_table sample_table)) 0 = Inl AMQP_STATUS_BAD_AMQP_DATA \<or>
    2 ^ 30 \<le> length (wire_sized (wire_table sample_table)) \<and>
    amqp_decode_table (wire_sized (wire_table sample_table)) 0 = Inl int_overflow"
  by (rule decoded_table_reencodes) (simp add: sample_table_def wire_sized_def wire_short_def wire_value.simps)

text \<open>
  Two ends of the format. An entry that starts within a table may end behind it; and the encoder takes a
  key of 256 bytes, which it announces as empty.
\<close>

lemma entry_behind_its_table:
  "amqp_decode_table (wire (1 :: 32 word) @ wire_short ''k'' @ wire_value Field_void) 0 =
    Inr ([Table_entry ''k'' Field_void], 7)"
proof -
  let ?e = "wire (1 :: 32 word) @ wire_short ''k'' @ wire_value Field_void"
  have "get_32 ?e 0 = Inr (1, 4)" using readsD [OF reads_get_32, of ?e 0 1] by (simp add: holds_at_def)
  moreover have "get_short ?e 4 = Inr (''k'', 6)"
    using readsD [OF reads_get_short, of "''k''" ?e 4] by (simp add: holds_at_def wire_short_def is_short_def)
  moreover have "amqp_decode_field_value ?e 6 = Inr (Field_void, 7)"
    using readsD [OF decode_reads(1), of Field_void ?e 6] by (simp add: holds_at_def wire_value.simps wire_short_def)
  moreover obtain a' where "table_entries ?e 5 0 INITIAL_TABLE_SIZE 4 = then_do (get_short ?e 4)
      (\<lambda>(key, p). then_do (amqp_decode_field_value ?e p)
        (\<lambda>(v, p). field ((#) (Table_entry key v)) (table_entries ?e 5 1 a' p)))"
    by (rule table_entries_next [of 0 INITIAL_TABLE_SIZE 4 5 ?e]) simp_all
  moreover have "table_entries ?e 5 1 a' 7 = Inr ([], 7)" by (subst table_entries.simps) simp
  moreover have "amqp_decode_table ?e 0 = table_entries ?e 5 0 INITIAL_TABLE_SIZE 4"
    using calculation(1) by (simp add: amqp_decode_table.simps)
  ultimately show ?thesis by simp
qed

lemma long_key_announced_empty:
  "length key = 256 \<Longrightarrow> wire_short key = NUL # key"
proof -
  have "byte 0 = NUL" by code_simp
  then show "length key = 256 \<Longrightarrow> wire_short key = NUL # key" by (simp add: wire_short_def wire_def)
qed

end
