(* ===== verification/Spec2Isabelle.thy ===== *)
theory Spec2Isabelle
  imports Fifo_Properties Module_Run_Properties Events_Received Rabbit_Codec_Properties
begin

text \<open>
  A verification development for \<^verbatim>\<open>neb2amqp\<close>, the Nagios event broker module of this repository
  that publishes the checks, acknowledgements and downtimes of Nagios to an AMQP bus, for the
  bundled JSON library \<^verbatim>\<open>jansson-2.3.1\<close> that it writes its messages with, and for the codec of the
  bundled AMQP client library \<^verbatim>\<open>librabbitmq\<close>.

  \<^bold>\<open>The program.\<close> Nagios loads the module and calls \<^verbatim>\<open>nebmodule_init\<close> (\<^verbatim>\<open>src/module.c\<close>), which reads
  the argument line, loads the cache file into the event queue (\<^verbatim>\<open>src/fifo.c\<close>), connects
  (\<^verbatim>\<open>src/neb2amqp.c\<close>) and registers a callback for each kind of event (\<^verbatim>\<open>src/broker.c\<close>). Nagios then
  calls the handlers of \<^verbatim>\<open>src/events.c\<close>, which build a message with \<^verbatim>\<open>src/json.c\<close> and hand it with a
  routing key to \<^verbatim>\<open>n2a_send_event\<close>. That function publishes it, or queues it while the network is
  down or a blackout is on, reconnects at a limited rate, and saves the queue. \<^verbatim>\<open>nebmodule_deinit\<close>
  disconnects, saves and frees the queue and removes the callbacks.

  \<^bold>\<open>Conventions\<close> (\<^verbatim>\<open>Prelude\<close>). A computation of C is an \<open>option\<close>: \<open>None\<close> is undefined behaviour or a
  failed assertion, so every theorem that gives a result also says that there is none of them.
  Results that the code reports are the integers or NULL that it returns. An \<^verbatim>\<open>int\<close> is an integer
  whose operations are \<open>None\<close> on overflow, an unsigned type a word, a \<^verbatim>\<open>double\<close> its 64 bits, a C
  string a list of bytes without NUL. The functions of the AMQP codec that return a status below 0 are
  a sum, \<open>Inl\<close> of the status or \<open>Inr\<close> of the result; there an overflow is the status \<open>int_overflow\<close>, which
  no \<^verbatim>\<open>int\<close> is. A \<^verbatim>\<open>size_t\<close> has 64 bits; an offset below 2 to the power 64 is a natural number, and its
  conversion to the \<^verbatim>\<open>int\<close> that a function returns is written out (\<open>to_int\<close>).

  \<^bold>\<open>The theories and the code\<close>, in the order of the imports.
  \<^item> \<^verbatim>\<open>src/fifo.c\<close>: \<^verbatim>\<open>Fifo\<close> (the linked queue on a heap of allocated cells), \<^verbatim>\<open>Fifo_File\<close> (cache file,
    loading, saving, start and end). \<^verbatim>\<open>Fifo_Queue\<close> is the contract of the queue, a locale;
    \<^verbatim>\<open>Fifo_Refine\<close> shows that the links represent a list and interprets it; \<^verbatim>\<open>Fifo_Sync\<close> treats the file,
    \<^verbatim>\<open>Fifo_Properties\<close> has the results: refinement of a bounded list, the round trip through the
    file, freeing, and where the code is undefined.
  \<^item> \<^verbatim>\<open>src/neb2amqp.c\<close>: \<^verbatim>\<open>Amqp\<close> (the file's variables are the record \<open>n2a\<close>; the AMQP library, the
    network and the clock are the parameter \<open>env\<close>, and the calls to the library are recorded with
    the results that the program looks at).
    \<^verbatim>\<open>Amqp_Link\<close> has the invariant of the connection, \<^verbatim>\<open>Amqp_Delivery\<close> what one event does to the queue,
    \<^verbatim>\<open>Amqp_Run\<close> runs of any number of events and blackout switches as an inductive relation,
    \<^verbatim>\<open>Amqp_Protocol\<close> the order of the library calls and the results they depend on (a locale of
    invariants),
    \<^verbatim>\<open>Amqp_Properties\<close> the results: order, no loss, limited reconnection, recovery.
  \<^item> \<^verbatim>\<open>src/module.c\<close>, \<^verbatim>\<open>src/module.h\<close>, \<^verbatim>\<open>src/broker.c\<close>, \<^verbatim>\<open>src/xutils.c\<close>: \<^verbatim>\<open>Options\<close>, \<^verbatim>\<open>Xutils\<close>,
    \<^verbatim>\<open>Arguments\<close>, \<^verbatim>\<open>Module\<close>, with \<^verbatim>\<open>Module_Properties\<close>. \<^verbatim>\<open>Module_Run\<close> puts the module under Nagios: an
    event reaches the registered handlers; \<^verbatim>\<open>Module_Run_Properties\<close> follows events from Nagios to
    the bus and the cache file.
  \<^item> \<^verbatim>\<open>src/json.c\<close>, \<^verbatim>\<open>src/events.c\<close>: \<^verbatim>\<open>Json\<close>, \<^verbatim>\<open>Events\<close> with \<^verbatim>\<open>Json_Facts\<close>, \<^verbatim>\<open>Events_Facts\<close> and
    \<^verbatim>\<open>Events_Properties\<close>: which messages an event leads to, and the splitting of long fields.
    \<^verbatim>\<open>Events_Received\<close> adds the decoder: what a receiver reads.
  \<^item> \<^verbatim>\<open>hashtable.c\<close> of jansson: \<^verbatim>\<open>Jansson_Hashtable\<close> (buckets and the list of pairs), refined to a
    finite map in \<^verbatim>\<open>Jansson_Hashtable_Map\<close> through the locale \<open>string_map\<close>.
  \<^item> \<^verbatim>\<open>value.c\<close>: \<^verbatim>\<open>Jansson_Value\<close>; \<^verbatim>\<open>Jansson_Value_Map\<close> has the invariant \<open>json_ok\<close>, objects as an
    interpretation of \<open>string_map\<close>, copies and equality.
  \<^item> \<^verbatim>\<open>utf.c\<close>, \<^verbatim>\<open>strbuffer.c\<close>: \<^verbatim>\<open>Jansson_Utf\<close>, \<^verbatim>\<open>Jansson_Strbuffer\<close>.
  \<^item> \<^verbatim>\<open>dump.c\<close> and \<^verbatim>\<open>jsonp_dtostr\<close>: \<^verbatim>\<open>Jansson_Dump\<close>. \<^verbatim>\<open>Jansson_Text\<close> relates the callback that fills
    a string buffer to the text that is written (locale \<open>text_sink\<close>), \<^verbatim>\<open>Jansson_Dump_Total\<close> shows that
    the encoder ends (locale \<open>total_callback\<close>), \<^verbatim>\<open>Jansson_Properties\<close> has the results.
  \<^item> \<^verbatim>\<open>load.c\<close> and \<^verbatim>\<open>jsonp_strtod\<close>: \<^verbatim>\<open>Jansson_Load\<close>. \<^verbatim>\<open>Jansson_Load_Stream\<close> is the contract of a source of
    bytes (locale \<open>byte_source\<close>, interpreted by the string, the buffer and the file),
    \<^verbatim>\<open>Jansson_Load_Scan\<close> a reference tokenizer on the bytes ahead and the proof that the lexer agrees
    with it, \<^verbatim>\<open>Jansson_Load_Text\<close> when it is defined and that it yields UTF-8, \<^verbatim>\<open>Jansson_Load_Parse\<close> that the
    parser ends with a well-formed value, \<^verbatim>\<open>Jansson_Load_Print\<close> and \<^verbatim>\<open>Jansson_Load_Roundtrip\<close> that
    it reads what the encoder writes, \<^verbatim>\<open>Jansson_Load_Properties\<close> the results.
  \<^item> the codec of the AMQP library \<^verbatim>\<open>librabbitmq\<close>: \<^verbatim>\<open>Rabbit_Codec\<close> (\<^verbatim>\<open>amqp_private.h\<close>: integers in network
    order in a buffer; \<open>writes\<close>, \<open>reads\<close> and \<open>codec\<close> specify an encoder and a decoder), \<^verbatim>\<open>Rabbit_Table\<close>
    (\<^verbatim>\<open>amqp_table.c\<close>), \<^verbatim>\<open>Rabbit_Methods\<close> (\<^verbatim>\<open>amqp_framing.h\<close>: the structs of the protocol), \<^verbatim>\<open>Rabbit_Framing\<close>
    (\<^verbatim>\<open>amqp_framing.c\<close>). \<^verbatim>\<open>Rabbit_Table_Facts\<close> gives the format of tables as a function, which the encoder
    refines and the decoder inverts, with the \<^verbatim>\<open>int\<close> counters of its loops; \<^verbatim>\<open>Rabbit_Framing_Facts\<close> and \<^verbatim>\<open>Rabbit_Content_Facts\<close> treat methods and
    content properties, \<^verbatim>\<open>Rabbit_Codec_Properties\<close> has the results.

  \<^bold>\<open>Bounds.\<close> A hash table has at most 1610612741 buckets (the last of \<^verbatim>\<open>primes\<close>), so an object takes
  at most that many members before growing reads past the list of primes; theorems on objects
  assume it, and a text of that many bytes cannot hold more members. Texts are below
  \<^verbatim>\<open>INT_MAX\<close> bytes where the code keeps their length or position in an \<^verbatim>\<open>int\<close>, and below \<open>2 ^ 61\<close>
  where the string buffer doubles a \<^verbatim>\<open>size_t\<close>. The parser runs on \<open>parse_fuel n = 2 * n + 2\<close> for \<open>n\<close>
  bytes: between two calls or loop iterations that are under way at the same time the lexer has
  read at least one byte, and \<open>json_loads_total\<close> shows that it is enough. The loops of the lexer have no
  bound (\<open>partial_function\<close>); that they end is part of \<open>lexer_is_tokenizer\<close>. The decoder of AMQP tables
  counts at most 2 to the power 30 entries, more than a buffer below 1 GB can hold.

  \<^bold>\<open>Parameters.\<close> \<open>env\<close>: clock and results of the AMQP library. \<open>fmt\<close> and \<open>rd\<close>: what \<^verbatim>\<open>snprintf\<close> with
  \<^verbatim>\<open>%.17g\<close>, \<^verbatim>\<open>strtod\<close> and the locale do with a \<^verbatim>\<open>double\<close>. \<open>stk\<close>: what the uninitialised buffers on the
  stack hold when the cache file is read. Hypotheses on them state documented behaviour and are met
  by a concrete instance in the witness of each theorem.

  \<^bold>\<open>Not modelled.\<close> Failing allocation; the reference counts of jansson and values shared by several
  holders (no such value exists in this program); the error record of the decoder with its line
  and column, which only describe a failure; output of the encoder to a \<^verbatim>\<open>FILE\<close>; \<^verbatim>\<open>pack_unpack.c\<close>, which
  nothing calls; the logger, which only formats lines for the log of Nagios; the sockets, memory
  pools and frames of the AMQP library \<^verbatim>\<open>librabbitmq\<close>, of which the connector relies on the results
  of its calls only; the depth of the C stack under deeply nested JSON texts; the headers of
  Nagios beyond the fields that the module reads.
\<close>

end
